(* ===== verification/Cdc_Prelude.thy ===== *)
theory Cdc_Prelude
  imports Main "HOL-Library.Char_ord" "HOL-Library.List_Lexorder" "HOL-Library.Sublist"
begin

text \<open>
  Shared vocabulary of the development: the fragment of the Rust standard library the modelled
  code calls (string splitting, ASCII case folding, white-space trimming, unsigned integer
  parsing, saturating and wrapping \<open>u64\<close> arithmetic), the theorem collections, and the list
  lemmas that several components need.

  A Rust string is a \<open>string\<close>, that is its sequence of UTF-8 bytes. Unsigned integers are
  \<open>nat\<close> with the width written out wherever the code can saturate, wrap or reject.
  \<open>usize\<close> is 64 bits wide.
\<close>

named_theorems string_simps \<open>evaluation rules for the string operations\<close>
named_theorems u64_simps \<open>definitions of the fixed-width arithmetic\<close>

section \<open>Fixed-width unsigned arithmetic\<close>

definition u64_max :: nat where
  "u64_max = 18446744073709551615"

definition u32_max :: nat where
  "u32_max = 4294967295"

definition sat_add64 :: "nat \<Rightarrow> nat \<Rightarrow> nat" where
  [u64_simps]: "sat_add64 a b = min u64_max (a + b)"

definition sat_mul64 :: "nat \<Rightarrow> nat \<Rightarrow> nat" where
  [u64_simps]: "sat_mul64 a b = min u64_max (a * b)"

definition sat_sub :: "nat \<Rightarrow> nat \<Rightarrow> nat" where
  [u64_simps]: "sat_sub a b = (if a < b then 0 else a - b)"

definition wrap_add64 :: "nat \<Rightarrow> nat \<Rightarrow> nat" where
  [u64_simps]: "wrap_add64 a b = (a + b) mod (u64_max + 1)"

definition wrap_sub64 :: "nat \<Rightarrow> nat \<Rightarrow> nat" where
  [u64_simps]: "wrap_sub64 a b = (a + (u64_max + 1) - b) mod (u64_max + 1)"

lemma wrap_sub64_one:
  assumes "0 < r" "r \<le> u64_max"
  shows "wrap_sub64 r 1 = r - 1"
proof -
  have "r + (u64_max + 1) - 1 = (r - 1) + (u64_max + 1)" using assms by simp
  then have "wrap_sub64 r 1 = ((r - 1) + (u64_max + 1)) mod (u64_max + 1)"
    by (simp add: wrap_sub64_def)
  also have "\<dots> = (r - 1) mod (u64_max + 1)" by (rule mod_add_self2)
  also have "\<dots> = r - 1" using assms by (intro mod_less) auto
  finally show ?thesis .
qed

lemma wrap_sub64_zero: "wrap_sub64 0 1 = u64_max"
  by (simp add: wrap_sub64_def)

lemma wrap_add64_small: "a + b \<le> u64_max \<Longrightarrow> wrap_add64 a b = a + b"
  by (simp add: wrap_add64_def)

lemma sat_add64_small: "a + b \<le> u64_max \<Longrightarrow> sat_add64 a b = a + b"
  by (simp add: sat_add64_def)

lemma sat_add64_le: "sat_add64 a b \<le> u64_max"
  by (simp add: sat_add64_def)

lemma sat_sub_eq [simp]: "sat_sub a b = a - b"
  by (simp add: sat_sub_def)

section \<open>ASCII case folding\<close>

definition ascii_lower :: "char \<Rightarrow> char" where
  "ascii_lower c =
     (let n = (of_char c :: nat) in if 65 \<le> n \<and> n \<le> 90 then char_of (n + 32) else c)"

definition to_ascii_lowercase :: "string \<Rightarrow> string" where
  "to_ascii_lowercase s = map ascii_lower s"

definition eq_ignore_ascii_case :: "string \<Rightarrow> string \<Rightarrow> bool" where
  "eq_ignore_ascii_case a b \<longleftrightarrow> to_ascii_lowercase a = to_ascii_lowercase b"

lemma of_char_ascii_lower:
  "(of_char (ascii_lower c) :: nat) =
     (if 65 \<le> (of_char c :: nat) \<and> (of_char c :: nat) \<le> 90 then of_char c + 32 else of_char c)"
  by (simp add: ascii_lower_def Let_def)

lemma ascii_lower_idem [simp]: "ascii_lower (ascii_lower c) = ascii_lower c"
proof -
  have "(of_char (ascii_lower (ascii_lower c)) :: nat) = of_char (ascii_lower c)"
    by (simp add: of_char_ascii_lower)
  then show ?thesis by (simp only: of_char_eq_iff)
qed

lemma to_ascii_lowercase_idem [simp]:
  "to_ascii_lowercase (to_ascii_lowercase s) = to_ascii_lowercase s"
  by (simp add: to_ascii_lowercase_def comp_def)

lemma length_to_ascii_lowercase [simp]: "length (to_ascii_lowercase s) = length s"
  by (simp add: to_ascii_lowercase_def)

lemma eq_ignore_ascii_case_refl [simp]: "eq_ignore_ascii_case s s"
  by (simp add: eq_ignore_ascii_case_def)

section \<open>White space\<close>

text \<open>
  \<open>char::is_whitespace\<close> is Unicode \<open>White_Space\<close>. On UTF-8 bytes such a character is one of the
  ASCII controls 9 to 13 and the space, the two-byte forms of U+0085 and U+00A0, or the three-byte
  forms of U+1680, U+2000 to U+200A, U+2028, U+2029, U+202F, U+205F and U+3000. \<open>ws_len\<close> is the
  number of bytes of the white-space character a byte sequence starts with, 0 if there is none.
\<close>

definition ws_len :: "string \<Rightarrow> nat" where
  "ws_len s =
     (case map (\<lambda>c. of_char c :: nat) (take 3 s) of
        [] \<Rightarrow> 0
      | a # bs \<Rightarrow>
          if (9 \<le> a \<and> a \<le> 13) \<or> a = 32 then 1
          else (case bs of
                  [] \<Rightarrow> 0
                | b # cs \<Rightarrow>
                    if a = 194 \<and> (b = 133 \<or> b = 160) then 2
                    else (case cs of
                            [] \<Rightarrow> 0
                          | c # _ \<Rightarrow>
                              if (a = 225 \<and> b = 154 \<and> c = 128)
                                 \<or> (a = 226 \<and> b = 128 \<and>
                                      ((128 \<le> c \<and> c \<le> 138) \<or> c = 168 \<or> c = 169 \<or> c = 175))
                                 \<or> (a = 226 \<and> b = 129 \<and> c = 159)
                                 \<or> (a = 227 \<and> b = 128 \<and> c = 128)
                              then 3 else 0)))"

fun trim_start :: "string \<Rightarrow> string" where
  "trim_start s = (if ws_len s = 0 \<or> s = [] then s else trim_start (drop (ws_len s) s))"

declare trim_start.simps [simp del]

fun remove_ws :: "string \<Rightarrow> string" where
  "remove_ws [] = []"
| "remove_ws (c # s) =
     (if ws_len (c # s) = 0 then c # remove_ws s
      else remove_ws (drop (ws_len (c # s)) (c # s)))"

text \<open>
  \<open>ws_len_end\<close> is the length of the white-space character a byte sequence ends with, and
  \<open>trim_end\<close> drops such characters from the end.
\<close>

definition ws_len_end :: "string \<Rightarrow> nat" where
  "ws_len_end s =
     (let at = (\<lambda>k. k \<le> length s \<and> 0 < k \<and> ws_len (drop (length s - k) s) = k)
      in if at 1 then 1 else if at 2 then 2 else if at 3 then 3 else 0)"

fun trim_end :: "string \<Rightarrow> string" where
  "trim_end s =
     (if ws_len_end s = 0 \<or> s = [] then s else trim_end (take (length s - ws_len_end s) s))"

declare trim_end.simps [simp del]

definition trim :: "string \<Rightarrow> string" where
  "trim s = trim_end (trim_start s)"

definition blank :: "string \<Rightarrow> bool" where
  "blank s \<longleftrightarrow> trim s = []"

text \<open>Trimming leaves a text alone that starts and ends with a visible ASCII character.\<close>

definition graphic :: "char \<Rightarrow> bool" where
  "graphic c \<longleftrightarrow> 33 \<le> (of_char c :: nat) \<and> (of_char c :: nat) \<le> 126"

lemma ws_len_graphic: "graphic c \<Longrightarrow> ws_len (c # s) = 0"
  by (auto simp: ws_len_def graphic_def split: list.split)

lemma ws_len_end_graphic:
  assumes "s = r @ [b]" "graphic b"
  shows "ws_len_end s = 0"
proof -
  have "ws_len (drop (length s - k) s) \<noteq> k" if "0 < k" "k \<le> length s" for k
  proof
    assume eq: "ws_len (drop (length s - k) s) = k"
    define t where "t = drop (length s - k) r"
    have t: "drop (length s - k) s = t @ [b]"
      using that assms by (simp add: t_def)
    have len: "length t + 1 = k" using that assms by (auto simp: t_def)
    show False
      using eq t len assms(2)
      by (cases t; cases "tl t"; cases "tl (tl t)")
        (auto simp: ws_len_def graphic_def split: if_splits list.splits)
  qed
  then show ?thesis by (auto simp: ws_len_end_def Let_def)
qed

lemma trim_graphic:
  assumes "s \<noteq> []" "graphic (hd s)" "graphic (last s)"
  shows "trim s = s"
proof -
  have "trim_start s = s" using assms by (subst trim_start.simps) (cases s; simp add: ws_len_graphic)
  moreover have "ws_len_end s = 0"
    using ws_len_end_graphic [of s "butlast s", OF _ assms(3)] assms(1) by simp
  then have "trim_end s = s" by (subst trim_end.simps) simp
  ultimately show ?thesis by (simp add: trim_def)
qed

section \<open>Splitting\<close>

definition contains_str :: "string \<Rightarrow> string \<Rightarrow> bool" where
  "contains_str s pat = sublist pat s"

text \<open>\<open>str::split_once\<close>, \<open>str::rsplit_once\<close>, \<open>str::split\<close> and \<open>str::splitn(3, _)\<close> on one ASCII separator.\<close>

fun split_once :: "char \<Rightarrow> string \<Rightarrow> (string \<times> string) option" where
  "split_once sep [] = None"
| "split_once sep (c # s) =
     (if c = sep then Some ([], s)
      else map_option (\<lambda>(a, b). (c # a, b)) (split_once sep s))"

definition rsplit_once :: "char \<Rightarrow> string \<Rightarrow> (string \<times> string) option" where
  "rsplit_once sep s = map_option (\<lambda>(a, b). (rev b, rev a)) (split_once sep (rev s))"

fun split_on :: "char \<Rightarrow> string \<Rightarrow> string list" where
  "split_on sep [] = [[]]"
| "split_on sep (c # s) =
     (if c = sep then [] # split_on sep s
      else (case split_on sep s of [] \<Rightarrow> [[c]] | p # ps \<Rightarrow> (c # p) # ps))"

definition splitn3 :: "char \<Rightarrow> string \<Rightarrow> string list" where
  "splitn3 sep s =
     (case split_once sep s of
        None \<Rightarrow> [s]
      | Some (a, r) \<Rightarrow> (case split_once sep r of None \<Rightarrow> [a, r] | Some (b, c) \<Rightarrow> [a, b, c]))"

definition strip_suffix :: "string \<Rightarrow> string \<Rightarrow> string option" where
  "strip_suffix suf s =
     (if suffix suf s then Some (take (length s - length suf) s) else None)"

lemma split_once_None_iff: "split_once sep s = None \<longleftrightarrow> sep \<notin> set s"
  by (induction s) auto

lemma split_once_append:
  "sep \<notin> set a \<Longrightarrow> split_once sep (a @ sep # b) = Some (a, b)"
  by (induction a) auto

lemma split_once_SomeD:
  "split_once sep s = Some (a, b) \<Longrightarrow> s = a @ sep # b \<and> sep \<notin> set a"
  by (induction s arbitrary: a) (auto split: if_splits)

lemma rsplit_once_append:
  assumes "sep \<notin> set b"
  shows "rsplit_once sep (a @ sep # b) = Some (a, b)"
  using split_once_append [of sep "rev b" "rev a"] assms by (simp add: rsplit_once_def)

lemma rsplit_once_SomeD:
  assumes "rsplit_once sep s = Some (a, b)"
  shows "s = a @ sep # b \<and> sep \<notin> set b"
proof -
  from assms obtain u v where uv: "split_once sep (rev s) = Some (u, v)" "a = rev v" "b = rev u"
    by (auto simp: rsplit_once_def)
  then have "rev s = u @ sep # v" "sep \<notin> set u"
    by (auto dest: split_once_SomeD)
  then have "s = rev (u @ sep # v)" by (metis rev_rev_ident)
  with uv \<open>sep \<notin> set u\<close> show ?thesis by simp
qed

lemma split_on_nonempty [simp]: "split_on sep s \<noteq> []"
  by (induction s) (auto split: list.splits)

lemma split_on_no_sep: "sep \<notin> set s \<Longrightarrow> split_on sep s = [s]"
  by (induction s) auto

lemma split_on_append:
  "sep \<notin> set a \<Longrightarrow> split_on sep (a @ sep # b) = a # split_on sep b"
  by (induction a) auto

section \<open>Parsing unsigned integers\<close>

text \<open>
  \<open>from_str_radix\<close>: an optional leading plus sign (a lone sign is an error, and so is a minus sign
  on an unsigned type), then one or more digits of the radix in either case, then an overflow check
  against the type's maximum.
\<close>

definition digit_value :: "char \<Rightarrow> nat option" where
  "digit_value c =
     (let n = (of_char c :: nat)
      in if 48 \<le> n \<and> n \<le> 57 then Some (n - 48)
         else if 97 \<le> n \<and> n \<le> 122 then Some (n - 87)
         else if 65 \<le> n \<and> n \<le> 90 then Some (n - 55)
         else None)"

fun digits_value :: "nat \<Rightarrow> nat \<Rightarrow> string \<Rightarrow> nat option" where
  "digits_value radix acc [] = Some acc"
| "digits_value radix acc (c # s) =
     (case digit_value c of
        None \<Rightarrow> None
      | Some d \<Rightarrow> if d < radix then digits_value radix (acc * radix + d) s else None)"

definition from_str_radix :: "nat \<Rightarrow> nat \<Rightarrow> string \<Rightarrow> nat option" where
  "from_str_radix radix bound s =
     (let digits = (case s of c # r \<Rightarrow> if c = CHR ''+'' \<and> r \<noteq> [] then r else s | [] \<Rightarrow> [])
      in if digits = [] then None
         else case digits_value radix 0 digits of
                None \<Rightarrow> None
              | Some v \<Rightarrow> if v \<le> bound then Some v else None)"

definition parse_u64 :: "string \<Rightarrow> nat option" where
  "parse_u64 = from_str_radix 10 u64_max"

definition parse_u32 :: "string \<Rightarrow> nat option" where
  "parse_u32 = from_str_radix 10 u32_max"

lemma parse_u64_bound: "parse_u64 s = Some v \<Longrightarrow> v \<le> u64_max"
  by (auto simp: parse_u64_def from_str_radix_def Let_def split: if_splits option.splits)

section \<open>Printing unsigned integers\<close>

text \<open>\<open>format!("{}")\<close> and \<open>format!("{:X}")\<close> of an unsigned integer, and zero padding to a width.\<close>

definition digit_char :: "nat \<Rightarrow> char" where
  "digit_char d = (if d < 10 then char_of (48 + d) else char_of (55 + d))"

function show_radix :: "nat \<Rightarrow> nat \<Rightarrow> string" where
  "show_radix b n =
     (if b < 2 \<or> n < b then [digit_char n] else show_radix b (n div b) @ [digit_char (n mod b)])"
  by pat_completeness auto
termination by (relation "measure snd") (auto intro: div_less_dividend)

declare show_radix.simps [simp del]

abbreviation show_nat :: "nat \<Rightarrow> string" where
  "show_nat \<equiv> show_radix 10"

definition pad_left :: "nat \<Rightarrow> string \<Rightarrow> string" where
  "pad_left k s = replicate (k - length s) (CHR ''0'') @ s"

lemma digit_value_char: "d < 36 \<Longrightarrow> digit_value (digit_char d) = Some d"
  by (auto simp: digit_value_def digit_char_def Let_def)

lemma digits_value_snoc:
  "digits_value b acc (s @ [c]) =
     (case digits_value b acc s of
        None \<Rightarrow> None
      | Some v \<Rightarrow> (case digit_value c of
                    None \<Rightarrow> None | Some d \<Rightarrow> if d < b then Some (v * b + d) else None))"
  by (induction s arbitrary: acc) (auto split: option.split)

lemma digits_value_show:
  assumes "2 \<le> b" "b \<le> 36"
  shows "digits_value b 0 (show_radix b n) = Some n"
proof (induction n rule: less_induct)
  case (less n)
  show ?case
  proof (cases "n < b")
    case True
    with assms show ?thesis by (simp add: show_radix.simps [of b n] digit_value_char)
  next
    case False
    with assms have "n div b < n" by (intro div_less_dividend) auto
    moreover have "n mod b < b" using assms by (intro mod_less_divisor) simp
    moreover from this have "n mod b < 36" using assms(2) by (rule less_le_trans)
    ultimately show ?thesis using False less assms
      by (simp add: show_radix.simps [of b n] digits_value_snoc digit_value_char)
  qed
qed

lemma digits_value_zeros: "2 \<le> b \<Longrightarrow> digits_value b 0 (replicate k (CHR ''0'') @ s) = digits_value b 0 s"
  by (induction k) (auto simp: digit_value_def Let_def)

lemma digits_value_chars: "digits_value b acc s = Some v \<Longrightarrow> c \<in> set s \<Longrightarrow> digit_value c \<noteq> None"
  by (induction s arbitrary: acc) (auto split: option.splits if_splits)

lemma show_radix_chars: "2 \<le> b \<Longrightarrow> b \<le> 36 \<Longrightarrow> c \<in> set (show_radix b n) \<Longrightarrow> digit_value c \<noteq> None"
  using digits_value_show digits_value_chars by blast

lemma show_radix_nonempty [simp]: "show_radix b n \<noteq> []"
  by (simp add: show_radix.simps [of b n])

lemma from_str_radix_digits:
  assumes "digits_value b 0 s = Some v" "s \<noteq> []" "v \<le> bound"
  shows "from_str_radix b bound s = Some v"
proof -
  have "CHR ''+'' \<notin> set s"
    using digits_value_chars [OF assms(1)] by (fastforce simp: digit_value_def Let_def)
  with assms(2) have "(case s of c # r \<Rightarrow> if c = CHR ''+'' \<and> r \<noteq> [] then r else s | [] \<Rightarrow> []) = s"
    by (auto split: list.split)
  with assms show ?thesis by (simp add: from_str_radix_def Let_def)
qed

lemma from_str_radix_show:
  "2 \<le> b \<Longrightarrow> b \<le> 36 \<Longrightarrow> n \<le> bound \<Longrightarrow> from_str_radix b bound (show_radix b n) = Some n"
  by (simp add: from_str_radix_digits digits_value_show)

lemma from_str_radix_padded:
  "2 \<le> b \<Longrightarrow> b \<le> 36 \<Longrightarrow> n \<le> bound \<Longrightarrow> from_str_radix b bound (pad_left k (show_radix b n)) = Some n"
  by (simp add: from_str_radix_digits digits_value_show digits_value_zeros pad_left_def)

section \<open>Comparisons\<close>

text \<open>\<open>std::cmp::Ordering\<close>, \<open>Ord::cmp\<close> and \<open>Ordering::then_with\<close>.\<close>

datatype ordering = Less | Equal | Greater

definition compare_of :: "'a :: linorder \<Rightarrow> 'a \<Rightarrow> ordering" where
  "compare_of a b = (if a < b then Less else if a = b then Equal else Greater)"

definition then_with :: "ordering \<Rightarrow> ordering \<Rightarrow> ordering" where
  "then_with a b = (if a = Equal then b else a)"

section \<open>Ordered maps\<close>

text \<open>
  A \<open>BTreeMap\<close> as its in-order list of entries; \<open>bt_entry\<close> is the entry API: the value at the key
  is replaced by a function of what was there.
\<close>

fun bt_entry :: "'k :: linorder \<Rightarrow> ('v option \<Rightarrow> 'v) \<Rightarrow> ('k \<times> 'v) list \<Rightarrow> ('k \<times> 'v) list" where
  "bt_entry k f [] = [(k, f None)]"
| "bt_entry k f ((k', v) # m) =
     (if k' < k then (k', v) # bt_entry k f m
      else if k' = k then (k, f (Some v)) # m
      else (k, f None) # (k', v) # m)"

definition bt_wf :: "('k :: linorder \<times> 'v) list \<Rightarrow> bool" where
  "bt_wf m \<longleftrightarrow> sorted_wrt (<) (map fst m)"

lemma bt_wf_Nil [simp]: "bt_wf []"
  by (simp add: bt_wf_def)

lemma bt_wf_Cons: "bt_wf ((k, v) # m) \<longleftrightarrow> (\<forall>x \<in> fst ` set m. k < x) \<and> bt_wf m"
  by (auto simp: bt_wf_def)

lemma bt_entry_keys: "fst ` set (bt_entry k f m) = insert k (fst ` set m)"
  by (induction k f m rule: bt_entry.induct) auto

lemma bt_entry_wf: "bt_wf m \<Longrightarrow> bt_wf (bt_entry k f m)"
  by (induction k f m rule: bt_entry.induct) (auto simp: bt_wf_Cons bt_entry_keys intro: less_trans)

lemma bt_wf_map_of_None: "bt_wf ((k', v) # m) \<Longrightarrow> k < k' \<Longrightarrow> map_of m k = None"
  by (auto simp: bt_wf_Cons map_of_eq_None_iff)

lemma map_of_bt_entry:
  "bt_wf m \<Longrightarrow> map_of (bt_entry k f m) j = (if j = k then Some (f (map_of m k)) else map_of m j)"
proof (induction k f m rule: bt_entry.induct)
  case (2 k f k' v m)
  then have "bt_wf m" by (simp add: bt_wf_Cons)
  with 2 show ?case using bt_wf_map_of_None [OF 2(2), of k] by auto
qed simp

lemma bt_wf_eqI:
  assumes "bt_wf m" "bt_wf m'" "map_of m = map_of m'"
  shows "m = m'"
  using assms
proof (induction m arbitrary: m')
  case Nil
  then show ?case by (cases m') (auto simp: fun_eq_iff split: if_splits)
next
  case (Cons e m)
  obtain k v where e: "e = (k, v)" by force
  have "map_of m' k = Some v" using Cons.prems e by (metis map_of_Cons_code(2))
  then obtain k' v' r where m': "m' = (k', v') # r" by (cases m') auto
  have "k' = k"
  proof (rule ccontr)
    assume ne: "k' \<noteq> k"
    have "map_of (e # m) k' = Some v'" using fun_cong [OF Cons.prems(3), of k'] m' by simp
    then have "map_of m k' \<noteq> None" using e ne by simp
    then have "k' \<in> fst ` set m" by (simp add: map_of_eq_None_iff)
    then have "k < k'" using Cons.prems(1) e by (auto simp: bt_wf_Cons)
    moreover have "map_of r k \<noteq> None" using \<open>map_of m' k = Some v\<close> m' ne by simp
    then have "k \<in> fst ` set r" by (simp add: map_of_eq_None_iff)
    then have "k' < k" using Cons.prems(2) m' by (auto simp: bt_wf_Cons)
    ultimately show False by simp
  qed
  moreover have "v' = v" using \<open>map_of m' k = Some v\<close> m' \<open>k' = k\<close> by simp
  moreover have "map_of m = map_of r"
  proof
    fix x
    have "k \<notin> fst ` set m" "k \<notin> fst ` set r"
      using Cons.prems(1,2) e m' \<open>k' = k\<close> by (auto simp: bt_wf_Cons)
    then have "map_of m k = None" "map_of r k = None" by (simp_all add: map_of_eq_None_iff)
    then show "map_of m x = map_of r x"
      using fun_cong [OF Cons.prems(3), of x] e m' \<open>k' = k\<close> by (cases "x = k") auto
  qed
  then have "m = r" using Cons.IH [of r] Cons.prems e m' by (simp add: bt_wf_Cons)
  ultimately show ?case using e m' by simp
qed

end
