(* ===== verification/Cdc_Error.thy ===== *)
theory Cdc_Error
  imports Cdc_Prelude
begin

text \<open>
  The crate's error type and its retry classification (\<open>core/error.rs\<close>). Constructors are the
  source's variants; a variant's message is a \<open>string\<close>. Messages built with \<open>format!\<close> are cut to
  their fixed part wherever the modelled operations raise them: no code path branches on the text.
  The \<open>Display\<close> rendering of an error is derived by the \<open>thiserror\<close> macro and is an argument of
  the one operation that uses it.
\<close>

datatype source_error_kind =
    NetworkTransient
  | AuthFailed
  | SchemaMismatch
  | SlotNotFound
  | QuotaExceeded
  | UnknownSourceError

fun source_kind_is_recoverable :: "source_error_kind \<Rightarrow> bool" where
  "source_kind_is_recoverable NetworkTransient = True"
| "source_kind_is_recoverable QuotaExceeded = True"
| "source_kind_is_recoverable UnknownSourceError = True"
| "source_kind_is_recoverable _ = False"

datatype error_kind = Transient | Terminal | Configuration | BackpressureKind

fun severity :: "error_kind \<Rightarrow> nat" where
  "severity Transient = 0"
| "severity BackpressureKind = 1"
| "severity Configuration = 2"
| "severity Terminal = 3"

datatype error =
    SourceError string
  | ClassifiedSourceError source_error_kind string
  | Context string error
  | CheckpointError string
  | SchemaError string
  | ValidationError "string list"
  | ConfigError string
  | IoError string
  | SerializationError string
  | TimeoutError string
  | Unrecoverable string
  | Backpressure string
  | Aggregate error_kind string
  | StateError string
  | TransformError string
  | NotImplemented string
  | PostCommitConfirmFailed bool string

type_synonym 'a result = "error + 'a"

text \<open>\<open>Result::ok\<close>.\<close>

fun ok :: "'a result \<Rightarrow> 'a option" where
  "ok (Inl e) = None"
| "ok (Inr v) = Some v"

lemma ok_eq_Some: "ok r = Some v \<longleftrightarrow> r = Inr v"
  by (cases r) auto

fun source_kind :: "error \<Rightarrow> source_error_kind option" where
  "source_kind (ClassifiedSourceError k _) = Some k"
| "source_kind (Context _ e) = source_kind e"
| "source_kind _ = None"

fun root_cause :: "error \<Rightarrow> error" where
  "root_cause (Context _ e) = root_cause e"
| "root_cause e = e"

fun kind :: "error \<Rightarrow> error_kind" where
  "kind (Context _ e) = kind e"
| "kind (SourceError _) = Transient"
| "kind (TimeoutError _) = Transient"
| "kind (ClassifiedSourceError k _) = (if source_kind_is_recoverable k then Transient else Terminal)"
| "kind (Backpressure _) = BackpressureKind"
| "kind (Aggregate k _) = k"
| "kind (ConfigError _) = Configuration"
| "kind (NotImplemented _) = Configuration"
| "kind (Unrecoverable _) = Terminal"
| "kind (CheckpointError _) = Terminal"
| "kind (SchemaError _) = Terminal"
| "kind (StateError _) = Terminal"
| "kind (TransformError _) = Terminal"
| "kind (SerializationError _) = Terminal"
| "kind (IoError _) = Terminal"
| "kind (ValidationError _) = Terminal"
| "kind (PostCommitConfirmFailed _ _) = Terminal"

definition is_recoverable :: "error \<Rightarrow> bool" where
  "is_recoverable e \<longleftrightarrow> kind e = Transient"

text \<open>\<open>Iterator::max_by_key\<close> keeps the last of several maximal elements.\<close>

fun max_by_severity :: "error_kind list \<Rightarrow> error_kind option" where
  "max_by_severity [] = None"
| "max_by_severity (k # ks) =
     (case max_by_severity ks of
        None \<Rightarrow> Some k
      | Some m \<Rightarrow> if severity k \<le> severity m then Some m else Some k)"

fun join :: "string \<Rightarrow> string list \<Rightarrow> string" where
  "join sep [] = []"
| "join sep [s] = s"
| "join sep (s # t # r) = s @ sep @ join sep (t # r)"

lemma join_chars: "c \<in> set (join sep xs) \<Longrightarrow> c \<in> set sep \<or> (\<exists>x \<in> set xs. c \<in> set x)"
  by (induction sep xs rule: join.induct) auto

definition aggregate :: "(error \<Rightarrow> string) \<Rightarrow> (string \<times> error) list \<Rightarrow> unit result" where
  "aggregate display failures =
     (case max_by_severity (map (\<lambda>(_, e). kind e) failures) of
        None \<Rightarrow> Inr ()
      | Some k \<Rightarrow>
          Inl (Aggregate k (join ''; '' (map (\<lambda>(l, e). l @ '': '' @ display e) failures))))"

lemma kind_root_cause [simp]: "kind (root_cause e) = kind e"
  by (induction e) auto

lemma source_kind_root_cause [simp]: "source_kind (root_cause e) = source_kind e"
  by (induction e) auto

lemma severity_inj: "severity a = severity b \<longleftrightarrow> a = b"
  by (cases a; cases b) auto

lemma max_by_severity_None_iff: "max_by_severity ks = None \<longleftrightarrow> ks = []"
  by (cases ks) (auto split: option.splits)

lemma max_by_severity_SomeD:
  "max_by_severity ks = Some m \<Longrightarrow> m \<in> set ks \<and> (\<forall>k \<in> set ks. severity k \<le> severity m)"
proof (induction ks arbitrary: m)
  case Nil
  then show ?case by simp
next
  case (Cons k ks)
  then show ?case
    by (cases "max_by_severity ks")
      (auto split: if_splits simp: max_by_severity_None_iff intro: order_trans)
qed

end
