(* ===== verification/Json_Value.thy ===== *)
theory Json_Value
  imports Cdc_Prelude
begin

text \<open>
  The \<open>serde_json\<close> value tree the crate stores rows and offsets in. The crate builds
  \<open>serde_json\<close> without \<open>preserve_order\<close>, so an object is a \<open>BTreeMap\<close>: an association list
  with strictly ascending keys in byte order. A number is one of the library's three internal
  forms; a float is its 64 bits.
\<close>

datatype jnum = PosInt nat | NegInt int | Float nat

datatype json =
    JNull
  | JBool bool
  | JNumber jnum
  | JString string
  | JArray "json list"
  | JObject "(string \<times> json) list"

type_synonym jobj = "(string \<times> json) list"

fun as_object :: "json \<Rightarrow> jobj option" where
  "as_object (JObject m) = Some m"
| "as_object _ = None"

fun as_str :: "json \<Rightarrow> string option" where
  "as_str (JString s) = Some s"
| "as_str _ = None"

fun as_u64 :: "json \<Rightarrow> nat option" where
  "as_u64 (JNumber (PosInt n)) = Some n"
| "as_u64 _ = None"

definition contains_key :: "jobj \<Rightarrow> string \<Rightarrow> bool" where
  "contains_key m k \<longleftrightarrow> k \<in> fst ` set m"

definition obj_get :: "jobj \<Rightarrow> string \<Rightarrow> json option" where
  "obj_get m k = map_of m k"

text \<open>\<open>Value::get\<close> on a string index is \<open>None\<close> on anything but an object.\<close>

definition json_get :: "json \<Rightarrow> string \<Rightarrow> json option" where
  "json_get v k = (case as_object v of None \<Rightarrow> None | Some m \<Rightarrow> obj_get m k)"

fun obj_insert :: "string \<Rightarrow> json \<Rightarrow> jobj \<Rightarrow> jobj" where
  "obj_insert k v [] = [(k, v)]"
| "obj_insert k v (e # m) =
     (if fst e < k then e # obj_insert k v m
      else if fst e = k then (k, v) # m
      else (k, v) # e # m)"

definition obj_wf :: "jobj \<Rightarrow> bool" where
  "obj_wf m \<longleftrightarrow> sorted_wrt (<) (map fst m)"

lemma contains_key_iff: "contains_key m k \<longleftrightarrow> obj_get m k \<noteq> None"
  by (simp add: contains_key_def obj_get_def map_of_eq_None_iff)

lemma obj_get_insert: "obj_wf m \<Longrightarrow> obj_get (obj_insert k v m) j = (if j = k then Some v else obj_get m j)"
proof (induction m)
  case Nil
  then show ?case by (simp add: obj_get_def)
next
  case (Cons e m)
  then have wf: "obj_wf m" by (simp add: obj_wf_def)
  show ?case using Cons.IH [OF wf] by (cases e) (auto simp: obj_get_def)
qed

lemma obj_insert_keys: "fst ` set (obj_insert k v m) = insert k (fst ` set m)"
  by (induction m) auto

lemma obj_insert_wf: "obj_wf m \<Longrightarrow> obj_wf (obj_insert k v m)"
proof (induction m)
  case Nil
  then show ?case by (simp add: obj_wf_def)
next
  case (Cons e m)
  then have wf: "obj_wf (obj_insert k v m)" by (simp add: obj_wf_def)
  from Cons.prems have less: "\<forall>x \<in> fst ` set m. fst e < x" by (auto simp: obj_wf_def)
  show ?case
  proof (cases "fst e < k")
    case True
    have "\<forall>x \<in> fst ` set (obj_insert k v m). fst e < x"
      using True less by (simp add: obj_insert_keys)
    with wf True show ?thesis by (auto simp: obj_wf_def)
  next
    case False
    with Cons.prems show ?thesis by (auto simp: obj_wf_def intro: less_trans)
  qed
qed

lemma obj_wf_Nil [simp]: "obj_wf []"
  by (simp add: obj_wf_def)

end
