(* ===== verification/Event_Envelope.thy ===== *)
theory Event_Envelope
  imports Cdc_Error Json_Value
begin

text \<open>
  The canonical event envelope (\<open>core/event.rs\<close>): operations, the envelope record, its
  validation, and the one row write that is correct for an event. Timestamps, counters and the
  envelope version are \<open>nat\<close>; they are compared and copied only.
\<close>

section \<open>Operations\<close>

datatype operation = Insert | Update | Delete | Read | SchemaChange | Truncate

fun op_to_str :: "operation \<Rightarrow> string" where
  "op_to_str Insert = ''insert''"
| "op_to_str Update = ''update''"
| "op_to_str Delete = ''delete''"
| "op_to_str Read = ''read''"
| "op_to_str SchemaChange = ''schema_change''"
| "op_to_str Truncate = ''truncate''"

definition op_from_str :: "string \<Rightarrow> operation result" where
  "op_from_str s =
     (if s = ''insert'' then Inr Insert
      else if s = ''update'' then Inr Update
      else if s = ''delete'' then Inr Delete
      else if s = ''read'' then Inr Read
      else if s = ''schema_change'' then Inr SchemaChange
      else if s = ''truncate'' then Inr Truncate
      else Inl (ValidationError [''unknown operation'']))"

definition is_data_change :: "operation \<Rightarrow> bool" where
  "is_data_change k \<longleftrightarrow> k = Insert \<or> k = Update \<or> k = Delete"

section \<open>The envelope\<close>

definition envelope_version_const :: nat where
  "envelope_version_const = 1"

record source_metadata =
  source_name :: string
  source_offset :: string
  source_timestamp :: nat

record snapshot_metadata =
  snapshot_id :: string
  chunk_index :: nat
  is_last_chunk :: bool

record transaction_metadata =
  tx_id :: nat
  total_events :: "nat option"
  event_index :: nat

record event =
  ev_before :: "json option"
  ev_after :: "json option"
  ev_op :: operation
  ev_source :: source_metadata
  ev_ts :: nat
  ev_schema :: "string option"
  ev_table :: string
  ev_primary_key :: "string list option"
  ev_snapshot :: "snapshot_metadata option"
  ev_transaction :: "transaction_metadata option"
  ev_envelope_version :: nat
  ev_before_is_key_only :: bool
  ev_unavailable_columns :: "string list"
  ev_before_unavailable_columns :: "string list"

definition default_event :: event where
  "default_event =
     \<lparr>ev_before = None, ev_after = None, ev_op = Insert,
      ev_source = \<lparr>source_name = [], source_offset = [], source_timestamp = 0\<rparr>,
      ev_ts = 0, ev_schema = None, ev_table = [], ev_primary_key = None, ev_snapshot = None,
      ev_transaction = None, ev_envelope_version = envelope_version_const,
      ev_before_is_key_only = False, ev_unavailable_columns = [],
      ev_before_unavailable_columns = []\<rparr>"

definition qualified_table_name :: "event \<Rightarrow> string" where
  "qualified_table_name e =
     (case ev_schema e of
        Some s \<Rightarrow> if s \<noteq> [] then s @ ''.'' @ ev_table e else ev_table e
      | None \<Rightarrow> ev_table e)"

section \<open>Keys\<close>

text \<open>The row image a key is read from.\<close>

definition key_image :: "event \<Rightarrow> json option" where
  "key_image e =
     (if ev_op e = Delete then ev_before e
      else (case ev_after e of Some r \<Rightarrow> Some r | None \<Rightarrow> ev_before e))"

definition has_resolvable_key :: "event \<Rightarrow> bool" where
  "has_resolvable_key e =
     (case ev_primary_key e of
        None \<Rightarrow> False
      | Some keys \<Rightarrow>
          if keys = [] then False
          else (case Option.bind (key_image e) as_object of
                  None \<Rightarrow> False
                | Some obj \<Rightarrow> list_all (contains_key obj) keys))"

definition declares_key :: "event \<Rightarrow> bool" where
  "declares_key e = (case ev_primary_key e of None \<Rightarrow> False | Some keys \<Rightarrow> keys \<noteq> [])"

fun collect_keys :: "jobj \<Rightarrow> string list \<Rightarrow> jobj \<Rightarrow> jobj option" where
  "collect_keys obj [] acc = Some acc"
| "collect_keys obj (k # ks) acc =
     (case obj_get obj k of
        None \<Rightarrow> None
      | Some v \<Rightarrow> collect_keys obj ks (obj_insert k v acc))"

definition primary_key_values :: "event \<Rightarrow> json option" where
  "primary_key_values e =
     (case ev_primary_key e of
        None \<Rightarrow> None
      | Some keys \<Rightarrow>
          if keys = [] then None
          else (case Option.bind (key_image e) as_object of
                  None \<Rightarrow> None
                | Some obj \<Rightarrow> map_option JObject (collect_keys obj keys [])))"

section \<open>Row writes\<close>

datatype no_row_write = NoWriteSchemaChange | MissingPayload | MissingPrimaryKey

datatype row_write_kind =
    RowReplace "json option" json
  | RowMerge json json "string list"
  | RowDelete json
  | RowTruncate
  | RowNone no_row_write

definition row_write :: "event \<Rightarrow> row_write_kind" where
  "row_write e =
     (case ev_op e of
        Truncate \<Rightarrow> RowTruncate
      | SchemaChange \<Rightarrow> RowNone NoWriteSchemaChange
      | Delete \<Rightarrow>
          (case primary_key_values e of
             Some key \<Rightarrow> RowDelete key
           | None \<Rightarrow> RowNone MissingPrimaryKey)
      | _ \<Rightarrow>
          (case ev_after e of
             None \<Rightarrow> RowNone MissingPayload
           | Some row \<Rightarrow>
               if ev_unavailable_columns e = [] then RowReplace (primary_key_values e) row
               else (case primary_key_values e of
                       Some key \<Rightarrow> RowMerge key row (ev_unavailable_columns e)
                     | None \<Rightarrow> RowNone MissingPrimaryKey)))"

fun is_partial :: "row_write_kind \<Rightarrow> bool" where
  "is_partial (RowMerge _ _ _) = True"
| "is_partial _ = False"

definition has_complete_after_image :: "event \<Rightarrow> bool" where
  "has_complete_after_image e \<longleftrightarrow> ev_unavailable_columns e = []"

definition has_full_before :: "event \<Rightarrow> bool" where
  "has_full_before e \<longleftrightarrow> ev_before e \<noteq> None \<and> \<not> ev_before_is_key_only e"

section \<open>Validation\<close>

record validation_error =
  ve_field :: string
  ve_message :: string

definition ve :: "string \<Rightarrow> string \<Rightarrow> validation_error" where
  "ve f m = \<lparr>ve_field = f, ve_message = m\<rparr>"

definition check :: "bool \<Rightarrow> string \<Rightarrow> string \<Rightarrow> validation_error list" where
  "check bad f m = (if bad then [ve f m] else [])"

text \<open>The per-operation match of \<open>validate\<close>.\<close>

fun validate_images :: "operation \<Rightarrow> json option \<Rightarrow> json option \<Rightarrow> validation_error list" where
  "validate_images Insert b a =
     check (a = None) ''after'' ''insert events must include after''
     @ check (b \<noteq> None) ''before'' ''insert events must not include before''"
| "validate_images Update b a =
     check (a = None) ''after'' ''update events must include after''
     @ check (b = None) ''before'' ''update events must include before''"
| "validate_images Delete b a =
     check (b = None) ''before'' ''delete events must include before''
     @ check (a \<noteq> None) ''after'' ''delete events must not include after''"
| "validate_images Read b a = check (a = None) ''after'' ''read events must include after''"
| "validate_images SchemaChange b a =
     check (a = None) ''after'' ''schema_change events must include after''"
| "validate_images Truncate b a =
     check (b \<noteq> None) ''before'' ''truncate events must not include before''
     @ check (a \<noteq> None) ''after'' ''truncate events must not include after''"

definition validate_transaction :: "transaction_metadata option \<Rightarrow> validation_error list" where
  "validate_transaction t =
     (case t of
        None \<Rightarrow> []
      | Some tx \<Rightarrow>
          (case total_events tx of
             None \<Rightarrow> []
           | Some n \<Rightarrow>
               check (n = 0) ''transaction.total_events''
                 ''total_events must be greater than zero when set''
               @ check (event_index tx \<ge> n) ''transaction.event_index''
                   ''event_index must be lower than total_events''))"

definition contradicts :: "string list \<Rightarrow> json option \<Rightarrow> bool" where
  "contradicts columns row =
     (case Option.bind row as_object of
        None \<Rightarrow> False
      | Some obj \<Rightarrow> list_ex (contains_key obj) columns)"

definition validation_errors :: "event \<Rightarrow> validation_error list" where
  "validation_errors e =
     check (blank (ev_table e)) ''table'' ''table name must not be empty''
     @ check (ev_ts e = 0) ''ts'' ''timestamp must be non-zero''
     @ check (ev_envelope_version e \<noteq> envelope_version_const) ''envelope_version''
         ''expected envelope version 1''
     @ check (blank (source_name (ev_source e))) ''source.source_name''
         ''source_name must not be empty''
     @ validate_images (ev_op e) (ev_before e) (ev_after e)
     @ validate_transaction (ev_transaction e)
     @ check (ev_before_is_key_only e \<and> ev_op e \<noteq> Update \<and> ev_op e \<noteq> Delete)
         ''before_is_key_only''
         ''before_is_key_only can only be true for UPDATE or DELETE events''
     @ check (ev_before_is_key_only e \<and> ev_before e = None) ''before_is_key_only''
         ''before_is_key_only is true but before is None''
     @ check (contradicts (ev_unavailable_columns e) (ev_after e)) ''unavailable_columns''
         ''a column listed in unavailable_columns must be absent from after''
     @ check (contradicts (ev_before_unavailable_columns e) (ev_before e))
         ''before_unavailable_columns''
         ''a column listed in before_unavailable_columns must be absent from before''
     @ check (ev_before_is_key_only e \<and> ev_before_unavailable_columns e \<noteq> [])
         ''before_unavailable_columns''
         ''before_unavailable_columns must be empty when before_is_key_only is true''
     @ check ((ev_op e = Truncate \<or> ev_op e = SchemaChange)
               \<and> \<not> (ev_unavailable_columns e = [] \<and> ev_before_unavailable_columns e = []))
         ''unavailable_columns''
         ''unavailable_columns must be empty for TRUNCATE and SCHEMA_CHANGE events''"

definition validate :: "event \<Rightarrow> validation_error list + unit" where
  "validate e = (if validation_errors e = [] then Inr () else Inl (validation_errors e))"

text \<open>\<open>From<ValidationErrors> for Error\<close> renders every failure as \<open>field: message\<close>.\<close>

definition validate_or_error :: "event \<Rightarrow> unit result" where
  "validate_or_error e =
     (case validate e of
        Inl errs \<Rightarrow> Inl (ValidationError (map (\<lambda>x. ve_field x @ '': '' @ ve_message x) errs))
      | Inr u \<Rightarrow> Inr u)"

section \<open>Facts about keys\<close>

lemma collect_keys_None_iff: "collect_keys obj ks acc = None \<longleftrightarrow> (\<exists>k \<in> set ks. obj_get obj k = None)"
  by (induction ks arbitrary: acc) (auto split: option.splits)

lemma collect_keys_get:
  assumes "collect_keys obj ks acc = Some m" and "obj_wf acc"
  shows "obj_wf m \<and> (\<forall>j. obj_get m j = (if j \<in> set ks then obj_get obj j else obj_get acc j))"
  using assms
proof (induction ks arbitrary: acc)
  case Nil
  then show ?case by simp
next
  case (Cons k ks)
  then obtain v where v: "obj_get obj k = Some v"
    and rec: "collect_keys obj ks (obj_insert k v acc) = Some m"
    by (auto split: option.splits)
  have wf: "obj_wf (obj_insert k v acc)" using Cons.prems(2) by (rule obj_insert_wf)
  show ?case
    using Cons.IH [OF rec wf] v obj_get_insert [OF Cons.prems(2), of k v] by auto
qed

lemma primary_key_valuesE:
  assumes "primary_key_values e = Some key"
  obtains keys obj m where "ev_primary_key e = Some keys" "keys \<noteq> []"
    and "key_image e = Some (JObject obj)" and "key = JObject m" and "obj_wf m"
    and "\<And>j. obj_get m j = (if j \<in> set keys then obj_get obj j else None)"
    and "\<And>k. k \<in> set keys \<Longrightarrow> obj_get obj k \<noteq> None"
proof -
  from assms obtain keys row obj m where k: "ev_primary_key e = Some keys" "keys \<noteq> []"
    and i: "key_image e = Some row" "as_object row = Some obj"
    and c: "collect_keys obj keys [] = Some m" "key = JObject m"
    by (auto simp: primary_key_values_def bind_eq_Some_conv split: option.splits if_splits)
  from i(2) have row: "row = JObject obj" by (cases row) auto
  have all: "k \<in> set keys \<Longrightarrow> obj_get obj k \<noteq> None" for k
    using c(1) collect_keys_None_iff [of obj keys "[]"] by auto
  from collect_keys_get [OF c(1) obj_wf_Nil] k i row c(2) all that show ?thesis
    by (simp add: obj_get_def)
qed

lemma has_resolvable_key_iff: "has_resolvable_key e \<longleftrightarrow> primary_key_values e \<noteq> None"
  by (auto simp: has_resolvable_key_def primary_key_values_def contains_key_iff list_all_iff
      collect_keys_None_iff not_None_eq [symmetric] simp del: not_None_eq split: option.splits)

section \<open>Facts about validation\<close>

lemma check_Nil [simp]: "check b f m = [] \<longleftrightarrow> \<not> b"
  by (simp add: check_def)

lemma validate_ok_iff: "validate e = Inr () \<longleftrightarrow> validation_errors e = []"
  by (simp add: validate_def)

lemma validate_images_Nil:
  "validate_images k b a = [] \<longleftrightarrow>
     (case k of
        Insert \<Rightarrow> a \<noteq> None \<and> b = None
      | Update \<Rightarrow> a \<noteq> None \<and> b \<noteq> None
      | Delete \<Rightarrow> b \<noteq> None \<and> a = None
      | Read \<Rightarrow> a \<noteq> None
      | SchemaChange \<Rightarrow> a \<noteq> None
      | Truncate \<Rightarrow> a = None \<and> b = None)"
  by (cases k) auto

lemma contradicts_iff:
  "contradicts cols row \<longleftrightarrow>
     (\<exists>obj c. row = Some (JObject obj) \<and> c \<in> set cols \<and> contains_key obj c)"
proof (cases row)
  case None
  then show ?thesis by (simp add: contradicts_def)
next
  case (Some r)
  then show ?thesis by (cases r) (auto simp: contradicts_def list_ex_iff)
qed

lemma validate_imagesD:
  "validation_errors e = [] \<Longrightarrow> validate_images (ev_op e) (ev_before e) (ev_after e) = []"
  by (simp add: validation_errors_def)

lemma validate_unavailableD:
  assumes "validation_errors e = []" and "ev_after e = Some (JObject obj)"
    and "c \<in> set (ev_unavailable_columns e)"
  shows "obj_get obj c = None"
  using assms by (auto simp: validation_errors_def contradicts_iff contains_key_iff)

section \<open>What a row write does to the target row\<close>

text \<open>
  A row of a table is a partial map from column names to values. \<open>images row cols new\<close>: the
  payload object holds exactly the columns of \<open>new\<close> that the source could supply.
\<close>

definition images :: "jobj \<Rightarrow> string list \<Rightarrow> (string \<rightharpoonup> json) \<Rightarrow> bool" where
  "images obj missing new \<longleftrightarrow> (\<forall>c. obj_get obj c = (if c \<in> set missing then None else new c))"

text \<open>A sink that follows \<open>row_write\<close>: replace writes every column, merge only the supplied ones.\<close>

fun apply_row_write :: "row_write_kind \<Rightarrow> (string \<rightharpoonup> json) option \<Rightarrow> (string \<rightharpoonup> json) option" where
  "apply_row_write (RowReplace _ (JObject obj)) old = Some (obj_get obj)"
| "apply_row_write (RowMerge _ (JObject obj) _) old = map_option (\<lambda>r. r ++ obj_get obj) old"
| "apply_row_write (RowDelete _) old = None"
| "apply_row_write RowTruncate old = None"
| "apply_row_write _ old = old"

lemma images_merge:
  assumes "images obj missing new" and "\<And>c. c \<in> set missing \<Longrightarrow> old c = new c"
    and "dom old \<subseteq> dom new \<union> set missing"
  shows "old ++ obj_get obj = new"
proof
  fix c
  show "(old ++ obj_get obj) c = new c"
    using assms by (cases "new c") (auto simp: images_def map_add_def dom_def)
qed

section \<open>Properties\<close>


definition example_toast_update :: event where
  "example_toast_update = default_event
     \<lparr>ev_op := Update, ev_primary_key := Some [''id''],
      ev_after := Some (JObject [(''id'', JString ''7''), (''n'', JString ''b'')]),
      ev_before := Some (JObject [(''id'', JString ''7'')]),
      ev_unavailable_columns := [''doc'']\<rparr>"


text \<open>A partial composite key is never returned: the key an event yields is an object in canonical
  form whose columns are exactly the declared key columns, each with its value from the row image;
  and the allocation-free \<open>has_resolvable_key\<close> answers exactly whether that key exists.\<close>

theorem primary_key_all_or_nothing:
  "(has_resolvable_key e \<longleftrightarrow> primary_key_values e \<noteq> None)
   \<and> (\<forall>key. primary_key_values e = Some key \<longrightarrow>
        (\<exists>keys obj m. ev_primary_key e = Some keys \<and> keys \<noteq> []
           \<and> key_image e = Some (JObject obj) \<and> key = JObject m \<and> obj_wf m
           \<and> fst ` set m = set keys
           \<and> (\<forall>k \<in> set keys. obj_get m k = obj_get obj k \<and> obj_get obj k \<noteq> None)))"
proof (intro conjI allI impI)
  show "has_resolvable_key e \<longleftrightarrow> primary_key_values e \<noteq> None" by (rule has_resolvable_key_iff)
next
  fix key
  assume "primary_key_values e = Some key"
  then obtain keys obj m where *: "ev_primary_key e = Some keys" "keys \<noteq> []"
    "key_image e = Some (JObject obj)" "key = JObject m" "obj_wf m"
    "\<And>j. obj_get m j = (if j \<in> set keys then obj_get obj j else None)"
    "\<And>k. k \<in> set keys \<Longrightarrow> obj_get obj k \<noteq> None"
    by (rule primary_key_valuesE) blast
  have "k \<in> fst ` set m \<longleftrightarrow> k \<in> set keys" for k
    using *(6) [of k] *(7) [of k] contains_key_iff [of m k] by (auto simp: contains_key_def)
  with * show "\<exists>keys obj m. ev_primary_key e = Some keys \<and> keys \<noteq> []
           \<and> key_image e = Some (JObject obj) \<and> key = JObject m \<and> obj_wf m
           \<and> fst ` set m = set keys
           \<and> (\<forall>k \<in> set keys. obj_get m k = obj_get obj k \<and> obj_get obj k \<noteq> None)"
    by (intro exI [of _ keys] exI [of _ obj] exI [of _ m]) auto
qed

text \<open>A two-column key of an insert.\<close>

theorem primary_key_all_or_nothing_witness:
  "\<exists>keys obj m.
     ev_primary_key (default_event\<lparr>ev_primary_key := Some [''t'', ''id''],
        ev_after := Some (JObject [(''id'', JNull), (''n'', JNull), (''t'', JBool True)])\<rparr>) = Some keys
     \<and> fst ` set m = set keys \<and> obj_wf m
     \<and> primary_key_values (default_event\<lparr>ev_primary_key := Some [''t'', ''id''],
        ev_after := Some (JObject [(''id'', JNull), (''n'', JNull), (''t'', JBool True)])\<rparr>)
         = Some (JObject m)"
proof -
  let ?e = "default_event\<lparr>ev_primary_key := Some [''t'', ''id''],
        ev_after := Some (JObject [(''id'', JNull), (''n'', JNull), (''t'', JBool True)])\<rparr>"
  have "primary_key_values ?e = Some (JObject [(''id'', JNull), (''t'', JBool True)])"
    by (simp add: default_event_def primary_key_values_def key_image_def obj_get_def)
  with primary_key_all_or_nothing [of ?e] show ?thesis by (metis (no_types, lifting) json.inject(5))
qed

text \<open>Validation protects the sink: an event that validates never yields a merge that carries a
  column it also lists as unavailable, never yields a replace while columns are missing, a delete
  of it addresses the row by its complete key taken from the before-image, and it is refused a row
  write only for being DDL or for having no key.\<close>

theorem valid_event_row_write:
  assumes "validate e = Inr ()"
  shows "case row_write e of
           RowReplace k row \<Rightarrow> ev_unavailable_columns e = [] \<and> ev_after e = Some row
         | RowMerge k row un \<Rightarrow> un \<noteq> [] \<and> primary_key_values e = Some k
             \<and> (\<forall>obj c. row = JObject obj \<longrightarrow> c \<in> set un \<longrightarrow> obj_get obj c = None)
         | RowDelete k \<Rightarrow> ev_op e = Delete \<and> primary_key_values e = Some k
             \<and> key_image e = ev_before e \<and> ev_before e \<noteq> None
         | RowTruncate \<Rightarrow> ev_op e = Truncate \<and> ev_before e = None \<and> ev_after e = None
         | RowNone r \<Rightarrow> (r = NoWriteSchemaChange \<and> ev_op e = SchemaChange)
             \<or> (r = MissingPrimaryKey \<and> \<not> has_resolvable_key e)"
proof -
  from assms have ok: "validation_errors e = []" by (simp add: validate_ok_iff)
  note img = validate_imagesD [OF ok, unfolded validate_images_Nil]
  have un: "ev_after e = Some (JObject obj) \<Longrightarrow> c \<in> set (ev_unavailable_columns e) \<Longrightarrow>
      obj_get obj c = None" for obj c
    using ok by (rule validate_unavailableD)
  show ?thesis
    using img un
    by (cases "ev_op e")
      (auto simp: row_write_def key_image_def has_resolvable_key_iff split: option.splits)
qed

text \<open>The TOAST update with its envelope filled in.\<close>

theorem valid_event_row_write_witness:
  "\<exists>k row. row_write (example_toast_update\<lparr>ev_table := ''t'', ev_ts := 1,
       ev_source := \<lparr>source_name = ''pg'', source_offset = ''0/1'', source_timestamp = 1\<rparr>\<rparr>)
     = RowMerge k row [''doc'']
     \<and> (\<forall>obj c. row = JObject obj \<longrightarrow> c \<in> set [''doc''] \<longrightarrow> obj_get obj c = None)"
proof -
  let ?e = "example_toast_update\<lparr>ev_table := ''t'', ev_ts := 1,
       ev_source := \<lparr>source_name = ''pg'', source_offset = ''0/1'', source_timestamp = 1\<rparr>\<rparr>"
  have v: "validate ?e = Inr ()" by code_simp
  have r: "row_write ?e = RowMerge (JObject [(''id'', JString ''7'')])
      (JObject [(''id'', JString ''7''), (''n'', JString ''b'')]) [''doc'']" by code_simp
  from valid_event_row_write [OF v] r show ?thesis by auto
qed

end
