(* ===== verification/Checkpoint_Interface.thy ===== *)
theory Checkpoint_Interface
  imports Cdc_Error
begin

text \<open>
  What the commit barrier and the runtime rely on in a checkpoint store (the trait \<open>Checkpoint\<close> of
  \<open>checkpoint/mod.rs\<close>). A store has a state \<open>'c\<close>; \<open>save\<close> returns the new state beside its result,
  because a failing write may still change the state.

  \<open>save_load\<close>: whatever a save returns, the position a later load yields is the previous one or the
  one just offered. \<open>save_ok\<close>: a successful save beyond the committed count is what the next load
  and the next count return. \<open>save_good\<close>: saving keeps the store's invariant. \<open>valid\<close> are the
  positions that belong to the store (a checkpoint directory holds one source family).
\<close>

locale checkpoint_store =
  fixes save :: "'o \<Rightarrow> nat \<Rightarrow> 'c \<Rightarrow> 'c \<times> unit result"
    and load :: "'c \<Rightarrow> 'o option result"
    and count :: "'c \<Rightarrow> nat result"
    and good :: "'c \<Rightarrow> bool"
    and valid :: "'o \<Rightarrow> bool"
  assumes save_good: "good c \<Longrightarrow> valid off \<Longrightarrow> save off n c = (c', r) \<Longrightarrow> good c'"
    and save_load: "good c \<Longrightarrow> valid off \<Longrightarrow> save off n c = (c', r) \<Longrightarrow>
                      load c' = load c \<or> load c' = Inr (Some off)"
    and save_ok: "good c \<Longrightarrow> valid off \<Longrightarrow> count c = Inr m \<Longrightarrow> m < n \<Longrightarrow>
                    save off n c = (c', Inr u) \<Longrightarrow> load c' = Inr (Some off) \<and> count c' = Inr n"

end
