(* ===== verification/Commit_Barrier.thy ===== *)
theory Commit_Barrier
  imports Checkpoint_Interface
begin

text \<open>
  The commit barrier (\<open>checkpoint/barrier.rs\<close>): one record per delivered event, of which only the
  contiguous accepted prefix is ever committed. Offsets are a type parameter \<open>'o\<close> (the code's boxed
  \<open>dyn Offset\<close>), the checkpoint store is the \<open>save\<close> operation of \<open>checkpoint_store\<close>. Cancelling a
  commit between its await points is outside the model. The arithmetic is that of a release build:
  \<open>u64\<close> addition and subtraction wrap.
\<close>

named_theorems barrier_defs \<open>definitions of the barrier's operations\<close>

section \<open>State and operations\<close>

datatype barrier_state_kind = Open | Flushing | Committed

record 'o pending_record =
  rec_offset :: "'o option"
  rec_accepted :: bool

record 'o commit_barrier =
  pending_records :: "'o pending_record list"
  barrier_state :: barrier_state_kind
  max_buffer_size :: nat
  committed_event_count :: nat

definition barrier_new :: "nat \<Rightarrow> 'o commit_barrier" where
  "barrier_new cap =
     \<lparr>pending_records = [], barrier_state = Open, max_buffer_size = cap, committed_event_count = 0\<rparr>"

definition hydrate_committed_event_count ::
    "nat \<Rightarrow> 'o commit_barrier \<Rightarrow> 'o commit_barrier \<times> unit result" where
  "hydrate_committed_event_count n b =
     (if pending_records b \<noteq> []
      then (b, Inl (CheckpointError ''cannot hydrate committed count while pending records exist''))
      else (b\<lparr>committed_event_count := n\<rparr>, Inr ()))"

definition push_record :: "'o option \<Rightarrow> 'o commit_barrier \<Rightarrow> 'o commit_barrier \<times> unit result" where
  [barrier_defs]: "push_record off b =
     (if barrier_state b = Flushing
      then (b, Inl (CheckpointError ''cannot add events while barrier is flushing''))
      else if length (pending_records b) \<ge> max_buffer_size b
      then (b, Inl (CheckpointError ''commit barrier buffer is full''))
      else (b\<lparr>barrier_state := Open,
              pending_records := pending_records b @ [\<lparr>rec_offset = off, rec_accepted = False\<rparr>]\<rparr>,
            Inr ()))"

definition add_event :: "'o \<Rightarrow> 'o commit_barrier \<Rightarrow> 'o commit_barrier \<times> unit result" where
  [barrier_defs]: "add_event off b = push_record (Some off) b"

definition add_non_persistent_event :: "'o commit_barrier \<Rightarrow> 'o commit_barrier \<times> unit result" where
  [barrier_defs]: "add_non_persistent_event b = push_record None b"

definition set_accepted :: "bool \<Rightarrow> 'o pending_record \<Rightarrow> 'o pending_record" where
  "set_accepted v r = r\<lparr>rec_accepted := v\<rparr>"

text \<open>The marking loop: the counter is decremented after a mark and the loop breaks at zero.\<close>

fun mark_accepted :: "nat \<Rightarrow> 'o pending_record list \<Rightarrow> 'o pending_record list" where
  "mark_accepted remaining [] = []"
| "mark_accepted remaining (r # rs) =
     (if rec_accepted r then r # mark_accepted remaining rs
      else set_accepted True r
           # (if wrap_sub64 remaining 1 = 0 then rs else mark_accepted (wrap_sub64 remaining 1) rs))"

definition notify_consumer_accepted ::
    "nat \<Rightarrow> 'o commit_barrier \<Rightarrow> 'o commit_barrier \<times> unit result" where
  [barrier_defs]: "notify_consumer_accepted n b =
     (let available = length (filter (\<lambda>r. \<not> rec_accepted r) (pending_records b))
      in if n > available
         then (b, Inl (CheckpointError ''acceptance notification exceeds pending records''))
         else (b\<lparr>pending_records := mark_accepted n (pending_records b)\<rparr>, Inr ()))"

text \<open>\<open>iter().rev().find_map(offset)\<close>: the last record that carries an offset.\<close>

fun last_persistable :: "'o option list \<Rightarrow> 'o option" where
  "last_persistable [] = None"
| "last_persistable (x # xs) =
     (case last_persistable xs of Some y \<Rightarrow> Some y | None \<Rightarrow> x)"

definition drain_committed :: "nat \<Rightarrow> nat \<Rightarrow> 'o commit_barrier \<Rightarrow> 'o commit_barrier" where
  "drain_committed commit_len new_count b =
     (let rest = drop commit_len (pending_records b)
      in b\<lparr>committed_event_count := new_count, pending_records := rest,
           barrier_state := (if rest = [] then Committed else Open)\<rparr>)"

definition commit ::
    "('o \<Rightarrow> nat \<Rightarrow> 'c \<Rightarrow> 'c \<times> unit result) \<Rightarrow> 'o commit_barrier \<Rightarrow> 'c
     \<Rightarrow> 'o commit_barrier \<times> 'c \<times> unit result" where
  "commit save b c =
     (if pending_records b = [] then (b\<lparr>barrier_state := Committed\<rparr>, c, Inr ())
      else
        let commit_len = length (takeWhile rec_accepted (pending_records b))
        in if commit_len = 0
           then (b, c, Inl (CheckpointError ''cannot commit with no accepted prefix''))
           else
             let restore_state = barrier_state b;
                 flushing = b\<lparr>barrier_state := Flushing\<rparr>;
                 new_count = wrap_add64 (committed_event_count b) commit_len
             in case last_persistable (map rec_offset (take commit_len (pending_records b))) of
                  None \<Rightarrow> (drain_committed commit_len new_count flushing, c, Inr ())
                | Some off \<Rightarrow>
                    (case save off new_count c of
                       (c', Inl e) \<Rightarrow> (flushing\<lparr>barrier_state := restore_state\<rparr>, c', Inl e)
                     | (c', Inr _) \<Rightarrow> (drain_committed commit_len new_count flushing, c', Inr ())))"

definition accept_and_commit ::
    "('o \<Rightarrow> nat \<Rightarrow> 'c \<Rightarrow> 'c \<times> unit result) \<Rightarrow> nat \<Rightarrow> 'o commit_barrier \<Rightarrow> 'c
     \<Rightarrow> 'o commit_barrier \<times> 'c \<times> unit result" where
  "accept_and_commit save n b c =
     (let previously = length (filter rec_accepted (pending_records b));
          restore_state = barrier_state b
      in case notify_consumer_accepted n b of
           (b1, Inl e) \<Rightarrow> (b1, c, Inl e)
         | (b1, Inr _) \<Rightarrow>
             (case commit save b1 c of
                (b2, c', Inr u) \<Rightarrow> (b2, c', Inr u)
              | (b2, c', Inl e) \<Rightarrow>
                  (let ps = pending_records b2
                   in (b2\<lparr>pending_records := take previously ps
                             @ map (set_accepted False) (take n (drop previously ps))
                             @ drop n (drop previously ps),
                          barrier_state := restore_state\<rparr>,
                       c', Inl e))))"

definition clear_pending :: "'o commit_barrier \<Rightarrow> 'o commit_barrier" where
  "clear_pending b = b\<lparr>pending_records := [], barrier_state := Open\<rparr>"

definition pending_count :: "'o commit_barrier \<Rightarrow> nat" where
  "pending_count b = length (pending_records b)"

section \<open>The invariant\<close>

text \<open>
  Between operations the accepted records form a prefix, the buffer is within its cap, and the
  barrier is never left flushing.
\<close>

definition accepted_prefix :: "'o pending_record list \<Rightarrow> bool" where
  "accepted_prefix rs \<longleftrightarrow> list_all (\<lambda>r. \<not> rec_accepted r) (dropWhile rec_accepted rs)"

definition barrier_inv :: "'o commit_barrier \<Rightarrow> bool" where
  "barrier_inv b \<longleftrightarrow>
     accepted_prefix (pending_records b)
     \<and> length (pending_records b) \<le> max_buffer_size b
     \<and> barrier_state b \<noteq> Flushing"

definition accepted_of :: "'o commit_barrier \<Rightarrow> 'o pending_record list" where
  "accepted_of b = takeWhile rec_accepted (pending_records b)"

definition unaccepted_of :: "'o commit_barrier \<Rightarrow> 'o pending_record list" where
  "unaccepted_of b = dropWhile rec_accepted (pending_records b)"

section \<open>Lemmas\<close>

lemma pending_split: "pending_records b = accepted_of b @ unaccepted_of b"
  by (simp add: accepted_of_def unaccepted_of_def)

lemma accepted_of_all: "r \<in> set (accepted_of b) \<Longrightarrow> rec_accepted r"
  by (auto simp: accepted_of_def dest: set_takeWhileD)

lemma unaccepted_of_none: "barrier_inv b \<Longrightarrow> r \<in> set (unaccepted_of b) \<Longrightarrow> \<not> rec_accepted r"
  by (auto simp: barrier_inv_def accepted_prefix_def unaccepted_of_def list_all_iff)

lemma filter_accepted: "barrier_inv b \<Longrightarrow> filter rec_accepted (pending_records b) = accepted_of b"
  using accepted_of_all [of _ b] unaccepted_of_none [of b]
  by (simp add: pending_split [of b])

lemma filter_unaccepted:
  "barrier_inv b \<Longrightarrow> filter (\<lambda>r. \<not> rec_accepted r) (pending_records b) = unaccepted_of b"
  using accepted_of_all [of _ b] unaccepted_of_none [of b]
  by (simp add: pending_split [of b])

lemma mark_accepted_skip:
  "\<forall>r \<in> set as. rec_accepted r \<Longrightarrow> mark_accepted n (as @ us) = as @ mark_accepted n us"
  by (induction as) auto

lemma mark_accepted_take:
  "\<forall>r \<in> set us. \<not> rec_accepted r \<Longrightarrow> 0 < n \<Longrightarrow> n \<le> length us \<Longrightarrow> n \<le> u64_max \<Longrightarrow>
   mark_accepted n us = map (set_accepted True) (take n us) @ drop n us"
proof (induction us arbitrary: n)
  case Nil
  then show ?case by simp
next
  case (Cons u us)
  have w: "wrap_sub64 n 1 = n - 1" using Cons.prems by (intro wrap_sub64_one) auto
  show ?case
  proof (cases "n = 1")
    case True
    with Cons.prems w show ?thesis by simp
  next
    case False
    with Cons.prems have "0 < n - 1" "n - 1 \<le> length us" "n - 1 \<le> u64_max" by auto
    with Cons have ih: "mark_accepted (n - 1) us
        = map (set_accepted True) (take (n - 1) us) @ drop (n - 1) us" by auto
    from False Cons.prems obtain m where m: "n = Suc m" "0 < m" by (cases n) auto
    with Cons.prems w ih show ?thesis by simp
  qed
qed

lemma takeWhile_accepted_marked:
  "\<forall>r \<in> set as. rec_accepted r \<Longrightarrow> \<forall>r \<in> set us. \<not> rec_accepted r \<Longrightarrow>
   takeWhile rec_accepted (as @ map (set_accepted True) xs @ us) = as @ map (set_accepted True) xs"
proof -
  assume a: "\<forall>r \<in> set as. rec_accepted r" and u: "\<forall>r \<in> set us. \<not> rec_accepted r"
  have all: "\<forall>r \<in> set (as @ map (set_accepted True) xs). rec_accepted r"
    using a by (auto simp: set_accepted_def)
  have "takeWhile rec_accepted us = []" using u by (cases us) auto
  with all show ?thesis
    by (metis append.assoc append_Nil2 takeWhile_append2)
qed

lemma set_accepted_undo: "\<not> rec_accepted r \<Longrightarrow> set_accepted False (set_accepted True r) = r"
  by (simp add: set_accepted_def)

lemma rec_offset_set_accepted [simp]: "rec_offset (set_accepted v r) = rec_offset r"
  by (simp add: set_accepted_def)

lemma last_persistable_in: "last_persistable xs = Some x \<Longrightarrow> Some x \<in> set xs"
  by (induction xs arbitrary: x) (auto split: option.splits)

lemma last_persistable_append:
  "last_persistable (xs @ ys) =
     (case last_persistable ys of Some y \<Rightarrow> Some y | None \<Rightarrow> last_persistable xs)"
  by (induction xs) (auto split: option.splits)

lemma drain_committed_cong:
  "drop k ps = drop k (pending_records b) \<Longrightarrow>
   drain_committed k t (b\<lparr>pending_records := ps, barrier_state := s\<rparr>) = drain_committed k t b"
  by (simp add: drain_committed_def Let_def del: drop_eq_Nil)

text \<open>The whole operation in one equation, for the calls the runtime makes.\<close>

lemma accept_and_commit_eq:
  fixes b :: "'o commit_barrier"
  assumes inv: "barrier_inv b" and n: "0 < n" "n \<le> length (unaccepted_of b)" "n \<le> u64_max"
  defines "k \<equiv> length (accepted_of b) + n"
  defines "newc \<equiv> wrap_add64 (committed_event_count b) k"
  shows "accept_and_commit save n b c =
     (case last_persistable (map rec_offset (take k (pending_records b))) of
        None \<Rightarrow> (drain_committed k newc b, c, Inr ())
      | Some off \<Rightarrow>
          (case save off newc c of
             (c', Inl e) \<Rightarrow> (b, c', Inl e)
           | (c', Inr _) \<Rightarrow> (drain_committed k newc b, c', Inr ())))"
proof -
  let ?as = "accepted_of b" and ?us = "unaccepted_of b"
  define marked where "marked = ?as @ map (set_accepted True) (take n ?us) @ drop n ?us"
  let ?b1 = "b\<lparr>pending_records := marked\<rparr>"
  have as: "\<forall>r \<in> set ?as. rec_accepted r" using accepted_of_all by blast
  have us: "\<forall>r \<in> set ?us. \<not> rec_accepted r" using inv unaccepted_of_none by blast
  have notify: "notify_consumer_accepted n b = (?b1, Inr ())"
    using n mark_accepted_skip [OF as, of n ?us] mark_accepted_take [OF us n(1) n(2) n(3)]
    by (simp add: notify_consumer_accepted_def filter_unaccepted [OF inv] pending_split [symmetric]
        marked_def)
  have "takeWhile rec_accepted marked = ?as @ map (set_accepted True) (take n ?us)"
    unfolding marked_def using us
    by (intro takeWhile_accepted_marked [OF as]) (auto dest: in_set_dropD)
  then have len: "length (takeWhile rec_accepted marked) = k" using n(2) by (simp add: k_def)
  have pk: "take k (pending_records b) = ?as @ take n ?us"
    by (simp add: pending_split [of b] k_def)
  have offs: "map rec_offset (take k marked) = map rec_offset (take k (pending_records b))"
    using n(2) unfolding pk by (simp add: marked_def k_def comp_def)
  have dropk: "drop k marked = drop k (pending_records b)"
    using n(2) by (simp add: marked_def pending_split [of b] k_def)
  have ne: "marked \<noteq> []" "k \<noteq> 0" using n by (auto simp: k_def marked_def)
  have undo: "map (set_accepted False) (map (set_accepted True) (take n ?us)) = take n ?us"
    using us by (auto simp: set_accepted_undo intro!: map_idI dest: in_set_takeD)
  have restore: "take (length ?as) marked
      @ map (set_accepted False) (take n (drop (length ?as) marked))
      @ drop n (drop (length ?as) marked) = pending_records b"
    using n(2) undo by (simp add: pending_split [of b] marked_def)
  have commit: "commit save ?b1 c =
     (case last_persistable (map rec_offset (take k (pending_records b))) of
        None \<Rightarrow> (drain_committed k newc b, c, Inr ())
      | Some off \<Rightarrow>
          (case save off newc c of
             (c', Inl e) \<Rightarrow> (?b1, c', Inl e)
           | (c', Inr _) \<Rightarrow> (drain_committed k newc b, c', Inr ())))"
    using ne
    by (simp add: commit_def len offs newc_def Let_def drain_committed_cong [OF dropk]
        split: option.split prod.split sum.split)
  show ?thesis
    using restore
    by (simp add: accept_and_commit_def notify commit filter_accepted [OF inv] Let_def
        split: option.splits prod.splits sum.splits)
qed

section \<open>Every operation keeps the invariant\<close>

lemma barrier_inv_new: "barrier_inv (barrier_new cap)"
  by (simp add: barrier_inv_def barrier_new_def accepted_prefix_def)

lemma barrier_inv_hydrate:
  "barrier_inv b \<Longrightarrow> hydrate_committed_event_count n b = (b', r) \<Longrightarrow> barrier_inv b'"
  by (auto simp: barrier_inv_def hydrate_committed_event_count_def split: if_splits)

lemma accepted_prefix_snoc:
  "accepted_prefix rs \<Longrightarrow> \<not> rec_accepted r \<Longrightarrow> accepted_prefix (rs @ [r])"
  by (induction rs) (auto simp: accepted_prefix_def)

lemma barrier_inv_push: "barrier_inv b \<Longrightarrow> push_record off b = (b', r) \<Longrightarrow> barrier_inv b'"
  by (auto simp: barrier_inv_def push_record_def accepted_prefix_snoc split: if_splits)

lemma barrier_inv_clear: "barrier_inv b \<Longrightarrow> barrier_inv (clear_pending b)"
  by (simp add: barrier_inv_def clear_pending_def accepted_prefix_def)

lemma accepted_prefix_drop:
  "\<forall>r \<in> set rs. \<not> rec_accepted r \<Longrightarrow> accepted_prefix (drop n rs)"
  by (auto simp: accepted_prefix_def list_all_iff dest: set_dropWhileD in_set_dropD)

lemma drain_committed_inv:
  assumes "barrier_inv b" "k \<ge> length (accepted_of b)"
  shows "barrier_inv (drain_committed k t b)" "accepted_of (drain_committed k t b) = []"
proof -
  have d: "drop k (pending_records b) = drop (k - length (accepted_of b)) (unaccepted_of b)"
    using assms(2) by (simp add: pending_split [of b])
  have u: "\<forall>r \<in> set (drop k (pending_records b)). \<not> rec_accepted r"
    using unaccepted_of_none [OF assms(1)] by (auto simp: d dest: in_set_dropD)
  then have "accepted_prefix (drop k (pending_records b))"
    using accepted_prefix_drop [of _ 0] by simp
  with assms(1) show "barrier_inv (drain_committed k t b)"
    by (auto simp: barrier_inv_def drain_committed_def Let_def)
  show "accepted_of (drain_committed k t b) = []"
    using u by (cases "drop k (pending_records b)") (auto simp: accepted_of_def drain_committed_def Let_def)
qed

lemma notify_excess:
  "barrier_inv b \<Longrightarrow> length (unaccepted_of b) < n \<Longrightarrow>
   accept_and_commit save n b c =
     (b, c, Inl (CheckpointError ''acceptance notification exceeds pending records''))"
  by (simp add: accept_and_commit_def notify_consumer_accepted_def filter_unaccepted Let_def)

lemma barrier_inv_accept:
  assumes "barrier_inv b" "0 < n" "n \<le> u64_max" "accept_and_commit save n b c = (b', c', r)"
  shows "barrier_inv b'"
proof (cases "n \<le> length (unaccepted_of b)")
  case True
  from assms(4) drain_committed_inv(1) [OF assms(1)] assms(1) show ?thesis
    unfolding accept_and_commit_eq [OF assms(1,2) True assms(3)]
    by (auto split: option.splits prod.splits sum.splits)
next
  case False
  with assms show ?thesis by (simp add: notify_excess)
qed

section \<open>The abstract ledger\<close>

text \<open>
  What the barrier promises, without marks or lifecycle states: a committed count, the queue of
  delivered but uncommitted positions, and how many of them the consumer has accepted.
\<close>

record 'o ledger =
  led_count :: nat
  led_queue :: "'o option list"
  led_accepted :: nat

definition barrier_abs :: "'o commit_barrier \<Rightarrow> 'o ledger" where
  "barrier_abs b =
     \<lparr>led_count = committed_event_count b, led_queue = map rec_offset (pending_records b),
      led_accepted = length (accepted_of b)\<rparr>"

definition ledger_push :: "nat \<Rightarrow> 'o option \<Rightarrow> 'o ledger \<Rightarrow> 'o ledger option" where
  "ledger_push cap off l =
     (if length (led_queue l) < cap then Some (l\<lparr>led_queue := led_queue l @ [off]\<rparr>) else None)"

definition ledger_commit :: "nat \<Rightarrow> 'o ledger \<Rightarrow> 'o ledger option" where
  "ledger_commit n l =
     (let k = led_accepted l + n
      in if k \<le> length (led_queue l)
         then Some \<lparr>led_count = led_count l + k, led_queue = drop k (led_queue l), led_accepted = 0\<rparr>
         else None)"

lemma barrier_abs_drain:
  assumes "barrier_inv b" "k \<ge> length (accepted_of b)"
  shows "barrier_abs (drain_committed k t b)
    = \<lparr>led_count = t, led_queue = drop k (led_queue (barrier_abs b)), led_accepted = 0\<rparr>"
  using drain_committed_inv(2) [OF assms]
  by (simp add: barrier_abs_def) (simp add: drain_committed_def Let_def drop_map)

lemma length_pending: "length (pending_records b) = length (accepted_of b) + length (unaccepted_of b)"
  by (simp add: pending_split [of b])

section \<open>Runs against a checkpoint store\<close>

text \<open>
  A run of the barrier as the runtime drives it: positions are pushed, prefixes are acknowledged,
  in any order and with any outcome of the store. The ghost fields record every position pushed
  (\<open>run_hist\<close>) and how many of them, counted from the start, the consumer has ever acknowledged
  (\<open>run_granted\<close>).
\<close>

datatype 'o barrier_call = CallPush "'o option" | CallAccept nat

record ('o, 'c) barrier_run =
  run_barrier :: "'o commit_barrier"
  run_store :: 'c
  run_hist :: "'o option list"
  run_granted :: nat

fun barrier_step ::
    "('o \<Rightarrow> nat \<Rightarrow> 'c \<Rightarrow> 'c \<times> unit result) \<Rightarrow> 'o barrier_call \<Rightarrow> ('o, 'c) barrier_run
     \<Rightarrow> ('o, 'c) barrier_run" where
  "barrier_step save (CallPush off) s =
     (case push_record off (run_barrier s) of
        (b', Inl e) \<Rightarrow> s\<lparr>run_barrier := b'\<rparr>
      | (b', Inr u) \<Rightarrow> s\<lparr>run_barrier := b', run_hist := run_hist s @ [off]\<rparr>)"
| "barrier_step save (CallAccept n) s =
     (case accept_and_commit save n (run_barrier s) (run_store s) of
        (b', c', r) \<Rightarrow>
          s\<lparr>run_barrier := b', run_store := c',
            run_granted :=
              (if n \<le> pending_count (run_barrier s)
               then max (run_granted s) (length (run_hist s) - pending_count (run_barrier s) + n)
               else run_granted s)\<rparr>)"

definition barrier_start :: "nat \<Rightarrow> nat \<Rightarrow> 'c \<Rightarrow> ('o, 'c) barrier_run" where
  "barrier_start cap n0 c =
     \<lparr>run_barrier = (barrier_new cap)\<lparr>committed_event_count := n0\<rparr>, run_store = c,
      run_hist = [], run_granted = 0\<rparr>"

definition barrier_runs ::
    "('o \<Rightarrow> nat \<Rightarrow> 'c \<Rightarrow> 'c \<times> unit result) \<Rightarrow> 'o barrier_call list \<Rightarrow> ('o, 'c) barrier_run
     \<Rightarrow> ('o, 'c) barrier_run" where
  "barrier_runs save calls s = fold (barrier_step save) calls s"

text \<open>The position a store that held \<open>l0\<close> must return once the positions \<open>xs\<close> are committed.\<close>

definition durable :: "'o option result \<Rightarrow> 'o option list \<Rightarrow> 'o option result" where
  "durable l0 xs = (case last_persistable xs of None \<Rightarrow> l0 | Some off \<Rightarrow> Inr (Some off))"

definition run_inv ::
    "('c \<Rightarrow> 'o option result) \<Rightarrow> ('c \<Rightarrow> bool) \<Rightarrow> ('o \<Rightarrow> bool) \<Rightarrow> nat \<Rightarrow> 'o option result
     \<Rightarrow> ('o, 'c) barrier_run \<Rightarrow> bool" where
  "run_inv load good valid n0 l0 s \<longleftrightarrow>
     barrier_inv (run_barrier s) \<and> accepted_of (run_barrier s) = [] \<and> good (run_store s)
     \<and> (\<forall>off. Some off \<in> set (run_hist s) \<longrightarrow> valid off)
     \<and> (\<exists>d k. committed_event_count (run_barrier s) = n0 + d
          \<and> map rec_offset (pending_records (run_barrier s)) = drop d (run_hist s)
          \<and> d \<le> run_granted s \<and> run_granted s \<le> length (run_hist s) \<and> d \<le> length (run_hist s)
          \<and> k \<le> run_granted s \<and> load (run_store s) = durable l0 (take k (run_hist s)))"

lemma durable_extend: "durable l0 (xs @ [x]) = durable l0 xs \<or> x \<noteq> None"
  by (cases x) (auto simp: durable_def last_persistable_append)

lemma durable_Some: "last_persistable ys = Some off \<Longrightarrow> durable l0 (xs @ ys) = Inr (Some off)"
  by (simp add: durable_def last_persistable_append)

context checkpoint_store
begin

lemma run_inv_start:
  "good c \<Longrightarrow> load c = l0 \<Longrightarrow> run_inv load good valid n0 l0 (barrier_start cap n0 c)"
  by (auto simp: run_inv_def barrier_start_def barrier_inv_def barrier_new_def accepted_prefix_def
      accepted_of_def durable_def)

lemma run_inv_push:
  assumes inv: "run_inv load good valid n0 l0 s" and off: "\<And>x. off = Some x \<Longrightarrow> valid x"
  shows "run_inv load good valid n0 l0 (barrier_step save (CallPush off) s)"
proof -
  let ?b = "run_barrier s"
  obtain b' r where p: "push_record off ?b = (b', r)" by fastforce
  from inv obtain d k where dk: "committed_event_count ?b = n0 + d"
    "map rec_offset (pending_records ?b) = drop d (run_hist s)" "d \<le> run_granted s"
    "run_granted s \<le> length (run_hist s)" "d \<le> length (run_hist s)" "k \<le> run_granted s"
    "load (run_store s) = durable l0 (take k (run_hist s))" and b: "barrier_inv ?b"
    and a: "accepted_of ?b = []" and g: "good (run_store s)"
    and v: "\<And>off. Some off \<in> set (run_hist s) \<Longrightarrow> valid off"
    by (auto simp: run_inv_def)
  have b': "barrier_inv b'" using barrier_inv_push [OF b p] .
  show ?thesis
  proof (cases r)
    case (Inl e)
    then have "b' = ?b" using p by (auto simp: push_record_def split: if_splits)
    with p Inl inv show ?thesis by simp
  next
    case (Inr u)
    with p have b'_eq: "b' = ?b\<lparr>barrier_state := Open, pending_records := pending_records ?b
        @ [\<lparr>rec_offset = off, rec_accepted = False\<rparr>]\<rparr>"
      by (auto simp: push_record_def split: if_splits)
    have a': "accepted_of b' = []"
      using a by (cases "pending_records ?b") (auto simp: b'_eq accepted_of_def split: if_splits)
    have k: "take k (run_hist s @ [off]) = take k (run_hist s)" using dk by simp
    have d: "map rec_offset (pending_records b') = drop d (run_hist s @ [off])"
      using dk by (simp add: b'_eq)
    have "committed_event_count b' = n0 + d" using dk by (simp add: b'_eq)
    with a' b' g k d dk p Inr v off show ?thesis
      by (auto simp: run_inv_def intro!: exI [of _ d] exI [of _ k])
  qed
qed

lemma run_inv_accept:
  assumes inv: "run_inv load good valid n0 l0 s" and n: "0 < n" "n \<le> u64_max"
    and small: "n0 + length (run_hist s) \<le> u64_max"
  shows "run_inv load good valid n0 l0 (barrier_step save (CallAccept n) s)"
proof -
  let ?b = "run_barrier s" and ?h = "run_hist s"
  from inv obtain d k where dk: "committed_event_count ?b = n0 + d"
    "map rec_offset (pending_records ?b) = drop d ?h" "d \<le> run_granted s"
    "run_granted s \<le> length ?h" "d \<le> length ?h" "k \<le> run_granted s"
    "load (run_store s) = durable l0 (take k ?h)" and b: "barrier_inv ?b"
    and a: "accepted_of ?b = []" and g: "good (run_store s)"
    and v: "\<And>off. Some off \<in> set (run_hist s) \<Longrightarrow> valid off"
    by (auto simp: run_inv_def)
  have una: "unaccepted_of ?b = pending_records ?b" using pending_split [of ?b] a by simp
  have plen: "length (pending_records ?b) = length ?h - d"
    using dk(2) by (metis length_drop length_map)
  obtain b' c' r where acc: "accept_and_commit save n ?b (run_store s) = (b', c', r)"
    by (cases "accept_and_commit save n ?b (run_store s)") auto
  show ?thesis
  proof (cases "n \<le> length (pending_records ?b)")
    case False
    then have "accept_and_commit save n ?b (run_store s) = (?b, run_store s,
        Inl (CheckpointError ''acceptance notification exceeds pending records''))"
      using una by (intro notify_excess [OF b]) simp
    with False inv show ?thesis by (simp add: pending_count_def)
  next
    case True
    let ?g = "max (run_granted s) (length ?h - length (pending_records ?b) + n)"
    have g': "?g = max (run_granted s) (d + n)" using plen dk(5) by simp
    have dn: "d + n \<le> length ?h" using True plen dk(5) by simp
    let ?t = "wrap_add64 (committed_event_count ?b) n"
    have t: "?t = n0 + d + n" using small dn dk(1) by (subst wrap_add64_small) auto
    have eq: "accept_and_commit save n ?b (run_store s) =
     (case last_persistable (take n (drop d ?h)) of
        None \<Rightarrow> (drain_committed n ?t ?b, run_store s, Inr ())
      | Some off \<Rightarrow>
          (case save off ?t (run_store s) of
             (c', Inl e) \<Rightarrow> (?b, c', Inl e)
           | (c', Inr _) \<Rightarrow> (drain_committed n ?t ?b, c', Inr ())))"
      using accept_and_commit_eq [OF b n(1) _ n(2), of save "run_store s", unfolded a una list.size(3) add_0] True
      by (simp add: take_map [symmetric] dk(2))
    have split: "take (d + n) ?h = take d ?h @ take n (drop d ?h)" by (simp add: take_add)
    have b': "b' = ?b \<or> b' = drain_committed n ?t ?b"
      using acc unfolding eq by (auto split: option.splits prod.splits sum.splits)
    have store: "good c' \<and> (load c' = load (run_store s) \<or> load c' = durable l0 (take (d + n) ?h))"
    proof (cases "last_persistable (take n (drop d ?h))")
      case None
      with acc g show ?thesis unfolding eq by auto
    next
      case (Some off)
      then have "valid off" using v by (blast dest: last_persistable_in in_set_takeD in_set_dropD)
      with acc Some save_good [OF g, of off] save_load [OF g, of off] show ?thesis
        unfolding eq split by (fastforce simp: durable_Some split: prod.splits sum.splits)
    qed
    have drained: "barrier_inv (drain_committed n ?t ?b)" "accepted_of (drain_committed n ?t ?b) = []"
      using drain_committed_inv [OF b, of n ?t] a by auto
    have cnt: "committed_event_count (drain_committed n ?t ?b) = n0 + (d + n)"
      "map rec_offset (pending_records (drain_committed n ?t ?b)) = drop (d + n) ?h"
      using t by (simp_all add: drain_committed_def Let_def dk(2) drop_map [symmetric] add.commute)
    from store obtain k' where k': "k' \<le> ?g" "load c' = durable l0 (take k' ?h)"
      using dk(6,7) g' by (metis max.cobounded1 max.cobounded2 order_trans)
    have "\<exists>d'. committed_event_count b' = n0 + d' \<and> map rec_offset (pending_records b') = drop d' ?h
        \<and> d' \<le> ?g \<and> d' \<le> length ?h"
      using b' cnt dk g' dn by (metis max.cobounded2 max.coboundedI1)
    moreover have "?g \<le> length ?h" using g' dk(4) dn by simp
    moreover have "barrier_inv b'" "accepted_of b' = []" using b' b a drained by auto
    ultimately show ?thesis
      using acc True k' store v by (auto simp: run_inv_def pending_count_def)
  qed
qed

lemma run_hist_length:
  "length (run_hist (barrier_step save call s)) \<le> Suc (length (run_hist s))"
  by (cases call) (auto split: prod.splits sum.splits)

lemma run_inv_runs:
  assumes "run_inv load good valid n0 l0 s"
    and "\<And>off. CallPush (Some off) \<in> set calls \<Longrightarrow> valid off"
    and "\<And>n. CallAccept n \<in> set calls \<Longrightarrow> 0 < n \<and> n \<le> u64_max"
    and "n0 + length (run_hist s) + length calls \<le> u64_max"
  shows "run_inv load good valid n0 l0 (barrier_runs save calls s)"
  using assms
proof (induction calls arbitrary: s)
  case Nil
  then show ?case by (simp add: barrier_runs_def)
next
  case (Cons call calls)
  have step: "run_inv load good valid n0 l0 (barrier_step save call s)"
  proof (cases call)
    case (CallPush off)
    with Cons.prems show ?thesis using run_inv_push [OF Cons.prems(1), of off] by auto
  next
    case (CallAccept n)
    with Cons.prems show ?thesis using run_inv_accept [OF Cons.prems(1), of n] by auto
  qed
  have "n0 + length (run_hist (barrier_step save call s)) + length calls \<le> u64_max"
    using run_hist_length [of call s] Cons.prems(4) by simp
  from Cons.IH [OF step _ _ this] Cons.prems(2,3) show ?case by (simp add: barrier_runs_def)
qed

lemma barrier_run_safe:
  assumes "good c" and "load c = l0"
    and "\<And>off. CallPush (Some off) \<in> set calls \<Longrightarrow> valid off"
    and "\<And>n. CallAccept n \<in> set calls \<Longrightarrow> 0 < n \<and> n \<le> u64_max"
    and "n0 + length calls \<le> u64_max"
    and s: "s = barrier_runs save calls (barrier_start cap n0 c)"
  shows "barrier_inv (run_barrier s)"
    and "\<exists>k \<le> run_granted s. load (run_store s) = durable l0 (take k (run_hist s))"
    and "committed_event_count (run_barrier s) \<le> n0 + run_granted s"
    and "run_granted s \<le> length (run_hist s)"
proof -
  have "run_inv load good valid n0 l0 s"
    unfolding s using assms by (intro run_inv_runs run_inv_start) (auto simp: barrier_start_def)
  then show "barrier_inv (run_barrier s)"
    and "\<exists>k \<le> run_granted s. load (run_store s) = durable l0 (take k (run_hist s))"
    and "committed_event_count (run_barrier s) \<le> n0 + run_granted s"
    and "run_granted s \<le> length (run_hist s)"
    by (auto simp: run_inv_def)
qed

lemma accept_durable:
  assumes "good c" "barrier_inv b" "0 < n" "n \<le> length (unaccepted_of b)"
    and "committed_event_count b + length (accepted_of b) + n \<le> u64_max"
    and "count c = Inr m" "m \<le> committed_event_count b"
    and off: "last_persistable (map rec_offset (take (length (accepted_of b) + n) (pending_records b)))
      = Some off" and "valid off"
    and acc: "accept_and_commit save n b c = (b', c', Inr u)"
  shows "load c' = Inr (Some off) \<and> count c' = Inr (committed_event_count b')"
proof -
  let ?k = "length (accepted_of b) + n"
  have n: "n \<le> u64_max" using assms(5) by simp
  have t: "wrap_add64 (committed_event_count b) ?k = committed_event_count b + ?k"
    using assms(5) by (intro wrap_add64_small) simp
  from acc obtain u' where s: "save off (committed_event_count b + ?k) c = (c', Inr u')"
    and b': "b' = drain_committed ?k (committed_event_count b + ?k) b"
    unfolding accept_and_commit_eq [OF assms(2,3,4) n] off t
    by (auto split: prod.splits sum.splits)
  have "m < committed_event_count b + ?k" using assms(3,7) by simp
  from save_ok [OF assms(1) \<open>valid off\<close> assms(6) this s] b' show ?thesis
    by (simp add: drain_committed_def Let_def)
qed

end


section \<open>Properties of the barrier\<close>

lemma mark_accepted_all:
  "0 < m \<Longrightarrow> m \<le> u64_max \<Longrightarrow> length rs \<le> m \<Longrightarrow> r \<in> set (mark_accepted m rs) \<Longrightarrow> rec_accepted r"
proof (induction rs arbitrary: m)
  case (Cons x xs)
  show ?case
  proof (cases "rec_accepted x")
    case True
    with Cons show ?thesis by (auto intro: Cons.IH [of m])
  next
    case False
    show ?thesis
    proof (cases "m = 1")
      case True
      with Cons.prems False show ?thesis by (auto simp: wrap_sub64_def set_accepted_def)
    next
      case m: False
      with Cons.prems False have "r = set_accepted True x \<or> r \<in> set (mark_accepted (m - 1) xs)"
        using wrap_sub64_one [of m] by (auto split: if_splits)
      with Cons.prems m Cons.IH [of "m - 1"] show ?thesis by (auto simp: set_accepted_def)
    qed
  qed
qed simp

lemma mark_accepted_zero:
  "length rs \<le> u64_max \<Longrightarrow> \<forall>r \<in> set (mark_accepted 0 rs). rec_accepted r"
proof (induction rs)
  case (Cons x xs)
  have "\<forall>r \<in> set (mark_accepted u64_max xs). rec_accepted r"
    using mark_accepted_all [of u64_max xs] Cons.prems by (auto simp: u64_max_def)
  moreover have "wrap_sub64 0 (Suc 0) = u64_max" "u64_max \<noteq> 0"
    by (simp_all add: wrap_sub64_def u64_max_def)
  ultimately show ?case using Cons by (auto simp: set_accepted_def)
qed simp

text \<open>
  C9. Acknowledging \<open>n\<close> further events is transactional. When the call reports success it has done
  exactly one commit of the abstract ledger (the already accepted and the \<open>n\<close> new positions leave
  the queue, the count grows by their number); when it reports an error, whatever the store did, the
  barrier is exactly what it was, so the identical call can be retried.
\<close>

theorem accept_and_commit_refines:
  assumes "barrier_inv b" "0 < n"
    and "committed_event_count b + length (pending_records b) + n \<le> u64_max"
    and acc: "accept_and_commit save n b c = (b', c', r)"
  shows "case r of Inl e \<Rightarrow> b' = b | Inr u \<Rightarrow> ledger_commit n (barrier_abs b) = Some (barrier_abs b')"
proof (cases "n \<le> length (unaccepted_of b)")
  case True
  let ?k = "length (accepted_of b) + n"
  have n: "n \<le> u64_max" and k: "?k \<le> length (pending_records b)"
    using assms(3) True by (auto simp: length_pending)
  have "wrap_add64 (committed_event_count b) ?k = committed_event_count b + ?k"
    using assms(3) k by (intro wrap_add64_small) simp
  then show ?thesis
    using acc k barrier_abs_drain [OF assms(1), of ?k]
    unfolding accept_and_commit_eq [OF assms(1,2) True n]
    by (auto simp: ledger_commit_def Let_def barrier_abs_def
        split: option.splits prod.splits sum.splits)
next
  case False
  with assms show ?thesis by (auto simp: notify_excess)
qed

definition example_barrier :: "nat commit_barrier" where
  "example_barrier = (barrier_new 4)\<lparr>pending_records :=
     [\<lparr>rec_offset = Some 10, rec_accepted = False\<rparr>, \<lparr>rec_offset = None, rec_accepted = False\<rparr>,
      \<lparr>rec_offset = Some 30, rec_accepted = False\<rparr>]\<rparr>"

lemma example_barrier_inv: "barrier_inv example_barrier"
  by (simp add: barrier_inv_def example_barrier_def barrier_new_def accepted_prefix_def)

lemmas example_accept_simps =
  example_barrier_def barrier_new_def accept_and_commit_def notify_consumer_accepted_def commit_def
  drain_committed_def accepted_of_def unaccepted_of_def set_accepted_def Let_def wrap_sub64_def
  wrap_add64_def u64_max_def

theorem accept_and_commit_refines_witness:
  "ledger_commit 2 (barrier_abs example_barrier)
     = Some (barrier_abs (fst (accept_and_commit (\<lambda>off n c. ((off, n), Inr ())) 2 example_barrier (0, 0))))"
proof -
  have e: "accept_and_commit (\<lambda>off n c. ((off, n), Inr ())) 2 example_barrier (0, 0)
    = (example_barrier\<lparr>pending_records := [\<lparr>rec_offset = Some 30, rec_accepted = False\<rparr>],
         committed_event_count := 2\<rparr>, (10, 2 :: nat), Inr ())"
    by (simp add: example_accept_simps)
  have "committed_event_count example_barrier + length (pending_records example_barrier) + 2 \<le> u64_max"
    by (simp add: example_barrier_def barrier_new_def u64_max_def)
  from accept_and_commit_refines [OF example_barrier_inv _ this e] show ?thesis by (simp add: e)
qed

text \<open>
  A failed acknowledgement does not wedge the barrier: after any sequence of outcomes that left
  an error, the same call against a store that now accepts succeeds, and ends in the state the first
  call would have reached.
\<close>

theorem accept_and_commit_retry:
  assumes "barrier_inv b" "0 < n" "n \<le> length (unaccepted_of b)" "n \<le> u64_max"
    and failed: "accept_and_commit save n b c = (b1, c1, Inl e)"
    and up: "\<And>off m. snd (save' off m c1) = Inr ()"
  shows "\<exists>c2. accept_and_commit save' n b1 c1
    = (drain_committed (length (accepted_of b) + n)
         (wrap_add64 (committed_event_count b) (length (accepted_of b) + n)) b, c2, Inr ())"
proof -
  have "b1 = b"
    using failed unfolding accept_and_commit_eq [OF assms(1-4)]
    by (auto split: option.splits prod.splits sum.splits)
  moreover have "save' off m c1 = (fst (save' off m c1), Inr ())" for off m
    using up [of off m] by (metis prod.collapse)
  ultimately show ?thesis
    unfolding accept_and_commit_eq [OF assms(1-4)] \<open>b1 = b\<close>
    by (auto split: option.split prod.split sum.split) (metis Inl_Inr_False snd_conv)+
qed

theorem accept_and_commit_retry_witness:
  "\<exists>c2. accept_and_commit (\<lambda>off n c. (Suc c, Inr ())) 3 example_barrier 7
     = (example_barrier\<lparr>pending_records := [], barrier_state := Committed, committed_event_count := 3\<rparr>,
        c2, Inr ())"
proof -
  have "accept_and_commit (\<lambda>off n c. (c, Inl (StateError ''down''))) 3 example_barrier 7
      = (example_barrier, 7, Inl (StateError ''down''))"
    by (simp add: example_accept_simps)
  moreover have "3 \<le> length (unaccepted_of example_barrier)" "(3::nat) \<le> u64_max"
    by (simp_all add: example_accept_simps u64_max_def)
  ultimately have "\<exists>c2. accept_and_commit (\<lambda>off n c. (Suc c, Inr ())) 3 example_barrier 7
    = (drain_committed (length (accepted_of example_barrier) + 3)
        (wrap_add64 (committed_event_count example_barrier) (length (accepted_of example_barrier) + 3))
        example_barrier, c2, Inr ())"
    by (intro accept_and_commit_retry [OF example_barrier_inv]) simp_all
  then show ?thesis by (simp add: example_accept_simps)
qed

text \<open>
  Acknowledging nothing is not a no-op. With no guard on zero the counter of the marking loop
  wraps below zero, so \<open>notify_consumer_accepted(0)\<close> marks every pending record as accepted, and the
  next commit persists positions no consumer acknowledged.
\<close>

theorem notify_zero_accepts_everything:
  assumes "length (pending_records b) \<le> u64_max"
  shows "snd (notify_consumer_accepted 0 b) = Inr ()
    \<and> (\<forall>r \<in> set (pending_records (fst (notify_consumer_accepted 0 b))). rec_accepted r)"
  using mark_accepted_zero [OF assms] by (simp add: notify_consumer_accepted_def)

theorem notify_zero_accepts_everything_witness:
  "list_all (\<lambda>r. \<not> rec_accepted r) (pending_records example_barrier)
   \<and> list_all rec_accepted (pending_records (fst (notify_consumer_accepted 0 example_barrier)))"
proof -
  have "length (pending_records example_barrier) \<le> u64_max"
    by (simp add: example_barrier_def barrier_new_def u64_max_def)
  from notify_zero_accepts_everything [OF this] show ?thesis
    by (simp add: list_all_iff) (simp add: example_barrier_def barrier_new_def)
qed

end
