(* ===== verification/Checkpoint_Progress.thy ===== *)
theory Checkpoint_Progress
  imports Checkpoint_Interface Json_Value
begin

text \<open>
  The progress rules every checkpoint write passes (\<open>checkpoint/mod.rs\<close>): the committed count never
  goes back, one count names one offset, and the connector's own stream coordinate does not rewind.
  An offset (\<open>dyn Offset\<close>) is seen the way the stores see it: its source type and the JSON value
  its encoding parses to, \<open>None\<close> when the bytes are not JSON.
\<close>

section \<open>Records and coordinates\<close>

type_synonym offset = "string \<times> json option"

record stored_checkpoint_record =
  scr_source_type :: string
  scr_committed_event_count :: nat
  scr_offset :: json

definition compares_stream_position :: "string \<Rightarrow> bool" where
  "compares_stream_position st \<longleftrightarrow>
     st \<in> set [''postgres'', ''mysql'', ''mariadb'', ''sqlserver'', ''snowflake'']"

definition from_offset :: "offset \<Rightarrow> nat \<Rightarrow> stored_checkpoint_record result" where
  "from_offset off n =
     (case off of (st, v) \<Rightarrow>
        (case v of
           Some j \<Rightarrow> Inr \<lparr>scr_source_type = st, scr_committed_event_count = n, scr_offset = j\<rparr>
         | None \<Rightarrow>
             if compares_stream_position st
             then Inl (SerializationError ''checkpoint offset is not JSON'')
             else Inr \<lparr>scr_source_type = st, scr_committed_event_count = n, scr_offset = JNull\<rparr>))"

definition cdc_cursor_lsn :: "json \<Rightarrow> string option" where
  "cdc_cursor_lsn v =
     (case Option.bind (json_get v ''cursor'') as_str of
        None \<Rightarrow> None
      | Some cursor \<Rightarrow>
          Some (case split_once (CHR '':'') cursor of None \<Rightarrow> cursor | Some (lsn, _) \<Rightarrow> lsn))"

definition binlog_coordinate :: "json \<Rightarrow> (nat \<times> nat) option" where
  "binlog_coordinate v =
     (case Option.bind (json_get v ''binlog_file'') as_str of
        None \<Rightarrow> None
      | Some file \<Rightarrow>
          (case rsplit_once (CHR ''.'') file of
             None \<Rightarrow> None
           | Some (_, digits) \<Rightarrow>
               (case parse_u64 digits of
                  None \<Rightarrow> None
                | Some sequence \<Rightarrow>
                    (case Option.bind (json_get v ''binlog_pos'') as_u64 of
                       None \<Rightarrow> None
                     | Some pos \<Rightarrow> if pos \<le> u32_max then Some (sequence, pos) else None))))"

text \<open>The detail text is built from these values.\<close>

datatype regression =
    PostgresLsnZero nat
  | BinlogPosition "nat \<times> nat" "nat \<times> nat"
  | CdcCommitLsn string string
  | SnowflakeWindow nat nat

definition coord_less :: "nat \<times> nat \<Rightarrow> nat \<times> nat \<Rightarrow> bool" where
  "coord_less a b \<longleftrightarrow> fst a < fst b \<or> (fst a = fst b \<and> snd a < snd b)"

definition postgres_regression :: "json \<Rightarrow> json \<Rightarrow> regression option" where
  "postgres_regression existing new =
     (if json_get existing ''slot_name'' \<noteq> json_get new ''slot_name'' then None
      else case (Option.bind (json_get existing ''lsn'') as_u64, Option.bind (json_get new ''lsn'') as_u64) of
             (Some before, Some after) \<Rightarrow>
               if after = 0 \<and> before > 0 then Some (PostgresLsnZero before) else None
           | _ \<Rightarrow> None)"

definition mysql_regression :: "json \<Rightarrow> json \<Rightarrow> regression option" where
  "mysql_regression existing new =
     (if (case Option.bind (json_get new ''gtid'') as_str of None \<Rightarrow> False | Some g \<Rightarrow> g \<noteq> []) then None
      else if json_get existing ''source_flavor'' \<noteq> json_get new ''source_flavor'' then None
      else case (binlog_coordinate existing, binlog_coordinate new) of
             (Some before, Some after) \<Rightarrow>
               if coord_less after before then Some (BinlogPosition before after) else None
           | _ \<Rightarrow> None)"

definition sqlserver_regression :: "json \<Rightarrow> json \<Rightarrow> regression option" where
  "sqlserver_regression existing new =
     (case (cdc_cursor_lsn existing, cdc_cursor_lsn new) of
        (Some before, Some after) \<Rightarrow> if after < before then Some (CdcCommitLsn before after) else None
      | _ \<Rightarrow> None)"

definition snowflake_regression :: "json \<Rightarrow> json \<Rightarrow> regression option" where
  "snowflake_regression existing new =
     (if json_get existing ''database'' \<noteq> json_get new ''database''
         \<or> json_get existing ''schema'' \<noteq> json_get new ''schema'' then None
      else case (Option.bind (json_get existing ''window_end_nanos'') as_u64,
                 Option.bind (json_get new ''window_end_nanos'') as_u64) of
             (Some before, Some after) \<Rightarrow> if after < before then Some (SnowflakeWindow before after) else None
           | _ \<Rightarrow> None)"

definition stream_position_regression :: "string \<Rightarrow> json \<Rightarrow> json \<Rightarrow> regression option" where
  "stream_position_regression st existing new =
     (if st = ''postgres'' then postgres_regression existing new
      else if st = ''mysql'' \<or> st = ''mariadb'' then mysql_regression existing new
      else if st = ''sqlserver'' then sqlserver_regression existing new
      else if st = ''snowflake'' then snowflake_regression existing new
      else None)"

definition validate_checkpoint_progress ::
    "stored_checkpoint_record option \<Rightarrow> stored_checkpoint_record \<Rightarrow> unit result" where
  "validate_checkpoint_progress existing new =
     (case existing of
        None \<Rightarrow> Inr ()
      | Some old \<Rightarrow>
          if scr_committed_event_count old > scr_committed_event_count new
          then Inl (CheckpointError ''refusing non-monotonic checkpoint write'')
          else if scr_committed_event_count old = scr_committed_event_count new
                  \<and> scr_offset old \<noteq> scr_offset new
          then Inl (CheckpointError ''refusing conflicting checkpoint write'')
          else case stream_position_regression (scr_source_type new) (scr_offset old) (scr_offset new) of
                 Some _ \<Rightarrow> Inl (CheckpointError ''refusing checkpoint write: stream position moved backwards'')
               | None \<Rightarrow> Inr ())"

section \<open>What an accepted write guarantees\<close>

lemma validate_progress_ok:
  "validate_checkpoint_progress (Some old) new = Inr u \<longleftrightarrow>
     scr_committed_event_count old \<le> scr_committed_event_count new
     \<and> (scr_committed_event_count old = scr_committed_event_count new \<longrightarrow> scr_offset old = scr_offset new)
     \<and> stream_position_regression (scr_source_type new) (scr_offset old) (scr_offset new) = None"
  by (auto simp: validate_checkpoint_progress_def split: option.split)

lemma validate_progress_None [simp]: "validate_checkpoint_progress None new = Inr ()"
  by (simp add: validate_checkpoint_progress_def)

lemma validate_progress_refl:
  "validate_checkpoint_progress (Some old) old = Inr ()"
  by (auto simp: validate_progress_ok stream_position_regression_def postgres_regression_def
      mysql_regression_def sqlserver_regression_def snowflake_regression_def coord_less_def
      split: option.split)

text \<open>A chain of writes, each checked against the record before it.\<close>

fun accepted_chain :: "stored_checkpoint_record list \<Rightarrow> bool" where
  "accepted_chain (a # b # rs) \<longleftrightarrow>
     validate_checkpoint_progress (Some a) b = Inr () \<and> accepted_chain (b # rs)"
| "accepted_chain _ \<longleftrightarrow> True"

definition snowflake_window :: "string \<Rightarrow> string \<Rightarrow> stored_checkpoint_record \<Rightarrow> nat option" where
  "snowflake_window db schema r =
     (if scr_source_type r = ''snowflake'' \<and> json_get (scr_offset r) ''database'' = Some (JString db)
         \<and> json_get (scr_offset r) ''schema'' = Some (JString schema)
      then Option.bind (json_get (scr_offset r) ''window_end_nanos'') as_u64 else None)"

definition sqlserver_lsn :: "stored_checkpoint_record \<Rightarrow> string option" where
  "sqlserver_lsn r = (if scr_source_type r = ''sqlserver'' then cdc_cursor_lsn (scr_offset r) else None)"

lemma accepted_chain_sorted:
  assumes step: "\<And>a b x y. validate_checkpoint_progress (Some a) b = Inr () \<Longrightarrow>
      f a = Some x \<Longrightarrow> f b = Some y \<Longrightarrow> x \<le> (y :: 'a :: linorder)"
    and "accepted_chain rs" "\<forall>r \<in> set rs. f r \<noteq> None"
  shows "sorted (map (\<lambda>r. the (f r)) rs)"
  using assms(2,3)
proof (induction rs rule: accepted_chain.induct)
  case (1 a b rs)
  then have "sorted (map (\<lambda>r. the (f r)) (b # rs))" by simp
  moreover have "the (f a) \<le> the (f b)" using 1 step by fastforce
  ultimately show ?case by auto
qed simp_all

lemma accepted_step_snowflake:
  "validate_checkpoint_progress (Some a) b = Inr () \<Longrightarrow>
   snowflake_window db schema a = Some x \<Longrightarrow> snowflake_window db schema b = Some y \<Longrightarrow> x \<le> y"
  by (auto simp: validate_progress_ok snowflake_window_def stream_position_regression_def
      snowflake_regression_def split: if_splits)

lemma accepted_step_sqlserver:
  "validate_checkpoint_progress (Some a) b = Inr () \<Longrightarrow>
   sqlserver_lsn a = Some x \<Longrightarrow> sqlserver_lsn b = Some y \<Longrightarrow> x \<le> y"
  by (auto simp: validate_progress_ok sqlserver_lsn_def stream_position_regression_def
      sqlserver_regression_def split: if_splits)

text \<open>
  C12. Along any chain of accepted checkpoint writes the committed count never decreases; for SQL
  Server the commit LSN never moves backwards, whichever of the two cursor forms each write carries,
  and for Snowflake neither does the window end of one database and schema.
\<close>

theorem accepted_writes_never_rewind:
  assumes "accepted_chain rs"
  shows "sorted (map scr_committed_event_count rs)
    \<and> ((\<forall>r \<in> set rs. sqlserver_lsn r \<noteq> None) \<longrightarrow> sorted (map (\<lambda>r. the (sqlserver_lsn r)) rs))
    \<and> ((\<forall>r \<in> set rs. snowflake_window db schema r \<noteq> None)
        \<longrightarrow> sorted (map (\<lambda>r. the (snowflake_window db schema r)) rs))"
proof -
  have "sorted (map (\<lambda>r. the (Some (scr_committed_event_count r))) rs)"
    by (rule accepted_chain_sorted [OF _ assms]) (auto simp: validate_progress_ok)
  moreover have "sorted (map (\<lambda>r. the (sqlserver_lsn r)) rs)" if "\<forall>r \<in> set rs. sqlserver_lsn r \<noteq> None"
    using accepted_step_sqlserver by (rule accepted_chain_sorted [OF _ assms that])
  moreover have "sorted (map (\<lambda>r. the (snowflake_window db schema r)) rs)"
    if "\<forall>r \<in> set rs. snowflake_window db schema r \<noteq> None"
    using accepted_step_snowflake by (rule accepted_chain_sorted [OF _ assms that])
  ultimately show ?thesis by simp
qed

definition example_cursor :: "nat \<Rightarrow> string \<Rightarrow> stored_checkpoint_record" where
  "example_cursor n c =
     \<lparr>scr_source_type = ''sqlserver'', scr_committed_event_count = n,
      scr_offset = JObject [(''cursor'', JString c)]\<rparr>"

theorem accepted_writes_never_rewind_witness:
  "sorted (map (\<lambda>r. the (sqlserver_lsn r))
     [example_cursor 1 ''0x0a'', example_cursor 4 ''0x0b:0x01:2'', example_cursor 5 ''0x0b''])"
proof -
  have "accepted_chain [example_cursor 1 ''0x0a'', example_cursor 4 ''0x0b:0x01:2'', example_cursor 5 ''0x0b'']"
    by code_simp
  moreover have "\<forall>r \<in> set [example_cursor 1 ''0x0a'', example_cursor 4 ''0x0b:0x01:2'', example_cursor 5 ''0x0b''].
      sqlserver_lsn r \<noteq> None"
    by code_simp
  ultimately show ?thesis using accepted_writes_never_rewind by blast
qed

end
