(* ===== verification/Checkpoint_Store.thy ===== *)
theory Checkpoint_Store
  imports Commit_Barrier Checkpoint_Progress "HOL-Library.AList" "HOL-Library.Product_Lexorder"
begin

text \<open>
  The two checkpoint stores of \<open>checkpoint/mod.rs\<close>. \<open>InMemoryCheckpoint\<close> is its queue of entries.
  \<open>FileCheckpoint\<close> is a directory of named files with a mode and a modification time, the handle's
  own fields, and a script of what the outside world does to each save: the clock reading and the
  filesystem call that fails, if any. SHA-256 over a record's fields and serde's decoding of an
  offset struct are arguments (\<open>sha\<close>, \<open>decodes\<close>), as are the answers of the owner lease
  (\<open>checkpoint/owner_lease.rs\<close>). Both stores are shown to satisfy \<open>checkpoint_store\<close>.
\<close>

section \<open>The in-memory store\<close>

record 'o stored_checkpoint =
  sc_offset :: 'o
  sc_committed_event_count :: nat

type_synonym 'o in_memory_checkpoint = "'o stored_checkpoint list"

definition in_memory_save ::
    "'o \<Rightarrow> nat \<Rightarrow> 'o in_memory_checkpoint \<Rightarrow> 'o in_memory_checkpoint \<times> unit result" where
  "in_memory_save off n entries =
     (entries @ [\<lparr>sc_offset = off, sc_committed_event_count = n\<rparr>], Inr ())"

definition in_memory_load :: "'o in_memory_checkpoint \<Rightarrow> 'o option result" where
  "in_memory_load entries = Inr (if entries = [] then None else Some (sc_offset (last entries)))"

definition in_memory_get_committed_count :: "'o in_memory_checkpoint \<Rightarrow> nat result" where
  "in_memory_get_committed_count entries =
     Inr (if entries = [] then 0 else sc_committed_event_count (last entries))"

interpretation mem: checkpoint_store in_memory_save in_memory_load in_memory_get_committed_count
  "\<lambda>_. True" "\<lambda>_. True"
  by unfold_locales (auto simp: in_memory_save_def in_memory_load_def in_memory_get_committed_count_def)

section \<open>The file store: state\<close>

record file_checkpoint_record =
  fcr_checkpoint_format_version :: nat
  fcr_source_type :: string
  fcr_committed_event_count :: nat
  fcr_offset :: json
  fcr_content_checksum :: string

type_synonym digest = "nat \<times> string \<times> nat \<times> json \<Rightarrow> string"

definition FILE_CHECKPOINT_FORMAT_VERSION :: nat where
  "FILE_CHECKPOINT_FORMAT_VERSION = 1"

definition compute_checksum :: "digest \<Rightarrow> file_checkpoint_record \<Rightarrow> string" where
  "compute_checksum sha r =
     sha (fcr_checkpoint_format_version r, fcr_source_type r, fcr_committed_event_count r, fcr_offset r)"

definition file_checkpoint_record_new :: "digest \<Rightarrow> string \<Rightarrow> nat \<Rightarrow> json \<Rightarrow> file_checkpoint_record" where
  "file_checkpoint_record_new sha st n v =
     (let r = \<lparr>fcr_checkpoint_format_version = FILE_CHECKPOINT_FORMAT_VERSION, fcr_source_type = st,
               fcr_committed_event_count = n, fcr_offset = v, fcr_content_checksum = []\<rparr>
      in r\<lparr>fcr_content_checksum := compute_checksum sha r\<rparr>)"

definition verify_checksum :: "digest \<Rightarrow> file_checkpoint_record \<Rightarrow> unit result" where
  "verify_checksum sha r =
     (if fcr_content_checksum r = compute_checksum sha r then Inr ()
      else Inl (CheckpointError ''checkpoint file failed its integrity check''))"

text \<open>A file whose bytes do not parse as a record has content \<open>None\<close>.\<close>

record dir_entry =
  de_content :: "file_checkpoint_record option"
  de_mode :: nat
  de_mtime :: nat

datatype io_step = OpenTemp | SetMode | WriteTemp | SyncTemp | RenameTemp | SyncDirectory

record file_checkpoint =
  fc_exists :: bool
  fc_is_dir :: bool
  fc_entries :: "(string \<times> dir_entry) list"
  fc_file_mode :: nat
  fc_lease :: bool
  fc_read_only :: bool
  fc_acquire :: "string option"
  fc_verify :: "string option"
  fc_world :: "nat \<Rightarrow> nat \<times> io_step option"
  fc_tick :: nat

section \<open>The file store: operations\<close>

definition source_family :: "string \<Rightarrow> string" where
  "source_family st = (case strip_suffix ''_snapshot'' st of None \<Rightarrow> st | Some f \<Rightarrow> f)"

definition checkpoint_name :: "string \<Rightarrow> string" where
  "checkpoint_name st = ''checkpoint_'' @ st @ ''.json''"

definition temp_name :: "string \<Rightarrow> nat \<Rightarrow> string" where
  "temp_name st stamp = ''checkpoint_'' @ st @ ''.'' @ show_nat stamp @ ''.tmp''"

definition is_checkpoint_name :: "string \<Rightarrow> bool" where
  "is_checkpoint_name name \<longleftrightarrow> prefix ''checkpoint_'' name \<and> suffix ''.json'' name"

definition is_temp_name :: "string \<Rightarrow> bool" where
  "is_temp_name name \<longleftrightarrow> prefix ''checkpoint_'' name \<and> suffix ''.tmp'' name"

definition ensure_directory :: "file_checkpoint \<Rightarrow> unit result" where
  "ensure_directory fc =
     (if \<not> fc_exists fc then Inl (CheckpointError ''checkpoint directory does not exist'')
      else if \<not> fc_is_dir fc then Inl (CheckpointError ''checkpoint path is not a directory'')
      else Inr ())"

definition discard_orphaned_temp_files :: "file_checkpoint \<Rightarrow> file_checkpoint" where
  "discard_orphaned_temp_files fc =
     fc\<lparr>fc_entries := filter (\<lambda>e. \<not> is_temp_name (fst e)) (fc_entries fc)\<rparr>"

definition ensure_owner_lease :: "file_checkpoint \<Rightarrow> file_checkpoint \<times> unit result" where
  "ensure_owner_lease fc =
     (if fc_read_only fc then (fc, Inr ())
      else if fc_lease fc then (fc, Inr ())
      else case ensure_directory fc of
             Inl e \<Rightarrow> (fc, Inl e)
           | Inr _ \<Rightarrow>
               (case fc_acquire fc of
                  Some msg \<Rightarrow> (fc, Inl (CheckpointError msg))
                | None \<Rightarrow> (discard_orphaned_temp_files (fc\<lparr>fc_lease := True\<rparr>), Inr ())))"

definition verify_lease_still_held :: "file_checkpoint \<Rightarrow> unit result" where
  "verify_lease_still_held fc =
     (if fc_read_only fc then Inl (CheckpointError ''this FileCheckpoint handle is read-only and cannot write'')
      else if fc_lease fc
      then (case fc_verify fc of None \<Rightarrow> Inr () | Some msg \<Rightarrow> Inl (CheckpointError msg))
      else Inl (CheckpointError ''checkpoint owner lease is not held; refusing to write''))"

definition check_file_permissions :: "dir_entry \<Rightarrow> unit result" where
  "check_file_permissions e =
     (if de_mode e mod 64 \<noteq> 0 then Inl (CheckpointError ''checkpoint file has insecure permissions'')
      else Inr ())"

definition validate_record_version :: "file_checkpoint_record \<Rightarrow> unit result" where
  "validate_record_version r =
     (if fcr_checkpoint_format_version r = FILE_CHECKPOINT_FORMAT_VERSION then Inr ()
      else Inl (CheckpointError ''unsupported checkpoint file format version''))"

definition read_record :: "digest \<Rightarrow> dir_entry \<Rightarrow> file_checkpoint_record result" where
  "read_record sha e =
     (case check_file_permissions e of
        Inl err \<Rightarrow> Inl err
      | Inr _ \<Rightarrow>
          (case de_content e of
             None \<Rightarrow> Inl (SerializationError ''checkpoint file'')
           | Some r \<Rightarrow>
               (case validate_record_version r of
                  Inl err \<Rightarrow> Inl err
                | Inr _ \<Rightarrow> (case verify_checksum sha r of Inl err \<Rightarrow> Inl err | Inr _ \<Rightarrow> Inr r))))"

definition checkpoint_files :: "file_checkpoint \<Rightarrow> (string \<times> dir_entry) list result" where
  "checkpoint_files fc =
     (case ensure_directory fc of
        Inl e \<Rightarrow> Inl e
      | Inr _ \<Rightarrow> Inr (filter (\<lambda>e. is_checkpoint_name (fst e)) (fc_entries fc)))"

type_synonym dated_record = "nat \<times> string \<times> file_checkpoint_record"

fun read_records :: "digest \<Rightarrow> (string \<times> dir_entry) list \<Rightarrow> dated_record list result" where
  "read_records sha [] = Inr []"
| "read_records sha ((name, e) # files) =
     (case read_record sha e of
        Inl err \<Rightarrow> Inl err
      | Inr r \<Rightarrow>
          (case read_records sha files of
             Inl err \<Rightarrow> Inl err
           | Inr rs \<Rightarrow> Inr ((de_mtime e, name, r) # rs)))"

text \<open>The sort compares the count, then the modification time, then the path.\<close>

definition record_key :: "dated_record \<Rightarrow> nat \<times> nat \<times> string" where
  "record_key = (\<lambda>(mtime, name, r). (fcr_committed_event_count r, mtime, name))"

definition latest_of :: "dated_record list \<Rightarrow> file_checkpoint_record option result" where
  "latest_of rs =
     (if rs = [] then Inr None
      else if length (remdups (map (\<lambda>(_, _, r). source_family (fcr_source_type r)) rs)) > 1
      then Inl (CheckpointError ''mixed checkpoint source families found in directory'')
      else Inr (Some (snd (snd (last (sort_key record_key rs))))))"

definition load_latest_record ::
    "digest \<Rightarrow> file_checkpoint \<Rightarrow> file_checkpoint_record option result" where
  "load_latest_record sha fc =
     (case checkpoint_files fc of
        Inl e \<Rightarrow> Inl e
      | Inr files \<Rightarrow> (case read_records sha files of Inl e \<Rightarrow> Inl e | Inr rs \<Rightarrow> latest_of rs))"

definition validate_monotonic_progress ::
    "digest \<Rightarrow> string \<Rightarrow> file_checkpoint_record \<Rightarrow> file_checkpoint \<Rightarrow> unit result" where
  "validate_monotonic_progress sha st new fc =
     (case map_of (fc_entries fc) (checkpoint_name st) of
        None \<Rightarrow> Inr ()
      | Some e \<Rightarrow>
          (case read_record sha e of
             Inl err \<Rightarrow> Inl err
           | Inr old \<Rightarrow>
               validate_checkpoint_progress
                 (Some \<lparr>scr_source_type = fcr_source_type old,
                        scr_committed_event_count = fcr_committed_event_count old,
                        scr_offset = fcr_offset old\<rparr>)
                 \<lparr>scr_source_type = fcr_source_type new,
                  scr_committed_event_count = fcr_committed_event_count new,
                  scr_offset = fcr_offset new\<rparr>))"

text \<open>
  The durable write: create the temporary file, set its mode, write, sync, rename over the final
  name, sync the directory. A failing step leaves behind what the earlier ones did; a temporary
  file that already exists makes \<open>create_new\<close> fail.
\<close>

definition write_and_rename ::
    "nat \<Rightarrow> string \<Rightarrow> file_checkpoint_record \<Rightarrow> file_checkpoint \<Rightarrow> file_checkpoint \<times> unit result" where
  "write_and_rename mode st r fc =
     (let (stamp, fault) = fc_world fc (fc_tick fc);
          temp = temp_name st stamp;
          fc1 = fc\<lparr>fc_tick := Suc (fc_tick fc)\<rparr>;
          put = (\<lambda>content m. fc1\<lparr>fc_entries :=
             AList.update temp \<lparr>de_content = content, de_mode = m, de_mtime = stamp\<rparr> (fc_entries fc)\<rparr>);
          renamed = fc1\<lparr>fc_entries :=
             AList.update (checkpoint_name st)
               \<lparr>de_content = Some r, de_mode = mode, de_mtime = stamp\<rparr>
               (AList.delete temp (fc_entries fc))\<rparr>
      in if fault = Some OpenTemp \<or> map_of (fc_entries fc) temp \<noteq> None
         then (fc1, Inl (IoError ''open''))
         else if fault = Some SetMode then (put None 420, Inl (IoError ''set_permissions''))
         else if fault = Some WriteTemp then (put None mode, Inl (IoError ''write''))
         else if fault = Some SyncTemp then (put (Some r) mode, Inl (IoError ''sync_all''))
         else if fault = Some RenameTemp then (put (Some r) mode, Inl (IoError ''rename''))
         else if fault = Some SyncDirectory then (renamed, Inl (IoError ''fsync directory''))
         else (renamed, Inr ()))"

definition save_blocking ::
    "digest \<Rightarrow> string \<Rightarrow> file_checkpoint_record \<Rightarrow> file_checkpoint \<Rightarrow> file_checkpoint \<times> unit result" where
  "save_blocking sha st r fc =
     (case ensure_owner_lease fc of
        (fc1, Inl e) \<Rightarrow> (fc1, Inl e)
      | (fc1, Inr _) \<Rightarrow>
          (case verify_lease_still_held fc1 of
             Inl e \<Rightarrow> (fc1, Inl e)
           | Inr _ \<Rightarrow>
               (case ensure_directory fc1 of
                  Inl e \<Rightarrow> (fc1, Inl e)
                | Inr _ \<Rightarrow>
                    (case validate_monotonic_progress sha st r fc1 of
                       Inl e \<Rightarrow> (fc1, Inl e)
                     | Inr _ \<Rightarrow> write_and_rename (fc_file_mode fc1) st r fc1))))"

definition file_save ::
    "digest \<Rightarrow> offset \<Rightarrow> nat \<Rightarrow> file_checkpoint \<Rightarrow> file_checkpoint \<times> unit result" where
  "file_save sha off n fc =
     (case snd off of
        None \<Rightarrow> (fc, Inl (SerializationError ''offset''))
      | Some v \<Rightarrow> save_blocking sha (fst off) (file_checkpoint_record_new sha (fst off) n v) fc)"

text \<open>
  The typed decoding of a loaded record: the four source types with a struct of their own must
  deserialize, every other namespace is returned as opaque bytes.
\<close>

definition decode_offset ::
    "(string \<Rightarrow> json \<Rightarrow> bool) \<Rightarrow> file_checkpoint_record \<Rightarrow> offset result" where
  "decode_offset decodes r =
     (if fcr_source_type r \<in> set [''postgres'', ''mysql'', ''mariadb'', ''sqlserver'']
         \<and> \<not> decodes (fcr_source_type r) (fcr_offset r)
      then Inl (SerializationError ''offset'')
      else Inr (fcr_source_type r, Some (fcr_offset r)))"

definition load_blocking ::
    "digest \<Rightarrow> (string \<Rightarrow> json \<Rightarrow> bool) \<Rightarrow> file_checkpoint \<Rightarrow> file_checkpoint \<times> offset option result" where
  "load_blocking sha decodes fc =
     (case ensure_owner_lease fc of
        (fc1, Inl e) \<Rightarrow> (fc1, Inl e)
      | (fc1, Inr _) \<Rightarrow>
          (fc1, (case load_latest_record sha fc1 of
                   Inl e \<Rightarrow> Inl e
                 | Inr None \<Rightarrow> Inr None
                 | Inr (Some r) \<Rightarrow>
                     (case decode_offset decodes r of Inl e \<Rightarrow> Inl e | Inr off \<Rightarrow> Inr (Some off)))))"

definition committed_count_blocking :: "digest \<Rightarrow> file_checkpoint \<Rightarrow> file_checkpoint \<times> nat result" where
  "committed_count_blocking sha fc =
     (case ensure_owner_lease fc of
        (fc1, Inl e) \<Rightarrow> (fc1, Inl e)
      | (fc1, Inr _) \<Rightarrow>
          (fc1, (case load_latest_record sha fc1 of
                   Inl e \<Rightarrow> Inl e
                 | Inr None \<Rightarrow> Inr 0
                 | Inr (Some r) \<Rightarrow> Inr (fcr_committed_event_count r))))"

definition restore_from_record_with_mode ::
    "digest \<Rightarrow> string \<Rightarrow> json option \<Rightarrow> nat \<Rightarrow> nat \<Rightarrow> file_checkpoint \<Rightarrow> file_checkpoint \<times> unit result" where
  "restore_from_record_with_mode sha st offset_value n mode fc =
     (case ensure_directory fc of
        Inl e \<Rightarrow> (fc, Inl e)
      | Inr _ \<Rightarrow>
          (case offset_value of
             None \<Rightarrow> (fc, Inl (CheckpointError ''restore_from_record: offset_bytes are not valid JSON''))
           | Some v \<Rightarrow> write_and_rename mode st (file_checkpoint_record_new sha st n v) fc))"

definition restore_from_record ::
    "digest \<Rightarrow> string \<Rightarrow> json option \<Rightarrow> nat \<Rightarrow> file_checkpoint \<Rightarrow> file_checkpoint \<times> unit result" where
  "restore_from_record sha st offset_value n fc =
     restore_from_record_with_mode sha st offset_value n 384 fc"

section \<open>What a load sees\<close>

text \<open>A load and a save look only at the files with a checkpoint's name.\<close>

definition visible :: "file_checkpoint \<Rightarrow> (string \<times> dir_entry) list" where
  "visible fc = filter (\<lambda>e. is_checkpoint_name (fst e)) (fc_entries fc)"

lemma is_checkpoint_name_final [simp]: "is_checkpoint_name (checkpoint_name st)"
  by (simp add: is_checkpoint_name_def checkpoint_name_def suffix_def)

lemma checkpoint_name_inj [simp]: "checkpoint_name a = checkpoint_name b \<longleftrightarrow> a = b"
  by (simp add: checkpoint_name_def)

lemma suffix_last: "suffix (xs @ [x]) ys \<Longrightarrow> last ys = x"
  by (auto simp: suffix_def)

lemma temp_not_checkpoint:
  assumes "is_temp_name name"
  shows "\<not> is_checkpoint_name name"
proof
  assume "is_checkpoint_name name"
  then have "last name = CHR ''n''"
    using suffix_last [of "''.jso''" "CHR ''n''" name] by (simp add: is_checkpoint_name_def)
  moreover from assms have "last name = CHR ''p''"
    using suffix_last [of "''.tm''" "CHR ''p''" name] by (simp add: is_temp_name_def)
  ultimately show False by simp
qed

lemma is_temp_name_temp [simp]: "is_temp_name (temp_name st stamp)"
  by (simp add: is_temp_name_def temp_name_def suffix_def)

lemma not_checkpoint_temp [simp]: "\<not> is_checkpoint_name (temp_name st stamp)"
  by (simp add: temp_not_checkpoint)

lemma filter_update_other:
  "\<not> P k \<Longrightarrow> filter (\<lambda>e. P (fst e)) (AList.update k v es) = filter (\<lambda>e. P (fst e)) es"
  by (induction es) auto

lemma filter_delete_other:
  "\<not> P k \<Longrightarrow> filter (\<lambda>e. P (fst e)) (AList.delete k es) = filter (\<lambda>e. P (fst e)) es"
  by (induction es) (auto simp: AList.delete_eq)

lemma filter_update_same:
  "P k \<Longrightarrow> filter (\<lambda>e. P (fst e)) (AList.update k v es) = AList.update k v (filter (\<lambda>e. P (fst e)) es)"
  by (induction es) auto

lemma visible_discard [simp]: "visible (discard_orphaned_temp_files fc) = visible fc"
  by (auto simp: visible_def discard_orphaned_temp_files_def temp_not_checkpoint intro!: filter_cong)

lemma map_of_visible: "is_checkpoint_name k \<Longrightarrow> map_of (visible fc) k = map_of (fc_entries fc) k"
proof -
  assume k: "is_checkpoint_name k"
  have "map_of (filter (\<lambda>e. is_checkpoint_name (fst e)) es) k = map_of es k" for es :: "(string \<times> dir_entry) list"
    using k by (induction es) auto
  then show ?thesis by (simp add: visible_def)
qed

text \<open>What every operation leaves of the handle: the world's script and the directory flags.\<close>

definition same_handle :: "file_checkpoint \<Rightarrow> file_checkpoint \<Rightarrow> bool" where
  "same_handle a b \<longleftrightarrow> fc_exists a = fc_exists b \<and> fc_is_dir a = fc_is_dir b
     \<and> fc_file_mode a = fc_file_mode b \<and> fc_read_only a = fc_read_only b \<and> fc_acquire a = fc_acquire b
     \<and> fc_verify a = fc_verify b \<and> fc_world a = fc_world b"

lemma ensure_owner_lease_same:
  assumes "ensure_owner_lease fc = (fc1, r)"
  shows "same_handle fc1 fc \<and> visible fc1 = visible fc \<and> fc_tick fc1 = fc_tick fc
    \<and> (distinct (map fst (fc_entries fc)) \<longrightarrow> distinct (map fst (fc_entries fc1)))
    \<and> snd (ensure_owner_lease fc1) = r"
proof -
  have "visible (fc\<lparr>fc_lease := True\<rparr>) = visible fc" by (simp add: visible_def)
  with assms show ?thesis
    using visible_discard [of "fc\<lparr>fc_lease := True\<rparr>"]
    by (auto simp: ensure_owner_lease_def same_handle_def ensure_directory_def
        discard_orphaned_temp_files_def distinct_map_filter split: if_splits option.splits)
qed

lemma load_latest_visible:
  "load_latest_record sha fc =
     (case ensure_directory fc of
        Inl e \<Rightarrow> Inl e
      | Inr _ \<Rightarrow> (case read_records sha (visible fc) of Inl e \<Rightarrow> Inl e | Inr rs \<Rightarrow> latest_of rs))"
  by (auto simp: load_latest_record_def checkpoint_files_def visible_def split: sum.split)

section \<open>What a save changes\<close>

lemma validate_monotonic_cong:
  "visible a = visible b \<Longrightarrow> validate_monotonic_progress sha st r a = validate_monotonic_progress sha st r b"
  using map_of_visible [of "checkpoint_name st" a] map_of_visible [of "checkpoint_name st" b]
  by (simp add: validate_monotonic_progress_def)

definition written :: "nat \<Rightarrow> nat \<Rightarrow> file_checkpoint_record \<Rightarrow> dir_entry" where
  "written mode stamp r = \<lparr>de_content = Some r, de_mode = mode, de_mtime = stamp\<rparr>"

lemma write_and_rename_cases:
  assumes "write_and_rename mode st r fc = (fc', res)"
  shows "same_handle fc' fc \<and> fc_lease fc' = fc_lease fc \<and> fc_tick fc' = Suc (fc_tick fc)
    \<and> (distinct (map fst (fc_entries fc)) \<longrightarrow> distinct (map fst (fc_entries fc')))
    \<and> (visible fc' = visible fc \<and> isl res
       \<or> visible fc' = AList.update (checkpoint_name st)
           (written mode (fst (fc_world fc (fc_tick fc))) r) (visible fc))"
proof -
  obtain stamp fault where w: "fc_world fc (fc_tick fc) = (stamp, fault)" by force
  have vis: "visible (fc\<lparr>fc_tick := n, fc_entries := es\<rparr>)
    = filter (\<lambda>e. is_checkpoint_name (fst e)) es" for n es
    by (simp add: visible_def)
  from assms show ?thesis
    unfolding write_and_rename_def w Let_def
    by (auto simp: same_handle_def vis filter_update_same filter_update_other filter_delete_other
        visible_def written_def isl_def distinct_update distinct_delete split: if_splits)
qed

lemma save_blocking_cases:
  assumes save: "save_blocking sha st r fc = (fc', res)"
  shows "same_handle fc' fc" and "snd (ensure_owner_lease fc') = snd (ensure_owner_lease fc)"
    and "fc_tick fc \<le> fc_tick fc'"
    and "distinct (map fst (fc_entries fc)) \<Longrightarrow> distinct (map fst (fc_entries fc'))"
    and "visible fc' = visible fc \<and> isl res
      \<or> visible fc' = AList.update (checkpoint_name st)
           (written (fc_file_mode fc) (fst (fc_world fc (fc_tick fc))) r) (visible fc)
        \<and> ensure_directory fc = Inr () \<and> snd (ensure_owner_lease fc) = Inr () \<and> \<not> fc_read_only fc
        \<and> fc_tick fc' = Suc (fc_tick fc) \<and> validate_monotonic_progress sha st r fc = Inr ()"
proof -
  obtain fc1 lr where lease: "ensure_owner_lease fc = (fc1, lr)" by force
  note same1 = ensure_owner_lease_same [OF lease]
  have dir1: "ensure_directory fc1 = ensure_directory fc"
    using same1 by (simp add: ensure_directory_def same_handle_def)
  have val1: "validate_monotonic_progress sha st r fc1 = validate_monotonic_progress sha st r fc"
    using same1 by (intro validate_monotonic_cong) simp
  consider (fail) "fc' = fc1" "isl res"
    | (wrote) "write_and_rename (fc_file_mode fc1) st r fc1 = (fc', res)" "lr = Inr ()" "fc_lease fc1"
        "\<not> fc_read_only fc1" "ensure_directory fc1 = Inr ()" "validate_monotonic_progress sha st r fc1 = Inr ()"
    using save unfolding save_blocking_def lease
    by (auto simp: verify_lease_still_held_def isl_def split: sum.splits if_splits option.splits) metis+
  then have all: "same_handle fc' fc \<and> snd (ensure_owner_lease fc') = snd (ensure_owner_lease fc)
    \<and> fc_tick fc \<le> fc_tick fc'
    \<and> (distinct (map fst (fc_entries fc)) \<longrightarrow> distinct (map fst (fc_entries fc')))
    \<and> (visible fc' = visible fc \<and> isl res
      \<or> visible fc' = AList.update (checkpoint_name st)
           (written (fc_file_mode fc) (fst (fc_world fc (fc_tick fc))) r) (visible fc)
        \<and> ensure_directory fc = Inr () \<and> snd (ensure_owner_lease fc) = Inr () \<and> \<not> fc_read_only fc
        \<and> fc_tick fc' = Suc (fc_tick fc) \<and> validate_monotonic_progress sha st r fc = Inr ())"
  proof cases
    case fail
    with same1 lease show ?thesis by auto
  next
    case wrote
    note w = write_and_rename_cases [OF wrote(1)]
    have "snd (ensure_owner_lease fc') = Inr ()"
      using w wrote by (simp add: ensure_owner_lease_def)
    with w wrote same1 lease dir1 val1 show ?thesis by (auto simp: same_handle_def)
  qed
  from all show "same_handle fc' fc" by blast
  from all show "snd (ensure_owner_lease fc') = snd (ensure_owner_lease fc)" by blast
  from all show "fc_tick fc \<le> fc_tick fc'" by blast
  from all show "distinct (map fst (fc_entries fc)) \<Longrightarrow> distinct (map fst (fc_entries fc'))" by blast
  from all show "visible fc' = visible fc \<and> isl res
      \<or> visible fc' = AList.update (checkpoint_name st)
           (written (fc_file_mode fc) (fst (fc_world fc (fc_tick fc))) r) (visible fc)
        \<and> ensure_directory fc = Inr () \<and> snd (ensure_owner_lease fc) = Inr () \<and> \<not> fc_read_only fc
        \<and> fc_tick fc' = Suc (fc_tick fc) \<and> validate_monotonic_progress sha st r fc = Inr ()"
    by blast
qed

section \<open>The furthest record\<close>

lemma last_sort_key_max:
  fixes f :: "'a \<Rightarrow> 'k :: linorder"
  assumes "xs \<noteq> []"
  shows "last (sort_key f xs) \<in> set xs" and "x \<in> set xs \<Longrightarrow> f x \<le> f (last (sort_key f xs))"
proof -
  have ne: "sort_key f xs \<noteq> []" using assms by (metis set_empty set_sort)
  then show "last (sort_key f xs) \<in> set xs" by (metis last_in_set set_sort)
  assume "x \<in> set xs"
  then obtain i where i: "i < length (sort_key f xs)" "sort_key f xs ! i = x"
    by (metis in_set_conv_nth set_sort)
  have "sorted (map f (sort_key f xs))" by simp
  then have "map f (sort_key f xs) ! i \<le> map f (sort_key f xs) ! (length (sort_key f xs) - 1)"
    using i(1) by (intro sorted_nth_mono) auto
  moreover have "length (sort_key f xs) - 1 < length (sort_key f xs)" using i(1) by simp
  ultimately show "f x \<le> f (last (sort_key f xs))"
    using i ne by (simp add: last_conv_nth)
qed

lemma last_sort_key_eqI:
  fixes f :: "'a \<Rightarrow> 'k :: linorder"
  assumes "x \<in> set xs" "\<And>y. y \<in> set xs \<Longrightarrow> f y \<le> f x" "inj_on f (set xs)"
  shows "last (sort_key f xs) = x"
proof -
  have "xs \<noteq> []" using assms(1) by auto
  note m = last_sort_key_max [OF this, where f = f]
  have "f (last (sort_key f xs)) = f x" using m assms by (intro antisym) auto
  with m(1) assms show ?thesis by (auto dest: inj_onD)
qed

fun dated :: "string \<times> dir_entry \<Rightarrow> dated_record" where
  "dated (name, e) = (de_mtime e, name, the (de_content e))"

definition furthest :: "(string \<times> dir_entry) list \<Rightarrow> dated_record" where
  "furthest es = last (sort_key record_key (map dated es))"

definition sound_entry :: "digest \<Rightarrow> (string \<Rightarrow> json \<Rightarrow> bool) \<Rightarrow> string \<Rightarrow> string \<times> dir_entry \<Rightarrow> bool" where
  "sound_entry sha decodes fam = (\<lambda>(name, e).
     (case read_record sha e of
        Inl _ \<Rightarrow> False
      | Inr r \<Rightarrow> name = checkpoint_name (fcr_source_type r) \<and> source_family (fcr_source_type r) = fam
          \<and> \<not> isl (decode_offset decodes r)))"

lemma read_record_content: "read_record sha e = Inr r \<Longrightarrow> de_content e = Some r"
  by (auto simp: read_record_def split: sum.splits option.splits)

lemma read_records_sound:
  "\<forall>x \<in> set es. sound_entry sha decodes fam x \<Longrightarrow> read_records sha es = Inr (map dated es)"
  by (induction es) (auto simp: sound_entry_def read_record_content split: sum.splits)

lemma sound_family:
  "sound_entry sha decodes fam x \<Longrightarrow> source_family (fcr_source_type (snd (snd (dated x)))) = fam"
  by (cases x) (auto simp: sound_entry_def split: sum.splits dest: read_record_content)

lemma latest_of_Nil [simp]: "latest_of [] = Inr None"
  by (simp add: latest_of_def)

lemma latest_sound:
  assumes "\<forall>x \<in> set es. sound_entry sha decodes fam x"
  shows "latest_of (map dated es) = Inr (if es = [] then None else Some (snd (snd (furthest es))))"
proof -
  have "set (map (\<lambda>(_, _, r). source_family (fcr_source_type r)) (map dated es)) \<subseteq> {fam}"
    using assms sound_family by (fastforce simp: case_prod_beta)
  then have "card (set (map (\<lambda>(_, _, r). source_family (fcr_source_type r)) (map dated es))) \<le> card {fam}"
    by (intro card_mono) auto
  then show ?thesis by (simp add: latest_of_def furthest_def length_remdups_card_conv)
qed

lemma record_key_inj: "distinct (map fst es) \<Longrightarrow> inj_on record_key (set (map dated es))"
  by (auto simp: inj_on_def record_key_def distinct_map) (metis prod.inject fst_conv)+

lemma set_update_distinct:
  "distinct (map fst es) \<Longrightarrow> set (AList.update k v es) = {x \<in> set es. fst x \<noteq> k} \<union> {(k, v)}"
  by (induction es) (auto simp: image_iff)

lemma furthest_in: "es \<noteq> [] \<Longrightarrow> furthest es \<in> dated ` set es"
  using last_sort_key_max(1) [of "map dated es" record_key] by (simp add: furthest_def)

lemma furthest_ge: "x \<in> set es \<Longrightarrow> record_key (dated x) \<le> record_key (furthest es)"
  using last_sort_key_max(2) [of "map dated es" "dated x" record_key] by (force simp: furthest_def)

lemma furthest_eqI:
  "distinct (map fst es) \<Longrightarrow> x \<in> set es \<Longrightarrow> (\<And>y. y \<in> set es \<Longrightarrow> record_key (dated y) \<le> record_key (dated x)) \<Longrightarrow>
   furthest es = dated x"
  unfolding furthest_def by (rule last_sort_key_eqI) (use record_key_inj in auto)

lemma furthest_update:
  assumes dist: "distinct (map fst es)"
    and old: "\<And>e. (k, e) \<in> set es \<Longrightarrow> record_key (dated (k, e)) \<le> record_key (dated (k, e'))"
  shows "furthest (AList.update k e' es) = dated (k, e')
    \<or> es \<noteq> [] \<and> furthest (AList.update k e' es) = furthest es"
proof -
  let ?es = "AList.update k e' es"
  have dist': "distinct (map fst ?es)" using dist by (simp add: distinct_update)
  note set = set_update_distinct [OF dist, of k e']
  then have "?es \<noteq> []" by auto
  from furthest_in [OF this] obtain x where x: "x \<in> set ?es" "furthest ?es = dated x" by auto
  show ?thesis
  proof (cases "x = (k, e')")
    case False
    with x(1) set have "x \<in> set es" by auto
    moreover have "record_key (dated y) \<le> record_key (dated x)" if y: "y \<in> set es" for y
    proof (cases "fst y = k")
      case True
      then have "record_key (dated y) \<le> record_key (dated (k, e'))" using old y by (cases y) auto
      also have "\<dots> \<le> record_key (dated x)" using furthest_ge [of "(k, e')" ?es] set x by simp
      finally show ?thesis .
    qed (use furthest_ge [of y ?es] set y x in auto)
    ultimately have "furthest es = dated x" by (intro furthest_eqI [OF dist]) auto
    with x \<open>x \<in> set es\<close> show ?thesis by auto
  qed (use x in simp)
qed

section \<open>The file store satisfies the interface\<close>

text \<open>
  The directory holds readable records of one family, each under its own name; the handle writes
  files only the owner can read; the clock does not run backwards.
\<close>

definition file_good :: "digest \<Rightarrow> (string \<Rightarrow> json \<Rightarrow> bool) \<Rightarrow> string \<Rightarrow> file_checkpoint \<Rightarrow> bool" where
  "file_good sha decodes fam fc \<longleftrightarrow>
     distinct (map fst (fc_entries fc)) \<and> fc_file_mode fc mod 64 = 0
     \<and> (\<forall>i j. i \<le> j \<longrightarrow> fst (fc_world fc i) \<le> fst (fc_world fc j))
     \<and> (\<forall>x \<in> set (visible fc). sound_entry sha decodes fam x
          \<and> de_mtime (snd x) \<le> fst (fc_world fc (fc_tick fc)))"

definition file_valid :: "(string \<Rightarrow> json \<Rightarrow> bool) \<Rightarrow> string \<Rightarrow> offset \<Rightarrow> bool" where
  "file_valid decodes fam off \<longleftrightarrow>
     source_family (fst off) = fam
     \<and> (case snd off of None \<Rightarrow> True
         | Some v \<Rightarrow> fst off \<in> set [''postgres'', ''mysql'', ''mariadb'', ''sqlserver''] \<longrightarrow> decodes (fst off) v)"

definition file_load :: "digest \<Rightarrow> (string \<Rightarrow> json \<Rightarrow> bool) \<Rightarrow> file_checkpoint \<Rightarrow> offset option result" where
  "file_load sha decodes fc = snd (load_blocking sha decodes fc)"

definition file_get_committed_count :: "digest \<Rightarrow> file_checkpoint \<Rightarrow> nat result" where
  "file_get_committed_count sha fc = snd (committed_count_blocking sha fc)"

lemma file_good_load_latest:
  assumes "file_good sha decodes fam fc"
  shows "load_latest_record sha fc =
    (case ensure_directory fc of
       Inl e \<Rightarrow> Inl e
     | Inr _ \<Rightarrow> Inr (if visible fc = [] then None else Some (snd (snd (furthest (visible fc))))))"
proof -
  have sound: "\<forall>x \<in> set (visible fc). sound_entry sha decodes fam x"
    using assms by (simp add: file_good_def)
  show ?thesis
    by (simp add: load_latest_visible read_records_sound [OF sound] latest_sound [OF sound] split: sum.split)
qed

lemma furthest_decodes:
  assumes "file_good sha decodes fam fc" "visible fc \<noteq> []" "furthest (visible fc) = (t, name, r)"
  shows "decode_offset decodes r = Inr (fcr_source_type r, Some (fcr_offset r))"
proof -
  from furthest_in [OF assms(2)] obtain x where x: "x \<in> set (visible fc)" "dated x = (t, name, r)"
    using assms(3) by auto
  with assms(1) have "sound_entry sha decodes fam x" by (simp add: file_good_def)
  with x(2) have "\<not> isl (decode_offset decodes r)"
    by (cases x) (auto simp: sound_entry_def read_record_content split: sum.splits)
  then show ?thesis by (auto simp: decode_offset_def split: if_splits)
qed

text \<open>The position and the count a sound directory stands for.\<close>

definition position_of :: "(string \<times> dir_entry) list \<Rightarrow> offset option" where
  "position_of es =
     (if es = [] then None
      else case furthest es of (_, _, r) \<Rightarrow> Some (fcr_source_type r, Some (fcr_offset r)))"

definition count_of :: "(string \<times> dir_entry) list \<Rightarrow> nat" where
  "count_of es = (if es = [] then 0 else case furthest es of (_, _, r) \<Rightarrow> fcr_committed_event_count r)"

definition lease_and_dir :: "file_checkpoint \<Rightarrow> unit result" where
  "lease_and_dir fc = (case snd (ensure_owner_lease fc) of Inl e \<Rightarrow> Inl e | Inr _ \<Rightarrow> ensure_directory fc)"

lemma file_good_lease:
  assumes "file_good sha decodes fam fc" "ensure_owner_lease fc = (fc1, r)"
  shows "file_good sha decodes fam fc1" "visible fc1 = visible fc"
    "ensure_directory fc1 = ensure_directory fc"
  using ensure_owner_lease_same [OF assms(2)] assms(1)
  by (auto simp: file_good_def same_handle_def ensure_directory_def)

lemma file_load_eq:
  assumes "file_good sha decodes fam fc"
  shows "file_load sha decodes fc
    = (case lease_and_dir fc of Inl e \<Rightarrow> Inl e | Inr _ \<Rightarrow> Inr (position_of (visible fc)))"
proof -
  obtain fc1 r where l: "ensure_owner_lease fc = (fc1, r)" by force
  note g = file_good_lease [OF assms l]
  show ?thesis
    using furthest_decodes [OF g(1)]
    unfolding file_load_def load_blocking_def lease_and_dir_def l prod.case
    by (cases "furthest (visible fc)")
      (auto simp: file_good_load_latest [OF g(1)] position_of_def g(2,3) split: sum.split)
qed

lemma file_count_eq:
  assumes "file_good sha decodes fam fc"
  shows "file_get_committed_count sha fc
    = (case lease_and_dir fc of Inl e \<Rightarrow> Inl e | Inr _ \<Rightarrow> Inr (count_of (visible fc)))"
proof -
  obtain fc1 r where l: "ensure_owner_lease fc = (fc1, r)" by force
  note g = file_good_lease [OF assms l]
  show ?thesis
    unfolding file_get_committed_count_def committed_count_blocking_def lease_and_dir_def l prod.case
    by (cases "furthest (visible fc)")
      (auto simp: file_good_load_latest [OF g(1)] count_of_def g(2,3) split: sum.split)
qed

lemma read_record_written:
  assumes "mode mod 64 = 0"
  shows "read_record sha (written mode stamp (file_checkpoint_record_new sha st n v))
    = Inr (file_checkpoint_record_new sha st n v)"
  using assms
  by (simp add: read_record_def check_file_permissions_def written_def validate_record_version_def
      verify_checksum_def file_checkpoint_record_new_def compute_checksum_def Let_def)

lemma record_new_simps [simp]:
  "fcr_source_type (file_checkpoint_record_new sha st n v) = st"
  "fcr_committed_event_count (file_checkpoint_record_new sha st n v) = n"
  "fcr_offset (file_checkpoint_record_new sha st n v) = v"
  by (simp_all add: file_checkpoint_record_new_def Let_def)

lemma sound_written:
  assumes "mode mod 64 = 0" "file_valid decodes fam (st, Some v)"
  shows "sound_entry sha decodes fam
    (checkpoint_name st, written mode stamp (file_checkpoint_record_new sha st n v))"
  using assms by (auto simp: sound_entry_def read_record_written decode_offset_def file_valid_def)

lemma visible_distinct: "distinct (map fst (fc_entries fc)) \<Longrightarrow> distinct (map fst (visible fc))"
  by (simp add: visible_def distinct_map_filter)

lemma same_handle_dir: "same_handle a b \<Longrightarrow> ensure_directory a = ensure_directory b"
  by (simp add: same_handle_def ensure_directory_def)

text \<open>A save either leaves the visible directory alone and reports an error, or has put its record there.\<close>

lemma file_save_effect:
  assumes good: "file_good sha decodes fam fc" and valid: "file_valid decodes fam (st, Some v)"
    and save: "file_save sha (st, Some v) n fc = (fc', res)"
  defines "e' \<equiv> written (fc_file_mode fc) (fst (fc_world fc (fc_tick fc))) (file_checkpoint_record_new sha st n v)"
  shows "file_good sha decodes fam fc'" and "lease_and_dir fc' = lease_and_dir fc"
    and "visible fc' = visible fc \<and> isl res
      \<or> visible fc' = AList.update (checkpoint_name st) e' (visible fc) \<and> lease_and_dir fc = Inr ()
        \<and> (\<forall>e. (checkpoint_name st, e) \<in> set (visible fc) \<longrightarrow>
             record_key (dated (checkpoint_name st, e)) \<le> record_key (dated (checkpoint_name st, e')))"
proof -
  note c = save_blocking_cases [OF save [unfolded file_save_def snd_conv fst_conv option.case]]
  have dist: "distinct (map fst (visible fc))" using good by (simp add: file_good_def visible_distinct)
  show lease: "lease_and_dir fc' = lease_and_dir fc"
    unfolding lease_and_dir_def c(2) same_handle_dir [OF c(1)] ..
  have key: "record_key (dated (checkpoint_name st, e)) \<le> record_key (dated (checkpoint_name st, e'))"
    if val: "validate_monotonic_progress sha st (file_checkpoint_record_new sha st n v) fc = Inr ()"
      and e: "(checkpoint_name st, e) \<in> set (visible fc)" for e
  proof -
    have "map_of (fc_entries fc) (checkpoint_name st) = Some e"
      using e dist map_of_visible [of "checkpoint_name st" fc] by simp
    moreover have "sound_entry sha decodes fam (checkpoint_name st, e)"
      using good e unfolding file_good_def by blast
    then obtain old where old: "read_record sha e = Inr old"
      by (auto simp: sound_entry_def split: sum.splits)
    ultimately have "fcr_committed_event_count old \<le> n"
      using val by (auto simp: validate_monotonic_progress_def validate_progress_ok)
    moreover have "de_mtime e \<le> fst (fc_world fc (fc_tick fc))"
      using good e by (force simp: file_good_def)
    ultimately show ?thesis
      using read_record_content [OF old] by (auto simp: record_key_def e'_def written_def less_eq_prod_def)
  qed
  from c(5) show cases: "visible fc' = visible fc \<and> isl res
      \<or> visible fc' = AList.update (checkpoint_name st) e' (visible fc) \<and> lease_and_dir fc = Inr ()
        \<and> (\<forall>e. (checkpoint_name st, e) \<in> set (visible fc) \<longrightarrow>
             record_key (dated (checkpoint_name st, e)) \<le> record_key (dated (checkpoint_name st, e')))"
    using key by (auto simp: e'_def lease_and_dir_def)
  have mono: "fst (fc_world fc (fc_tick fc)) \<le> fst (fc_world fc (fc_tick fc'))"
    using good c(3) by (simp add: file_good_def)
  have "sound_entry sha decodes fam x \<and> de_mtime (snd x) \<le> fst (fc_world fc (fc_tick fc'))"
    if "x \<in> set (visible fc')" for x
  proof (cases "x \<in> set (visible fc)")
    case True
    with good mono show ?thesis by (auto simp: file_good_def intro: order_trans)
  next
    case False
    with that cases dist have "x = (checkpoint_name st, e')" by (auto simp: set_update_distinct)
    with sound_written [OF _ valid] good mono show ?thesis
      by (simp add: file_good_def e'_def written_def)
  qed
  with good c(1,4) show "file_good sha decodes fam fc'" by (simp add: file_good_def same_handle_def)
qed

lemma file_save_none: "file_save sha (st, None) n fc = (fc, Inl (SerializationError ''offset''))"
  by (simp add: file_save_def)

lemma position_count_written:
  assumes "furthest es = dated (checkpoint_name st, written mode stamp (file_checkpoint_record_new sha st n v))"
    and "es \<noteq> []"
  shows "position_of es = Some (st, Some v)" and "count_of es = n"
  using assms by (simp_all add: position_of_def count_of_def written_def)

lemma furthest_count:
  "x \<in> set es \<Longrightarrow> fcr_committed_event_count (snd (snd (dated x))) \<le> count_of es"
  using furthest_ge [of x es]
  by (cases "furthest es"; cases x) (auto simp: count_of_def record_key_def less_eq_prod_def)

lemma file_store_laws:
  assumes good: "file_good sha decodes fam fc" and valid: "file_valid decodes fam off"
    and save: "file_save sha off n fc = (fc', res)"
  shows "file_good sha decodes fam fc'"
    and "file_load sha decodes fc' = file_load sha decodes fc \<or> file_load sha decodes fc' = Inr (Some off)"
    and "res = Inr u \<Longrightarrow> file_get_committed_count sha fc = Inr m \<Longrightarrow> m < n \<Longrightarrow>
      file_load sha decodes fc' = Inr (Some off) \<and> file_get_committed_count sha fc' = Inr n"
proof -
  obtain st w where off: "off = (st, w)" by force
  have all: "file_good sha decodes fam fc'
    \<and> (file_load sha decodes fc' = file_load sha decodes fc \<or> file_load sha decodes fc' = Inr (Some off))
    \<and> (res = Inr u \<longrightarrow> file_get_committed_count sha fc = Inr m \<longrightarrow> m < n \<longrightarrow>
        file_load sha decodes fc' = Inr (Some off) \<and> file_get_committed_count sha fc' = Inr n)"
  proof (cases w)
    case None
    with save off good show ?thesis by (auto simp: file_save_none)
  next
    case (Some v)
    note eff = file_save_effect [OF good valid [unfolded off Some] save [unfolded off Some]]
    let ?e' = "written (fc_file_mode fc) (fst (fc_world fc (fc_tick fc))) (file_checkpoint_record_new sha st n v)"
    let ?es = "AList.update (checkpoint_name st) ?e' (visible fc)"
    note eqs = file_load_eq [OF good] file_load_eq [OF eff(1)] file_count_eq [OF good] file_count_eq [OF eff(1)]
    show ?thesis
    proof (cases "visible fc' = visible fc \<and> isl res")
      case True
      then show ?thesis using eff(1) eff(2) by (auto simp: eqs split: sum.split)
    next
      case False
      with eff(3) have vis: "visible fc' = ?es" and ok: "lease_and_dir fc = Inr ()"
        and key: "\<And>e. (checkpoint_name st, e) \<in> set (visible fc) \<Longrightarrow>
             record_key (dated (checkpoint_name st, e)) \<le> record_key (dated (checkpoint_name st, ?e'))" by auto
      have dist: "distinct (map fst (visible fc))" using good by (simp add: file_good_def visible_distinct)
      note set = set_update_distinct [OF dist, of "checkpoint_name st" ?e']
      then have ne: "?es \<noteq> []" by auto
      note new = position_count_written [OF _ ne]
      have "file_load sha decodes fc' = file_load sha decodes fc \<or> file_load sha decodes fc' = Inr (Some off)"
        using furthest_update [OF dist key] new(1) ne
        by (auto simp: eqs eff(2) ok vis off Some position_of_def)
      moreover have "furthest ?es = dated (checkpoint_name st, ?e')" if "count_of (visible fc) < n"
      proof -
        have "record_key (dated y) \<le> record_key (dated (checkpoint_name st, ?e'))" if y: "y \<in> set ?es" for y
        proof (cases "y = (checkpoint_name st, ?e')")
          case False
          with y set have "y \<in> set (visible fc)" by simp
          from furthest_count [OF this] have "fst (record_key (dated y)) < n"
            using \<open>count_of (visible fc) < n\<close> by (cases y) (simp add: record_key_def)
          then show ?thesis by (simp add: record_key_def written_def less_eq_prod_def)
        qed simp
        then show ?thesis using set dist by (intro furthest_eqI) (auto simp: distinct_update)
      qed
      ultimately show ?thesis
        using new eff(1) by (simp add: eqs eff(2) ok vis off Some)
    qed
  qed
  from all show "file_good sha decodes fam fc'" by blast
  from all show "file_load sha decodes fc' = file_load sha decodes fc \<or> file_load sha decodes fc' = Inr (Some off)"
    by blast
  from all show "res = Inr u \<Longrightarrow> file_get_committed_count sha fc = Inr m \<Longrightarrow> m < n \<Longrightarrow>
      file_load sha decodes fc' = Inr (Some off) \<and> file_get_committed_count sha fc' = Inr n"
    by blast
qed

interpretation disk: checkpoint_store "file_save sha" "file_load sha decodes" "file_get_committed_count sha"
  "file_good sha decodes fam" "file_valid decodes fam" for sha decodes fam
proof unfold_locales
  fix c off n c' r
  assume "file_good sha decodes fam c" "file_valid decodes fam off" "file_save sha off n c = (c', r)"
  note laws = file_store_laws [OF this]
  show "file_good sha decodes fam c'" by (rule laws(1))
  show "file_load sha decodes c' = file_load sha decodes c \<or> file_load sha decodes c' = Inr (Some off)"
    by (rule laws(2))
next
  fix c off m n c' u
  assume a: "file_good sha decodes fam c" "file_valid decodes fam off"
    and b: "file_get_committed_count sha c = Inr m" "m < n" and "file_save sha off n c = (c', Inr u)"
  from file_store_laws(3) [OF a this(5) refl b]
  show "file_load sha decodes c' = Inr (Some off) \<and> file_get_committed_count sha c' = Inr n" .
qed

end
