(* ===== verification/Checkpoint_Safety.thy ===== *)
theory Checkpoint_Safety
  imports Checkpoint_Store
begin

text \<open>
  What the commit barrier and the file store guarantee together: the interpretation of
  \<open>checkpoint_store\<close> on \<open>FileCheckpoint\<close> carries the barrier's run theorems over to the directory
  of checkpoint files, with every filesystem fault the script can inject.
\<close>

section \<open>Properties of the stores\<close>

text \<open>
  C3. The commit pipeline over the file store never loses an event. For any sequence of deliveries
  and acknowledgements, whichever filesystem calls fail on the way, the position a restart would
  resume from is the last persistable one of a prefix of the delivered events that the consumer has
  acknowledged; the committed count is that of acknowledged events only.
\<close>

theorem file_commit_never_ahead_of_consumer:
  assumes "file_good sha decodes fam fc"
    and "\<And>off. CallPush (Some off) \<in> set calls \<Longrightarrow> file_valid decodes fam off"
    and "\<And>n. CallAccept n \<in> set calls \<Longrightarrow> 0 < n \<and> n \<le> u64_max"
    and "n0 + length calls \<le> u64_max"
    and "s = barrier_runs (file_save sha) calls (barrier_start cap n0 fc)"
  shows "(\<exists>k \<le> run_granted s. file_load sha decodes (run_store s)
            = durable (file_load sha decodes fc) (take k (run_hist s)))
    \<and> run_granted s \<le> length (run_hist s)
    \<and> committed_event_count (run_barrier s) \<le> n0 + run_granted s"
  using disk.barrier_run_safe [OF assms(1) refl assms(2-5)] by blast

definition example_dir :: "file_checkpoint" where
  "example_dir =
     \<lparr>fc_exists = True, fc_is_dir = True, fc_entries = [], fc_file_mode = 384, fc_lease = False,
      fc_read_only = False, fc_acquire = None, fc_verify = None,
      fc_world = (\<lambda>i. (i, if i = 1 then Some SyncDirectory else None)), fc_tick = 0\<rparr>"

definition example_sha :: digest where
  "example_sha = (\<lambda>(v, st, n, j). st)"

definition example_lsn :: "nat \<Rightarrow> offset" where
  "example_lsn n = (''postgres'', Some (JObject [(''lsn'', JNumber (PosInt n)), (''slot_name'', JString ''s'')]))"

definition example_pending :: "offset commit_barrier" where
  "example_pending = (barrier_new 4)\<lparr>pending_records :=
     [\<lparr>rec_offset = Some (example_lsn 5), rec_accepted = False\<rparr>, \<lparr>rec_offset = None, rec_accepted = False\<rparr>]\<rparr>"

lemma pos2: "0 < (2 :: nat)" and le0: "0 \<le> committed_event_count example_pending"
  by simp_all

lemma example_dir_good: "file_good example_sha (\<lambda>_ _. True) ''postgres'' example_dir"
  by (simp add: file_good_def example_dir_def visible_def)

lemma example_lsn_valid: "file_valid (\<lambda>_ _. True) ''postgres'' (example_lsn n)"
  by (simp add: file_valid_def example_lsn_def source_family_def strip_suffix_def suffix_def)

definition example_calls :: "offset barrier_call list" where
  "example_calls =
     [CallPush (Some (example_lsn 5)), CallPush (Some (example_lsn 9)), CallAccept 1, CallAccept 1]"

definition example_run :: "(offset, file_checkpoint) barrier_run" where
  "example_run = barrier_runs (file_save example_sha) example_calls (barrier_start 4 0 example_dir)"

theorem file_commit_never_ahead_of_consumer_witness:
  "\<exists>k \<le> run_granted example_run. file_load example_sha (\<lambda>_ _. True) (run_store example_run)
     = durable (file_load example_sha (\<lambda>_ _. True) example_dir) (take k (run_hist example_run))"
proof -
  have "file_valid (\<lambda>_ _. True) ''postgres'' off" if "CallPush (Some off) \<in> set example_calls" for off
    using that example_lsn_valid by (auto simp only: example_calls_def set_simps barrier_call.inject option.inject
        insert_iff empty_iff barrier_call.distinct)
  moreover have "0 < n \<and> n \<le> u64_max" if "CallAccept n \<in> set example_calls" for n
    using that by (auto simp: example_calls_def u64_max_def)
  moreover have "0 + length example_calls \<le> u64_max" by (simp add: example_calls_def u64_max_def)
  ultimately show ?thesis
    using file_commit_never_ahead_of_consumer [OF example_dir_good _ _ _ example_run_def] by blast
qed

text \<open>
  C10. What an acknowledgement that reports success has made durable: reading the file store back
  yields exactly the last persistable position of the acknowledged prefix and the new count.
\<close>

theorem file_acknowledged_is_durable:
  assumes "file_good sha decodes fam fc" "barrier_inv b" "0 < n" "n \<le> length (unaccepted_of b)"
    and "committed_event_count b + length (accepted_of b) + n \<le> u64_max"
    and "file_get_committed_count sha fc = Inr m" "m \<le> committed_event_count b"
    and "last_persistable (map rec_offset (take (length (accepted_of b) + n) (pending_records b))) = Some off"
    and "file_valid decodes fam off"
    and "accept_and_commit (file_save sha) n b fc = (b', fc', Inr u)"
  shows "file_load sha decodes fc' = Inr (Some off)
    \<and> file_get_committed_count sha fc' = Inr (committed_event_count b')"
  using disk.accept_durable [OF assms] .

lemmas example_store_simps =
  example_pending_def example_dir_def example_lsn_def example_sha_def barrier_new_def unaccepted_of_def
  accepted_of_def barrier_inv_def accepted_prefix_def file_save_def save_blocking_def ensure_owner_lease_def
  ensure_directory_def discard_orphaned_temp_files_def verify_lease_still_held_def
  validate_monotonic_progress_def write_and_rename_def Let_def visible_def

theorem file_acknowledged_is_durable_witness:
  "file_load example_sha (\<lambda>_ _. True)
     (fst (snd (accept_and_commit (file_save example_sha) 2 example_pending example_dir)))
   = Inr (Some (example_lsn 5))"
proof -
  have inv: "barrier_inv example_pending" "2 \<le> length (unaccepted_of example_pending)"
      "committed_event_count example_pending + length (accepted_of example_pending) + 2 \<le> u64_max"
    by (simp_all add: example_store_simps u64_max_def)
  have last: "last_persistable (map rec_offset (take (length (accepted_of example_pending) + 2)
      (pending_records example_pending))) = Some (example_lsn 5)"
    by (simp add: example_pending_def accepted_of_def barrier_new_def)
  have cnt: "file_get_committed_count example_sha example_dir = Inr 0"
    unfolding file_count_eq [OF example_dir_good]
    by (simp add: lease_and_dir_def count_of_def example_store_simps)
  have "snd (file_save example_sha (example_lsn 5) k example_dir) = Inr ()" for k
    by (simp add: example_store_simps)
  then obtain fc' where sv: "file_save example_sha (example_lsn 5)
      (wrap_add64 (committed_event_count example_pending) (length (accepted_of example_pending) + 2)) example_dir
      = (fc', Inr ())"
    by (metis prod.collapse)
  have "(2 :: nat) \<le> u64_max" by (simp add: u64_max_def)
  from accept_and_commit_eq [OF inv(1) pos2 inv(2) this, of "file_save example_sha" example_dir]
  obtain b' where acc: "accept_and_commit (file_save example_sha) 2 example_pending example_dir
      = (b', fc', Inr ())"
    unfolding last option.case sv by simp
  from file_acknowledged_is_durable [OF example_dir_good inv(1) pos2 inv(2,3) cnt le0 last example_lsn_valid acc]
  show ?thesis by (simp add: acc)
qed

lemma read_records_ok:
  "read_records sha es = Inr rs \<Longrightarrow>
   rs = map dated es \<and> (\<forall>name e. (name, e) \<in> set es \<longrightarrow> read_record sha e = Inr (the (de_content e)))"
  by (induction es arbitrary: rs) (auto simp: read_record_content split: sum.splits)

lemma read_record_verified:
  "read_record sha e = Inr r \<Longrightarrow>
   de_mode e mod 64 = 0 \<and> fcr_checkpoint_format_version r = FILE_CHECKPOINT_FORMAT_VERSION
   \<and> fcr_content_checksum r = compute_checksum sha r"
  by (auto simp: read_record_def check_file_permissions_def validate_record_version_def verify_checksum_def
      split: sum.splits option.splits if_splits)

text \<open>
  C11. A position is loaded only from a directory in which every checkpoint file was verified: each
  is closed to group and others, has the supported version and its recorded checksum, all belong to
  one source family, and the record returned has the highest committed count of them all.
\<close>

theorem load_only_verified_records:
  assumes "load_latest_record sha fc = Inr (Some r)"
  shows "r \<in> (\<lambda>x. snd (snd (dated x))) ` set (visible fc)
    \<and> (\<forall>(name, e) \<in> set (visible fc). \<exists>r'. de_content e = Some r' \<and> de_mode e mod 64 = 0
         \<and> fcr_checkpoint_format_version r' = FILE_CHECKPOINT_FORMAT_VERSION
         \<and> fcr_content_checksum r' = compute_checksum sha r'
         \<and> source_family (fcr_source_type r') = source_family (fcr_source_type r)
         \<and> fcr_committed_event_count r' \<le> fcr_committed_event_count r)"
proof -
  obtain rs where rs: "read_records sha (visible fc) = Inr rs" and latest: "latest_of rs = Inr (Some r)"
    using assms by (auto simp: load_latest_visible split: sum.splits)
  note eq = read_records_ok [OF rs]
  let ?es = "visible fc"
  have ne: "?es \<noteq> []" using latest eq by auto
  have fam: "length (remdups (map (\<lambda>(_, _, r). source_family (fcr_source_type r)) (map dated ?es))) \<le> 1"
    and r: "r = snd (snd (furthest ?es))"
    using latest eq ne by (auto simp: latest_of_def furthest_def split: if_splits)
  let ?f = "\<lambda>x. source_family (fcr_source_type (snd (snd (dated x))))"
  have "card (?f ` set ?es) \<le> 1"
    using fam by (simp add: length_remdups_card_conv case_prod_beta image_image)
  then have same: "?f x = ?f y" if "x \<in> set ?es" "y \<in> set ?es" for x y
  proof -
    have "\<forall>a \<in> ?f ` set ?es. \<forall>b \<in> ?f ` set ?es. a = b"
      using \<open>card (?f ` set ?es) \<le> 1\<close> card_le_Suc0_iff_eq [of "?f ` set ?es"] by (simp only: One_nat_def finite_imageI finite_set)
    with that show ?thesis by blast
  qed
  from furthest_in [OF ne] obtain z where z: "z \<in> set ?es" "furthest ?es = dated z" by auto
  have "\<exists>r'. de_content e = Some r' \<and> de_mode e mod 64 = 0
         \<and> fcr_checkpoint_format_version r' = FILE_CHECKPOINT_FORMAT_VERSION
         \<and> fcr_content_checksum r' = compute_checksum sha r'
         \<and> source_family (fcr_source_type r') = source_family (fcr_source_type r)
         \<and> fcr_committed_event_count r' \<le> fcr_committed_event_count r" if x: "(name, e) \<in> set ?es" for name e
  proof -
    have rr: "read_record sha e = Inr (the (de_content e))" using eq x by blast
    have "fcr_committed_event_count (the (de_content e)) \<le> fcr_committed_event_count r"
      using furthest_count [OF x] ne r by (cases "furthest ?es") (simp add: count_of_def)
    with read_record_verified [OF rr] read_record_content [OF rr] same [OF x z(1)] r z show ?thesis
      by auto
  qed
  with z r show ?thesis by auto
qed

definition example_seeded :: file_checkpoint where
  "example_seeded = example_dir\<lparr>fc_entries :=
     [(''checkpoint_postgres.json'', written 384 1 (file_checkpoint_record_new example_sha ''postgres'' 7 JNull))]\<rparr>"

theorem load_only_verified_records_witness:
  "visible example_seeded \<noteq> [] \<and> list_all (\<lambda>(name, e). de_mode e mod 64 = 0) (visible example_seeded)"
proof -
  let ?r = "file_checkpoint_record_new example_sha ''postgres'' 7 JNull"
  have vis: "visible example_seeded = [(''checkpoint_postgres.json'', written 384 1 ?r)]"
    by (simp add: visible_def is_checkpoint_name_def suffix_def example_seeded_def)
  have "ensure_directory example_seeded = Inr ()"
    by (simp add: example_seeded_def example_dir_def ensure_directory_def)
  then have "load_latest_record example_sha example_seeded = Inr (Some ?r)"
    unfolding load_latest_visible vis by (simp add: read_record_written latest_of_def)
  from load_only_verified_records [OF this] show ?thesis by (auto simp: list_all_iff)
qed

end
