(* ===== verification/Table_Glob.thy ===== *)
theory Table_Glob
  imports Cdc_Prelude
begin

text \<open>
  Table-name patterns (\<open>core/glob.rs\<close>). \<open>glob_loop\<close> is the loop of \<open>glob_match\<close> with its two cursors
  and the single remembered star; \<open>wild\<close> is what a pattern means, star by star. The loop is shown
  to terminate and to decide exactly that meaning.
\<close>

section \<open>The matcher\<close>

definition eq_byte :: "char \<Rightarrow> char \<Rightarrow> bool" where
  "eq_byte a b \<longleftrightarrow> ascii_lower a = ascii_lower b"

function glob_loop :: "string \<Rightarrow> string \<Rightarrow> nat \<Rightarrow> nat \<Rightarrow> (nat \<times> nat) option \<Rightarrow> bool" where
  "glob_loop pattern subject p s star =
     (if p < length pattern \<and> pattern ! p = CHR ''*''
      then glob_loop pattern subject (p + 1) s (Some (p + 1, s))
      else if p < length pattern \<and> s < length subject
              \<and> (pattern ! p = CHR ''?'' \<or> eq_byte (pattern ! p) (subject ! s))
      then glob_loop pattern subject (p + 1) (s + 1) star
      else if \<not> p < length pattern \<and> s = length subject then True
      else case star of
             None \<Rightarrow> False
           | Some (star_p, star_s) \<Rightarrow>
               if star_s < length subject
               then glob_loop pattern subject star_p (star_s + 1) (Some (star_p, star_s + 1))
               else False)"
  by pat_completeness auto

text \<open>
  The remembered subject position only grows, except that a first star may set it below a start
  state that is already ahead; between two changes of it the pattern cursor grows.
\<close>

termination
  by (relation "measures
      [\<lambda>(pattern, subject, p, s, star). case star of None \<Rightarrow> 0 | Some (_, ss) \<Rightarrow> if s < ss then 1 else 0,
       \<lambda>(pattern, subject, p, s, star). case star of None \<Rightarrow> length subject + 2 | Some (_, ss) \<Rightarrow> length subject + 1 - ss,
       \<lambda>(pattern, subject, p, s, star). length pattern - p]")
    (auto split: option.splits)

definition glob_match :: "string \<Rightarrow> string \<Rightarrow> bool" where
  "glob_match pattern subject = glob_loop pattern subject 0 0 None"

definition glob_segment_matches :: "string \<Rightarrow> string \<Rightarrow> bool" where
  "glob_segment_matches pattern subject =
     (if pattern = ''*'' then True
      else if CHR ''*'' \<notin> set pattern \<and> CHR ''?'' \<notin> set pattern
      then eq_ignore_ascii_case pattern subject
      else glob_match pattern subject)"

definition table_matches :: "string \<Rightarrow> string \<Rightarrow> bool" where
  "table_matches pattern table_key =
     (if pattern = ''*'' then True
      else case (split_once (CHR ''.'') pattern, split_once (CHR ''.'') table_key) of
             (Some (pattern_schema, pattern_table), Some (key_schema, key_table)) \<Rightarrow>
               glob_segment_matches pattern_schema key_schema
               \<and> glob_segment_matches pattern_table key_table
           | (Some _, None) \<Rightarrow> False
           | (None, Some (_, key_table)) \<Rightarrow> glob_segment_matches pattern key_table
           | (None, None) \<Rightarrow> glob_segment_matches pattern table_key)"

definition is_schema_agnostic :: "string \<Rightarrow> bool" where
  "is_schema_agnostic pattern \<longleftrightarrow> pattern \<noteq> ''*'' \<and> CHR ''.'' \<notin> set pattern"

section \<open>What a pattern means\<close>

fun wild :: "string \<Rightarrow> string \<Rightarrow> bool" where
  "wild [] s \<longleftrightarrow> s = []"
| "wild (c # p) s \<longleftrightarrow>
     (if c = CHR ''*'' then \<exists>k \<le> length s. wild p (drop k s)
      else s \<noteq> [] \<and> (c = CHR ''?'' \<or> eq_byte c (hd s)) \<and> wild p (tl s))"

lemma wild_segment:
  "CHR ''*'' \<notin> set seg \<Longrightarrow> wild (seg @ p) s \<Longrightarrow> length seg \<le> length s \<and> wild p (drop (length seg) s)"
proof (induction seg arbitrary: s)
  case (Cons c seg)
  then show ?case by (cases s) auto
qed simp

lemma wild_star: "wild (CHR ''*'' # p) (drop s subject) \<longleftrightarrow> (\<exists>k \<ge> s. k \<le> max s (length subject) \<and> wild p (drop k subject))"
proof -
  have "wild (CHR ''*'' # p) (drop s subject) \<longleftrightarrow> (\<exists>j \<le> length subject - s. wild p (drop (s + j) subject))"
    by (simp add: add.commute)
  also have "\<dots> \<longleftrightarrow> (\<exists>k \<ge> s. k \<le> max s (length subject) \<and> wild p (drop k subject))"
  proof
    assume "\<exists>j \<le> length subject - s. wild p (drop (s + j) subject)"
    then obtain j where "j \<le> length subject - s" "wild p (drop (s + j) subject)" by blast
    then show "\<exists>k \<ge> s. k \<le> max s (length subject) \<and> wild p (drop k subject)"
      by (intro exI [of _ "s + j"]) auto
  next
    assume "\<exists>k \<ge> s. k \<le> max s (length subject) \<and> wild p (drop k subject)"
    then obtain k where "k \<ge> s" "k \<le> max s (length subject)" "wild p (drop k subject)" by blast
    then show "\<exists>j \<le> length subject - s. wild p (drop (s + j) subject)"
      by (intro exI [of _ "k - s"]) auto
  qed
  finally show ?thesis .
qed

text \<open>
  The loop's state: the pattern between the remembered star and the cursor has no star and has been
  matched byte by byte.
\<close>

definition glob_inv :: "string \<Rightarrow> string \<Rightarrow> nat \<Rightarrow> nat \<Rightarrow> (nat \<times> nat) option \<Rightarrow> bool" where
  "glob_inv pattern subject p s star \<longleftrightarrow>
     p \<le> length pattern \<and> s \<le> length subject
     \<and> (case star of
          None \<Rightarrow> True
        | Some (sp, ss) \<Rightarrow> sp \<le> p \<and> ss \<le> s \<and> s - ss = p - sp
            \<and> CHR ''*'' \<notin> set (take (p - sp) (drop sp pattern)))"

definition retry :: "string \<Rightarrow> string \<Rightarrow> (nat \<times> nat) option \<Rightarrow> bool" where
  "retry pattern subject star \<longleftrightarrow>
     (case star of
        None \<Rightarrow> False
      | Some (sp, ss) \<Rightarrow> \<exists>k > ss. k \<le> length subject \<and> wild (drop sp pattern) (drop k subject))"

text \<open>At a further star the older one has nothing left to offer.\<close>

lemma retry_subsumed:
  assumes inv: "glob_inv pattern subject p s star" and p: "p < length pattern" "pattern ! p = CHR ''*''"
    and retry: "retry pattern subject star"
  shows "wild (drop p pattern) (drop s subject)"
proof -
  from retry obtain sp ss k where star: "star = Some (sp, ss)" and k: "ss < k" "k \<le> length subject"
    and w: "wild (drop sp pattern) (drop k subject)"
    by (auto simp: retry_def split: option.splits)
  let ?seg = "take (p - sp) (drop sp pattern)"
  have sp: "sp \<le> p" "ss \<le> s" "s - ss = p - sp" "CHR ''*'' \<notin> set ?seg" "s \<le> length subject"
    using inv star by (auto simp: glob_inv_def)
  have len: "length ?seg = p - sp" using p sp by simp
  have "drop sp pattern = ?seg @ drop p pattern"
    using sp append_take_drop_id [of "p - sp" "drop sp pattern"] by simp
  with w have "wild (?seg @ drop p pattern) (drop k subject)" by simp
  from wild_segment [OF sp(4) this] len
  have "wild (drop p pattern) (drop (p - sp + k) subject)" "p - sp \<le> length subject - k" by simp_all
  moreover have star_p: "drop p pattern = CHR ''*'' # drop (Suc p) pattern"
    using p by (metis Cons_nth_drop_Suc)
  moreover have "s \<le> p - sp + k" using sp k by simp
  ultimately obtain j where "j \<ge> p - sp + k" "j \<le> max (p - sp + k) (length subject)"
      "wild (drop (Suc p) pattern) (drop j subject)"
    by (auto simp only: wild_star)
  with star_p \<open>s \<le> p - sp + k\<close> \<open>p - sp \<le> length subject - k\<close> k(2) show ?thesis
    unfolding star_p wild_star by (intro exI [of _ j]) auto
qed

declare glob_loop.simps [simp del]

lemma glob_inv_advance:
  assumes "glob_inv pattern subject p s star" "p < length pattern" "s < length subject" "pattern ! p \<noteq> CHR ''*''"
  shows "glob_inv pattern subject (p + 1) (s + 1) star"
proof (cases star)
  case (Some x)
  obtain sp ss where x: "x = (sp, ss)" by force
  have "sp \<le> p" using assms(1) Some x by (simp add: glob_inv_def)
  then have "take (Suc p - sp) (drop sp pattern) = take (p - sp) (drop sp pattern) @ [pattern ! p]"
    using assms(2) by (simp add: Suc_diff_le take_Suc_conv_app_nth)
  with assms Some x show ?thesis by (auto simp: glob_inv_def Suc_diff_le)
qed (use assms in \<open>auto simp: glob_inv_def\<close>)

lemma ex_greater_split:
  assumes "Suc a \<le> n"
  shows "(\<exists>k > a. k \<le> n \<and> P k) \<longleftrightarrow> P (Suc a) \<or> (\<exists>k > Suc a. k \<le> (n :: nat) \<and> P k)"
  using assms by (metis Suc_lessD Suc_lessI lessI)

lemma ex_atleast_split:
  assumes "a \<le> n"
  shows "(\<exists>k \<ge> a. k \<le> n \<and> P k) \<longleftrightarrow> P a \<or> (\<exists>k > a. k \<le> (n :: nat) \<and> P k)"
  using assms by (metis le_neq_implies_less less_imp_le order_refl)

lemma retry_step:
  assumes "ss < length subject"
  shows "retry pattern subject (Some (sp, ss)) \<longleftrightarrow>
     wild (drop sp pattern) (drop (ss + 1) subject) \<or> retry pattern subject (Some (sp, ss + 1))"
  unfolding retry_def option.case prod.case ex_greater_split [OF Suc_leI [OF assms]] by simp

lemma retry_star:
  assumes "s \<le> length subject"
  shows "wild (CHR ''*'' # rest) (drop s subject) \<longleftrightarrow>
     wild rest (drop s subject) \<or> (\<exists>k > s. k \<le> length subject \<and> wild rest (drop k subject))"
  unfolding wild_star max_absorb2 [OF assms] by (rule ex_atleast_split [OF assms])

lemma glob_loop_correct:
  "glob_inv pattern subject p s star \<Longrightarrow>
   glob_loop pattern subject p s star \<longleftrightarrow>
     wild (drop p pattern) (drop s subject) \<or> retry pattern subject star"
proof (induction pattern subject p s star rule: glob_loop.induct)
  case (1 pattern subject p s star)
  note inv = 1(4)
  let ?more = "p < length pattern"
  have dp: "drop p pattern = pattern ! p # drop (Suc p) pattern" if ?more
    using that by (metis Cons_nth_drop_Suc)
  have ds: "drop s subject = subject ! s # drop (Suc s) subject" if "s < length subject"
    using that by (metis Cons_nth_drop_Suc)
  consider (star) "?more" "pattern ! p = CHR ''*''"
    | (adv) "?more" "pattern ! p \<noteq> CHR ''*''" "s < length subject"
        "pattern ! p = CHR ''?'' \<or> eq_byte (pattern ! p) (subject ! s)"
    | (fin) "\<not> ?more" "s = length subject"
    | (rewind) "\<not> (?more \<and> pattern ! p = CHR ''*'')"
        "\<not> (?more \<and> s < length subject \<and> (pattern ! p = CHR ''?'' \<or> eq_byte (pattern ! p) (subject ! s)))"
        "\<not> (\<not> ?more \<and> s = length subject)"
    by blast
  then show ?case
  proof cases
    case star
    have inv': "glob_inv pattern subject (p + 1) s (Some (p + 1, s))"
      using inv star by (simp add: glob_inv_def)
    have s: "s \<le> length subject" using inv by (simp add: glob_inv_def)
    have "wild (drop p pattern) (drop s subject) \<longleftrightarrow>
        wild (drop (p + 1) pattern) (drop s subject) \<or> retry pattern subject (Some (p + 1, s))"
      unfolding dp [OF star(1)] star(2) retry_star [OF s] by (simp add: retry_def)
    moreover have "glob_loop pattern subject p s star = glob_loop pattern subject (p + 1) s (Some (p + 1, s))"
      using star by (simp add: glob_loop.simps [of pattern subject p s star])
    ultimately show ?thesis
      using "1.IH"(1) [OF _ inv'] star retry_subsumed [OF inv star] by auto
  next
    case adv
    have "glob_loop pattern subject p s star = glob_loop pattern subject (p + 1) (s + 1) star"
      using adv by (simp add: glob_loop.simps [of pattern subject p s star])
    moreover have "wild (drop p pattern) (drop s subject) = wild (drop (p + 1) pattern) (drop (s + 1) subject)"
      unfolding dp [OF adv(1)] ds [OF adv(3)] using adv by auto
    ultimately show ?thesis
      using "1.IH"(2) [OF _ _ glob_inv_advance [OF inv adv(1,3,2)]] adv by auto
  next
    case fin
    then show ?thesis unfolding glob_loop.simps [of pattern subject p s star] by simp
  next
    case rewind
    have nowild: "\<not> wild (drop p pattern) (drop s subject)"
    proof (cases ?more)
      case True
      with rewind show ?thesis unfolding dp [OF True] by (cases "s < length subject") (auto simp: ds)
    next
      case False
      with rewind inv show ?thesis by (auto simp: glob_inv_def)
    qed
    show ?thesis
    proof (cases star)
      case None
      with rewind nowild show ?thesis
        unfolding glob_loop.simps [of pattern subject p s star] by (auto simp: retry_def)
    next
      case (Some x)
      obtain sp ss where x: "star = Some (sp, ss)" using Some by (cases x) auto
      have ss: "ss \<le> length subject" "sp \<le> length pattern" using inv x by (auto simp: glob_inv_def)
      show ?thesis
      proof (cases "ss < length subject")
        case True
        have inv': "glob_inv pattern subject sp (ss + 1) (Some (sp, ss + 1))"
          using True ss by (simp add: glob_inv_def)
        have "glob_loop pattern subject p s star = glob_loop pattern subject sp (ss + 1) (Some (sp, ss + 1))"
          using rewind x True unfolding glob_loop.simps [of pattern subject p s star] by auto
        with "1.IH"(3) [OF rewind x _ True inv'] nowild retry_step [OF True, of pattern sp] x show ?thesis
          by simp
      next
        case False
        with rewind x nowild ss show ?thesis
          unfolding glob_loop.simps [of pattern subject p s star] by (auto simp: retry_def)
      qed
    qed
  qed
qed

lemma glob_match_wild: "glob_match pattern subject \<longleftrightarrow> wild pattern subject"
  using glob_loop_correct [of pattern subject 0 0 None]
  by (simp add: glob_match_def glob_inv_def retry_def)

lemma wild_literal:
  "CHR ''*'' \<notin> set pattern \<Longrightarrow> CHR ''?'' \<notin> set pattern \<Longrightarrow>
   wild pattern subject \<longleftrightarrow> eq_ignore_ascii_case pattern subject"
proof (induction pattern arbitrary: subject)
  case (Cons c pattern)
  then show ?case
    by (cases subject) (auto simp: eq_byte_def eq_ignore_ascii_case_def to_ascii_lowercase_def)
qed (auto simp: eq_ignore_ascii_case_def to_ascii_lowercase_def)

lemma segment_wild: "glob_segment_matches pattern subject \<longleftrightarrow> wild pattern subject"
proof -
  have "wild ''*'' subject" by (auto intro: exI [of _ "length subject"])
  then show ?thesis by (auto simp: glob_segment_matches_def glob_match_wild wild_literal)
qed

text \<open>
  C31. The greedy matcher with one backtrack point decides exactly the declarative meaning of a
  pattern: a star stands for any run of bytes, a question mark for one byte, every other byte for
  itself up to ASCII case. The two fast paths (a lone star, a pattern without wildcards) agree.
\<close>

theorem glob_match_decides_wild:
  "(glob_match pattern subject \<longleftrightarrow> wild pattern subject)
   \<and> (glob_segment_matches pattern subject \<longleftrightarrow> wild pattern subject)"
  by (simp add: glob_match_wild segment_wild)

section \<open>Case folding\<close>

lemma ascii_lower_special:
  assumes "x \<in> {CHR ''*'', CHR ''?'', CHR ''.''}"
  shows "ascii_lower c = x \<longleftrightarrow> c = x"
proof -
  have "ascii_lower x = x" using assms by (auto simp: ascii_lower_def)
  moreover have "c = x" if "ascii_lower c = x"
  proof -
    have "(of_char (ascii_lower c) :: nat) = of_char x" using that by simp
    then have "(of_char c :: nat) = of_char x"
      using assms by (auto simp: of_char_ascii_lower split: if_splits)
    then show ?thesis by simp
  qed
  ultimately show ?thesis by auto
qed

lemma wild_lower: "wild (to_ascii_lowercase p) (to_ascii_lowercase s) \<longleftrightarrow> wild p s"
proof (induction p arbitrary: s)
  case (Cons c p)
  show ?case
  proof (cases "c = CHR ''*''")
    case True
    have "drop k (to_ascii_lowercase s) = to_ascii_lowercase (drop k s)" for k
      by (simp add: to_ascii_lowercase_def drop_map)
    moreover have "to_ascii_lowercase (c # p) = CHR ''*'' # to_ascii_lowercase p"
      using True by (simp add: to_ascii_lowercase_def ascii_lower_special)
    ultimately show ?thesis using True Cons by simp
  next
    case False
    with Cons [of "tl s"] show ?thesis
      by (cases s) (auto simp: to_ascii_lowercase_def ascii_lower_special eq_byte_def)
  qed
qed (simp add: to_ascii_lowercase_def)

lemma split_once_lower:
  "split_once (CHR ''.'') (to_ascii_lowercase s)
     = map_option (\<lambda>(a, b). (to_ascii_lowercase a, to_ascii_lowercase b)) (split_once (CHR ''.'') s)"
  by (induction s) (auto simp: to_ascii_lowercase_def ascii_lower_special option.map_comp comp_def
      case_prod_beta)

lemma lower_star: "to_ascii_lowercase p = ''*'' \<longleftrightarrow> p = ''*''"
  by (cases p) (auto simp: to_ascii_lowercase_def ascii_lower_special)

text \<open>
  Pattern matching does not depend on identifier folding: lowering the pattern and the key,
  as one caller does and another does not, never changes the answer. And a pattern without a schema
  admits its table in every schema exactly when it admits the bare name.
\<close>

theorem table_matches_folding:
  "table_matches (to_ascii_lowercase pattern) (to_ascii_lowercase key) = table_matches pattern key
   \<and> (is_schema_agnostic pattern \<and> CHR ''.'' \<notin> set schema \<and> CHR ''.'' \<notin> set table
        \<longrightarrow> table_matches pattern (schema @ ''.'' @ table) = table_matches pattern table)"
proof
  show "table_matches (to_ascii_lowercase pattern) (to_ascii_lowercase key) = table_matches pattern key"
    by (auto simp: table_matches_def lower_star split_once_lower segment_wild wild_lower
        split: option.split)
  show "is_schema_agnostic pattern \<and> CHR ''.'' \<notin> set schema \<and> CHR ''.'' \<notin> set table
        \<longrightarrow> table_matches pattern (schema @ ''.'' @ table) = table_matches pattern table"
  proof
    assume a: "is_schema_agnostic pattern \<and> CHR ''.'' \<notin> set schema \<and> CHR ''.'' \<notin> set table"
    then have "split_once (CHR ''.'') pattern = None" "split_once (CHR ''.'') table = None"
      "split_once (CHR ''.'') (schema @ ''.'' @ table) = Some (schema, table)"
      by (auto simp: is_schema_agnostic_def split_once_None_iff split_once_append)
    then show "table_matches pattern (schema @ ''.'' @ table) = table_matches pattern table"
      by (simp add: table_matches_def)
  qed
qed

theorem table_matches_folding_witness:
  "table_matches ''ord*'' (''sales'' @ ''.'' @ ''orders'') = table_matches ''ord*'' ''orders''"
proof -
  have "is_schema_agnostic ''ord*''" "CHR ''.'' \<notin> set ''sales''" "CHR ''.'' \<notin> set ''orders''"
    by (simp_all add: is_schema_agnostic_def)
  with table_matches_folding [of "''ord*''" "''orders''" "''sales''" "''orders''"] show ?thesis by blast
qed

end
