(* ===== verification/Gtid_Set.thy ===== *)
theory Gtid_Set
  imports Cdc_Prelude "HOL-Library.Product_Lexorder"
begin

text \<open>
  MySQL GTID sets (\<open>source/mysql/gtid.rs\<close>): the strict parser of \<open>Executed_Gtid_Set\<close>, the
  normalisation of its intervals, and the binary-search membership test the incremental snapshot's
  watermarks rest on. An error is the offending fragment's message (\<open>Result<_, String>\<close>).
\<close>

section \<open>Parsing and normalising\<close>

type_synonym interval = "nat \<times> nat"

type_synonym gtid_set = "(string \<times> interval list) list"

definition parse_bound :: "string \<Rightarrow> string + nat" where
  "parse_bound v =
     (case parse_u64 v of
        None \<Rightarrow> Inl ''GTID set entry has a non-numeric interval bound''
      | Some n \<Rightarrow> Inr n)"

definition parse_interval :: "string \<Rightarrow> string + interval" where
  "parse_interval raw =
     (case split_once (CHR ''-'') raw of
        Some (start, stop) \<Rightarrow>
          (case parse_bound start of
             Inl e \<Rightarrow> Inl e
           | Inr a \<Rightarrow>
               (case parse_bound stop of
                  Inl e \<Rightarrow> Inl e
                | Inr b \<Rightarrow> if b < a then Inl ''GTID set entry has a backwards interval'' else Inr (a, b)))
      | None \<Rightarrow> (case parse_bound raw of Inl e \<Rightarrow> Inl e | Inr a \<Rightarrow> Inr (a, a)))"

fun parse_intervals :: "string list \<Rightarrow> string + interval list" where
  "parse_intervals [] = Inr []"
| "parse_intervals (r # rs) =
     (case parse_interval r of
        Inl e \<Rightarrow> Inl e
      | Inr i \<Rightarrow> (case parse_intervals rs of Inl e \<Rightarrow> Inl e | Inr is \<Rightarrow> Inr (i # is)))"

text \<open>One comma-separated entry; an entry that is empty once whitespace is gone is skipped.\<close>

definition parse_entry :: "string \<Rightarrow> string + (string \<times> interval list) option" where
  "parse_entry raw =
     (let entry = remove_ws raw
      in if entry = [] then Inr None
         else case split_on (CHR '':'') entry of
                [] \<Rightarrow> Inl ''GTID set entry has no source uuid''
              | uuid # parts \<Rightarrow>
                  if uuid = [] then Inl ''GTID set entry has no source uuid''
                  else case parse_intervals parts of
                         Inl e \<Rightarrow> Inl e
                       | Inr is \<Rightarrow>
                           if is = [] then Inl ''GTID set entry names a source uuid with no transaction intervals''
                           else Inr (Some (to_ascii_lowercase uuid, is)))"

fun parse_entries :: "string list \<Rightarrow> string + (string \<times> interval list) list" where
  "parse_entries [] = Inr []"
| "parse_entries (r # rs) =
     (case parse_entry r of
        Inl e \<Rightarrow> Inl e
      | Inr x \<Rightarrow>
          (case parse_entries rs of
             Inl e \<Rightarrow> Inl e
           | Inr es \<Rightarrow> Inr (case x of None \<Rightarrow> es | Some y \<Rightarrow> y # es)))"

text \<open>The merge loop, with the merged intervals newest first.\<close>

fun coalesce_loop :: "interval list \<Rightarrow> interval list \<Rightarrow> interval list" where
  "coalesce_loop merged [] = rev merged"
| "coalesce_loop [] ((start, stop) # rest) = coalesce_loop [(start, stop)] rest"
| "coalesce_loop ((ps, pe) # merged) ((start, stop) # rest) =
     (if start \<le> sat_add64 pe 1
      then coalesce_loop ((ps, max pe stop) # merged) rest
      else coalesce_loop ((start, stop) # (ps, pe) # merged) rest)"

definition coalesce :: "interval list \<Rightarrow> interval list" where
  "coalesce is = coalesce_loop [] (sort is)"

definition extend_source :: "string \<times> interval list \<Rightarrow> gtid_set \<Rightarrow> gtid_set" where
  "extend_source e m = bt_entry (fst e) (\<lambda>old. (case old of None \<Rightarrow> [] | Some is \<Rightarrow> is) @ snd e) m"

definition gtid_parse :: "string \<Rightarrow> string + gtid_set" where
  "gtid_parse raw =
     (case parse_entries (split_on (CHR '','') raw) of
        Inl e \<Rightarrow> Inl e
      | Inr es \<Rightarrow> Inr (map (\<lambda>(uuid, is). (uuid, coalesce is)) (fold extend_source es [])))"

section \<open>Membership\<close>

function bsearch :: "interval list \<Rightarrow> nat \<Rightarrow> nat \<Rightarrow> nat \<Rightarrow> nat + nat" where
  "bsearch is seqno lo hi =
     (if hi \<le> lo then Inl lo
      else let mid = (lo + hi) div 2; start = fst (is ! mid)
           in if start = seqno then Inr mid
              else if start < seqno then bsearch is seqno (mid + 1) hi
              else bsearch is seqno lo mid)"
  by pat_completeness auto
termination by (relation "measure (\<lambda>(_, _, lo, hi). hi - lo)") (auto simp: Let_def)

declare bsearch.simps [simp del]

definition interval_contains :: "interval list \<Rightarrow> nat \<Rightarrow> bool" where
  "interval_contains is seqno =
     (case bsearch is seqno 0 (length is) of
        Inr _ \<Rightarrow> True
      | Inl index \<Rightarrow> if index = 0 then False else seqno \<le> snd (is ! (index - 1)))"

definition gtid_contains :: "gtid_set \<Rightarrow> string \<Rightarrow> nat \<Rightarrow> bool" where
  "gtid_contains g uuid seqno =
     (case map_of g (to_ascii_lowercase uuid) of
        None \<Rightarrow> False
      | Some is \<Rightarrow> interval_contains is seqno)"

definition split_single_gtid :: "string \<Rightarrow> (string \<times> nat) option" where
  "split_single_gtid gtid =
     (case rsplit_once (CHR '':'') (trim gtid) of
        None \<Rightarrow> None
      | Some (uuid, seqno) \<Rightarrow>
          if uuid = [] then None
          else map_option (\<lambda>n. (to_ascii_lowercase uuid, n)) (parse_u64 seqno))"

definition contains_gtid :: "gtid_set \<Rightarrow> string \<Rightarrow> bool" where
  "contains_gtid g gtid =
     (case split_single_gtid gtid of None \<Rightarrow> False | Some (uuid, seqno) \<Rightarrow> gtid_contains g uuid seqno)"

definition gtid_is_empty :: "gtid_set \<Rightarrow> bool" where
  "gtid_is_empty g \<longleftrightarrow> list_all (\<lambda>(_, is). is = []) g"

section \<open>Canonical interval lists\<close>

definition members :: "interval list \<Rightarrow> nat set" where
  "members is = (\<Union>(a, b) \<in> set is. {a..b})"

definition canonical :: "interval list \<Rightarrow> bool" where
  "canonical is \<longleftrightarrow> sorted_wrt (\<lambda>(_, b) (c, _). b + 1 < c) is \<and> (\<forall>(a, b) \<in> set is. a \<le> b)"

definition well_bounded :: "interval list \<Rightarrow> bool" where
  "well_bounded is \<longleftrightarrow> (\<forall>(a, b) \<in> set is. a \<le> b \<and> b \<le> u64_max)"

lemma members_simps [simp]:
  "members [] = {}" "members ((a, b) # is) = {a..b} \<union> members is" "members (xs @ ys) = members xs \<union> members ys"
  by (auto simp: members_def)

lemma members_cong: "set xs = set ys \<Longrightarrow> members xs = members ys"
  by (simp add: members_def)

text \<open>
  Invariant of the merge loop: reversed, the merged intervals are canonical, and every interval
  still to come starts at or after the start of the newest one.
\<close>

lemma coalesce_loop_correct:
  assumes "sorted (map fst rest)" "well_bounded rest" "well_bounded merged" "canonical (rev merged)"
    and "\<And>ps pe ms i. merged = (ps, pe) # ms \<Longrightarrow> i \<in> set rest \<Longrightarrow> ps \<le> fst i"
  shows "members (coalesce_loop merged rest) = members merged \<union> members rest
    \<and> canonical (coalesce_loop merged rest)"
  using assms
proof (induction merged rest rule: coalesce_loop.induct)
  case (1 merged)
  then show ?case by (simp add: members_cong [of "rev merged" merged])
next
  case (2 start stop rest)
  have "members (coalesce_loop [(start, stop)] rest) = members [(start, stop)] \<union> members rest
    \<and> canonical (coalesce_loop [(start, stop)] rest)"
    using 2 by (intro "2.IH") (auto simp: well_bounded_def canonical_def)
  then show ?case by simp
next
  case (3 ps pe merged start stop rest)
  have b: "start \<le> stop" "stop \<le> u64_max" "ps \<le> pe" "pe \<le> u64_max" "ps \<le> start"
    using 3(4,5) 3(7) [OF refl, of "(start, stop)"] by (auto simp: well_bounded_def)
  have prev: "x + 1 < ps" if "(w, x) \<in> set merged" for w x
    using 3(6) that by (auto simp: canonical_def sorted_wrt_append)
  show ?case
  proof (cases "start \<le> sat_add64 pe 1")
    case True
    then have "start \<le> pe + 1" by (auto simp: sat_add64_def split: if_splits)
    then have un: "{ps..max pe stop} = {ps..pe} \<union> {start..stop}" using b by auto
    have "members (coalesce_loop ((ps, max pe stop) # merged) rest)
        = members ((ps, max pe stop) # merged) \<union> members rest
      \<and> canonical (coalesce_loop ((ps, max pe stop) # merged) rest)"
      using 3(3-7) b prev True
      by (intro "3.IH"(1)) (auto simp: well_bounded_def canonical_def sorted_wrt_append)
    then show ?thesis using True un by auto
  next
    case False
    then have gap: "pe + 1 < start" using b by (auto simp: sat_add64_def split: if_splits)
    have "members (coalesce_loop ((start, stop) # (ps, pe) # merged) rest)
        = members ((start, stop) # (ps, pe) # merged) \<union> members rest
      \<and> canonical (coalesce_loop ((start, stop) # (ps, pe) # merged) rest)"
      using 3(3-7) b prev False gap
      by (intro "3.IH"(2)) (force simp: well_bounded_def canonical_def sorted_wrt_append)+
    then show ?thesis using False by auto
  qed
qed

lemma coalesce_correct:
  assumes "well_bounded is"
  shows "members (coalesce is) = members is" and "canonical (coalesce is)"
proof -
  have "sorted (map fst (sort is))"
    by (rule sorted_wrt_map [THEN iffD2], rule sorted_wrt_mono_rel [OF _ sorted_sort [of "is"]])
      (auto simp: less_eq_prod_def)
  then have "members (coalesce_loop [] (sort is)) = members [] \<union> members (sort is)
    \<and> canonical (coalesce_loop [] (sort is))"
    using assms by (intro coalesce_loop_correct) (auto simp: well_bounded_def canonical_def)
  then show "members (coalesce is) = members is" and "canonical (coalesce is)"
    using members_cong [of "sort is" "is"] by (auto simp: coalesce_def)
qed

section \<open>The binary search\<close>

lemma bsearch_correct:
  assumes "sorted_wrt (<) (map fst is)" "hi \<le> length is" "lo \<le> hi"
    and "\<And>j. j < lo \<Longrightarrow> fst (is ! j) < seqno" "\<And>j. hi \<le> j \<Longrightarrow> j < length is \<Longrightarrow> seqno < fst (is ! j)"
  shows "case bsearch is seqno lo hi of
      Inr i \<Rightarrow> i < length is \<and> fst (is ! i) = seqno
    | Inl i \<Rightarrow> i \<le> length is \<and> (\<forall>j < i. fst (is ! j) < seqno)
        \<and> (\<forall>j. i \<le> j \<longrightarrow> j < length is \<longrightarrow> seqno < fst (is ! j))"
  using assms
proof (induction "is" seqno lo hi rule: bsearch.induct)
  case (1 "is" seqno lo hi)
  have mono: "fst (is ! i) < fst (is ! j)" if "i < j" "j < length is" for i j
    using 1(3) that sorted_wrt_nth_less [of "(<)" "map fst is" i j] by simp
  let ?mid = "(lo + hi) div 2"
  show ?case
  proof (cases "hi \<le> lo")
    case True
    then have "bsearch is seqno lo hi = Inl lo" by (simp add: bsearch.simps [of "is" seqno lo hi])
    with 1(4-7) True show ?thesis by auto
  next
    case False
    then have mid: "lo \<le> ?mid" "?mid < hi" by auto
    consider (eq) "fst (is ! ?mid) = seqno" | (less) "fst (is ! ?mid) < seqno" | (greater) "seqno < fst (is ! ?mid)"
      by linarith
    then show ?thesis
    proof cases
      case eq
      with False have "bsearch is seqno lo hi = Inr ?mid"
        by (simp add: bsearch.simps [of "is" seqno lo hi] Let_def)
      with eq mid 1(4) show ?thesis by simp
    next
      case less
      with False have "bsearch is seqno lo hi = bsearch is seqno (?mid + 1) hi"
        by (simp add: bsearch.simps [of "is" seqno lo hi] Let_def)
      moreover have "fst (is ! j) < seqno" if "j < ?mid + 1" for j
        using less mono [of j ?mid] that mid 1(4) by (cases "j = ?mid") auto
      ultimately show ?thesis
        using 1(1) [OF False refl refl _ less] less mid 1(3,4,7) by auto
    next
      case greater
      with False have "bsearch is seqno lo hi = bsearch is seqno lo ?mid"
        by (simp add: bsearch.simps [of "is" seqno lo hi] Let_def)
      moreover have "seqno < fst (is ! j)" if "?mid \<le> j" "j < length is" for j
        using greater mono [of ?mid j] that by (cases "j = ?mid") auto
      ultimately show ?thesis
        using 1(2) [OF False refl refl] greater mid 1(3,4,6) by auto
    qed
  qed
qed

lemma canonical_starts: "canonical is \<Longrightarrow> sorted_wrt (<) (map fst is)"
  unfolding canonical_def sorted_wrt_map
  by (elim conjE, rule sorted_wrt_mono_rel [rotated]) (assumption, fastforce)

lemma interval_contains_iff:
  assumes "canonical is"
  shows "interval_contains is n \<longleftrightarrow> n \<in> members is"
proof -
  have bounds: "fst (is ! i) \<le> snd (is ! i)" if "i < length is" for i
    using assms nth_mem [OF that] by (auto simp: canonical_def)
  have gap: "snd (is ! i) + 1 < fst (is ! j)" if "i < j" "j < length is" for i j
    using assms that by (auto simp: canonical_def dest: sorted_wrt_nth_less split: prod.splits)
  have mem: "n \<in> members is \<longleftrightarrow> (\<exists>i < length is. fst (is ! i) \<le> n \<and> n \<le> snd (is ! i))"
    by (fastforce simp: members_def in_set_conv_nth split: prod.splits)
  note search = bsearch_correct [OF canonical_starts [OF assms], of "length is" 0 n]
  show ?thesis
  proof (cases "bsearch is n 0 (length is)")
    case (Inr i)
    with search have "i < length is" "fst (is ! i) = n" by auto
    with bounds [of i] Inr show ?thesis unfolding mem interval_contains_def by auto
  next
    case (Inl i)
    with search have i: "i \<le> length is" "\<And>j. j < i \<Longrightarrow> fst (is ! j) < n"
      "\<And>j. i \<le> j \<Longrightarrow> j < length is \<Longrightarrow> n < fst (is ! j)" by auto
    have "n \<in> members is \<longleftrightarrow> i \<noteq> 0 \<and> n \<le> snd (is ! (i - 1))"
    proof
      assume "n \<in> members is"
      then obtain j where j: "j < length is" "fst (is ! j) \<le> n" "n \<le> snd (is ! j)" unfolding mem by blast
      have "j < i" using i(3) [of j] j by (meson leD leI)
      moreover have "j = i - 1"
      proof (rule ccontr)
        assume "j \<noteq> i - 1"
        with \<open>j < i\<close> have "j < i - 1" "i - 1 < length is" "i - 1 < i" using i(1) by auto
        with gap [of j "i - 1"] i(2) [of "i - 1"] j show False by linarith
      qed
      ultimately show "i \<noteq> 0 \<and> n \<le> snd (is ! (i - 1))" using j by auto
    next
      assume "i \<noteq> 0 \<and> n \<le> snd (is ! (i - 1))"
      with i(1) i(2) [of "i - 1"] show "n \<in> members is"
        unfolding mem by (intro exI [of _ "i - 1"]) auto
    qed
    with Inl show ?thesis by (simp add: interval_contains_def)
  qed
qed

section \<open>Canonical lists are determined by their members\<close>

lemma canonical_Cons:
  "canonical ((a, b) # is) \<longleftrightarrow> a \<le> b \<and> canonical is \<and> (\<forall>n \<in> members is. b + 1 < n)"
proof
  assume c: "canonical ((a, b) # is)"
  have "b + 1 < n" if "n \<in> members is" for n
    using c that by (fastforce simp: canonical_def members_def)
  with c show "a \<le> b \<and> canonical is \<and> (\<forall>n \<in> members is. b + 1 < n)" by (auto simp: canonical_def)
next
  assume r: "a \<le> b \<and> canonical is \<and> (\<forall>n \<in> members is. b + 1 < n)"
  have "b + 1 < c" if "(c, d) \<in> set is" for c d
  proof -
    have "c \<le> d" using r that by (auto simp: canonical_def)
    then have "c \<in> members is" using that by (force simp: members_def)
    with r show ?thesis by blast
  qed
  with r show "canonical ((a, b) # is)" by (auto simp: canonical_def)
qed

lemma canonical_unique: "canonical xs \<Longrightarrow> canonical ys \<Longrightarrow> members xs = members ys \<Longrightarrow> xs = ys"
proof (induction xs arbitrary: ys)
  case Nil
  then show ?case by (cases ys) (auto simp: canonical_Cons)
next
  case (Cons x xs)
  obtain a b where x: "x = (a, b)" by force
  from Cons.prems x have "a \<in> members ys" by (auto simp: canonical_Cons)
  then obtain c d ys' where ys: "ys = (c, d) # ys'" by (cases ys) auto
  have xs: "a \<le> b" "canonical xs" "\<forall>n \<in> members xs. b + 1 < n" using Cons.prems(1) x by (auto simp: canonical_Cons)
  have cd: "c \<le> d" "canonical ys'" "\<forall>n \<in> members ys'. d + 1 < n" using Cons.prems(2) ys by (auto simp: canonical_Cons)
  have eq: "{a..b} \<union> members xs = {c..d} \<union> members ys'" using Cons.prems(3) x ys by simp
  have "a \<in> {c..d} \<union> members ys'" "c \<in> {a..b} \<union> members xs" using eq xs(1) cd(1) by auto
  then have ac: "a = c" using xs cd by fastforce
  have "b = d"
  proof (rule ccontr)
    assume "b \<noteq> d"
    then consider "b < d" | "d < b" by linarith
    then show False
    proof cases
      case 1
      then have "b + 1 \<in> {c..d} \<union> members ys'" using ac xs(1) by auto
      then have "b + 1 \<in> {a..b} \<union> members xs" unfolding eq .
      with xs(3) show False by auto
    next
      case 2
      then have "d + 1 \<in> {a..b} \<union> members xs" using ac cd(1) by auto
      then have "d + 1 \<in> {c..d} \<union> members ys'" unfolding eq .
      with cd(3) show False by auto
    qed
  qed
  moreover have "members xs = members ys'"
  proof -
    have "members xs = ({a..b} \<union> members xs) - {a..b}" using xs(3) by force
    also have "\<dots> = ({c..d} \<union> members ys') - {c..d}" using eq ac \<open>b = d\<close> by simp
    also have "\<dots> = members ys'" using cd(3) by force
    finally show ?thesis .
  qed
  ultimately show ?case using Cons.IH [OF xs(2) cd(2)] x ys ac by simp
qed

section \<open>What a parsed set contains\<close>

text \<open>The transactions a text names, entry by entry, before any grouping.\<close>

definition denoted_entries :: "(string \<times> interval list) list \<Rightarrow> (string \<times> nat) set" where
  "denoted_entries es = (\<Union>(u, is) \<in> set es. {u} \<times> members is)"

definition denoted :: "string \<Rightarrow> (string \<times> nat) set" where
  "denoted raw =
     (case parse_entries (split_on (CHR '','') raw) of Inl _ \<Rightarrow> {} | Inr es \<Rightarrow> denoted_entries es)"

definition entry_ok :: "string \<times> interval list \<Rightarrow> bool" where
  "entry_ok e \<longleftrightarrow> snd e \<noteq> [] \<and> well_bounded (snd e)"

lemma parse_interval_ok: "parse_interval r = Inr (a, b) \<Longrightarrow> a \<le> b \<and> b \<le> u64_max"
  by (auto simp: parse_interval_def parse_bound_def dest: parse_u64_bound split: option.splits sum.splits if_splits)

lemma parse_intervals_ok: "parse_intervals rs = Inr is \<Longrightarrow> well_bounded is"
  by (induction rs arbitrary: "is")
    (auto simp: well_bounded_def split: sum.splits dest: parse_interval_ok)

lemma parse_entries_ok: "parse_entries rs = Inr es \<Longrightarrow> e \<in> set es \<Longrightarrow> entry_ok e"
proof (induction rs arbitrary: es)
  case (Cons r rs)
  have "entry_ok y" if "parse_entry r = Inr (Some y)" for y
    using that by (auto simp: parse_entry_def entry_ok_def Let_def dest: parse_intervals_ok
        split: if_splits list.splits sum.splits)
  with Cons show ?case by (auto split: sum.splits option.splits)
qed simp

definition gathered :: "(string \<times> interval list) list \<Rightarrow> string \<Rightarrow> interval list" where
  "gathered es u = concat (map snd (filter (\<lambda>e. fst e = u) es))"

lemma fold_extend:
  "bt_wf m \<Longrightarrow> bt_wf (fold extend_source es m)
    \<and> map_of (fold extend_source es m) u =
        (case map_of m u of
           Some is \<Rightarrow> Some (is @ gathered es u)
         | None \<Rightarrow> if u \<in> fst ` set es then Some (gathered es u) else None)"
proof (induction es arbitrary: m)
  case Nil
  then show ?case by (auto simp: gathered_def split: option.split)
next
  case (Cons e es)
  have wf: "bt_wf (extend_source e m)" using Cons.prems by (simp add: extend_source_def bt_entry_wf)
  have "map_of (extend_source e m) u =
      (if u = fst e then Some ((case map_of m u of None \<Rightarrow> [] | Some is \<Rightarrow> is) @ snd e) else map_of m u)"
    using Cons.prems by (simp add: extend_source_def map_of_bt_entry)
  with Cons.IH [OF wf] show ?case by (auto simp: gathered_def split: option.split)
qed

lemma gathered_members: "members (gathered es u) = {n. (u, n) \<in> denoted_entries es}"
  by (auto simp: gathered_def members_def denoted_entries_def) force+

lemma gathered_ok:
  assumes "\<forall>e \<in> set es. entry_ok e"
  shows "well_bounded (gathered es u)" and "u \<in> fst ` set es \<Longrightarrow> members (gathered es u) \<noteq> {}"
proof -
  show "well_bounded (gathered es u)"
    using assms by (auto simp: gathered_def well_bounded_def entry_ok_def split: prod.splits)
  assume "u \<in> fst ` set es"
  then obtain "is" where e: "(u, is) \<in> set es" by force
  with assms have ok: "is \<noteq> []" "well_bounded is" by (auto simp: entry_ok_def)
  then obtain a b where ab: "(a, b) \<in> set is" "a \<le> b" by (cases "is") (auto simp: well_bounded_def)
  then have "a \<in> members is" by (force simp: members_def)
  with e have "a \<in> members (gathered es u)" by (auto simp: gathered_members denoted_entries_def)
  then show "members (gathered es u) \<noteq> {}" by blast
qed

lemma gtid_parse_cases:
  assumes "gtid_parse raw = Inr g"
  obtains es where "parse_entries (split_on (CHR '','') raw) = Inr es" "\<forall>e \<in> set es. entry_ok e"
    "bt_wf g" "\<And>u. map_of g u = (if u \<in> fst ` set es then Some (coalesce (gathered es u)) else None)"
proof -
  from assms obtain es where es: "parse_entries (split_on (CHR '','') raw) = Inr es"
    and g: "g = map (\<lambda>(uuid, is). (uuid, coalesce is)) (fold extend_source es [])"
    by (auto simp: gtid_parse_def split: sum.splits)
  have "map fst g = map fst (fold extend_source es [])" by (simp add: g case_prod_beta comp_def)
  then have "bt_wf g" using fold_extend [of "[]" es] by (simp add: bt_wf_def)
  moreover have "map_of g u = map_option coalesce (map_of (fold extend_source es []) u)" for u
    by (simp add: g map_of_map)
  ultimately show ?thesis
    using that [OF es] parse_entries_ok [OF es] fold_extend [of "[]" es] by auto
qed

lemma source_members:
  assumes "gtid_parse raw = Inr g"
  shows "map_of g u = Some is \<Longrightarrow> canonical is \<and> members is = {n. (u, n) \<in> denoted raw} \<and> members is \<noteq> {}"
    and "map_of g u = None \<Longrightarrow> {n. (u, n) \<in> denoted raw} = {}"
proof -
  obtain es where es: "parse_entries (split_on (CHR '','') raw) = Inr es" "\<forall>e \<in> set es. entry_ok e"
    "\<And>u. map_of g u = (if u \<in> fst ` set es then Some (coalesce (gathered es u)) else None)"
    using gtid_parse_cases [OF assms] by metis
  have d: "denoted raw = denoted_entries es" using es(1) by (simp add: denoted_def)
  show "map_of g u = Some is \<Longrightarrow> canonical is \<and> members is = {n. (u, n) \<in> denoted raw} \<and> members is \<noteq> {}"
    using es(3) [of u] gathered_ok [OF es(2), of u] coalesce_correct [OF gathered_ok(1) [OF es(2)], of u]
    by (auto simp: d gathered_members split: if_splits)
  show "map_of g u = None \<Longrightarrow> {n. (u, n) \<in> denoted raw} = {}"
    using es(3) [of u] by (force simp: d denoted_entries_def split: if_splits)
qed

lemma contains_denoted:
  assumes "gtid_parse raw = Inr g"
  shows "gtid_contains g uuid n \<longleftrightarrow> (to_ascii_lowercase uuid, n) \<in> denoted raw"
proof (cases "map_of g (to_ascii_lowercase uuid)")
  case None
  with source_members(2) [OF assms None] show ?thesis by (auto simp: gtid_contains_def)
next
  case (Some "is")
  with source_members(1) [OF assms Some] show ?thesis
    by (auto simp: gtid_contains_def interval_contains_iff)
qed

text \<open>
  C30. Membership in a parsed GTID set is membership in the text: the set contains \<open>uuid:seqno\<close>
  exactly when some entry of that source, in either letter case, has an interval around the number,
  however the server ordered, split or overlapped the intervals.
\<close>

theorem gtid_contains_iff_denoted:
  assumes "gtid_parse raw = Inr g"
  shows "gtid_contains g uuid n \<longleftrightarrow> (to_ascii_lowercase uuid, n) \<in> denoted raw"
  using assms by (rule contains_denoted)

lemmas gtid_eval =
  gtid_parse_def parse_entry_def parse_interval_def parse_bound_def parse_u64_def from_str_radix_def
  digit_value_def Let_def u64_max_def extend_source_def coalesce_def sat_add64_def
  to_ascii_lowercase_def ascii_lower_def less_eq_prod_def ws_len_def char_of_def bit_0

theorem gtid_contains_iff_denoted_witness:
  "\<exists>g. gtid_parse ''AB:7-9:1-3, ab:4'' = Inr g \<and> gtid_contains g ''Ab'' 4
     \<and> (to_ascii_lowercase ''Ab'', 4) \<in> denoted ''AB:7-9:1-3, ab:4''"
proof -
  have p: "gtid_parse ''AB:7-9:1-3, ab:4'' = Inr [(''ab'', [(1, 4), (7, 9)])]" by (simp add: gtid_eval)
  have "gtid_contains [(''ab'', [(1, 4), (7, 9)])] ''Ab'' 4"
    by (simp add: gtid_contains_def interval_contains_def bsearch.simps to_ascii_lowercase_def ascii_lower_def char_of_def bit_0)
  with gtid_contains_iff_denoted [OF p] p show ?thesis by blast
qed

text \<open>
  Parsed GTID sets compare equal exactly when they name the same transactions: sorting and
  coalescing overlapping and adjacent intervals yields one representation per set.
\<close>

theorem gtid_equal_iff_same_transactions:
  assumes "gtid_parse r1 = Inr g1" "gtid_parse r2 = Inr g2"
  shows "g1 = g2 \<longleftrightarrow> denoted r1 = denoted r2"
proof
  have den: "denoted r = {(u, n). \<exists>is. map_of g u = Some is \<and> n \<in> members is}"
    if "gtid_parse r = Inr g" for r g
  proof -
    have "(u, n) \<in> denoted r \<longleftrightarrow> (\<exists>is. map_of g u = Some is \<and> n \<in> members is)" for u n
      using source_members [OF that, of u] by (cases "map_of g u") auto
    then show ?thesis by auto
  qed
  show "g1 = g2 \<Longrightarrow> denoted r1 = denoted r2" using den [OF assms(1)] den [OF assms(2)] by simp
  assume eq: "denoted r1 = denoted r2"
  have "map_of g1 u = map_of g2 u" for u
    using source_members [OF assms(1), of u] source_members [OF assms(2), of u] eq
    by (cases "map_of g1 u"; cases "map_of g2 u") (auto intro: canonical_unique)
  moreover have "bt_wf g1" "bt_wf g2" using gtid_parse_cases assms by metis+
  ultimately show "g1 = g2" by (intro bt_wf_eqI) auto
qed

theorem gtid_equal_iff_same_transactions_witness:
  "denoted ''a:1-5:6-9'' = denoted ''A:3-9, a:1-4''"
proof -
  have "gtid_parse ''a:1-5:6-9'' = Inr [(''a'', [(1, 9)])]" "gtid_parse ''A:3-9, a:1-4'' = Inr [(''a'', [(1, 9)])]"
    by (simp_all add: gtid_eval)
  from gtid_equal_iff_same_transactions [OF this] show ?thesis by simp
qed

end
