(* ===== verification/Column_Filter.thy ===== *)
theory Column_Filter
  imports Json_Value Cdc_Error
begin

text \<open>
  Column filtering and masking of row payloads (\<open>core/column_filter.rs\<close>). SHA-256 in hex and the
  JSON rendering of a value that is not a string are arguments (\<open>sha\<close>, \<open>render\<close>).
\<close>

section \<open>Rules and filters\<close>

datatype column_mask_rule = UnsaltedSha256 | Redact string | NullMask | TruncateMask nat

text \<open>\<open>None\<close> is the wildcard.\<close>

record column_spec =
  cs_schema :: "string option"
  cs_table :: "string option"
  cs_column :: "string option"

record column_mask_spec =
  cms_spec :: column_spec
  cms_rule :: column_mask_rule

record column_mask_rule_config =
  cmr_column :: string
  cmr_rule :: column_mask_rule

record column_filter =
  cf_includes :: "column_spec list"
  cf_excludes :: "column_spec list"
  cf_masks :: "column_mask_spec list"

text \<open>
  \<open>chars().take(n)\<close> on UTF-8 bytes: a byte starts a character unless it is a continuation byte,
  128 to 191.
\<close>

definition is_continuation :: "char \<Rightarrow> bool" where
  "is_continuation c \<longleftrightarrow> 128 \<le> (of_char c :: nat) \<and> (of_char c :: nat) < 192"

fun take_chars :: "nat \<Rightarrow> string \<Rightarrow> string" where
  "take_chars n [] = []"
| "take_chars n (c # s) =
     (if is_continuation c then c # take_chars n s
      else case n of 0 \<Rightarrow> [] | Suc m \<Rightarrow> c # take_chars m s)"

definition apply_mask_rule ::
    "(string \<Rightarrow> string) \<Rightarrow> (json \<Rightarrow> string) \<Rightarrow> json \<Rightarrow> column_mask_rule \<Rightarrow> json" where
  "apply_mask_rule sha render v rule =
     (case rule of
        UnsaltedSha256 \<Rightarrow> JString (sha (case v of JString s \<Rightarrow> s | other \<Rightarrow> render other))
      | Redact s \<Rightarrow> JString s
      | NullMask \<Rightarrow> JNull
      | TruncateMask n \<Rightarrow> (case v of JString s \<Rightarrow> JString (take_chars n s) | other \<Rightarrow> other))"

definition wildcard_opt :: "string \<Rightarrow> string option" where
  "wildcard_opt s = (if s = ''*'' then None else Some s)"

definition column_spec_parse :: "string \<Rightarrow> column_spec result" where
  "column_spec_parse spec =
     (case splitn3 (CHR ''.'') spec of
        [schema, table, column] \<Rightarrow>
          Inr \<lparr>cs_schema = wildcard_opt schema, cs_table = wildcard_opt table, cs_column = wildcard_opt column\<rparr>
      | [table, column] \<Rightarrow>
          Inr \<lparr>cs_schema = None, cs_table = wildcard_opt table, cs_column = wildcard_opt column\<rparr>
      | [column] \<Rightarrow> Inr \<lparr>cs_schema = None, cs_table = None, cs_column = wildcard_opt column\<rparr>
      | _ \<Rightarrow> Inl (ConfigError ''invalid column filter spec''))"

definition column_spec_matches :: "column_spec \<Rightarrow> string option \<Rightarrow> string \<Rightarrow> string \<Rightarrow> bool" where
  "column_spec_matches spec schema table column \<longleftrightarrow>
     (case cs_schema spec of
        None \<Rightarrow> True
      | Some s \<Rightarrow> (case schema of None \<Rightarrow> False | Some sc \<Rightarrow> eq_ignore_ascii_case sc s))
     \<and> (case cs_table spec of None \<Rightarrow> True | Some t \<Rightarrow> eq_ignore_ascii_case table t)
     \<and> (case cs_column spec of None \<Rightarrow> True | Some c \<Rightarrow> eq_ignore_ascii_case column c)"

fun collect_results :: "'a result list \<Rightarrow> 'a list result" where
  "collect_results [] = Inr []"
| "collect_results (r # rs) =
     (case r of
        Inl e \<Rightarrow> Inl e
      | Inr x \<Rightarrow> (case collect_results rs of Inl e \<Rightarrow> Inl e | Inr xs \<Rightarrow> Inr (x # xs)))"

definition column_mask_spec_new :: "string \<Rightarrow> column_mask_rule \<Rightarrow> column_mask_spec result" where
  "column_mask_spec_new column rule =
     (case column_spec_parse column of
        Inl e \<Rightarrow> Inl e
      | Inr spec \<Rightarrow> Inr \<lparr>cms_spec = spec, cms_rule = rule\<rparr>)"

definition column_filter_from_config ::
    "string list \<Rightarrow> string list \<Rightarrow> column_mask_rule_config list \<Rightarrow> column_filter result" where
  "column_filter_from_config include_list exclude_list mask_rules =
     (case collect_results (map column_spec_parse include_list) of
        Inl e \<Rightarrow> Inl e
      | Inr includes \<Rightarrow>
          (case collect_results (map column_spec_parse exclude_list) of
             Inl e \<Rightarrow> Inl e
           | Inr excludes \<Rightarrow>
               (case collect_results (map (\<lambda>r. column_mask_spec_new (cmr_column r) (cmr_rule r)) mask_rules) of
                  Inl e \<Rightarrow> Inl e
                | Inr masks \<Rightarrow>
                    Inr \<lparr>cf_includes = includes, cf_excludes = excludes, cf_masks = masks\<rparr>)))"

definition column_filter_new :: "string list \<Rightarrow> string list \<Rightarrow> column_filter result" where
  "column_filter_new include_list exclude_list = column_filter_from_config include_list exclude_list []"

definition include_column :: "column_filter \<Rightarrow> string option \<Rightarrow> string \<Rightarrow> string \<Rightarrow> bool" where
  "include_column f schema table column =
     (if cf_includes f \<noteq> [] then list_ex (\<lambda>s. column_spec_matches s schema table column) (cf_includes f)
      else if cf_excludes f \<noteq> []
      then \<not> list_ex (\<lambda>s. column_spec_matches s schema table column) (cf_excludes f)
      else True)"

definition is_passthrough :: "column_filter \<Rightarrow> bool" where
  "is_passthrough f \<longleftrightarrow> cf_includes f = [] \<and> cf_excludes f = [] \<and> cf_masks f = []"

definition mask_value ::
    "(string \<Rightarrow> string) \<Rightarrow> (json \<Rightarrow> string) \<Rightarrow> column_filter \<Rightarrow> string option \<Rightarrow> string \<Rightarrow> string \<times> json
     \<Rightarrow> string \<times> json" where
  "mask_value sha render f schema table = (\<lambda>(col, v).
     (col, case List.find (\<lambda>m. column_spec_matches (cms_spec m) schema table col) (cf_masks f) of
             None \<Rightarrow> v
           | Some m \<Rightarrow> apply_mask_rule sha render v (cms_rule m)))"

definition apply_to_json ::
    "(string \<Rightarrow> string) \<Rightarrow> (json \<Rightarrow> string) \<Rightarrow> column_filter \<Rightarrow> json \<Rightarrow> string option \<Rightarrow> string \<Rightarrow> json" where
  "apply_to_json sha render f row schema table =
     (if is_passthrough f then row
      else case row of
             JObject m \<Rightarrow>
               (let kept = (if cf_includes f \<noteq> [] \<or> cf_excludes f \<noteq> []
                            then filter (\<lambda>(col, _). include_column f schema table col) m else m)
                in JObject (if cf_masks f \<noteq> [] then map (mask_value sha render f schema table) kept else kept))
           | other \<Rightarrow> other)"

section \<open>What a filtered row contains\<close>

text \<open>The first rule in definition order that names a column.\<close>

definition mask_of :: "column_filter \<Rightarrow> string option \<Rightarrow> string \<Rightarrow> string \<Rightarrow> column_mask_rule option" where
  "mask_of f schema table col =
     map_option cms_rule (List.find (\<lambda>m. column_spec_matches (cms_spec m) schema table col) (cf_masks f))"

lemma include_passthrough: "cf_includes f = [] \<Longrightarrow> cf_excludes f = [] \<Longrightarrow> include_column f schema table col"
  by (simp add: include_column_def)

lemma apply_to_json_object:
  "apply_to_json sha render f (JObject m) schema table =
     JObject (map (mask_value sha render f schema table)
       (filter (\<lambda>(col, _). include_column f schema table col) m))"
proof -
  have all: "filter (\<lambda>(col, _). include_column f schema table col) m = m"
    if "cf_includes f = []" "cf_excludes f = []"
    using that by (auto simp: include_passthrough filter_id_conv)
  have id: "map (mask_value sha render f schema table) xs = xs" if "cf_masks f = []" for xs
    using that by (intro map_idI) (auto simp: mask_value_def)
  show ?thesis
    using all id by (auto simp: apply_to_json_def is_passthrough_def Let_def)
qed

lemma map_of_masked:
  "map_of (map (mask_value sha render f schema table) m) col
     = map_option (\<lambda>v. snd (mask_value sha render f schema table (col, v))) (map_of m col)"
  by (induction m) (auto simp: mask_value_def split: option.split)

lemma snd_mask_value:
  "snd (mask_value sha render f schema table (col, v)) =
     (case mask_of f schema table col of None \<Rightarrow> v | Some rule \<Rightarrow> apply_mask_rule sha render v rule)"
  by (auto simp: mask_value_def mask_of_def split: option.split)

lemma map_of_filter_key: "map_of (filter (\<lambda>(k, _). P k) m) k = (if P k then map_of m k else None)"
  by (induction m) auto

text \<open>
  A filtered row holds exactly the included columns. A column no rule names keeps its value; a
  column the first matching rule redacts or nulls carries nothing of the original value, and no
  later rule is applied to it.
\<close>

theorem apply_to_json_columns:
  "json_get (apply_to_json sha render f (JObject m) schema table) col =
     (if include_column f schema table col
      then (case mask_of f schema table col of
              None \<Rightarrow> json_get (JObject m) col
            | Some rule \<Rightarrow> map_option (\<lambda>v. apply_mask_rule sha render v rule) (json_get (JObject m) col))
      else None)"
  by (auto simp: apply_to_json_object json_get_def obj_get_def map_of_masked map_of_filter_key
      snd_mask_value option.map_ident split: option.split)

end
