(* ===== verification/Quoted_Names.thy ===== *)
theory Quoted_Names
  imports Cdc_Error
begin

text \<open>
  Table references, as far as the connectors agree on them: the characters a name may contain, and
  the round trip of a quoted two-part name through a parser that scans it with one quoting style.
  Each connector has its own scanner; \<open>quoted_names\<close> lists what the round trip needs of it. Every
  byte a scanner branches on is ASCII, so the loop over characters is a loop over UTF-8 bytes.
\<close>

definition is_ascii_alphanumeric :: "char \<Rightarrow> bool" where
  "is_ascii_alphanumeric c \<longleftrightarrow>
     (let n = (of_char c :: nat) in (48 \<le> n \<and> n \<le> 57) \<or> (65 \<le> n \<and> n \<le> 90) \<or> (97 \<le> n \<and> n \<le> 122))"

text \<open>
  \<open>char::is_control\<close>: the ASCII controls, DEL, and U+0080 to U+009F, which in UTF-8 are the bytes
  194, 128 to 194, 159.
\<close>

fun has_control :: "string \<Rightarrow> bool" where
  "has_control [] = False"
| "has_control (c # s) \<longleftrightarrow>
     (let n = (of_char c :: nat)
      in n < 32 \<or> n = 127
         \<or> (n = 194 \<and> (case s of [] \<Rightarrow> False | d # _ \<Rightarrow> 128 \<le> (of_char d :: nat) \<and> (of_char d :: nat) < 160)))
     \<or> has_control s"

text \<open>A name between its delimiters, with each closing delimiter inside it doubled.\<close>

definition quote_with :: "char \<Rightarrow> char \<Rightarrow> string \<Rightarrow> string" where
  "quote_with lq rq name =
     lq # concat (map (\<lambda>c. if c = rq then [rq, rq] else [c]) name) @ [rq]"

lemma blank_Nil [simp]: "blank []"
  by (simp add: blank_def trim_def trim_start.simps [of "[]"] trim_end.simps [of "[]"])

text \<open>
  A scanner is in the middle of \<open>parts\<close> and \<open>current\<close>, inside quotes or not, with a flag that the
  current segment was quoted; \<open>fin\<close> accepts or rejects a finished segment.
\<close>

locale quoted_names =
  fixes lq rq :: char
    and fin :: "string \<Rightarrow> bool \<Rightarrow> string result"
    and scan :: "string list \<Rightarrow> string \<Rightarrow> bool \<Rightarrow> bool \<Rightarrow> string \<Rightarrow> string list result"
  assumes delimiters: "graphic lq" "graphic rq" "rq \<noteq> CHR ''.''"
    and scan_end: "scan parts current False quoted [] =
          (case fin current quoted of Inl e \<Rightarrow> Inl e | Inr s \<Rightarrow> Inr (parts @ [s]))"
    and scan_dot: "scan parts current False quoted (CHR ''.'' # cs) =
          (case fin current quoted of Inl e \<Rightarrow> Inl e | Inr s \<Rightarrow> scan (parts @ [s]) [] False False cs)"
    and scan_open: "scan parts [] False quoted (lq # cs) = scan parts [] True True cs"
    and scan_inside: "c \<noteq> rq \<Longrightarrow> scan parts current True quoted (c # cs) = scan parts (current @ [c]) True quoted cs"
    and scan_doubled: "scan parts current True quoted (rq # rq # cs) = scan parts (current @ [rq]) True quoted cs"
    and scan_close: "cs = [] \<or> hd cs \<noteq> rq \<Longrightarrow>
          scan parts current True quoted (rq # cs) = scan parts current False quoted cs"
    and fin_quoted: "s \<noteq> [] \<Longrightarrow> \<not> has_control s \<Longrightarrow> fin s True = Inr s"
begin

lemma scan_quoted:
  assumes "rest = [] \<or> hd rest \<noteq> rq"
  shows "scan parts [] False quoted (quote_with lq rq s @ rest) = scan parts s False True rest"
proof -
  have "scan parts current True True
      (concat (map (\<lambda>c. if c = rq then [rq, rq] else [c]) s) @ rq # rest)
    = scan parts (current @ s) False True rest" for current
    by (induction s arbitrary: current) (auto simp: scan_close assms scan_doubled scan_inside)
  from this [of "[]"] show ?thesis by (simp add: quote_with_def scan_open)
qed

lemma quoted_pair:
  assumes "a \<noteq> []" "b \<noteq> []" "\<not> has_control a" "\<not> has_control b"
  shows "scan [] [] False False (quote_with lq rq a @ ''.'' @ quote_with lq rq b) = Inr [a, b]"
  using assms delimiters(3) scan_quoted [of "CHR ''.'' # quote_with lq rq b" "[]" False a]
    scan_quoted [of "[]" "[a]" False b]
  by (simp add: scan_dot scan_end fin_quoted)

lemma quoted_single:
  assumes "a \<noteq> []" "\<not> has_control a"
  shows "scan [] [] False False (quote_with lq rq a) = Inr [a]"
  using assms scan_quoted [of "[]" "[]" False a] by (simp add: scan_end fin_quoted)

lemma trim_pair:
  "trim (quote_with lq rq a @ ''.'' @ quote_with lq rq b)
     = quote_with lq rq a @ ''.'' @ quote_with lq rq b"
  by (rule trim_graphic) (simp_all add: quote_with_def delimiters)

lemma trim_single: "trim (quote_with lq rq a) = quote_with lq rq a"
  by (rule trim_graphic) (simp_all add: quote_with_def delimiters)

end

end
