(* ===== verification/Postgres_Names.thy ===== *)
theory Postgres_Names
  imports Quoted_Names
begin

text \<open>
  Table references as the PostgreSQL connector reads and writes them (\<open>source/postgres/parser.rs\<close>):
  the identifier-path parser with its quoting rules, and the quoting that generated SQL uses.
\<close>

section \<open>Parsing\<close>

definition invalid_name :: error where
  "invalid_name = ConfigError ''postgres snapshot table name is invalid''"

definition finalize_postgres_identifier_segment :: "string \<Rightarrow> bool \<Rightarrow> string result" where
  "finalize_postgres_identifier_segment raw quoted =
     (let segment = (if quoted then raw else trim raw)
      in if segment = [] then Inl invalid_name
         else if (if quoted then \<not> has_control segment
                  else list_all (\<lambda>c. is_ascii_alphanumeric c \<or> c = CHR ''_'' \<or> c = CHR ''$'') segment)
         then Inr segment
         else Inl invalid_name)"

fun identifier_loop :: "string list \<Rightarrow> string \<Rightarrow> bool \<Rightarrow> bool \<Rightarrow> string \<Rightarrow> string list result" where
  "identifier_loop parts current in_quotes segment_quoted [] =
     (if in_quotes then Inl invalid_name
      else case finalize_postgres_identifier_segment current segment_quoted of
             Inl e \<Rightarrow> Inl e
           | Inr segment \<Rightarrow> Inr (parts @ [segment]))"
| "identifier_loop parts current in_quotes segment_quoted (c # cs) =
     (if in_quotes then
        (if c = CHR 0x22 then
           (case cs of
              [] \<Rightarrow> identifier_loop parts current False segment_quoted cs
            | d # ds \<Rightarrow>
                if d = CHR 0x22 then identifier_loop parts (current @ [CHR 0x22]) True segment_quoted ds
                else identifier_loop parts current False segment_quoted cs)
         else identifier_loop parts (current @ [c]) True segment_quoted cs)
      else if c = CHR 0x22 then
        (if \<not> blank current then Inl invalid_name
         else identifier_loop parts [] True True cs)
      else if c = CHR ''.'' then
        (case finalize_postgres_identifier_segment current segment_quoted of
           Inl e \<Rightarrow> Inl e
         | Inr segment \<Rightarrow> identifier_loop (parts @ [segment]) [] False False cs)
      else identifier_loop parts (current @ [c]) False segment_quoted cs)"

definition parse_postgres_identifier_path :: "string \<Rightarrow> string list result" where
  "parse_postgres_identifier_path input = identifier_loop [] [] False False input"

definition parse_table_reference :: "string \<Rightarrow> (string \<times> string) result" where
  "parse_table_reference table =
     (let trimmed = trim table
      in if trimmed = [] then Inl (ConfigError ''postgres snapshot table name must not be empty'')
         else case parse_postgres_identifier_path trimmed of
                Inl e \<Rightarrow> Inl e
              | Inr [table_name] \<Rightarrow> Inr (''public'', table_name)
              | Inr [schema, table_name] \<Rightarrow> Inr (schema, table_name)
              | Inr _ \<Rightarrow> Inl invalid_name)"

section \<open>Quoting\<close>

definition quote_pg_identifier :: "string \<Rightarrow> string" where
  "quote_pg_identifier identifier =
     CHR 0x22 # concat (map (\<lambda>c. if c = CHR 0x22 then [CHR 0x22, CHR 0x22] else [c]) identifier) @ [CHR 0x22]"

definition qualified_pg_name :: "string \<Rightarrow> string \<Rightarrow> string" where
  "qualified_pg_name schema table = quote_pg_identifier schema @ ''.'' @ quote_pg_identifier table"

section \<open>Quoted names are read back\<close>

interpretation pg_names: quoted_names "CHR 0x22" "CHR 0x22" finalize_postgres_identifier_segment identifier_loop
  by unfold_locales
    (auto simp: graphic_def finalize_postgres_identifier_segment_def split: list.split)

lemma qualified_pg_name_quoted:
  "qualified_pg_name schema table = quote_with (CHR 0x22) (CHR 0x22) schema @ ''.'' @ quote_with (CHR 0x22) (CHR 0x22) table"
  by (simp add: qualified_pg_name_def quote_pg_identifier_def quote_with_def)

text \<open>
  A name the connector quotes into SQL is read back as itself: for a schema and a table that
  are not empty and have no control characters, parsing the qualified quoted form returns exactly
  the two names, whatever dots, spaces and quotes they contain.
\<close>

theorem table_reference_round_trip:
  assumes "schema \<noteq> []" "table \<noteq> []" "\<not> has_control schema" "\<not> has_control table"
  shows "parse_table_reference (qualified_pg_name schema table) = Inr (schema, table)"
  using pg_names.quoted_pair [OF assms] pg_names.trim_pair [of schema table]
  by (simp add: parse_table_reference_def parse_postgres_identifier_path_def qualified_pg_name_quoted quote_with_def)

theorem table_reference_round_trip_witness:
  "parse_table_reference (qualified_pg_name ''my.schema'' ''order lines'') = Inr (''my.schema'', ''order lines'')"
  by (rule table_reference_round_trip) (simp_all add: Let_def)

text \<open>
  White space between a closing quote and the dot is not skipped: a quoted segment is not trimmed,
  so the blank becomes part of the schema name and the reference names another schema.
\<close>

lemma space_after_quote_changes_schema:
  "parse_table_reference (CHR 0x22 # ''public'' @ CHR 0x22 # '' .orders'') = Inr (''public '', ''orders'')"
  by (simp add: parse_table_reference_def parse_postgres_identifier_path_def Let_def trim_def
      trim_start.simps trim_end.simps ws_len_def ws_len_end_def finalize_postgres_identifier_segment_def
      is_ascii_alphanumeric_def)

end
