(* ===== verification/Stream_Offset.thy ===== *)
theory Stream_Offset
  imports Checkpoint_Progress "HOL-Library.Word"
begin

unbundle bit_operations_syntax

text \<open>
  Source positions as text: the PostgreSQL LSN \<open>HIGH/LOW\<close> in hex and its \<open>u64\<close> value
  (\<open>source/postgres/parser.rs\<close>, \<open>core/runtime_offsets.rs\<close>), the MySQL stream offset
  \<open>file:position#gtid=set\<close>, PostgreSQL timestamps, and quoted table references.
\<close>

section \<open>The offset structs\<close>

text \<open>The positions a connector checkpoints (\<open>checkpoint/mod.rs\<close>), as the JSON objects they serialise to.\<close>

definition with_incremental_snapshot :: "json option \<Rightarrow> jobj \<Rightarrow> jobj" where
  "with_incremental_snapshot st o1 = (case st of Some j \<Rightarrow> obj_insert ''incremental_snapshot'' j o1 | None \<Rightarrow> o1)"

definition postgres_offset :: "64 word \<Rightarrow> string \<Rightarrow> json option \<Rightarrow> offset" where
  "postgres_offset lsn slot st =
     (''postgres'', Some (JObject (with_incremental_snapshot st
        (obj_insert ''slot_name'' (JString slot) (obj_insert ''lsn'' (JNumber (PosInt (unat lsn))) [])))))"

definition mysql_offset :: "string \<Rightarrow> string \<Rightarrow> nat \<Rightarrow> string \<Rightarrow> json option \<Rightarrow> offset" where
  "mysql_offset flavor file pos gtid st =
     (flavor, Some (JObject (with_incremental_snapshot st
        (obj_insert ''source_flavor'' (JString flavor) (obj_insert ''binlog_pos'' (JNumber (PosInt pos))
          (obj_insert ''binlog_file'' (JString file) (obj_insert ''gtid'' (JString gtid) [])))))))"

definition sqlserver_offset :: "string \<Rightarrow> json option \<Rightarrow> offset" where
  "sqlserver_offset cursor st =
     (''sqlserver'', Some (JObject (with_incremental_snapshot st (obj_insert ''cursor'' (JString cursor) []))))"

section \<open>PostgreSQL log sequence numbers\<close>

definition parse_hex_u64 :: "string \<Rightarrow> nat option" where
  "parse_hex_u64 = from_str_radix 16 u64_max"

definition lsn_of_halves :: "nat \<Rightarrow> nat \<Rightarrow> 64 word" where
  "lsn_of_halves high low = push_bit 32 (of_nat high) OR of_nat low"

definition parse_pg_lsn :: "string \<Rightarrow> 64 word result" where
  "parse_pg_lsn v =
     (case split_once (CHR ''/'') v of
        None \<Rightarrow> Inl (SourceError ''invalid postgres lsn format, expected HEX/HEX'')
      | Some (high, low) \<Rightarrow>
          (case parse_hex_u64 high of
             None \<Rightarrow> Inl (SourceError ''invalid postgres lsn high bits'')
           | Some h \<Rightarrow>
               (case parse_hex_u64 low of
                  None \<Rightarrow> Inl (SourceError ''invalid postgres lsn low bits'')
                | Some l \<Rightarrow> Inr (lsn_of_halves h l))))"

definition parse_postgres_lsn :: "string \<Rightarrow> 64 word result" where
  "parse_postgres_lsn v =
     (case split_once (CHR ''/'') v of
        None \<Rightarrow> Inl (CheckpointError ''invalid postgres LSN offset; expected HEX/HEX'')
      | Some (high, low) \<Rightarrow>
          (case parse_hex_u64 high of
             None \<Rightarrow> Inl (CheckpointError ''invalid postgres LSN high bits'')
           | Some h \<Rightarrow>
               (case parse_hex_u64 low of
                  None \<Rightarrow> Inl (CheckpointError ''invalid postgres LSN low bits'')
                | Some l \<Rightarrow> Inr (lsn_of_halves h l))))"

definition format_pg_lsn :: "64 word \<Rightarrow> string" where
  "format_pg_lsn lsn =
     show_radix 16 (unat (drop_bit 32 lsn)) @ ''/'' @ pad_left 8 (show_radix 16 (unat (take_bit 32 lsn)))"

lemma lsn_of_halves_split: "lsn_of_halves (unat (drop_bit 32 lsn)) (unat (take_bit 32 lsn)) = lsn"
proof -
  have "push_bit 32 (drop_bit 32 lsn) OR take_bit 32 lsn = lsn"
    by (rule bit_eqI) (auto simp: bit_or_iff bit_push_bit_iff bit_drop_bit_eq bit_take_bit_iff)
  then show ?thesis by (simp add: lsn_of_halves_def)
qed

lemma unat_le_u64: "unat (w :: 64 word) \<le> u64_max"
proof -
  have "unat w < 2 ^ 64" using unsigned_less [of w] by simp
  then show ?thesis by (simp add: u64_max_def)
qed

lemma slash_not_hex: "CHR ''/'' \<notin> set (show_radix 16 n)"
  using show_radix_chars [of 16 "CHR ''/''" n] by (auto simp: digit_value_def Let_def)

lemma format_split:
  "split_once (CHR ''/'') (format_pg_lsn lsn)
     = Some (show_radix 16 (unat (drop_bit 32 lsn)), pad_left 8 (show_radix 16 (unat (take_bit 32 lsn))))"
  unfolding format_pg_lsn_def using split_once_append [OF slash_not_hex] by simp

lemma parse_hex_show [simp]: "n \<le> u64_max \<Longrightarrow> parse_hex_u64 (show_radix 16 n) = Some n"
  by (simp add: parse_hex_u64_def from_str_radix_show)

lemma parse_hex_padded [simp]: "n \<le> u64_max \<Longrightarrow> parse_hex_u64 (pad_left k (show_radix 16 n)) = Some n"
  by (simp add: parse_hex_u64_def from_str_radix_padded)

lemma parse_format_lsn [simp]:
  "parse_pg_lsn (format_pg_lsn lsn) = Inr lsn" "parse_postgres_lsn (format_pg_lsn lsn) = Inr lsn"
  by (simp_all add: parse_pg_lsn_def parse_postgres_lsn_def format_split unat_le_u64 lsn_of_halves_split)

text \<open>
  Every 64-bit log position survives its textual form: formatting it and parsing it back, in
  the connector and in the checkpoint layer, yields the same position.
\<close>

theorem pg_lsn_round_trip:
  "parse_pg_lsn (format_pg_lsn lsn) = Inr lsn \<and> parse_postgres_lsn (format_pg_lsn lsn) = Inr lsn"
  by simp

text \<open>
  The parsers do not bound the halves to 32 bits: a high half whose low 32 bits are zero
  vanishes in the shift, so distinct texts that no server sends are read as position zero.
\<close>

theorem pg_lsn_high_half_overflows:
  assumes "k < 2 ^ 32"
  shows "parse_pg_lsn (show_radix 16 (k * 2 ^ 32) @ ''/0'') = Inr 0"
proof -
  have "k * 2 ^ 32 \<le> u64_max" using assms by (simp add: u64_max_def)
  moreover have "split_once (CHR ''/'') (show_radix 16 (k * 2 ^ 32) @ ''/0'') = Some (show_radix 16 (k * 2 ^ 32), ''0'')"
    using split_once_append [OF slash_not_hex, of "k * 2 ^ 32" "''0''"] by simp
  moreover have "parse_hex_u64 ''0'' = Some 0"
    by (simp add: parse_hex_u64_def from_str_radix_def digit_value_def Let_def)
  moreover have "lsn_of_halves (k * 2 ^ 32) 0 = 0"
  proof -
    have "(of_nat (k * 2 ^ 32) :: 64 word) = push_bit 32 (of_nat k)" by (simp add: push_bit_eq_mult)
    then have "push_bit 32 (of_nat (k * 2 ^ 32) :: 64 word) = push_bit 64 (of_nat k)" by simp
    also have "\<dots> = 0" by (rule bit_eqI) (simp add: bit_push_bit_iff)
    finally show ?thesis by (simp add: lsn_of_halves_def)
  qed
  ultimately show ?thesis by (simp add: parse_pg_lsn_def)
qed

theorem pg_lsn_high_half_overflows_witness: "parse_pg_lsn (show_radix 16 (1 * 2 ^ 32) @ ''/0'') = Inr 0"
  by (rule pg_lsn_high_half_overflows) simp

section \<open>MySQL stream offsets\<close>

text \<open>\<open>split_once\<close> on a string separator: the first occurrence.\<close>

fun split_once_str :: "string \<Rightarrow> string \<Rightarrow> (string \<times> string) option" where
  "split_once_str sep [] = (if sep = [] then Some ([], []) else None)"
| "split_once_str sep (c # s) =
     (if prefix sep (c # s) then Some ([], drop (length sep) (c # s))
      else map_option (\<lambda>(a, b). (c # a, b)) (split_once_str sep s))"

definition parse_mysql_stream_offset :: "string \<Rightarrow> (string \<times> nat \<times> string) result" where
  "parse_mysql_stream_offset v =
     (case split_once (CHR '':'') v of
        None \<Rightarrow> Inl (CheckpointError ''invalid mysql offset; expected <binlog_file>:<binlog_pos>[#gtid=<gtid>]'')
      | Some (file, rest) \<Rightarrow>
          (case (case split_once_str ''#gtid='' rest of None \<Rightarrow> (rest, []) | Some x \<Rightarrow> x) of
             (position_part, gtid) \<Rightarrow>
               (case parse_u32 position_part of
                  None \<Rightarrow> Inl (CheckpointError ''invalid mysql binlog position'')
                | Some pos \<Rightarrow> Inr (file, pos, gtid))))"

section \<open>PostgreSQL timestamps\<close>

definition i64_max :: int where "i64_max = 2 ^ 63 - 1"

definition i64_min :: int where "i64_min = - (2 ^ 63)"

definition sat_add_i64 :: "int \<Rightarrow> int \<Rightarrow> int" where
  "sat_add_i64 a b = max i64_min (min i64_max (a + b))"

definition pg_timestamp_to_millis :: "int \<Rightarrow> nat" where
  "pg_timestamp_to_millis pg_us =
     (let unix_us = sat_add_i64 pg_us 946684800000000
      in if unix_us < 0 then 0 else nat (unix_us div 1000))"

text \<open>
  Converting a server timestamp never wraps: over the whole \<open>i64\<close> range the result is within
  \<open>u64\<close>, it never decreases when the timestamp grows, and an instant before 1970 becomes zero.
\<close>

theorem pg_timestamp_bounds:
  assumes "i64_min \<le> a" "a \<le> b" "b \<le> i64_max"
  shows "pg_timestamp_to_millis a \<le> pg_timestamp_to_millis b \<and> pg_timestamp_to_millis b \<le> u64_max
    \<and> (b < - 946684800000000 \<longrightarrow> pg_timestamp_to_millis b = 0)"
proof -
  have "sat_add_i64 a 946684800000000 \<le> sat_add_i64 b 946684800000000"
    using assms by (simp add: sat_add_i64_def)
  moreover have "sat_add_i64 b 946684800000000 \<le> i64_max" by (simp add: sat_add_i64_def i64_min_def i64_max_def)
  moreover have "b < - 946684800000000 \<Longrightarrow> sat_add_i64 b 946684800000000 < 0"
    by (simp add: sat_add_i64_def i64_min_def i64_max_def)
  ultimately show ?thesis
    by (auto simp: pg_timestamp_to_millis_def Let_def i64_max_def u64_max_def nat_le_iff
        intro: nat_mono zdiv_mono1)
qed

theorem pg_timestamp_bounds_witness:
  "pg_timestamp_to_millis (- 5) \<le> pg_timestamp_to_millis 7 \<and> pg_timestamp_to_millis 7 \<le> u64_max"
  using pg_timestamp_bounds [of "- 5" 7] by (simp add: i64_min_def i64_max_def)

end
