(* ===== verification/Idempotency_Guard.thy ===== *)
theory Idempotency_Guard
  imports Event_Envelope "HOL-Library.AList"
begin

text \<open>
  The sliding-window duplicate guard and the event fingerprints (\<open>core/idempotency.rs\<close>). What each
  \<open>hash\<close> call feeds into the hasher is a token; the seeded AHash over the tokens, SHA-256 over the
  stable pre-image and serde's rendering of a JSON value are arguments. The clock reading of each
  call is an argument.
\<close>

section \<open>Fingerprints\<close>

datatype token =
    TStr string
  | TU8 nat
  | TBool bool
  | TI64 int
  | TU64 nat
  | TU32 nat
  | TLen nat
  | TOp operation
  | TKey "string list option"

text \<open>
  \<open>as_i64\<close> of an unsigned number succeeds up to \<open>i64::MAX\<close>; a float hashes its bits. The rendering
  fallback is unreachable: every number has one of the three forms.
\<close>

fun hash_number :: "jnum \<Rightarrow> token" where
  "hash_number (PosInt n) = (if n < 2 ^ 63 then TI64 (int n) else TU64 n)"
| "hash_number (NegInt i) = TI64 i"
| "hash_number (Float b) = TU64 b"

fun hash_json_value :: "json \<Rightarrow> token list" where
  "hash_json_value JNull = [TU8 0]"
| "hash_json_value (JBool b) = [TU8 1, TBool b]"
| "hash_json_value (JNumber n) = [TU8 2, hash_number n]"
| "hash_json_value (JString s) = [TU8 3, TStr s]"
| "hash_json_value (JArray xs) = TU8 4 # TLen (length xs) # concat (map hash_json_value xs)"
| "hash_json_value (JObject m) =
     TU8 5 # TLen (length m) # concat (map (\<lambda>(k, v). TStr k # hash_json_value v) m)"

definition check_source :: "event \<Rightarrow> unit result" where
  "check_source e =
     (if blank (source_name (ev_source e))
      then Inl (ValidationError [''cannot fingerprint event with empty source.source_name''])
      else if blank (source_offset (ev_source e))
      then Inl (ValidationError [''cannot fingerprint event with empty source.offset''])
      else Inr ())"

definition transient_tokens :: "event \<Rightarrow> token list" where
  "transient_tokens e =
     [TStr (source_name (ev_source e)), TStr (source_offset (ev_source e)), TStr (ev_table e), TOp (ev_op e),
      TKey (ev_primary_key e)]
     @ (case ev_transaction e of
          None \<Rightarrow> []
        | Some tx \<Rightarrow> [TU64 (tx_id tx), TU32 (event_index tx),
                       TU32 (case total_events tx of None \<Rightarrow> 0 | Some n \<Rightarrow> n)])
     @ (case ev_before e of None \<Rightarrow> [] | Some v \<Rightarrow> hash_json_value v)
     @ (case ev_after e of None \<Rightarrow> [] | Some v \<Rightarrow> hash_json_value v)"

definition fingerprint_event_transient :: "(token list \<Rightarrow> nat) \<Rightarrow> event \<Rightarrow> nat result" where
  "fingerprint_event_transient ahash e =
     (case check_source e of Inl err \<Rightarrow> Inl err | Inr _ \<Rightarrow> Inr (ahash (transient_tokens e)))"

text \<open>The stable pre-image, byte by byte.\<close>

fun le_bytes :: "nat \<Rightarrow> nat \<Rightarrow> nat list" where
  "le_bytes 0 n = []"
| "le_bytes (Suc k) n = n mod 256 # le_bytes k (n div 256)"

definition bytes_of :: "string \<Rightarrow> nat list" where
  "bytes_of s = map of_char s"

definition update_str :: "string \<Rightarrow> nat list" where
  "update_str s = le_bytes 8 (length s) @ bytes_of s"

definition stable_key :: "string list option \<Rightarrow> nat list" where
  "stable_key pk =
     (case pk of
        Some pks \<Rightarrow> le_bytes 8 (length pks) @ concat (map update_str pks)
      | None \<Rightarrow> le_bytes 8 0)"

definition stable_transaction :: "transaction_metadata option \<Rightarrow> nat list" where
  "stable_transaction t =
     (case t of
        Some tx \<Rightarrow> le_bytes 1 1 @ le_bytes 8 (tx_id tx) @ le_bytes 4 (event_index tx)
          @ le_bytes 4 (case total_events tx of None \<Rightarrow> 0 | Some n \<Rightarrow> n)
      | None \<Rightarrow> le_bytes 1 0)"

definition stable_image :: "(json \<Rightarrow> string) \<Rightarrow> json option \<Rightarrow> nat list" where
  "stable_image render v =
     (case v of Some j \<Rightarrow> le_bytes 1 1 @ update_str (render j) | None \<Rightarrow> le_bytes 1 0)"

definition stable_preimage :: "(json \<Rightarrow> string) \<Rightarrow> event \<Rightarrow> nat list" where
  "stable_preimage render e =
     bytes_of ''rustcdc/v1/fingerprint'' @ [0]
     @ update_str (source_name (ev_source e)) @ update_str (source_offset (ev_source e))
     @ update_str (ev_table e) @ update_str (op_to_str (ev_op e))
     @ stable_key (ev_primary_key e) @ stable_transaction (ev_transaction e)
     @ stable_image render (ev_before e) @ stable_image render (ev_after e)"

definition fingerprint_event_stable ::
    "(nat list \<Rightarrow> string) \<Rightarrow> (json \<Rightarrow> string) \<Rightarrow> event \<Rightarrow> string result" where
  "fingerprint_event_stable sha render e =
     (case check_source e of Inl err \<Rightarrow> Inl err | Inr _ \<Rightarrow> Inr (sha (stable_preimage render e)))"

section \<open>The guard\<close>

record idempotency_guard =
  ig_capacity :: nat
  ig_ttl_ms :: "nat option"
  ig_seen :: "(nat \<times> nat) list"
  ig_order :: "(nat \<times> nat) list"
  ig_evictions :: nat
  ig_unidentifiable :: nat

definition guard_new :: "nat \<Rightarrow> idempotency_guard result" where
  "guard_new capacity =
     (if capacity = 0 then Inl (ConfigError ''idempotency guard capacity must be greater than zero'')
      else Inr \<lparr>ig_capacity = capacity, ig_ttl_ms = None, ig_seen = [], ig_order = [], ig_evictions = 0,
                ig_unidentifiable = 0\<rparr>)"

definition guard_with_ttl_ms :: "nat \<Rightarrow> idempotency_guard \<Rightarrow> idempotency_guard result" where
  "guard_with_ttl_ms ttl g =
     (if ttl = 0 then Inl (ConfigError ''idempotency guard ttl_ms must be greater than zero'')
      else Inr (g\<lparr>ig_ttl_ms := Some ttl\<rparr>))"

definition event_is_identifiable :: "event \<Rightarrow> bool" where
  "event_is_identifiable e \<longleftrightarrow>
     ev_transaction e \<noteq> None \<or> ev_op e = Truncate \<or> ev_op e = SchemaChange \<or> has_resolvable_key e"

text \<open>
  The eviction loop. With an empty queue and too many fingerprints it would spin for ever, so not
  returning is \<open>None\<close>.
\<close>

partial_function (option) evict_loop :: "idempotency_guard \<Rightarrow> idempotency_guard option" where
  "evict_loop g =
     (if length (ig_seen g) > ig_capacity g
      then (case ig_order g of
              [] \<Rightarrow> evict_loop g
            | (expired_key, _) # rest \<Rightarrow>
                evict_loop (g\<lparr>ig_order := rest, ig_seen := AList.delete expired_key (ig_seen g),
                              ig_evictions := sat_add64 (ig_evictions g) 1\<rparr>))
      else Some g)"

definition guard_insert :: "nat \<Rightarrow> nat \<Rightarrow> idempotency_guard \<Rightarrow> idempotency_guard option" where
  "guard_insert fp now g =
     evict_loop (g\<lparr>ig_seen := AList.update fp now (ig_seen g), ig_order := ig_order g @ [(fp, now)]\<rparr>)"

fun prune_loop :: "nat \<Rightarrow> nat \<Rightarrow> (nat \<times> nat) list \<Rightarrow> (nat \<times> nat) list \<Rightarrow> (nat \<times> nat) list \<times> (nat \<times> nat) list" where
  "prune_loop ttl now seen [] = (seen, [])"
| "prune_loop ttl now seen ((fp, at) # rest) =
     (if sat_sub now at < ttl then (seen, (fp, at) # rest)
      else prune_loop ttl now (AList.delete fp seen) rest)"

definition prune_expired :: "nat \<Rightarrow> idempotency_guard \<Rightarrow> idempotency_guard" where
  "prune_expired now g =
     (case ig_ttl_ms g of
        None \<Rightarrow> g
      | Some ttl \<Rightarrow>
          (case prune_loop ttl now (ig_seen g) (ig_order g) of
             (seen, order) \<Rightarrow> g\<lparr>ig_seen := seen, ig_order := order\<rparr>))"

definition should_process ::
    "(token list \<Rightarrow> nat) \<Rightarrow> nat \<Rightarrow> event \<Rightarrow> idempotency_guard \<Rightarrow> (idempotency_guard \<times> bool result) option" where
  "should_process ahash now e g =
     (let g1 = prune_expired now g
      in if \<not> event_is_identifiable e
         then Some (g1\<lparr>ig_unidentifiable := sat_add64 (ig_unidentifiable g1) 1\<rparr>, Inr True)
         else case fingerprint_event_transient ahash e of
                Inl err \<Rightarrow> Some (g1, Inl err)
              | Inr fp \<Rightarrow>
                  if map_of (ig_seen g1) fp \<noteq> None then Some (g1, Inr False)
                  else map_option (\<lambda>g2. (g2, Inr True)) (guard_insert fp now g1))"

section \<open>The window\<close>

definition guard_inv :: "idempotency_guard \<Rightarrow> bool" where
  "guard_inv g \<longleftrightarrow> 0 < ig_capacity g \<and> length (ig_order g) \<le> ig_capacity g
     \<and> distinct (map fst (ig_order g)) \<and> distinct (map fst (ig_seen g))
     \<and> fst ` set (ig_seen g) = fst ` set (ig_order g)"

lemma inv_lengths: "guard_inv g \<Longrightarrow> length (ig_seen g) = length (ig_order g)"
  by (metis guard_inv_def distinct_card length_map list.set_map)

lemma keys_delete: "fst ` set (AList.delete k m) = fst ` set m - {k}"
  by (auto simp: AList.delete_eq)

lemma update_fresh: "k \<notin> fst ` set m \<Longrightarrow> AList.update k v m = m @ [(k, v)]"
  by (induction m) auto

lemma prune_loop_window:
  assumes "distinct (map fst order)" "distinct (map fst seen)" "fst ` set seen = fst ` set order"
    and "prune_loop ttl now seen order = (seen', order')"
  shows "distinct (map fst order') \<and> distinct (map fst seen') \<and> fst ` set seen' = fst ` set order'
    \<and> suffix order' order"
  using assms
proof (induction ttl now seen order rule: prune_loop.induct)
  case (2 ttl now seen fp at rest)
  have "fst ` set (AList.delete fp seen) = fst ` set rest"
    using 2(2,4) by (auto simp: keys_delete)
  with 2 show ?case by (auto simp: distinct_delete suffix_Cons split: if_splits)
qed auto

lemma prune_expired_inv:
  assumes "guard_inv g"
  shows "guard_inv (prune_expired now g)" and "suffix (ig_order (prune_expired now g)) (ig_order g)"
    and "ig_capacity (prune_expired now g) = ig_capacity g"
proof -
  have "guard_inv (prune_expired now g) \<and> suffix (ig_order (prune_expired now g)) (ig_order g)
    \<and> ig_capacity (prune_expired now g) = ig_capacity g"
  proof (cases "ig_ttl_ms g")
    case None
    with assms show ?thesis by (simp add: prune_expired_def)
  next
    case (Some ttl)
    obtain seen' order' where p: "prune_loop ttl now (ig_seen g) (ig_order g) = (seen', order')" by force
    from prune_loop_window [OF _ _ _ p] assms Some p show ?thesis
      by (auto simp: prune_expired_def guard_inv_def dest: suffix_length_le)
  qed
  then show "guard_inv (prune_expired now g)" "suffix (ig_order (prune_expired now g)) (ig_order g)"
    "ig_capacity (prune_expired now g) = ig_capacity g" by blast+
qed

text \<open>Inserting a new fingerprint returns, and slides a window of at most the capacity.\<close>

definition slide :: "nat \<Rightarrow> 'a list \<Rightarrow> 'a list" where
  "slide cap xs = drop (length xs - cap) xs"

lemma evict_loop_done: "length (ig_seen g) \<le> ig_capacity g \<Longrightarrow> evict_loop g = Some g"
  by (simp add: evict_loop.simps)

lemma guard_insert_window:
  assumes inv: "guard_inv g" and new: "fp \<notin> fst ` set (ig_order g)"
  obtains g' where "guard_insert fp now g = Some g'" "guard_inv g'"
    "ig_order g' = slide (ig_capacity g) (ig_order g @ [(fp, now)])"
    "ig_capacity g' = ig_capacity g" "ig_ttl_ms g' = ig_ttl_ms g"
proof -
  let ?g1 = "g\<lparr>ig_seen := AList.update fp now (ig_seen g), ig_order := ig_order g @ [(fp, now)]\<rparr>"
  have fresh: "fp \<notin> fst ` set (ig_seen g)" using inv new by (simp add: guard_inv_def)
  have len: "length (AList.update fp now (ig_seen g)) = Suc (length (ig_order g))"
    using inv_lengths [OF inv] fresh by (simp add: update_fresh)
  have keys: "fst ` set (AList.update fp now (ig_seen g)) = insert fp (fst ` set (ig_order g))"
    using inv fresh by (simp add: guard_inv_def update_fresh)
  show ?thesis
  proof (cases "length (ig_order g) < ig_capacity g")
    case True
    then have "guard_insert fp now g = Some ?g1"
      by (simp add: guard_insert_def evict_loop_done len)
    moreover have "guard_inv ?g1"
      using inv new keys True by (auto simp: guard_inv_def distinct_update)
    ultimately show ?thesis using that [of ?g1] True by (simp add: slide_def)
  next
    case False
    then have full: "length (ig_order g) = ig_capacity g" using inv by (simp add: guard_inv_def)
    then obtain k t rest where order: "ig_order g = (k, t) # rest" using inv
      by (cases "ig_order g") (auto simp: guard_inv_def)
    let ?g2 = "?g1\<lparr>ig_order := rest @ [(fp, now)], ig_seen := AList.delete k (AList.update fp now (ig_seen g)),
        ig_evictions := sat_add64 (ig_evictions g) 1\<rparr>"
    have k: "k \<noteq> fp" "k \<notin> fst ` set rest" using new order inv by (auto simp: guard_inv_def)
    have keys2: "fst ` set (AList.delete k (AList.update fp now (ig_seen g))) = insert fp (fst ` set rest)"
      using keys k order by (auto simp: keys_delete)
    have dist2: "distinct (map fst (AList.delete k (AList.update fp now (ig_seen g))))"
      using inv by (simp add: guard_inv_def distinct_delete distinct_update)
    have inv2: "guard_inv ?g2"
      using inv new keys2 dist2 order full by (auto simp: guard_inv_def)
    have "guard_insert fp now g = evict_loop ?g2"
      unfolding guard_insert_def using full order by (subst evict_loop.simps) (simp add: len)
    also have "\<dots> = Some ?g2"
      using inv_lengths [OF inv2] order full by (intro evict_loop_done) simp
    finally show ?thesis
      using that [OF _ inv2] order full by (simp add: slide_def)
  qed
qed

section \<open>The guard refines a bounded window\<close>

text \<open>
  What the guard promises, without the hash map and the loops: a list of at most \<open>capacity\<close>
  fingerprints with their times, oldest first.
\<close>

definition expired :: "nat option \<Rightarrow> nat \<Rightarrow> nat \<times> nat \<Rightarrow> bool" where
  "expired ttl now x \<longleftrightarrow> (case ttl of None \<Rightarrow> False | Some t \<Rightarrow> t \<le> now - snd x)"

definition window_step ::
    "(token list \<Rightarrow> nat) \<Rightarrow> nat \<Rightarrow> nat option \<Rightarrow> nat \<Rightarrow> event \<Rightarrow> (nat \<times> nat) list \<Rightarrow> (nat \<times> nat) list \<times> bool result" where
  "window_step ahash cap ttl now e w =
     (let live = dropWhile (expired ttl now) w
      in if \<not> event_is_identifiable e then (live, Inr True)
         else case fingerprint_event_transient ahash e of
                Inl err \<Rightarrow> (live, Inl err)
              | Inr fp \<Rightarrow>
                  if fp \<in> fst ` set live then (live, Inr False)
                  else (slide cap (live @ [(fp, now)]), Inr True))"

lemma prune_loop_dropWhile:
  "snd (prune_loop ttl now seen order) = dropWhile (expired (Some ttl) now) order"
  by (induction ttl now seen order rule: prune_loop.induct) (auto simp: expired_def)

lemma prune_expired_order: "ig_order (prune_expired now g) = dropWhile (expired (ig_ttl_ms g) now) (ig_order g)"
proof (cases "ig_ttl_ms g")
  case None
  then have "dropWhile (expired (ig_ttl_ms g) now) (ig_order g) = ig_order g"
    by (cases "ig_order g") (auto simp: expired_def)
  with None show ?thesis by (simp add: prune_expired_def)
next
  case (Some ttl)
  with prune_loop_dropWhile [of ttl now "ig_seen g" "ig_order g"] show ?thesis
    by (simp add: prune_expired_def case_prod_beta)
qed

lemma prune_expired_ttl [simp]: "ig_ttl_ms (prune_expired now g) = ig_ttl_ms g"
  by (auto simp: prune_expired_def split: option.split prod.split)

lemma should_process_window:
  assumes inv: "guard_inv g"
  obtains g' where
    "should_process ahash now e g
       = Some (g', snd (window_step ahash (ig_capacity g) (ig_ttl_ms g) now e (ig_order g)))"
    "ig_order g' = fst (window_step ahash (ig_capacity g) (ig_ttl_ms g) now e (ig_order g))"
    "guard_inv g'" "ig_capacity g' = ig_capacity g" "ig_ttl_ms g' = ig_ttl_ms g"
proof -
  let ?g1 = "prune_expired now g" and ?w = "window_step ahash (ig_capacity g) (ig_ttl_ms g) now e (ig_order g)"
  note g1 = prune_expired_inv [OF inv, of now]
  have "\<exists>g'. should_process ahash now e g = Some (g', snd ?w) \<and> ig_order g' = fst ?w \<and> guard_inv g'
      \<and> ig_capacity g' = ig_capacity g \<and> ig_ttl_ms g' = ig_ttl_ms g"
  proof (cases "event_is_identifiable e")
    case False
    with g1 show ?thesis
      by (simp add: should_process_def window_step_def Let_def guard_inv_def prune_expired_order)
  next
    case True
    show ?thesis
    proof (cases "fingerprint_event_transient ahash e")
      case (Inl err)
      with True g1 show ?thesis by (simp add: should_process_def window_step_def Let_def prune_expired_order)
    next
      case (Inr fp)
      have dup: "map_of (ig_seen ?g1) fp \<noteq> None \<longleftrightarrow> fp \<in> fst ` set (ig_order ?g1)"
        using g1(1) by (simp add: guard_inv_def map_of_eq_None_iff)
      show ?thesis
      proof (cases "fp \<in> fst ` set (ig_order ?g1)")
        case dup': True
        with True Inr g1 dup show ?thesis
          by (auto simp: should_process_def window_step_def Let_def prune_expired_order)
      next
        case False
        obtain g' where "guard_insert fp now ?g1 = Some g'" "guard_inv g'"
          "ig_order g' = slide (ig_capacity ?g1) (ig_order ?g1 @ [(fp, now)])"
          "ig_capacity g' = ig_capacity ?g1" "ig_ttl_ms g' = ig_ttl_ms ?g1"
          using guard_insert_window [OF g1(1) False, of now] by metis
        with True Inr g1 dup False show ?thesis
          by (auto simp: should_process_def window_step_def Let_def prune_expired_order)
      qed
    qed
  qed
  then show ?thesis using that by blast
qed

section \<open>Runs of the guard\<close>

fun guard_run ::
    "(token list \<Rightarrow> nat) \<Rightarrow> idempotency_guard \<Rightarrow> (nat \<times> event) list \<Rightarrow> (idempotency_guard \<times> bool result list) option" where
  "guard_run ahash g [] = Some (g, [])"
| "guard_run ahash g ((now, e) # es) =
     (case should_process ahash now e g of
        None \<Rightarrow> None
      | Some (g1, d) \<Rightarrow> map_option (\<lambda>(g2, ds). (g2, d # ds)) (guard_run ahash g1 es))"

text \<open>An event that entered the window: identifiable, fingerprinted, and passed on.\<close>

definition recorded :: "event \<Rightarrow> bool result \<Rightarrow> bool" where
  "recorded e d \<longleftrightarrow> event_is_identifiable e \<and> d = Inr True"

lemma set_slide: "set (slide cap xs) \<subseteq> set xs"
  by (auto simp: slide_def dest: in_set_dropD)

lemma window_step_keys:
  assumes "window_step ahash cap ttl now e w = (w', d)"
  shows "fp \<in> fst ` set w' \<Longrightarrow>
      fp \<in> fst ` set w \<or> recorded e d \<and> fingerprint_event_transient ahash e = Inr fp"
    and "d = Inr False \<Longrightarrow> event_is_identifiable e \<and>
      (\<exists>fp. fingerprint_event_transient ahash e = Inr fp \<and> fp \<in> fst ` set w)"
proof -
  let ?live = "dropWhile (expired ttl now) w"
  have live: "fst ` set ?live \<subseteq> fst ` set w" by (auto dest: set_dropWhileD)
  have slid: "fst ` set (slide cap (?live @ [(f, now)])) \<subseteq> insert f (fst ` set w)" for f
    by (rule order_trans [OF image_mono [OF set_slide]]) (use live in \<open>simp add: subset_insertI2\<close>)
  show "fp \<in> fst ` set w \<or> recorded e d \<and> fingerprint_event_transient ahash e = Inr fp"
    if "fp \<in> fst ` set w'"
  proof (cases "w' = ?live")
    case True
    with that live show ?thesis by blast
  next
    case False
    with assms obtain f where "event_is_identifiable e" "fingerprint_event_transient ahash e = Inr f"
      "w' = slide cap (?live @ [(f, now)])" "d = Inr True"
      by (auto simp: window_step_def Let_def split: if_splits sum.splits)
    with that slid [of f] show ?thesis by (auto simp: recorded_def)
  qed
  show "event_is_identifiable e \<and> (\<exists>fp. fingerprint_event_transient ahash e = Inr fp \<and> fp \<in> fst ` set w)"
    if "d = Inr False"
    using assms that live by (auto simp: window_step_def Let_def split: if_splits sum.splits)
qed

lemma guard_run_sound:
  assumes "guard_inv g"
  shows "\<exists>g' ds. guard_run ahash g es = Some (g', ds) \<and> guard_inv g' \<and> length ds = length es
    \<and> (\<forall>i < length es. ds ! i = Inr False \<longrightarrow>
         event_is_identifiable (snd (es ! i))
         \<and> (\<exists>fp. fingerprint_event_transient ahash (snd (es ! i)) = Inr fp
              \<and> (fp \<in> fst ` set (ig_order g)
                 \<or> (\<exists>j < i. recorded (snd (es ! j)) (ds ! j)
                       \<and> fingerprint_event_transient ahash (snd (es ! j)) = Inr fp))))"
  using assms
proof (induction es arbitrary: g)
  case (Cons x es)
  obtain now e where x: "x = (now, e)" by force
  obtain w d where w: "window_step ahash (ig_capacity g) (ig_ttl_ms g) now e (ig_order g) = (w, d)" by force
  obtain g1 where g1: "should_process ahash now e g = Some (g1, d)" "ig_order g1 = w" "guard_inv g1"
    using should_process_window [OF Cons.prems, of ahash now e] w by (metis fst_conv snd_conv)
  obtain g2 ds where run: "guard_run ahash g1 es = Some (g2, ds)" "guard_inv g2" "length ds = length es"
    and ih: "\<And>i. i < length es \<Longrightarrow> ds ! i = Inr False \<Longrightarrow> event_is_identifiable (snd (es ! i))
         \<and> (\<exists>fp. fingerprint_event_transient ahash (snd (es ! i)) = Inr fp
              \<and> (fp \<in> fst ` set (ig_order g1)
                 \<or> (\<exists>j < i. recorded (snd (es ! j)) (ds ! j)
                       \<and> fingerprint_event_transient ahash (snd (es ! j)) = Inr fp)))"
    using Cons.IH [OF g1(3)] by blast
  note keys = window_step_keys [OF w]
  have "event_is_identifiable (snd ((x # es) ! i))
         \<and> (\<exists>fp. fingerprint_event_transient ahash (snd ((x # es) ! i)) = Inr fp
              \<and> (fp \<in> fst ` set (ig_order g)
                 \<or> (\<exists>j < i. recorded (snd ((x # es) ! j)) ((d # ds) ! j)
                       \<and> fingerprint_event_transient ahash (snd ((x # es) ! j)) = Inr fp)))"
    if i: "i < length (x # es)" "(d # ds) ! i = Inr False" for i
  proof (cases i)
    case 0
    with i(2) keys(2) x show ?thesis by auto
  next
    case (Suc k)
    with ih [of k] i obtain fp where fp: "event_is_identifiable (snd (es ! k))"
      "fingerprint_event_transient ahash (snd (es ! k)) = Inr fp"
      "fp \<in> fst ` set w \<or> (\<exists>j < k. recorded (snd (es ! j)) (ds ! j)
          \<and> fingerprint_event_transient ahash (snd (es ! j)) = Inr fp)"
      using g1(2) by auto
    from fp(3) have "fp \<in> fst ` set (ig_order g)
        \<or> (\<exists>j < i. recorded (snd ((x # es) ! j)) ((d # ds) ! j)
             \<and> fingerprint_event_transient ahash (snd ((x # es) ! j)) = Inr fp)"
    proof
      assume "fp \<in> fst ` set w"
      from keys(1) [OF this] show ?thesis using Suc x by auto
    next
      assume "\<exists>j < k. recorded (snd (es ! j)) (ds ! j) \<and> fingerprint_event_transient ahash (snd (es ! j)) = Inr fp"
      then show ?thesis using Suc by (metis Suc_mono nth_Cons_Suc)
    qed
    with fp Suc show ?thesis by auto
  qed
  with run g1 x show ?case by auto
qed simp

lemma guard_run_capacity:
  "guard_inv g \<Longrightarrow> guard_run ahash g es = Some (g', ds) \<Longrightarrow> ig_capacity g' = ig_capacity g"
proof (induction es arbitrary: g ds)
  case (Cons x es)
  obtain now e where x: "x = (now, e)" by force
  obtain g1 d where g1: "should_process ahash now e g = Some (g1, d)" "guard_inv g1" "ig_capacity g1 = ig_capacity g"
    using should_process_window [OF Cons.prems(1), of ahash now e] by metis
  from Cons.prems(2) x g1(1) obtain ds' where "guard_run ahash g1 es = Some (g', ds')" by auto
  from Cons.IH [OF g1(2) this] g1(3) show ?case by simp
qed auto

text \<open>
  C25. The guard drops an event only on evidence: over any run from a new guard, with any clock and
  any lifetime, every call returns, and an event is suppressed only if it is identifiable and an
  earlier identifiable event of the run with the same fingerprint was passed on.
\<close>

theorem guard_suppresses_only_repeats:
  assumes "guard_new cap = Inr g0" and "g = g0\<lparr>ig_ttl_ms := ttl\<rparr>"
  shows "\<exists>g' ds. guard_run ahash g es = Some (g', ds) \<and> length ds = length es
    \<and> length (ig_order g') \<le> cap
    \<and> (\<forall>i < length es. ds ! i = Inr False \<longrightarrow>
         event_is_identifiable (snd (es ! i))
         \<and> (\<exists>j < i. event_is_identifiable (snd (es ! j)) \<and> ds ! j = Inr True
              \<and> fingerprint_event_transient ahash (snd (es ! j))
                = fingerprint_event_transient ahash (snd (es ! i))))"
proof -
  have g: "guard_inv g" "ig_order g = []" "ig_capacity g = cap"
    using assms by (auto simp: guard_new_def guard_inv_def split: if_splits)
  obtain g' ds where run: "guard_run ahash g es = Some (g', ds)" "guard_inv g'" "length ds = length es"
    and sup: "\<And>i. i < length es \<Longrightarrow> ds ! i = Inr False \<Longrightarrow> event_is_identifiable (snd (es ! i))
       \<and> (\<exists>fp. fingerprint_event_transient ahash (snd (es ! i)) = Inr fp
            \<and> (\<exists>j < i. recorded (snd (es ! j)) (ds ! j)
                  \<and> fingerprint_event_transient ahash (snd (es ! j)) = Inr fp))"
    using guard_run_sound [OF g(1), of ahash es] unfolding g(2) by auto
  have "length (ig_order g') \<le> cap"
    using run(2) guard_run_capacity [OF g(1) run(1)] g(3) by (simp add: guard_inv_def)
  moreover have "event_is_identifiable (snd (es ! i)) \<and> (\<exists>j < i. event_is_identifiable (snd (es ! j)) \<and> ds ! j = Inr True
      \<and> fingerprint_event_transient ahash (snd (es ! j)) = fingerprint_event_transient ahash (snd (es ! i)))"
    if "i < length es" "ds ! i = Inr False" for i
    using sup [OF that] unfolding recorded_def by metis
  ultimately show ?thesis using run by blast
qed

definition example_keyed :: "string \<Rightarrow> event" where
  "example_keyed off =
     default_event\<lparr>ev_source := \<lparr>source_name = ''s'', source_offset = off, source_timestamp = 0\<rparr>,
       ev_transaction := Some \<lparr>tx_id = 1, total_events = None, event_index = 0\<rparr>\<rparr>"

theorem guard_suppresses_only_repeats_witness:
  "\<exists>g' ds. guard_run length \<lparr>ig_capacity = 2, ig_ttl_ms = Some 5, ig_seen = [], ig_order = [],
       ig_evictions = 0, ig_unidentifiable = 0\<rparr> [(1, example_keyed ''a''), (2, example_keyed ''a'')] = Some (g', ds)
     \<and> length ds = 2"
proof -
  have "guard_new 2 = Inr \<lparr>ig_capacity = 2, ig_ttl_ms = None, ig_seen = [], ig_order = [],
       ig_evictions = 0, ig_unidentifiable = 0\<rparr>" by (simp add: guard_new_def)
  from guard_suppresses_only_repeats [OF this refl, where ttl = "Some 5" and ahash = length
      and es = "[(1, example_keyed ''a''), (2, example_keyed ''a'')]"]
  show ?thesis by auto
qed

section \<open>The stable pre-image\<close>

lemma length_le_bytes [simp]: "length (le_bytes k n) = k"
  by (induction k arbitrary: n) auto

lemma le_bytes_inj: "m < 256 ^ k \<Longrightarrow> n < 256 ^ k \<Longrightarrow> le_bytes k m = le_bytes k n \<Longrightarrow> m = n"
proof (induction k arbitrary: m n)
  case (Suc k)
  then have "m div 256 = n div 256"
    by (intro Suc.IH) (auto simp: less_mult_imp_div_less mult.commute)
  moreover have "m mod 256 = n mod 256" using Suc.prems by simp
  ultimately show ?case by (metis div_mult_mod_eq)
qed simp

lemma bytes_of_inj: "bytes_of a = bytes_of b \<longleftrightarrow> a = b"
  by (simp add: bytes_of_def inj_map_eq_map inj_on_def)

lemma length_bytes_of [simp]: "length (bytes_of s) = length s"
  by (simp add: bytes_of_def)

text \<open>A length-prefixed field can be read off the front: no other field ends where it does.\<close>

definition fits64 :: "nat \<Rightarrow> bool" where
  "fits64 n \<longleftrightarrow> n < 256 ^ 8"

lemma le_bytes_eq: "m < 256 ^ k \<Longrightarrow> n < 256 ^ k \<Longrightarrow> le_bytes k m = le_bytes k n \<longleftrightarrow> m = n"
  using le_bytes_inj by blast

lemma update_str_inj:
  assumes "fits64 (length a)" "fits64 (length b)"
  shows "update_str a @ x = update_str b @ y \<longleftrightarrow> a = b \<and> x = y"
proof
  assume eq: "update_str a @ x = update_str b @ y"
  then have "length a = length b" "bytes_of a @ x = bytes_of b @ y"
    using assms by (simp_all add: update_str_def fits64_def le_bytes_eq)
  then show "a = b \<and> x = y" by (simp add: append_eq_append_conv bytes_of_inj)
qed simp

lemma concat_update_str_inj:
  assumes "length as = length bs" "\<forall>s \<in> set as \<union> set bs. fits64 (length s)"
  shows "concat (map update_str as) @ x = concat (map update_str bs) @ y \<longleftrightarrow> as = bs \<and> x = y"
  using assms by (induction as bs arbitrary: x y rule: list_induct2) (auto simp: update_str_inj)

definition key_list :: "string list option \<Rightarrow> string list" where
  "key_list pk = (case pk of None \<Rightarrow> [] | Some pks \<Rightarrow> pks)"

lemma stable_key_eq: "stable_key pk = le_bytes 8 (length (key_list pk)) @ concat (map update_str (key_list pk))"
  by (auto simp: stable_key_def key_list_def split: option.split)

definition key_fits :: "string list option \<Rightarrow> bool" where
  "key_fits pk \<longleftrightarrow> fits64 (length (key_list pk)) \<and> (\<forall>s \<in> set (key_list pk). fits64 (length s))"

lemma stable_key_inj:
  assumes "key_fits a" "key_fits b"
  shows "stable_key a @ x = stable_key b @ y \<longleftrightarrow> key_list a = key_list b \<and> x = y"
proof
  assume "stable_key a @ x = stable_key b @ y"
  then have "length (key_list a) = length (key_list b)"
    "concat (map update_str (key_list a)) @ x = concat (map update_str (key_list b)) @ y"
    using assms by (simp_all add: stable_key_eq key_fits_def fits64_def le_bytes_eq)
  then show "key_list a = key_list b \<and> x = y"
    using assms by (subst (asm) concat_update_str_inj) (auto simp: key_fits_def)
qed (simp add: stable_key_eq)

definition tx_view :: "transaction_metadata option \<Rightarrow> (nat \<times> nat \<times> nat) option" where
  "tx_view t = map_option (\<lambda>tx. (tx_id tx, event_index tx, case total_events tx of None \<Rightarrow> 0 | Some n \<Rightarrow> n)) t"

definition tx_fits :: "transaction_metadata option \<Rightarrow> bool" where
  "tx_fits t \<longleftrightarrow> (case tx_view t of None \<Rightarrow> True | Some (a, b, c) \<Rightarrow> a < 256 ^ 8 \<and> b < 256 ^ 4 \<and> c < 256 ^ 4)"

lemma stable_transaction_inj:
  assumes "tx_fits a" "tx_fits b"
  shows "stable_transaction a @ x = stable_transaction b @ y \<longleftrightarrow> tx_view a = tx_view b \<and> x = y"
  using assms
  by (cases a; cases b)
    (auto simp: stable_transaction_def tx_view_def tx_fits_def le_bytes_eq
      simp del: power_Suc split: option.splits)

definition image_fits :: "(json \<Rightarrow> string) \<Rightarrow> json option \<Rightarrow> bool" where
  "image_fits render v \<longleftrightarrow> (case v of None \<Rightarrow> True | Some j \<Rightarrow> fits64 (length (render j)))"

lemma stable_image_inj:
  assumes "image_fits render a" "image_fits render b"
  shows "stable_image render a @ x = stable_image render b @ y \<longleftrightarrow>
    map_option render a = map_option render b \<and> x = y"
  using assms by (cases a; cases b) (auto simp: stable_image_def image_fits_def update_str_inj)

lemma op_to_str_inj: "op_to_str a = op_to_str b \<longleftrightarrow> a = b"
  by (cases a; cases b) auto

text \<open>Every length and number of the event fits its field.\<close>

definition event_fits :: "(json \<Rightarrow> string) \<Rightarrow> event \<Rightarrow> bool" where
  "event_fits render e \<longleftrightarrow>
     fits64 (length (source_name (ev_source e))) \<and> fits64 (length (source_offset (ev_source e)))
     \<and> fits64 (length (ev_table e)) \<and> key_fits (ev_primary_key e) \<and> tx_fits (ev_transaction e)
     \<and> image_fits render (ev_before e) \<and> image_fits render (ev_after e)"

text \<open>
  C26. The stable fingerprint hashes an unambiguous pre-image: two events have the same pre-image
  exactly when they agree on source, offset, table, operation, key columns, transaction position and
  both rendered images. No shift of bytes from one field into the next can make two events collide.
\<close>

theorem stable_preimage_unambiguous:
  assumes "event_fits render a" "event_fits render b"
  shows "stable_preimage render a = stable_preimage render b \<longleftrightarrow>
    source_name (ev_source a) = source_name (ev_source b)
    \<and> source_offset (ev_source a) = source_offset (ev_source b)
    \<and> ev_table a = ev_table b \<and> ev_op a = ev_op b
    \<and> key_list (ev_primary_key a) = key_list (ev_primary_key b)
    \<and> tx_view (ev_transaction a) = tx_view (ev_transaction b)
    \<and> map_option render (ev_before a) = map_option render (ev_before b)
    \<and> map_option render (ev_after a) = map_option render (ev_after b)"
proof -
  have ops: "fits64 (length (op_to_str k))" for k by (cases k) (simp_all add: fits64_def)
  have img: "stable_image render (ev_after a) = stable_image render (ev_after b) \<longleftrightarrow>
      map_option render (ev_after a) = map_option render (ev_after b)"
    using stable_image_inj [of render "ev_after a" "ev_after b" "[]" "[]"] assms by (simp add: event_fits_def)
  show ?thesis
    using assms unfolding stable_preimage_def event_fits_def
    by (auto simp: update_str_inj ops op_to_str_inj stable_key_inj stable_transaction_inj stable_image_inj img)
qed

theorem stable_preimage_unambiguous_witness:
  "stable_preimage (\<lambda>_. []) (example_keyed ''a'') \<noteq> stable_preimage (\<lambda>_. []) (example_keyed ''b'')"
proof -
  have fits: "event_fits (\<lambda>_. []) (example_keyed ''a'')" "event_fits (\<lambda>_. []) (example_keyed ''b'')"
    by (simp_all add: event_fits_def example_keyed_def default_event_def fits64_def key_fits_def key_list_def
        tx_fits_def tx_view_def image_fits_def)
  show ?thesis
    unfolding stable_preimage_unambiguous [OF fits] by (simp add: example_keyed_def)
qed

text \<open>
  The schema of a table is part of neither fingerprint: events that differ only in it have the
  same fingerprints, so within the window the guard suppresses the second of them as a repeat.
\<close>

theorem fingerprints_ignore_schema:
  "fingerprint_event_transient ahash (e\<lparr>ev_schema := s\<rparr>) = fingerprint_event_transient ahash e
   \<and> fingerprint_event_stable sha render (e\<lparr>ev_schema := s\<rparr>) = fingerprint_event_stable sha render e"
  by (simp add: fingerprint_event_transient_def fingerprint_event_stable_def check_source_def
      transient_tokens_def stable_preimage_def)

end
