(* ===== verification/Transform_Pipeline.thy ===== *)
theory Transform_Pipeline
  imports Event_Envelope
begin

text \<open>
  The transform pipeline (\<open>transform/mod.rs\<close>). A transform is a trait object: its effect on one
  event, its batch entry point and its name are the fields of a record, and whatever state it keeps
  (hit counters, a sandbox, a network client) is part of the world \<open>'w\<close> it is called in. The
  two trait defaults for the batch entry point are definitions of this theory.
\<close>

section \<open>Stages\<close>

record 'w transform =
  tf_name :: string
  tf_apply :: "event \<Rightarrow> 'w \<Rightarrow> 'w \<times> event \<times> bool result"
  tf_apply_batch :: "event list \<Rightarrow> 'w \<Rightarrow> 'w \<times> event list \<times> unit result"

text \<open>
  \<open>Transform::apply_batch\<close>: \<open>retain_mut\<close> with the first failure remembered; after it the
  remaining events are kept as they are.
\<close>

fun sync_apply_batch ::
    "(event \<Rightarrow> 'w \<Rightarrow> 'w \<times> event \<times> bool result) \<Rightarrow> event list \<Rightarrow> 'w \<Rightarrow> 'w \<times> event list \<times> unit result" where
  "sync_apply_batch f [] w = (w, [], Inr ())"
| "sync_apply_batch f (e # es) w =
     (case f e w of
        (w1, e1, Inl err) \<Rightarrow> (w1, e1 # es, Inl err)
      | (w1, e1, Inr keep) \<Rightarrow>
          (case sync_apply_batch f es w1 of
             (w2, rest, r) \<Rightarrow> (w2, if keep then e1 # rest else rest, r)))"

text \<open>\<open>AsyncTransform::apply_batch\<close>: a failure returns early, with the batch taken out.\<close>

fun async_kept ::
    "(event \<Rightarrow> 'w \<Rightarrow> 'w \<times> event \<times> bool result) \<Rightarrow> event list \<Rightarrow> event list \<Rightarrow> 'w \<Rightarrow> 'w \<times> event list \<times> unit result" where
  "async_kept f kept [] w = (w, kept, Inr ())"
| "async_kept f kept (e # es) w =
     (case f e w of
        (w1, e1, Inl err) \<Rightarrow> (w1, [], Inl err)
      | (w1, e1, Inr keep) \<Rightarrow> async_kept f (if keep then kept @ [e1] else kept) es w1)"

definition async_apply_batch ::
    "(event \<Rightarrow> 'w \<Rightarrow> 'w \<times> event \<times> bool result) \<Rightarrow> event list \<Rightarrow> 'w \<Rightarrow> 'w \<times> event list \<times> unit result" where
  "async_apply_batch f es w = async_kept f [] es w"

datatype 'w stage = Sync "'w transform" | Async "'w transform"

fun stage_transform :: "'w stage \<Rightarrow> 'w transform" where
  "stage_transform (Sync t) = t"
| "stage_transform (Async t) = t"

section \<open>The pipeline\<close>

type_synonym 'w transform_pipeline = "'w stage list"

definition add_transform :: "'w transform \<Rightarrow> 'w transform_pipeline \<Rightarrow> 'w transform_pipeline" where
  "add_transform t p = p @ [Sync t]"

definition add_async_transform :: "'w transform \<Rightarrow> 'w transform_pipeline \<Rightarrow> 'w transform_pipeline" where
  "add_async_transform t p = p @ [Async t]"

definition keyed_change :: "event \<Rightarrow> bool" where
  "keyed_change e \<longleftrightarrow> is_data_change (ev_op e) \<and> has_resolvable_key e"

definition keyed_tables :: "event list \<Rightarrow> string list" where
  "keyed_tables es = map qualified_table_name (filter keyed_change es)"

definition key_destroyed :: "string list \<Rightarrow> event \<Rightarrow> bool" where
  "key_destroyed tables e \<longleftrightarrow>
     is_data_change (ev_op e) \<and> declares_key e \<and> \<not> has_resolvable_key e
     \<and> qualified_table_name e \<in> set tables"

fun pipeline_apply_batch ::
    "'w transform_pipeline \<Rightarrow> event list \<Rightarrow> 'w \<Rightarrow> 'w \<times> event list \<times> unit result" where
  "pipeline_apply_batch [] es w = (w, es, Inr ())"
| "pipeline_apply_batch (s # ss) es w =
     (let tables = keyed_tables es
      in case tf_apply_batch (stage_transform s) es w of
           (w1, es1, Inl err) \<Rightarrow> (w1, es1, Inl (Context ''transform failed'' err))
         | (w1, es1, Inr _) \<Rightarrow>
             if tables = [] then pipeline_apply_batch ss es1 w1
             else if list_ex (key_destroyed tables) es1
             then (w1, es1, Inl (TransformError ''transform removed the primary-key values''))
             else pipeline_apply_batch ss es1 w1)"

definition apply_batch :: "'w transform_pipeline \<Rightarrow> event list \<Rightarrow> 'w \<Rightarrow> 'w \<times> event list \<times> unit result" where
  "apply_batch p es w = (if p = [] \<or> es = [] then (w, es, Inr ()) else pipeline_apply_batch p es w)"

fun pipeline_apply ::
    "bool \<Rightarrow> 'w transform_pipeline \<Rightarrow> event \<Rightarrow> 'w \<Rightarrow> 'w \<times> event option result" where
  "pipeline_apply key_before [] e w = (w, Inr (Some e))"
| "pipeline_apply key_before (s # ss) e w =
     (case tf_apply (stage_transform s) e w of
        (w1, e1, Inl err) \<Rightarrow> (w1, Inl (Context ''transform failed'' err))
      | (w1, e1, Inr keep) \<Rightarrow>
          if \<not> keep then (w1, Inr None)
          else if key_before \<and> declares_key e1 \<and> \<not> has_resolvable_key e1
          then (w1, Inl (TransformError ''transform removed the primary-key values''))
          else pipeline_apply key_before ss e1 w1)"

definition apply_one :: "'w transform_pipeline \<Rightarrow> event \<Rightarrow> 'w \<Rightarrow> 'w \<times> event option result" where
  "apply_one p e w = pipeline_apply (keyed_change e) p e w"

section \<open>What a well-behaved stage does\<close>

text \<open>
  A stage that rewrites payloads but neither the table, the operation nor the declared key: the
  situation the key check is about. Both defaults inherit it from the per-event function.
\<close>

definition same_identity :: "event \<Rightarrow> event \<Rightarrow> bool" where
  "same_identity e e' \<longleftrightarrow>
     ev_op e' = ev_op e \<and> ev_table e' = ev_table e \<and> ev_schema e' = ev_schema e
     \<and> ev_primary_key e' = ev_primary_key e"

lemma same_identity_facts:
  assumes "same_identity e e'"
  shows "qualified_table_name e' = qualified_table_name e" and "declares_key e' = declares_key e"
    and "is_data_change (ev_op e') = is_data_change (ev_op e)"
  using assms by (simp_all add: same_identity_def qualified_table_name_def declares_key_def split: option.split)

definition keeps_identity :: "'w stage \<Rightarrow> bool" where
  "keeps_identity s \<longleftrightarrow>
     (\<forall>es w w' es' u. tf_apply_batch (stage_transform s) es w = (w', es', Inr u) \<longrightarrow>
        (\<forall>e' \<in> set es'. \<exists>e \<in> set es. same_identity e e'))"

lemma sync_apply_batch_identity:
  assumes "\<And>e w w' e' k. f e w = (w', e', Inr k) \<Longrightarrow> same_identity e e'"
    and "sync_apply_batch f es w = (w', es', Inr u)" and "e' \<in> set es'"
  shows "\<exists>e \<in> set es. same_identity e e'"
  using assms(2,3)
proof (induction es arbitrary: w w' es')
  case Nil
  then show ?case by simp
next
  case (Cons e es)
  obtain w1 e1 r where f: "f e w = (w1, e1, r)" by (cases "f e w") auto
  show ?case
  proof (cases r)
    case (Inl err)
    with f Cons.prems show ?thesis by simp
  next
    case (Inr keep)
    obtain w2 rest r2 where b: "sync_apply_batch f es w1 = (w2, rest, r2)"
      by (cases "sync_apply_batch f es w1") auto
    from f Inr b Cons.prems have es': "es' = (if keep then e1 # rest else rest)" and r2: "r2 = Inr u" by auto
    from assms(1) f Inr have "same_identity e e1" by blast
    with es' r2 b Cons.IH [of w1 w2 rest] Cons.prems(2) show ?thesis by (auto split: if_splits)
  qed
qed

lemma async_kept_identity:
  assumes "\<And>e w w' e' k. f e w = (w', e', Inr k) \<Longrightarrow> same_identity e e'"
    and "async_kept f kept es w = (w', es', Inr u)" and "e' \<in> set es'"
  shows "e' \<in> set kept \<or> (\<exists>e \<in> set es. same_identity e e')"
  using assms(2,3)
proof (induction es arbitrary: kept w w' es')
  case Nil
  then show ?case by simp
next
  case (Cons e es)
  obtain w1 e1 r where f: "f e w = (w1, e1, r)" by (cases "f e w") auto
  show ?case
  proof (cases r)
    case (Inl err)
    with f Cons.prems show ?thesis by simp
  next
    case (Inr keep)
    with assms(1) f have "same_identity e e1" by blast
    with f Inr Cons.IH [of "if keep then kept @ [e1] else kept" w1 w' es'] Cons.prems show ?thesis
      by (auto split: if_splits)
  qed
qed

lemma default_batch_keeps_identity:
  assumes f: "\<And>e w w' e' k. tf_apply (stage_transform s) e w = (w', e', Inr k) \<Longrightarrow> same_identity e e'"
    and d: "tf_apply_batch (stage_transform s) = sync_apply_batch (tf_apply (stage_transform s))
      \<or> tf_apply_batch (stage_transform s) = async_apply_batch (tf_apply (stage_transform s))"
  shows "keeps_identity s"
  unfolding keeps_identity_def
proof (intro allI impI ballI)
  fix es w w' es' u e'
  assume b: "tf_apply_batch (stage_transform s) es w = (w', es', Inr u)" and e': "e' \<in> set es'"
  from d show "\<exists>e \<in> set es. same_identity e e'"
  proof
    assume "tf_apply_batch (stage_transform s) = sync_apply_batch (tf_apply (stage_transform s))"
    with b have "sync_apply_batch (tf_apply (stage_transform s)) es w = (w', es', Inr u)" by simp
    from sync_apply_batch_identity [OF _ this e'] f show ?thesis by blast
  next
    assume "tf_apply_batch (stage_transform s) = async_apply_batch (tf_apply (stage_transform s))"
    with b have "async_kept (tf_apply (stage_transform s)) [] es w = (w', es', Inr u)"
      by (simp add: async_apply_batch_def)
    from async_kept_identity [OF _ this e'] f show ?thesis by auto
  qed
qed

section \<open>Message keys survive a batch\<close>

definition keys_resolve :: "event list \<Rightarrow> bool" where
  "keys_resolve es \<longleftrightarrow> list_all (\<lambda>e. is_data_change (ev_op e) \<and> declares_key e \<longrightarrow> has_resolvable_key e) es"

lemma stage_keys_resolve:
  assumes "keeps_identity s" and "keys_resolve es"
    and b: "tf_apply_batch (stage_transform s) es w = (w', es', Inr u)"
    and ok: "keyed_tables es = [] \<or> \<not> list_ex (key_destroyed (keyed_tables es)) es'"
  shows "keys_resolve es'"
  unfolding keys_resolve_def list_all_iff
proof (intro ballI impI)
  fix e' assume e': "e' \<in> set es'" and d: "is_data_change (ev_op e') \<and> declares_key e'"
  from assms(1) b e' obtain e where e: "e \<in> set es" "same_identity e e'"
    unfolding keeps_identity_def by blast
  with d have "is_data_change (ev_op e)" "declares_key e" by (auto simp: same_identity_facts)
  with e(1) assms(2) have "keyed_change e" by (auto simp: keys_resolve_def list_all_iff keyed_change_def)
  with e have t: "qualified_table_name e' \<in> set (keyed_tables es)"
    by (force simp: keyed_tables_def same_identity_facts)
  with ok have "\<not> list_ex (key_destroyed (keyed_tables es)) es'" by auto
  with e' d t show "has_resolvable_key e'" by (auto simp: list_ex_iff key_destroyed_def)
qed

lemma pipeline_step_ok:
  assumes "pipeline_apply_batch (s # ss) es w = (w', es', Inr u)"
  obtains w1 es1 where "tf_apply_batch (stage_transform s) es w = (w1, es1, Inr ())"
    and "keyed_tables es = [] \<or> \<not> list_ex (key_destroyed (keyed_tables es)) es1"
    and "pipeline_apply_batch ss es1 w1 = (w', es', Inr u)"
proof -
  obtain w1 es1 r where b: "tf_apply_batch (stage_transform s) es w = (w1, es1, r)"
    by (cases "tf_apply_batch (stage_transform s) es w") auto
  from b assms have r: "r = Inr ()" by (cases r) (auto simp: Let_def)
  from b r assms show ?thesis by (intro that [of w1 es1]) (auto simp: Let_def split: if_splits)
qed

lemma pipeline_keys_resolve:
  assumes "list_all keeps_identity p" and "keys_resolve es"
    and "pipeline_apply_batch p es w = (w', es', Inr u)"
  shows "keys_resolve es'"
  using assms
proof (induction p arbitrary: es w)
  case Nil
  then show ?case by simp
next
  case (Cons s ss)
  obtain w1 es1 where s: "tf_apply_batch (stage_transform s) es w = (w1, es1, Inr ())"
    "keyed_tables es = [] \<or> \<not> list_ex (key_destroyed (keyed_tables es)) es1"
    "pipeline_apply_batch ss es1 w1 = (w', es', Inr u)"
    using pipeline_step_ok [OF Cons.prems(3)] by blast
  have "keys_resolve es1"
    using Cons.prems(1) by (intro stage_keys_resolve [OF _ Cons.prems(2) s(1,2)]) simp
  with Cons.IH [OF _ _ s(3)] Cons.prems(1) show ?case by simp
qed

text \<open>
  C27. A batch the pipeline accepts leaves every message key extractable: when each data change that
  declares a key arrives with it resolvable, and the stages rewrite payloads only, every surviving
  data change that declares a key still has all its key values. A stage that drops or renames a
  key column makes the call fail instead.
\<close>

theorem accepted_batch_keeps_keys:
  assumes "list_all keeps_identity p" and "keys_resolve es"
    and "apply_batch p es w = (w', es', Inr u)"
    and "e \<in> set es'" and "is_data_change (ev_op e)" and "declares_key e"
  shows "primary_key_values e \<noteq> None"
proof -
  have "keys_resolve es'"
    using assms(1-3) pipeline_keys_resolve [of p es w w' es' u]
    by (auto simp: apply_batch_def split: if_splits)
  with assms(4-6) have "has_resolvable_key e" by (auto simp: keys_resolve_def list_all_iff)
  then show ?thesis by (simp add: has_resolvable_key_iff)
qed

definition example_keyed_update :: event where
  "example_keyed_update = default_event\<lparr>ev_op := Update, ev_table := ''t'', ev_primary_key := Some [''id''],
     ev_after := Some (JObject [(''id'', JNumber (PosInt 7)), (''note'', JString ''x'')])\<rparr>"

definition drop_column :: "string \<Rightarrow> event \<Rightarrow> event" where
  "drop_column c e = e\<lparr>ev_after := map_option (\<lambda>v. case v of JObject o1 \<Rightarrow> JObject (filter (\<lambda>(k, _). k \<noteq> c) o1) | _ \<Rightarrow> v) (ev_after e)\<rparr>"

definition pure_transform :: "(event \<Rightarrow> event \<times> bool result) \<Rightarrow> 'w transform" where
  "pure_transform g = \<lparr>tf_name = ''pure'', tf_apply = (\<lambda>e w. (w, g e)),
     tf_apply_batch = sync_apply_batch (\<lambda>e w. (w, g e))\<rparr>"

lemma drop_column_keeps_identity: "keeps_identity (Sync (pure_transform (\<lambda>e. (drop_column c e, Inr True))))"
  by (rule default_batch_keeps_identity) (auto simp: pure_transform_def same_identity_def drop_column_def)

lemmas example_eval = example_keyed_update_def default_event_def drop_column_def pure_transform_def
  keyed_tables_def keyed_change_def key_destroyed_def declares_key_def is_data_change_def
  has_resolvable_key_def key_image_def contains_key_def obj_get_def qualified_table_name_def

theorem accepted_batch_keeps_keys_witness:
  "primary_key_values (drop_column ''note'' example_keyed_update) \<noteq> None"
proof -
  let ?p = "[Sync (pure_transform (\<lambda>e. (drop_column ''note'' e, Inr True)))] :: unit stage list"
  have 1: "list_all keeps_identity ?p" by (simp add: drop_column_keeps_identity)
  have 2: "keys_resolve [example_keyed_update]" by (simp add: keys_resolve_def example_eval)
  have 3: "apply_batch ?p [example_keyed_update] ()
      = ((), [drop_column ''note'' example_keyed_update], Inr ())"
    by (simp add: apply_batch_def example_eval)
  show ?thesis
    by (rule accepted_batch_keeps_keys [OF 1 2 3]) (simp_all add: example_eval)
qed

section \<open>The batch path and the per-event path agree\<close>

text \<open>A stage without state of its own that uses a default batch entry point.\<close>

definition pure_stage :: "(event \<Rightarrow> event \<times> bool result) \<Rightarrow> 'w stage \<Rightarrow> bool" where
  "pure_stage g s \<longleftrightarrow>
     tf_apply (stage_transform s) = (\<lambda>e w. (w, g e))
     \<and> (tf_apply_batch (stage_transform s) = sync_apply_batch (\<lambda>e w. (w, g e))
        \<or> tf_apply_batch (stage_transform s) = async_apply_batch (\<lambda>e w. (w, g e)))
     \<and> (\<forall>e. same_identity e (fst (g e)))"

fun kept_by :: "(event \<Rightarrow> event \<times> bool result) \<Rightarrow> event list \<Rightarrow> event list option" where
  "kept_by g [] = Some []"
| "kept_by g (e # es) =
     (case g e of
        (e1, Inl _) \<Rightarrow> None
      | (e1, Inr keep) \<Rightarrow> map_option (\<lambda>r. if keep then e1 # r else r) (kept_by g es))"

lemma sync_kept_by:
  "(\<exists>es'. sync_apply_batch (\<lambda>e w. (w, g e)) es w = (w, es', Inr ()) \<and> kept_by g es = Some es')
   \<or> (\<exists>es' err. sync_apply_batch (\<lambda>e w. (w, g e)) es w = (w, es', Inl err) \<and> kept_by g es = None)"
proof (induction es)
  case Nil
  then show ?case by simp
next
  case (Cons e es)
  obtain e1 r where g: "g e = (e1, r)" by (cases "g e")
  from Cons g show ?case by (cases r) auto
qed

lemma async_kept_by:
  "(\<exists>es'. async_kept (\<lambda>e w. (w, g e)) kept es w = (w, kept @ es', Inr ()) \<and> kept_by g es = Some es')
   \<or> (\<exists>es' err. async_kept (\<lambda>e w. (w, g e)) kept es w = (w, es', Inl err) \<and> kept_by g es = None)"
proof (induction es arbitrary: kept)
  case Nil
  then show ?case by simp
next
  case (Cons e es)
  obtain e1 r where g: "g e = (e1, r)" by (cases "g e")
  show ?case
  proof (cases r)
    case (Inl a)
    with g show ?thesis by simp
  next
    case (Inr keep)
    with g Cons [of "if keep then kept @ [e1] else kept"] show ?thesis by auto
  qed
qed

lemma pure_stage_batch:
  assumes "pure_stage g s"
  shows "tf_apply_batch (stage_transform s) es w = (w', es', Inr u) \<longleftrightarrow> w' = w \<and> kept_by g es = Some es'"
proof -
  from assms have "tf_apply_batch (stage_transform s) = sync_apply_batch (\<lambda>e w. (w, g e))
      \<or> tf_apply_batch (stage_transform s) = async_apply_batch (\<lambda>e w. (w, g e))"
    by (simp add: pure_stage_def)
  then show ?thesis
    using sync_kept_by [of g es w] async_kept_by [of g "[]" es w] by (auto simp: async_apply_batch_def)
qed

lemma pure_stage_keeps_identity: "pure_stage g s \<Longrightarrow> keeps_identity s"
proof (rule default_batch_keeps_identity)
  assume p: "pure_stage g s"
  then show "same_identity e e'" if "tf_apply (stage_transform s) e w = (w', e', Inr k)" for e w w' e' k
    using that unfolding pure_stage_def by (metis fst_conv prod.inject)
  from p show "tf_apply_batch (stage_transform s) = sync_apply_batch (tf_apply (stage_transform s))
      \<or> tf_apply_batch (stage_transform s) = async_apply_batch (tf_apply (stage_transform s))"
    by (auto simp: pure_stage_def)
qed

text \<open>The per-event path, event by event.\<close>

fun each_apply :: "'w transform_pipeline \<Rightarrow> event list \<Rightarrow> 'w \<Rightarrow> event list option" where
  "each_apply p [] w = Some []"
| "each_apply p (e # es) w =
     (case apply_one p e w of
        (_, Inl _) \<Rightarrow> None
      | (_, Inr x) \<Rightarrow> map_option (\<lambda>r. (case x of Some e' \<Rightarrow> e' # r | None \<Rightarrow> r)) (each_apply p es w))"

definition passes :: "event \<Rightarrow> event \<Rightarrow> bool" where
  "passes e e1 \<longleftrightarrow> \<not> (keyed_change e \<and> declares_key e1 \<and> \<not> has_resolvable_key e1)"

lemma keyed_change_kept:
  assumes "same_identity e e1" and "is_data_change (ev_op e) \<and> declares_key e \<longrightarrow> has_resolvable_key e"
    and "passes e e1"
  shows "keyed_change e1 = keyed_change e"
proof -
  have d: "has_resolvable_key x \<Longrightarrow> declares_key x" for x
    by (auto simp: has_resolvable_key_def declares_key_def split: option.splits if_splits)
  show ?thesis
    using assms(2,3) d [of e] d [of e1] same_identity_facts [OF assms(1)]
    unfolding keyed_change_def passes_def by blast
qed

lemma each_apply_Cons_stage:
  assumes g: "pure_stage g s" and k: "keys_resolve es"
  shows "each_apply (s # ss) es w =
     (case kept_by g es of
        None \<Rightarrow> None
      | Some es1 \<Rightarrow>
          if list_ex (\<lambda>e. snd (g e) = Inr True \<and> \<not> passes e (fst (g e))) es then None
          else each_apply ss es1 w)"
  using k
proof (induction es)
  case Nil
  then show ?case by simp
next
  case (Cons e es)
  obtain e1 r where ge: "g e = (e1, r)" by (cases "g e")
  from g ge have id: "same_identity e e1" unfolding pure_stage_def by (metis fst_conv)
  from Cons.prems have ke: "is_data_change (ev_op e) \<and> declares_key e \<longrightarrow> has_resolvable_key e"
    and kes: "keys_resolve es" by (auto simp: keys_resolve_def)
  have one: "apply_one (s # ss) e w =
      (case r of Inl err \<Rightarrow> (w, Inl (Context ''transform failed'' err))
       | Inr keep \<Rightarrow> if \<not> keep then (w, Inr None)
           else if \<not> passes e e1 then (w, Inl (TransformError ''transform removed the primary-key values''))
           else apply_one ss e1 w)"
    using g ge keyed_change_kept [OF id ke]
    by (auto simp: apply_one_def pure_stage_def passes_def split: sum.split)
  show ?case
    using Cons.IH [OF kes] one ge
    by (auto simp: option.map_id0 [unfolded id_def] split: sum.split option.split prod.split)
qed

lemma batch_check_agrees:
  assumes g: "pure_stage g s" and k: "keys_resolve es" and es1: "kept_by g es = Some es1"
  shows "(keyed_tables es \<noteq> [] \<and> list_ex (key_destroyed (keyed_tables es)) es1)
    \<longleftrightarrow> list_ex (\<lambda>e. snd (g e) = Inr True \<and> \<not> passes e (fst (g e))) es"
proof -
  have mem: "set es1 = {fst (g e) |e. e \<in> set es \<and> snd (g e) = Inr True}"
    using es1
  proof (induction es arbitrary: es1)
    case Nil
    then show ?case by simp
  next
    case (Cons e es)
    obtain e1 r where ge: "g e = (e1, r)" by (cases "g e")
    from Cons.prems ge obtain keep r1 where r: "r = Inr keep" "kept_by g es = Some r1"
      "es1 = (if keep then e1 # r1 else r1)"
      by (cases r) auto
    have split: "{fst (g x) |x. x \<in> set (e # es) \<and> snd (g x) = Inr True}
        = (if keep then {e1} else {}) \<union> {fst (g x) |x. x \<in> set es \<and> snd (g x) = Inr True}"
      using ge r(1) by (auto, metis fst_conv snd_conv)
    show ?case unfolding split using Cons.IH [OF r(2)] r(3) by simp
  qed
  have eq: "key_destroyed (keyed_tables es) (fst (g e)) \<longleftrightarrow> \<not> passes e (fst (g e))"
    if e: "e \<in> set es" for e
  proof -
    from g have id: "same_identity e (fst (g e))" by (simp add: pure_stage_def)
    from k e have r: "is_data_change (ev_op e) \<and> declares_key e \<longrightarrow> has_resolvable_key e"
      by (auto simp: keys_resolve_def list_all_iff)
    have t: "keyed_change e \<Longrightarrow> qualified_table_name (fst (g e)) \<in> set (keyed_tables es)"
      using e id by (force simp: keyed_tables_def same_identity_facts)
    have d: "has_resolvable_key e \<Longrightarrow> declares_key e"
      by (auto simp: has_resolvable_key_def declares_key_def split: option.splits if_splits)
    show ?thesis
      using r t d same_identity_facts [OF id] unfolding key_destroyed_def passes_def keyed_change_def by blast
  qed
  have "list_ex (key_destroyed (keyed_tables es)) es1
      \<longleftrightarrow> (\<exists>e \<in> set es. snd (g e) = Inr True \<and> key_destroyed (keyed_tables es) (fst (g e)))"
    unfolding list_ex_iff mem by blast
  also have "\<dots> \<longleftrightarrow> list_ex (\<lambda>e. snd (g e) = Inr True \<and> \<not> passes e (fst (g e))) es"
    using eq by (auto simp: list_ex_iff)
  finally have *: "list_ex (key_destroyed (keyed_tables es)) es1
      \<longleftrightarrow> list_ex (\<lambda>e. snd (g e) = Inr True \<and> \<not> passes e (fst (g e))) es" .
  have "keyed_tables es = [] \<Longrightarrow> \<not> list_ex (key_destroyed (keyed_tables es)) es1"
    by (simp add: list_ex_iff key_destroyed_def)
  with * show ?thesis by blast
qed

lemma pipeline_batch_each:
  assumes "list_all (\<lambda>s. \<exists>g. pure_stage g s) p" and "keys_resolve es"
  shows "pipeline_apply_batch p es w = (w', es', Inr u) \<longleftrightarrow> w' = w \<and> each_apply p es w = Some es'"
  using assms
proof (induction p arbitrary: es)
  case Nil
  have "each_apply [] es w = Some es" by (induction es) (auto simp: apply_one_def)
  then show ?case by auto
next
  case (Cons s ss)
  from Cons.prems(1) obtain g where g: "pure_stage g s" by auto
  have b: "tf_apply_batch (stage_transform s) es w = (w1, es1, Inr v) \<longleftrightarrow> w1 = w \<and> kept_by g es = Some es1"
    for w1 es1 v by (rule pure_stage_batch [OF g])
  show ?case
  proof (cases "kept_by g es")
    case None
    have "\<not> pipeline_apply_batch (s # ss) es w = (w', es', Inr u)"
    proof
      assume "pipeline_apply_batch (s # ss) es w = (w', es', Inr u)"
      then obtain w1 es1 where "tf_apply_batch (stage_transform s) es w = (w1, es1, Inr ())"
        by (rule pipeline_step_ok)
      then have "kept_by g es = Some es1" unfolding b by simp
      with None show False by simp
    qed
    with None show ?thesis by (simp add: each_apply_Cons_stage [OF g Cons.prems(2)] del: pipeline_apply_batch.simps)
  next
    case (Some es1)
    with b have tb: "tf_apply_batch (stage_transform s) es w = (w, es1, Inr ())" by auto
    have check: "(keyed_tables es \<noteq> [] \<and> list_ex (key_destroyed (keyed_tables es)) es1)
        \<longleftrightarrow> list_ex (\<lambda>e. snd (g e) = Inr True \<and> \<not> passes e (fst (g e))) es"
      by (rule batch_check_agrees [OF g Cons.prems(2) Some])
    show ?thesis
    proof (cases "keyed_tables es \<noteq> [] \<and> list_ex (key_destroyed (keyed_tables es)) es1")
      case True
      with tb check Some show ?thesis
        by (simp add: each_apply_Cons_stage [OF g Cons.prems(2)])
    next
      case False
      have "keys_resolve es1"
        using False by (intro stage_keys_resolve [OF pure_stage_keeps_identity [OF g] Cons.prems(2) tb]) auto
      with Cons.IH [of es1] Cons.prems(1) have "pipeline_apply_batch ss es1 w = (w', es', Inr u)
          \<longleftrightarrow> w' = w \<and> each_apply ss es1 w = Some es'" by simp
      moreover have "pipeline_apply_batch (s # ss) es w = pipeline_apply_batch ss es1 w"
        using tb False by (auto simp: Let_def)
      moreover have "each_apply (s # ss) es w = each_apply ss es1 w"
        using check Some False by (simp add: each_apply_Cons_stage [OF g Cons.prems(2)])
      ultimately show ?thesis by simp
    qed
  qed
qed

text \<open>
  The stage-by-stage batch path and the event-by-event path give the same answer for stages
  without state: the batch succeeds exactly when every event alone would, and then yields the
  events the per-event path yields, in the same order.
\<close>

theorem batch_path_agrees:
  assumes "list_all (\<lambda>s. \<exists>g. pure_stage g s) p" and "keys_resolve es"
  shows "apply_batch p es w = (w', es', Inr u) \<longleftrightarrow> w' = w \<and> each_apply p es w = Some es'"
proof (cases "p = [] \<or> es = []")
  case True
  have "each_apply [] es w = Some es" by (induction es) (auto simp: apply_one_def)
  with True show ?thesis by (auto simp: apply_batch_def)
next
  case False
  with pipeline_batch_each [OF assms] show ?thesis by (simp add: apply_batch_def)
qed

lemma pure_transform_stage:
  "(\<And>e. same_identity e (fst (g e))) \<Longrightarrow> pure_stage g (Sync (pure_transform g))"
  by (simp add: pure_stage_def pure_transform_def)

theorem batch_path_agrees_witness:
  "apply_batch [Sync (pure_transform (\<lambda>e. (drop_column ''note'' e, Inr (ev_table e = ''t''))))]
      [example_keyed_update, example_keyed_update\<lparr>ev_table := ''u''\<rparr>] ()
    = ((), [drop_column ''note'' example_keyed_update], Inr ())"
proof -
  let ?g = "\<lambda>e. (drop_column ''note'' e, Inr (ev_table e = ''t'') :: bool result)"
  have "pure_stage ?g (Sync (pure_transform ?g) :: unit stage)"
    by (rule pure_transform_stage) (simp add: same_identity_def drop_column_def)
  then have 1: "list_all (\<lambda>s. \<exists>g. pure_stage g s) [Sync (pure_transform ?g) :: unit stage]" by auto
  have 2: "keys_resolve [example_keyed_update, example_keyed_update\<lparr>ev_table := ''u''\<rparr>]"
    by (simp add: keys_resolve_def example_eval)
  show ?thesis
    unfolding batch_path_agrees [OF 1 2] by (simp add: apply_one_def example_eval)
qed

section \<open>Where the two paths part\<close>

text \<open>
  The batch check asks whether any event of the table arrived with a key, not whether this one
  did. A data change that declares a key its images never carried, next to one of the same table
  that carries it, makes the batch fail although the stage changed nothing; the per-event path
  passes both.
\<close>

theorem mixed_keys_refused:
  assumes "pure_stage (\<lambda>e. (e, Inr True)) s"
    and "keyed_change a" and "is_data_change (ev_op b)" and "declares_key b" and "\<not> has_resolvable_key b"
    and "qualified_table_name b = qualified_table_name a"
  shows "apply_batch [s] [a, b] w = (w, [a, b], Inl (TransformError ''transform removed the primary-key values''))
    \<and> apply_one [s] a w = (w, Inr (Some a)) \<and> apply_one [s] b w = (w, Inr (Some b))"
proof -
  have "tf_apply_batch (stage_transform s) [a, b] w = (w, [a, b], Inr ())"
    by (simp add: pure_stage_batch [OF assms(1)])
  moreover have "tf_apply (stage_transform s) = (\<lambda>e w. (w, e, Inr True))" using assms(1) by (simp add: pure_stage_def)
  ultimately show ?thesis
    using assms(2-6) by (auto simp: apply_batch_def apply_one_def keyed_tables_def key_destroyed_def keyed_change_def Let_def)
qed

definition example_unkeyed_delete :: event where
  "example_unkeyed_delete = default_event\<lparr>ev_op := Delete, ev_table := ''t'', ev_primary_key := Some [''id'']\<rparr>"

theorem mixed_keys_refused_witness:
  "apply_batch [Sync (pure_transform (\<lambda>e. (e, Inr True)))] [example_keyed_update, example_unkeyed_delete] ()
    = ((), [example_keyed_update, example_unkeyed_delete],
       Inl (TransformError ''transform removed the primary-key values''))"
proof -
  have "pure_stage (\<lambda>e. (e, Inr True)) (Sync (pure_transform (\<lambda>e. (e, Inr True))) :: unit stage)"
    by (rule pure_transform_stage) (simp add: same_identity_def)
  from mixed_keys_refused [OF this, of example_keyed_update example_unkeyed_delete "()"] show ?thesis
    by (simp add: example_unkeyed_delete_def example_eval)
qed

end
