(* ===== verification/Schema_History.thy ===== *)
theory Schema_History
  imports Event_Envelope
begin

text \<open>
  Schema history (\<open>schema_history/mod.rs\<close>): the versioned table schemas, the ALTER TABLE diff, the
  in-memory store, the file store and the validator that reads them. The hash map of tables is an
  association list, read by key only. Versions are \<open>u32\<close> and wrap. The monotonic clock
  \<open>current_time\<close> is an argument.
\<close>

section \<open>Schemas and DDL events\<close>

record column_def =
  col_name :: string
  col_data_type :: string
  col_nullable :: bool
  col_constraints :: "string list"

record table_schema =
  ts_schema :: string
  ts_table :: string
  ts_columns :: "column_def list"
  ts_primary_keys :: "string list"
  ts_version :: nat

datatype schema_diff_operation =
    AddColumn column_def
  | DropColumn string
  | RenameColumn string string
  | UnsupportedClause string

type_synonym schema_diff = "schema_diff_operation list"

datatype ddl_event =
    CreateTable table_schema
  | AlterTable table_schema
  | AlterTableDiff string string schema_diff
  | DropTable string string

fun rename_first :: "string \<Rightarrow> string \<Rightarrow> column_def list \<Rightarrow> column_def list" where
  "rename_first f t [] = []"
| "rename_first f t (c # cs) =
     (if col_name c = f then c\<lparr>col_name := t\<rparr> # cs else c # rename_first f t cs)"

definition has_column :: "string \<Rightarrow> table_schema \<Rightarrow> bool" where
  "has_column n s \<longleftrightarrow> n \<in> col_name ` set (ts_columns s)"

definition apply_diff_operation :: "schema_diff_operation \<Rightarrow> table_schema \<Rightarrow> table_schema result" where
  "apply_diff_operation op1 s =
     (case op1 of
        AddColumn c \<Rightarrow>
          if has_column (col_name c) s
          then Inl (SchemaError ''cannot apply ALTER TABLE diff: column already exists'')
          else Inr (s\<lparr>ts_columns := ts_columns s @ [c],
                      ts_primary_keys :=
                        (if list_ex (\<lambda>k. eq_ignore_ascii_case k ''primary_key'') (col_constraints c)
                            \<and> col_name c \<notin> set (ts_primary_keys s)
                         then ts_primary_keys s @ [col_name c] else ts_primary_keys s)\<rparr>)
      | DropColumn n \<Rightarrow>
          if \<not> has_column n s
          then Inl (SchemaError ''cannot apply ALTER TABLE diff: column does not exist'')
          else Inr (s\<lparr>ts_columns := filter (\<lambda>c. col_name c \<noteq> n) (ts_columns s),
                      ts_primary_keys := filter (\<lambda>k. k \<noteq> n) (ts_primary_keys s)\<rparr>)
      | RenameColumn f t \<Rightarrow>
          if has_column t s
          then Inl (SchemaError ''cannot apply ALTER TABLE diff: rename target already exists'')
          else if \<not> has_column f s
          then Inl (SchemaError ''cannot apply ALTER TABLE diff: source column does not exist'')
          else Inr (s\<lparr>ts_columns := rename_first f t (ts_columns s),
                      ts_primary_keys := map (\<lambda>k. if k = f then t else k) (ts_primary_keys s)\<rparr>)
      | UnsupportedClause _ \<Rightarrow>
          Inl (SchemaError ''cannot apply ALTER TABLE diff with unsupported clause''))"

fun apply_schema_diff :: "schema_diff \<Rightarrow> table_schema \<Rightarrow> table_schema result" where
  "apply_schema_diff [] s = Inr s"
| "apply_schema_diff (d # ds) s =
     (case apply_diff_operation d s of Inl e \<Rightarrow> Inl e | Inr s' \<Rightarrow> apply_schema_diff ds s')"

section \<open>The versioned store\<close>

record versioned_schema =
  vs_version :: nat
  vs_recorded_at :: nat
  vs_schema :: "table_schema option"
  vs_ddl_id :: "string option"

type_synonym schema_store = "(string \<times> versioned_schema list) list"

definition table_key :: "string \<Rightarrow> string \<Rightarrow> string" where
  "table_key s t = s @ ''.'' @ t"

definition store_get :: "schema_store \<Rightarrow> string \<Rightarrow> versioned_schema list" where
  "store_get st k = (case map_of st k of None \<Rightarrow> [] | Some es \<Rightarrow> es)"

text \<open>\<open>store.entry(key).or_default().push(entry)\<close>\<close>

fun store_push :: "string \<Rightarrow> versioned_schema \<Rightarrow> schema_store \<Rightarrow> schema_store" where
  "store_push k e [] = [(k, [e])]"
| "store_push k e ((k', es) # st) = (if k' = k then (k', es @ [e]) # st else (k', es) # store_push k e st)"

definition next_version :: "schema_store \<Rightarrow> string \<Rightarrow> nat" where
  "next_version st k =
     (case store_get st k of [] \<Rightarrow> 1 | es \<Rightarrow> (vs_version (last es) + 1) mod (u32_max + 1))"

definition existing_version_for_ddl :: "schema_store \<Rightarrow> string \<Rightarrow> string \<Rightarrow> nat option" where
  "existing_version_for_ddl st k ddl_id =
     (if ddl_id = [] then None
      else map_option vs_version (List.find (\<lambda>e. vs_ddl_id e = Some ddl_id) (store_get st k)))"

definition ddl_key :: "ddl_event \<Rightarrow> string" where
  "ddl_key d =
     (case d of
        CreateTable s \<Rightarrow> table_key (ts_schema s) (ts_table s)
      | AlterTable s \<Rightarrow> table_key (ts_schema s) (ts_table s)
      | AlterTableDiff s t _ \<Rightarrow> table_key s t
      | DropTable s t \<Rightarrow> table_key s t)"

definition latest_schema_for_table :: "schema_store \<Rightarrow> string \<Rightarrow> table_schema option" where
  "latest_schema_for_table st t = (case store_get st t of [] \<Rightarrow> None | es \<Rightarrow> vs_schema (last es))"

text \<open>The schema a statement leaves behind, before it gets its version number.\<close>

definition resulting_schema :: "schema_store \<Rightarrow> ddl_event \<Rightarrow> table_schema option result" where
  "resulting_schema st d =
     (case d of
        CreateTable s \<Rightarrow> Inr (Some s)
      | AlterTable s \<Rightarrow> Inr (Some s)
      | AlterTableDiff s t diff \<Rightarrow>
          (case latest_schema_for_table st (table_key s t) of
             None \<Rightarrow> Inl (SchemaError ''cannot apply ALTER TABLE diff to unknown table'')
           | Some old \<Rightarrow>
               (case apply_schema_diff diff old of Inl e \<Rightarrow> Inl e | Inr new \<Rightarrow> Inr (Some new)))
      | DropTable s t \<Rightarrow> Inr None)"

definition record_ddl_in_store ::
    "schema_store \<Rightarrow> string \<Rightarrow> ddl_event \<Rightarrow> nat \<Rightarrow> schema_store \<times> nat result" where
  "record_ddl_in_store st ddl_id d timestamp =
     (case existing_version_for_ddl st (ddl_key d) ddl_id of
        Some v \<Rightarrow> (st, Inr v)
      | None \<Rightarrow>
          (let v = next_version st (ddl_key d)
           in case resulting_schema st d of
                Inl e \<Rightarrow> (st, Inl e)
              | Inr s \<Rightarrow>
                  (store_push (ddl_key d)
                     \<lparr>vs_version = v, vs_recorded_at = timestamp,
                      vs_schema = map_option (\<lambda>x. x\<lparr>ts_version := v\<rparr>) s,
                      vs_ddl_id = (if ddl_id = [] then None else Some ddl_id)\<rparr> st,
                   Inr v)))"

definition schema_at_version :: "schema_store \<Rightarrow> string \<Rightarrow> nat \<Rightarrow> table_schema option" where
  "schema_at_version st t v =
     Option.bind (List.find (\<lambda>e. vs_version e = v) (store_get st t)) vs_schema"

definition schema_at_timestamp :: "schema_store \<Rightarrow> string \<Rightarrow> nat \<Rightarrow> table_schema option" where
  "schema_at_timestamp st t ts =
     Option.bind (List.find (\<lambda>e. vs_recorded_at e \<le> ts) (rev (store_get st t))) vs_schema"

fun apply_store_retention :: "nat \<Rightarrow> schema_store \<Rightarrow> schema_store \<times> nat" where
  "apply_store_retention m [] = ([], 0)"
| "apply_store_retention m ((k, es) # st) =
     (case apply_store_retention m st of
        (st', removed) \<Rightarrow>
          if length es > m then ((k, drop (length es - m) es) # st', sat_add64 removed (length es - m))
          else ((k, es) # st', removed))"

definition keep_last :: "nat \<Rightarrow> nat result" where
  "keep_last m =
     (if m = 0 then Inl (ConfigError ''schema history retention max_versions_per_table must be greater than zero'')
      else Inr m)"

section \<open>The file store\<close>

text \<open>
  A handle holds the store in memory and the lease; the file holds what its last successful rename
  put there. \<open>fails\<close> says which filesystem step fails in a call. The temporary name is fresh, so
  the retry on an existing name is part of the \<open>CreateTemp\<close> step.
\<close>

datatype persist_step = CreateTemp | WriteTemp | SyncTemp | RenameTemp | SyncParent

record file_schema_history =
  fsh_disk :: schema_store
  fsh_schemas :: schema_store
  fsh_lease_held :: bool

definition persist_store :: "(persist_step \<Rightarrow> bool) \<Rightarrow> file_schema_history \<Rightarrow> file_schema_history \<times> unit result" where
  "persist_store fails h =
     (if \<not> fsh_lease_held h
      then (h, Inl (StateError ''schema_history owner lease is not held; refusing to write''))
      else if fails CreateTemp \<or> fails WriteTemp \<or> fails SyncTemp \<or> fails RenameTemp
      then (h, Inl (IoError ''schema history write''))
      else
        let h' = h\<lparr>fsh_disk := fsh_schemas h\<rparr>
        in if fails SyncParent then (h', Inl (IoError ''schema history directory sync''))
           else (h', Inr ()))"

definition total_entries :: "schema_store \<Rightarrow> nat" where
  "total_entries st = sum_list (map (length \<circ> snd) st)"

definition file_record_ddl ::
    "(persist_step \<Rightarrow> bool) \<Rightarrow> string \<Rightarrow> ddl_event \<Rightarrow> nat \<Rightarrow> file_schema_history \<Rightarrow> file_schema_history \<times> nat result" where
  "file_record_ddl fails ddl_id d timestamp h =
     (case record_ddl_in_store (fsh_schemas h) ddl_id d timestamp of
        (st, Inl e) \<Rightarrow> (h\<lparr>fsh_schemas := st\<rparr>, Inl e)
      | (st, Inr v) \<Rightarrow>
          if total_entries st \<noteq> total_entries (fsh_schemas h)
          then (case persist_store fails (h\<lparr>fsh_schemas := st\<rparr>) of
                  (h', Inl e) \<Rightarrow> (h', Inl e)
                | (h', Inr _) \<Rightarrow> (h', Inr v))
          else (h\<lparr>fsh_schemas := st\<rparr>, Inr v))"

definition file_apply_retention ::
    "(persist_step \<Rightarrow> bool) \<Rightarrow> nat \<Rightarrow> file_schema_history \<Rightarrow> file_schema_history \<times> nat result" where
  "file_apply_retention fails m h =
     (case apply_store_retention m (fsh_schemas h) of
        (st, removed) \<Rightarrow>
          if removed > 0
          then (case persist_store fails (h\<lparr>fsh_schemas := st\<rparr>) of
                  (h', Inl e) \<Rightarrow> (h', Inl e)
                | (h', Inr _) \<Rightarrow> (h', Inr removed))
          else (h\<lparr>fsh_schemas := st\<rparr>, Inr removed))"

text \<open>A new process opens the file and takes the lease.\<close>

definition reopen :: "file_schema_history \<Rightarrow> file_schema_history" where
  "reopen h = \<lparr>fsh_disk = fsh_disk h, fsh_schemas = fsh_disk h, fsh_lease_held = True\<rparr>"

section \<open>Validating a row against the latest schema\<close>

fun is_boolean_value :: "json \<Rightarrow> bool" where
  "is_boolean_value (JBool _) = True"
| "is_boolean_value _ = False"

fun is_number_value :: "json \<Rightarrow> bool" where
  "is_number_value (JNumber _) = True"
| "is_number_value _ = False"

fun is_string_value :: "json \<Rightarrow> bool" where
  "is_string_value (JString _) = True"
| "is_string_value _ = False"

definition matches_type :: "json \<Rightarrow> string \<Rightarrow> bool" where
  "matches_type v data_type =
     (let n = to_ascii_lowercase data_type
      in if contains_str n ''json'' then True
         else if contains_str n ''bool'' then is_boolean_value v
         else if contains_str n ''int'' \<or> contains_str n ''numeric'' \<or> contains_str n ''decimal''
                 \<or> contains_str n ''float'' then is_number_value v
         else if contains_str n ''char'' \<or> contains_str n ''text'' \<or> contains_str n ''string''
                 \<or> contains_str n ''uuid'' then is_string_value v
         else True)"

definition column_errors :: "string \<Rightarrow> jobj \<Rightarrow> column_def \<Rightarrow> validation_error list" where
  "column_errors field obj c =
     (let path = field @ ''.'' @ col_name c
      in case obj_get obj (col_name c) of
           Some v \<Rightarrow>
             if v = JNull \<and> \<not> col_nullable c then [ve path ''non-nullable column contains null'']
             else if v \<noteq> JNull \<and> \<not> matches_type v (col_data_type c)
             then [ve path ''value does not match declared type'']
             else []
         | None \<Rightarrow> check (\<not> col_nullable c) path ''required column missing from payload'')"

definition payload_errors :: "table_schema \<Rightarrow> string \<Rightarrow> json option \<Rightarrow> validation_error list" where
  "payload_errors s field payload =
     (case payload of
        Some (JObject obj) \<Rightarrow>
          concat (map (column_errors field obj) (ts_columns s))
          @ map (\<lambda>k. ve (field @ ''.'' @ k) ''column not present in schema'')
              (filter (\<lambda>k. \<not> has_column k s) (map fst obj))
      | _ \<Rightarrow> [])"

definition validate_event :: "schema_store \<Rightarrow> event \<Rightarrow> validation_error list + unit" where
  "validate_event st e =
     (let k = table_key (case ev_schema e of Some s \<Rightarrow> s | None \<Rightarrow> ''public'') (ev_table e)
      in case latest_schema_for_table st k of
           None \<Rightarrow> Inl [ve ''schema'' ''no schema registered'']
         | Some s \<Rightarrow>
             (let errors = payload_errors s ''before'' (ev_before e) @ payload_errors s ''after'' (ev_after e)
              in if errors = [] then Inr () else Inl errors))"

section \<open>Well-formed schemas\<close>

definition schema_wf :: "table_schema \<Rightarrow> bool" where
  "schema_wf s \<longleftrightarrow> distinct (map col_name (ts_columns s)) \<and> distinct (ts_primary_keys s)
     \<and> list_all (\<lambda>k. has_column k s) (ts_primary_keys s)"

lemma rename_first_names:
  "distinct (map col_name cs) \<Longrightarrow> map col_name (rename_first f t cs) = map (\<lambda>n. if n = f then t else n) (map col_name cs)"
proof (induction cs)
  case (Cons c cs)
  have "map (\<lambda>n. if n = f then t else n) (map col_name cs) = map col_name cs" if "col_name c = f"
  proof (rule map_idI)
    fix n assume "n \<in> set (map col_name cs)"
    moreover from Cons.prems that have "f \<notin> set (map col_name cs)" by simp
    ultimately show "(if n = f then t else n) = n" by metis
  qed
  with Cons show ?case by auto
qed simp

lemma distinct_rename: "distinct ns \<Longrightarrow> t \<notin> set ns \<Longrightarrow> distinct (map (\<lambda>n. if n = f then t else n) ns)"
  by (induction ns) auto

lemma diff_operation_wf:
  assumes "schema_wf s" and "apply_diff_operation d s = Inr s'"
  shows "schema_wf s'"
proof (cases d)
  case (AddColumn c)
  with assms show ?thesis
    by (auto simp: apply_diff_operation_def schema_wf_def has_column_def list_all_iff split: if_splits)
next
  case (DropColumn n)
  with assms have s': "s' = s\<lparr>ts_columns := filter (\<lambda>c. col_name c \<noteq> n) (ts_columns s),
      ts_primary_keys := filter (\<lambda>k. k \<noteq> n) (ts_primary_keys s)\<rparr>"
    by (auto simp: apply_diff_operation_def split: if_splits)
  have "k \<in> col_name ` set (ts_columns s')" if "k \<in> set (ts_primary_keys s)" "k \<noteq> n" for k
  proof -
    from assms(1) that(1) obtain c where "c \<in> set (ts_columns s)" "col_name c = k"
      by (auto simp: schema_wf_def has_column_def list_all_iff)
    with that(2) show ?thesis unfolding s' by force
  qed
  with assms(1) show ?thesis
    unfolding schema_wf_def has_column_def list_all_iff by (auto simp: s' distinct_map_filter)
next
  case (RenameColumn f t)
  let ?r = "\<lambda>n. if n = f then t else n"
  from RenameColumn assms have t: "\<not> has_column t s"
    and s': "s' = s\<lparr>ts_columns := rename_first f t (ts_columns s), ts_primary_keys := map ?r (ts_primary_keys s)\<rparr>"
    by (auto simp: apply_diff_operation_def split: if_splits)
  from assms(1) have d: "distinct (map col_name (ts_columns s))" and dk: "distinct (ts_primary_keys s)"
    and sub: "set (ts_primary_keys s) \<subseteq> set (map col_name (ts_columns s))"
    by (auto simp: schema_wf_def has_column_def list_all_iff)
  have names: "map col_name (ts_columns s') = map ?r (map col_name (ts_columns s))"
    unfolding s' by (simp add: rename_first_names [OF d])
  have "t \<notin> set (map col_name (ts_columns s))" using t by (simp add: has_column_def)
  moreover from this sub have "t \<notin> set (ts_primary_keys s)" by blast
  ultimately have "distinct (map col_name (ts_columns s'))" "distinct (map ?r (ts_primary_keys s))"
    unfolding names using distinct_rename [OF d] distinct_rename [OF dk] by blast+
  moreover have "set (map ?r (ts_primary_keys s)) \<subseteq> set (map col_name (ts_columns s'))"
    unfolding names set_map by (rule image_mono) (use sub in simp)
  ultimately show ?thesis unfolding schema_wf_def has_column_def list_all_iff s' by auto
next
  case (UnsupportedClause c)
  with assms show ?thesis by (simp add: apply_diff_operation_def)
qed

text \<open>
  An ALTER TABLE diff that is accepted keeps a table's schema well formed: column names stay
  distinct, and every primary-key column exists, whatever sequence of additions, drops and renames
  the statement holds.
\<close>

theorem schema_diff_keeps_wf:
  assumes "schema_wf s" and "apply_schema_diff ds s = Inr s'"
  shows "schema_wf s'"
  using assms
proof (induction ds arbitrary: s)
  case Nil
  then show ?case by simp
next
  case (Cons d ds)
  then show ?case by (cases "apply_diff_operation d s") (auto dest: diff_operation_wf)
qed

definition example_schema :: table_schema where
  "example_schema = \<lparr>ts_schema = ''public'', ts_table = ''t'',
     ts_columns = [\<lparr>col_name = ''id'', col_data_type = ''int'', col_nullable = False, col_constraints = []\<rparr>],
     ts_primary_keys = [''id''], ts_version = 0\<rparr>"

definition example_renamed :: table_schema where
  "example_renamed = example_schema\<lparr>
     ts_columns := [\<lparr>col_name = ''key'', col_data_type = ''int'', col_nullable = False, col_constraints = []\<rparr>],
     ts_primary_keys := [''key'']\<rparr>"

theorem schema_diff_keeps_wf_witness: "schema_wf example_renamed"
proof -
  have 1: "schema_wf example_schema" by (simp add: schema_wf_def example_schema_def has_column_def)
  have 2: "apply_schema_diff [RenameColumn ''id'' ''key''] example_schema = Inr example_renamed"
    by (simp add: apply_diff_operation_def example_schema_def example_renamed_def has_column_def)
  show ?thesis by (rule schema_diff_keeps_wf [OF 1 2])
qed

section \<open>The recorded history\<close>

lemma map_of_store_push:
  "map_of (store_push k e st) k' = (if k' = k then Some (store_get st k @ [e]) else map_of st k')"
  by (induction st) (auto simp: store_get_def)

lemma store_get_push [simp]:
  "store_get (store_push k e st) k' = (if k' = k then store_get st k @ [e] else store_get st k')"
  by (simp add: store_get_def map_of_store_push)

lemma latest_schema_eq:
  "latest_schema_for_table st k = (if store_get st k = [] then None else vs_schema (last (store_get st k)))"
  by (simp add: latest_schema_for_table_def split: list.split)

text \<open>Per table: consecutive versions from some first one, recorded in time order.\<close>

definition entries_wf :: "versioned_schema list \<Rightarrow> bool" where
  "entries_wf es \<longleftrightarrow>
     (\<exists>v0 \<ge> 1. map vs_version es = [v0..<v0 + length es]) \<and> sorted (map vs_recorded_at es)"

definition store_wf :: "schema_store \<Rightarrow> bool" where
  "store_wf st \<longleftrightarrow> (\<forall>k. entries_wf (store_get st k))"

lemma entries_wf_Nil [simp]: "entries_wf []"
  by (auto simp: entries_wf_def)

lemma entries_wf_last:
  assumes "entries_wf es" "es \<noteq> []"
  obtains v0 where "1 \<le> v0" "map vs_version es = [v0..<v0 + length es]" "vs_version (last es) + 1 = v0 + length es"
proof -
  from assms(1) obtain v0 where v0: "1 \<le> v0" "map vs_version es = [v0..<v0 + length es]"
    by (auto simp: entries_wf_def)
  have "vs_version (last es) = last (map vs_version es)" using assms(2) by (simp add: last_map)
  also have "\<dots> = v0 + length es - 1" using v0(2) assms(2) by (cases es) auto
  finally show ?thesis using that [OF v0] assms(2) by (cases es) auto
qed

lemma entries_wf_snoc:
  assumes "entries_wf es" and "es \<noteq> [] \<Longrightarrow> vs_version e = vs_version (last es) + 1"
    and "es = [] \<Longrightarrow> 1 \<le> vs_version e" and "list_all (\<lambda>x. vs_recorded_at x \<le> vs_recorded_at e) es"
  shows "entries_wf (es @ [e])"
proof (cases "es = []")
  case True
  with assms(3) show ?thesis by (auto simp: entries_wf_def)
next
  case False
  obtain v0 where v0: "1 \<le> v0" "map vs_version es = [v0..<v0 + length es]" "vs_version (last es) + 1 = v0 + length es"
    using entries_wf_last [OF assms(1) False] .
  have "map vs_version (es @ [e]) = [v0..<v0 + length (es @ [e])]"
    using v0 assms(2) False by simp
  with v0(1) assms(1,4) show ?thesis
    unfolding entries_wf_def by (auto simp: sorted_append list_all_iff)
qed

lemma find_version_snoc:
  assumes "entries_wf es" "es \<noteq> [] \<Longrightarrow> v = vs_version (last es) + 1" "vs_version e = v"
  shows "List.find (\<lambda>x. vs_version x = n) (es @ [e]) =
     (if n = v then Some e else List.find (\<lambda>x. vs_version x = n) es)"
proof (cases "es = []")
  case True
  with assms(3) show ?thesis by auto
next
  case False
  obtain v0 where v0: "map vs_version es = [v0..<v0 + length es]" "vs_version (last es) + 1 = v0 + length es"
    using entries_wf_last [OF assms(1) False] by metis
  have "vs_version ` set es = {v0..<v0 + length es}" by (metis list.set_map set_upt v0(1))
  moreover have "v = v0 + length es" using assms(2) False v0(2) by simp
  ultimately have "\<forall>x \<in> set es. vs_version x \<noteq> v" by (metis atLeastLessThan_iff imageI less_irrefl)
  then have none: "List.find (\<lambda>x. vs_version x = v) es = None" by (auto simp: find_None_iff)
  have "List.find P (xs @ [y]) = (case List.find P xs of Some z \<Rightarrow> Some z | None \<Rightarrow> if P y then Some y else None)"
    for P xs and y :: versioned_schema by (induction xs) auto
  with none assms(3) show ?thesis by (auto split: option.split)
qed

lemma next_version_eq:
  assumes "store_wf st" and "list_all (\<lambda>e. vs_version e < u32_max) (store_get st k)"
  shows "store_get st k \<noteq> [] \<Longrightarrow> next_version st k = vs_version (last (store_get st k)) + 1"
    and "1 \<le> next_version st k"
proof -
  have "vs_version (last (store_get st k)) < u32_max" if "store_get st k \<noteq> []"
    using assms(2) that by (auto simp: list_all_iff)
  then show "store_get st k \<noteq> [] \<Longrightarrow> next_version st k = vs_version (last (store_get st k)) + 1"
    "1 \<le> next_version st k"
    by (auto simp: next_version_def split: list.split)
qed

lemma record_fresh:
  assumes "existing_version_for_ddl st (ddl_key d) i = None" and "record_ddl_in_store st i d ts = (st', Inr v)"
  obtains s where "resulting_schema st d = Inr s" and "v = next_version st (ddl_key d)"
    and "st' = store_push (ddl_key d)
      \<lparr>vs_version = v, vs_recorded_at = ts, vs_schema = map_option (\<lambda>x. x\<lparr>ts_version := v\<rparr>) s,
       vs_ddl_id = (if i = [] then None else Some i)\<rparr> st"
  using assms by (cases "resulting_schema st d") (auto simp: record_ddl_in_store_def Let_def)

text \<open>
  Recording a statement the history has not seen appends exactly one version. The new version
  reads back as the schema the statement leaves behind, carrying its own number; it becomes the
  latest; every version recorded before still reads back unchanged; and versions stay consecutive
  and in time order. A statement that cannot be applied leaves the history as it was.
\<close>

theorem record_ddl_appends_version:
  assumes wf: "store_wf st" and small: "list_all (\<lambda>e. vs_version e < u32_max) (store_get st (ddl_key d))"
    and time: "list_all (\<lambda>e. vs_recorded_at e \<le> ts) (store_get st (ddl_key d))"
    and fresh: "existing_version_for_ddl st (ddl_key d) i = None"
  shows "case record_ddl_in_store st i d ts of
      (st', Inl e) \<Rightarrow> st' = st \<and> resulting_schema st d = Inl e
    | (st', Inr v) \<Rightarrow>
        store_wf st'
        \<and> (\<exists>s. resulting_schema st d = Inr s
             \<and> schema_at_version st' (ddl_key d) v = map_option (\<lambda>x. x\<lparr>ts_version := v\<rparr>) s
             \<and> latest_schema_for_table st' (ddl_key d) = map_option (\<lambda>x. x\<lparr>ts_version := v\<rparr>) s)
        \<and> (\<forall>t n. t \<noteq> ddl_key d \<or> n \<noteq> v \<longrightarrow> schema_at_version st' t n = schema_at_version st t n)"
proof -
  obtain st' r where rec: "record_ddl_in_store st i d ts = (st', r)" by force
  show ?thesis
  proof (cases r)
    case (Inl e)
    with rec fresh show ?thesis
      by (auto simp: record_ddl_in_store_def Let_def split: sum.splits)
  next
    case (Inr v)
    let ?k = "ddl_key d"
    obtain s where s: "resulting_schema st d = Inr s" "v = next_version st ?k"
      and st': "st' = store_push ?k \<lparr>vs_version = v, vs_recorded_at = ts,
        vs_schema = map_option (\<lambda>x. x\<lparr>ts_version := v\<rparr>) s, vs_ddl_id = (if i = [] then None else Some i)\<rparr> st"
      using record_fresh [OF fresh rec [unfolded Inr]] by blast
    note nv = next_version_eq [OF wf small, folded s(2)]
    have e: "entries_wf (store_get st ?k)" using wf by (simp add: store_wf_def)
    have "store_wf st'"
      unfolding store_wf_def st' using wf entries_wf_snoc [OF e] nv time
      by (auto simp: store_wf_def)
    moreover have "schema_at_version st' t n = (if t = ?k \<and> n = v then map_option (\<lambda>x. x\<lparr>ts_version := v\<rparr>) s
        else schema_at_version st t n)" for t n
      unfolding schema_at_version_def st' using find_version_snoc [OF e nv(1)] by auto
    moreover have "latest_schema_for_table st' ?k = map_option (\<lambda>x. x\<lparr>ts_version := v\<rparr>) s"
      by (simp add: latest_schema_eq st')
    ultimately show ?thesis using s(1) by (simp add: rec Inr)
  qed
qed

definition example_store :: schema_store where
  "example_store = [(''public.t'', [\<lparr>vs_version = 1, vs_recorded_at = 5,
      vs_schema = Some (example_schema\<lparr>ts_version := 1\<rparr>), vs_ddl_id = Some ''a''\<rparr>])]"

lemma example_store_get: "store_get example_store k = (if k = ''public.t'' then
    [\<lparr>vs_version = 1, vs_recorded_at = 5, vs_schema = Some (example_schema\<lparr>ts_version := 1\<rparr>), vs_ddl_id = Some ''a''\<rparr>]
    else [])"
  by (simp add: store_get_def example_store_def)

theorem record_ddl_appends_version_witness:
  "case record_ddl_in_store example_store ''b'' (AlterTableDiff ''public'' ''t'' [RenameColumn ''id'' ''key'']) 6 of
      (st', Inl e) \<Rightarrow> False
    | (st', Inr v) \<Rightarrow> v = 2
        \<and> schema_at_version st' ''public.t'' 2 = Some (example_renamed\<lparr>ts_version := 2\<rparr>)
        \<and> schema_at_version st' ''public.t'' 1 = Some (example_schema\<lparr>ts_version := 1\<rparr>)"
proof -
  let ?d = "AlterTableDiff ''public'' ''t'' [RenameColumn ''id'' ''key'']"
  have k: "ddl_key ?d = ''public.t''" by (simp add: ddl_key_def table_key_def)
  have wf: "store_wf example_store"
    by (auto simp: store_wf_def example_store_get entries_wf_def)
  have small: "list_all (\<lambda>e. vs_version e < u32_max) (store_get example_store (ddl_key ?d))"
    by (simp add: k example_store_get u32_max_def)
  have time: "list_all (\<lambda>e. vs_recorded_at e \<le> 6) (store_get example_store (ddl_key ?d))"
    by (simp add: k example_store_get)
  have fresh: "existing_version_for_ddl example_store (ddl_key ?d) ''b'' = None"
    by (simp add: k existing_version_for_ddl_def example_store_get)
  have res: "resulting_schema example_store ?d = Inr (Some (example_renamed\<lparr>ts_version := 1\<rparr>))"
    by (simp add: resulting_schema_def latest_schema_for_table_def example_store_get table_key_def
        apply_diff_operation_def example_schema_def example_renamed_def has_column_def)
  have v: "snd (record_ddl_in_store example_store ''b'' ?d 6) = Inr 2"
    using fresh res unfolding k
    by (simp add: record_ddl_in_store_def Let_def next_version_def k example_store_get u32_max_def)
  have old: "schema_at_version example_store ''public.t'' 1 = Some (example_schema\<lparr>ts_version := 1\<rparr>)"
    by (simp add: schema_at_version_def example_store_get)
  from record_ddl_appends_version [OF wf small time fresh] v old show ?thesis
    by (auto simp: res k split: prod.splits sum.splits)
qed

lemma replayed_ddl_recorded_once_aux:
  assumes "i \<noteq> []" and "record_ddl_in_store st i d ts = (st', Inr v)" and "ddl_key d' = ddl_key d"
  shows "record_ddl_in_store st' i d' ts' = (st', Inr v)"
proof -
  let ?k = "ddl_key d"
  have "existing_version_for_ddl st' ?k i = Some v"
  proof (cases "existing_version_for_ddl st ?k i")
    case (Some v1)
    with assms(2) have "st' = st" "v1 = v" by (auto simp: record_ddl_in_store_def)
    with Some show ?thesis by simp
  next
    case None
    obtain s where st': "st' = store_push ?k
      \<lparr>vs_version = v, vs_recorded_at = ts, vs_schema = map_option (\<lambda>x. x\<lparr>ts_version := v\<rparr>) s,
       vs_ddl_id = (if i = [] then None else Some i)\<rparr> st"
      using record_fresh [OF None assms(2)] by blast
    from None assms(1) have "List.find (\<lambda>e. vs_ddl_id e = Some i) (store_get st ?k) = None"
      by (simp add: existing_version_for_ddl_def)
    moreover have "List.find P xs = None \<Longrightarrow> List.find P (xs @ [y]) = (if P y then Some y else None)"
      for P xs and y :: versioned_schema by (induction xs) (auto split: if_splits)
    ultimately show ?thesis
      using assms(1) by (simp add: existing_version_for_ddl_def st')
  qed
  with assms(3) show ?thesis by (simp add: record_ddl_in_store_def)
qed



section \<open>Retention\<close>

lemma retention_get:
  "store_get (fst (apply_store_retention m st)) t = drop (length (store_get st t) - m) (store_get st t)"
  by (induction m st rule: apply_store_retention.induct) (auto simp: store_get_def split: prod.split)

lemma retention_total:
  "total_entries st \<le> u64_max \<Longrightarrow>
   snd (apply_store_retention m st) + total_entries (fst (apply_store_retention m st)) = total_entries st"
proof (induction m st rule: apply_store_retention.induct)
  case (2 m k es st)
  obtain st' r where r: "apply_store_retention m st = (st', r)" by force
  from 2 r have "r + total_entries st' = total_entries st" by (simp add: total_entries_def)
  moreover from this 2(2) have "sat_add64 r (length es - m) = r + (length es - m)"
    by (intro sat_add64_small) (simp add: total_entries_def)
  ultimately show ?case using r by (auto simp: total_entries_def)
qed (simp add: total_entries_def)

text \<open>
  Retention drops the oldest versions only: every table keeps at most the configured number,
  its latest schema is what it was, every version still present reads back unchanged, and the
  reported count is exactly what was removed.
\<close>

theorem retention_keeps_latest:
  assumes "0 < m" and "store_wf st" and "total_entries st \<le> u64_max"
  shows "case apply_store_retention m st of (st', removed) \<Rightarrow>
      removed + total_entries st' = total_entries st
      \<and> (\<forall>t. length (store_get st' t) \<le> m \<and> latest_schema_for_table st' t = latest_schema_for_table st t)
      \<and> (\<forall>t n. (\<exists>e \<in> set (store_get st' t). vs_version e = n) \<longrightarrow>
            schema_at_version st' t n = schema_at_version st t n)"
proof -
  obtain st' removed where r: "apply_store_retention m st = (st', removed)" by force
  have get: "store_get st' t = drop (length (store_get st t) - m) (store_get st t)" for t
    using retention_get [of m st t] r by simp
  have "latest_schema_for_table st' t = latest_schema_for_table st t" for t
  proof (cases "store_get st t = []")
    case False
    with assms(1) have "length (store_get st t) - m < length (store_get st t)" by simp
    with False show ?thesis by (simp add: latest_schema_eq get)
  qed (simp add: latest_schema_eq get)
  moreover have "schema_at_version st' t n = schema_at_version st t n"
    if e: "e \<in> set (store_get st' t)" "vs_version e = n" for t n e
  proof -
    let ?k = "length (store_get st t) - m"
    have split: "store_get st t = take ?k (store_get st t) @ store_get st' t" by (simp add: get)
    have "distinct (map vs_version (store_get st t))"
      using assms(2) unfolding store_wf_def entries_wf_def by (metis distinct_upt)
    then have "vs_version x \<noteq> n" if "x \<in> set (take ?k (store_get st t))" for x
      using that e by (subst (asm) split) auto
    then have "List.find (\<lambda>x. vs_version x = n) (take ?k (store_get st t)) = None"
      by (auto simp: find_None_iff)
    moreover have "List.find P xs = None \<Longrightarrow> List.find P (xs @ ys) = List.find P ys"
      for P xs and ys :: "versioned_schema list" by (induction xs) (auto split: if_splits)
    ultimately show ?thesis unfolding schema_at_version_def by (subst split) simp
  qed
  ultimately show ?thesis using retention_total [OF assms(3), of m] by (auto simp: r get)
qed

theorem retention_keeps_latest_witness:
  "latest_schema_for_table (fst (apply_store_retention 1 example_store)) ''public.t''
    = Some (example_schema\<lparr>ts_version := 1\<rparr>)"
proof -
  have 1: "store_wf example_store" by (auto simp: store_wf_def example_store_get entries_wf_def)
  have 2: "total_entries example_store \<le> u64_max" by (simp add: total_entries_def example_store_def u64_max_def)
  obtain st' r where r: "apply_store_retention 1 example_store = (st', r)" by force
  from retention_keeps_latest [OF _ 1 2, of 1] have
    "latest_schema_for_table st' ''public.t'' = latest_schema_for_table example_store ''public.t''"
    unfolding r by simp
  also have "\<dots> = Some (example_schema\<lparr>ts_version := 1\<rparr>)"
    by (simp add: latest_schema_eq example_store_get)
  finally show ?thesis using r by simp
qed

section \<open>Durability of the file store\<close>

lemma total_entries_push: "total_entries (store_push k e st) = total_entries st + 1"
  by (induction st) (auto simp: total_entries_def)

lemma record_ddl_grows:
  assumes "record_ddl_in_store st i d ts = (st', Inr v)"
  shows "st' = st \<or> total_entries st' = total_entries st + 1"
proof (cases "existing_version_for_ddl st (ddl_key d) i")
  case (Some v1)
  with assms show ?thesis by (simp add: record_ddl_in_store_def)
next
  case None
  then show ?thesis using record_fresh [OF None assms] by (metis total_entries_push)
qed

text \<open>
  The file store is durable while its writes succeed: from a handle whose file is up to date, a
  \<open>record_ddl\<close> that returns a version leaves a file that a new process reads back complete, that
  version included.
\<close>

theorem file_record_durable:
  assumes "fsh_disk h = fsh_schemas h" and "file_record_ddl fails i d ts h = (h', Inr v)"
  shows "fsh_schemas (reopen h') = fsh_schemas h' \<and> fsh_disk h' = fst (record_ddl_in_store (fsh_schemas h) i d ts)
    \<and> snd (record_ddl_in_store (fsh_schemas h) i d ts) = Inr v"
proof -
  obtain st r where rec: "record_ddl_in_store (fsh_schemas h) i d ts = (st, r)" by force
  from assms(2) rec obtain v1 where r: "r = Inr v1" by (cases r) (auto simp: file_record_ddl_def)
  from record_ddl_grows [OF rec [unfolded r]] assms rec r show ?thesis
    by (auto simp: file_record_ddl_def persist_store_def reopen_def Let_def split: if_splits)
qed

definition example_history :: file_schema_history where
  "example_history = \<lparr>fsh_disk = [], fsh_schemas = [], fsh_lease_held = True\<rparr>"

lemmas example_record = file_record_ddl_def persist_store_def example_history_def total_entries_def
  record_ddl_in_store_def existing_version_for_ddl_def store_get_def resulting_schema_def
  next_version_def Let_def ddl_key_def

theorem file_record_durable_witness:
  "fsh_disk (fst (file_record_ddl (\<lambda>_. False) ''a'' (CreateTable example_schema) 5 example_history))
   = fst (record_ddl_in_store [] ''a'' (CreateTable example_schema) 5)"
proof -
  let ?r = "file_record_ddl (\<lambda>_. False) ''a'' (CreateTable example_schema) 5 example_history"
  have r: "?r = (fst ?r, Inr 1)" by (simp add: example_record)
  have "fsh_disk example_history = fsh_schemas example_history" by (simp add: example_history_def)
  from file_record_durable [OF this r] show ?thesis by (simp add: example_history_def)
qed

text \<open>
  C40. The store in memory keeps an entry whose write failed, so the retry of the same statement is
  taken for a replay: it reports success and writes nothing. After a failed write of a new
  statement the second call returns a version, yet the file is still the old one and a restarted
  process does not know the statement.
\<close>

theorem failed_write_then_acknowledged:
  assumes "i \<noteq> []" and "fsh_disk h = fsh_schemas h" and "fsh_lease_held h"
    and "existing_version_for_ddl (fsh_schemas h) (ddl_key d) i = None"
    and "resulting_schema (fsh_schemas h) d = Inr s"
    and "fails CreateTemp \<or> fails WriteTemp \<or> fails SyncTemp \<or> fails RenameTemp"
  shows "\<exists>h1 e v. file_record_ddl fails i d ts h = (h1, Inl e)
    \<and> file_record_ddl fails' i d ts' h1 = (h1, Inr v)
    \<and> fsh_disk h1 = fsh_disk h \<and> fsh_schemas (reopen h1) = fsh_schemas h
    \<and> existing_version_for_ddl (fsh_schemas (reopen h1)) (ddl_key d) i = None"
proof -
  let ?v = "next_version (fsh_schemas h) (ddl_key d)"
  obtain st where rec: "record_ddl_in_store (fsh_schemas h) i d ts = (st, Inr ?v)"
    using assms(4,5) by (simp add: record_ddl_in_store_def Let_def)
  have "st \<noteq> fsh_schemas h"
  proof
    assume "st = fsh_schemas h"
    with rec assms(4,5) have "total_entries (fsh_schemas h) = total_entries (fsh_schemas h) + 1"
      by (metis (no_types, lifting) record_fresh total_entries_push)
    then show False by simp
  qed
  with record_ddl_grows [OF rec] have grow: "total_entries st = total_entries (fsh_schemas h) + 1" by blast
  let ?h1 = "h\<lparr>fsh_schemas := st\<rparr>"
  have 1: "file_record_ddl fails i d ts h = (?h1, Inl (IoError ''schema history write''))"
    using rec grow assms(3,6) by (auto simp: file_record_ddl_def persist_store_def)
  have again: "record_ddl_in_store st i d ts' = (st, Inr ?v)"
    using replayed_ddl_recorded_once_aux [OF assms(1) rec] by simp
  have 2: "file_record_ddl fails' i d ts' ?h1 = (?h1, Inr ?v)"
    using again by (simp add: file_record_ddl_def)
  from 1 2 assms(2,4) show ?thesis by (auto simp: reopen_def)
qed

theorem failed_write_then_acknowledged_witness:
  "\<exists>h1 e v. file_record_ddl (\<lambda>s. s = SyncTemp) ''a'' (CreateTable example_schema) 5 example_history = (h1, Inl e)
    \<and> file_record_ddl (\<lambda>_. False) ''a'' (CreateTable example_schema) 6 h1 = (h1, Inr v)
    \<and> fsh_disk h1 = []"
  using failed_write_then_acknowledged [of "''a''" example_history "CreateTable example_schema" "Some example_schema"
      "\<lambda>s. s = SyncTemp" 5 "\<lambda>_. False" 6]
  by (auto simp: example_history_def existing_version_for_ddl_def store_get_def resulting_schema_def)

end
