(* ===== verification/Ddl_Capture.thy ===== *)
theory Ddl_Capture
  imports Schema_History
begin

text \<open>
  Captured DDL statements (\<open>ddl_capture/mod.rs\<close>): the envelope a statement travels in, its event
  form, and the way back from the event the runtime uses to fill the schema history. Reading and
  writing a \<open>TableSchema\<close> or a \<open>SchemaDiff\<close> as JSON is derived by serde; the two codecs are
  arguments.
\<close>

record captured_ddl =
  cd_ddl_type :: string
  cd_schema :: string
  cd_table :: string
  cd_statement :: string
  cd_result_schema :: "table_schema option"
  cd_schema_diff :: "schema_diff option"
  cd_ts :: nat

record ddl_codec =
  enc_schema :: "table_schema \<Rightarrow> json option"
  dec_schema :: "json \<Rightarrow> table_schema option"
  enc_diff :: "schema_diff \<Rightarrow> json option"
  dec_diff :: "json \<Rightarrow> schema_diff option"

definition string_field :: "jobj \<Rightarrow> string \<Rightarrow> string option" where
  "string_field obj k = Option.bind (obj_get obj k) as_str"

definition from_event_payload :: "ddl_codec \<Rightarrow> json \<Rightarrow> captured_ddl option" where
  "from_event_payload codec after =
     (case as_object after of
        None \<Rightarrow> None
      | Some obj \<Rightarrow>
          (case (string_field obj ''ddl_type'', string_field obj ''table'') of
             (Some ddl_type, Some table) \<Rightarrow>
               Some \<lparr>cd_ddl_type = ddl_type,
                     cd_schema = (case string_field obj ''schema'' of Some s \<Rightarrow> s | None \<Rightarrow> []),
                     cd_table = table,
                     cd_statement = (case string_field obj ''statement'' of Some s \<Rightarrow> s | None \<Rightarrow> []),
                     cd_result_schema = Option.bind (obj_get obj ''result_schema'') (dec_schema codec),
                     cd_schema_diff = Option.bind (obj_get obj ''schema_diff'') (dec_diff codec),
                     cd_ts = (case Option.bind (obj_get obj ''ts'') as_u64 of Some n \<Rightarrow> n | None \<Rightarrow> 0)\<rparr>
           | _ \<Rightarrow> None))"

definition to_schema_event :: "captured_ddl \<Rightarrow> ddl_event option" where
  "to_schema_event c =
     (if cd_ddl_type c = ''CREATE_TABLE'' then map_option CreateTable (cd_result_schema c)
      else if cd_ddl_type c = ''ALTER_TABLE'' then
        (case cd_result_schema c of
           Some s \<Rightarrow>
             if ts_columns s \<noteq> [] then Some (AlterTable s)
             else map_option (AlterTableDiff (cd_schema c) (cd_table c)) (cd_schema_diff c)
         | None \<Rightarrow> map_option (AlterTableDiff (cd_schema c) (cd_table c)) (cd_schema_diff c))
      else if cd_ddl_type c = ''DROP_TABLE'' then Some (DropTable (cd_schema c) (cd_table c))
      else None)"

definition ddl_payload :: "ddl_codec \<Rightarrow> captured_ddl \<Rightarrow> jobj" where
  "ddl_payload codec c =
     (let base = obj_insert ''statement'' (JString (cd_statement c))
                   (obj_insert ''table'' (JString (cd_table c))
                     (obj_insert ''schema'' (JString (cd_schema c))
                       (obj_insert ''ddl_type'' (JString (cd_ddl_type c)) [])));
          with_schema =
            (case Option.bind (cd_result_schema c) (enc_schema codec) of
               Some j \<Rightarrow> obj_insert ''result_schema'' j base | None \<Rightarrow> base)
      in case Option.bind (cd_schema_diff c) (enc_diff codec) of
           Some j \<Rightarrow> obj_insert ''schema_diff'' j with_schema | None \<Rightarrow> with_schema)"

definition to_event :: "ddl_codec \<Rightarrow> captured_ddl \<Rightarrow> string \<Rightarrow> string \<Rightarrow> nat \<Rightarrow> event" where
  "to_event codec c source off ts_ms =
     default_event\<lparr>ev_before := None, ev_after := Some (JObject (ddl_payload codec c)),
       ev_op := SchemaChange,
       ev_source := \<lparr>source_name = source, source_offset = off, source_timestamp = cd_ts c\<rparr>,
       ev_ts := ts_ms, ev_schema := Some (cd_schema c), ev_table := cd_table c @ ''__ddl_events'',
       ev_primary_key := None, ev_snapshot := None, ev_transaction := None\<rparr>"

section \<open>Through the event and back\<close>

lemma payload_get:
  "obj_get (ddl_payload codec c) k =
     (if k = ''schema_diff'' then Option.bind (cd_schema_diff c) (enc_diff codec)
      else if k = ''result_schema'' then Option.bind (cd_result_schema c) (enc_schema codec)
      else if k = ''statement'' then Some (JString (cd_statement c))
      else if k = ''table'' then Some (JString (cd_table c))
      else if k = ''schema'' then Some (JString (cd_schema c))
      else if k = ''ddl_type'' then Some (JString (cd_ddl_type c))
      else None)"
  unfolding ddl_payload_def Let_def
  by (cases "Option.bind (cd_schema_diff c) (enc_diff codec)";
      cases "Option.bind (cd_result_schema c) (enc_schema codec)")
    (simp_all add: obj_get_insert obj_insert_wf obj_wf_def [of "[]"] obj_get_def [of "[]"] del: obj_insert.simps)

definition codec_ok :: "ddl_codec \<Rightarrow> captured_ddl \<Rightarrow> bool" where
  "codec_ok codec c \<longleftrightarrow>
     Option.bind (Option.bind (cd_result_schema c) (enc_schema codec)) (dec_schema codec) = cd_result_schema c
     \<and> Option.bind (Option.bind (cd_schema_diff c) (enc_diff codec)) (dec_diff codec) = cd_schema_diff c"

text \<open>
  A captured statement survives its event: reading the payload back gives the same type, schema,
  table, statement, result schema and diff, and therefore the same schema-history entry. Only the
  source timestamp, which the payload does not carry, comes back as zero.
\<close>

theorem captured_ddl_round_trip:
  assumes "codec_ok codec c"
  shows "\<exists>after. ev_after (to_event codec c source off ts) = Some after
    \<and> from_event_payload codec after = Some (c\<lparr>cd_ts := 0\<rparr>)
    \<and> map_option to_schema_event (from_event_payload codec after) = Some (to_schema_event c)"
proof -
  have s: "string_field (ddl_payload codec c) ''ddl_type'' = Some (cd_ddl_type c)"
    "string_field (ddl_payload codec c) ''table'' = Some (cd_table c)"
    "string_field (ddl_payload codec c) ''schema'' = Some (cd_schema c)"
    "string_field (ddl_payload codec c) ''statement'' = Some (cd_statement c)"
    "obj_get (ddl_payload codec c) ''ts'' = None"
    by (simp_all add: string_field_def payload_get)
  have "from_event_payload codec (JObject (ddl_payload codec c)) = Some (c\<lparr>cd_ts := 0\<rparr>)"
    using assms by (simp add: from_event_payload_def s payload_get codec_ok_def)
  moreover have "to_schema_event (c\<lparr>cd_ts := 0\<rparr>) = to_schema_event c"
    by (cases "cd_result_schema c") (simp_all add: to_schema_event_def)
  ultimately show ?thesis by (simp add: to_event_def)
qed

definition example_drop :: captured_ddl where
  "example_drop = \<lparr>cd_ddl_type = ''DROP_TABLE'', cd_schema = ''public'', cd_table = ''t'',
     cd_statement = ''DROP TABLE t'', cd_result_schema = None, cd_schema_diff = None, cd_ts = 9\<rparr>"

definition example_codec :: ddl_codec where
  "example_codec = \<lparr>enc_schema = (\<lambda>_. None), dec_schema = (\<lambda>_. None), enc_diff = (\<lambda>_. None), dec_diff = (\<lambda>_. None)\<rparr>"

theorem captured_ddl_round_trip_witness:
  "\<exists>after. ev_after (to_event example_codec example_drop ''pg'' ''0/1'' 5) = Some after
    \<and> from_event_payload example_codec after = Some (example_drop\<lparr>cd_ts := 0\<rparr>)
    \<and> map_option to_schema_event (from_event_payload example_codec after) = Some (Some (DropTable ''public'' ''t''))"
proof -
  have "codec_ok example_codec example_drop" by (simp add: codec_ok_def example_drop_def)
  from captured_ddl_round_trip [OF this, of "''pg''" "''0/1''" 5] show ?thesis
    by (simp add: to_schema_event_def example_drop_def)
qed

text \<open>
  The schema and the statement are optional on the way back: a payload that names only a DDL
  type and a table is accepted, with an empty schema name, and a drop is then recorded under the
  table key that starts with a dot.
\<close>

theorem payload_without_schema_accepted:
  assumes "string_field obj ''ddl_type'' = Some ''DROP_TABLE''" and "string_field obj ''table'' = Some t"
    and "obj_get obj ''schema'' = None"
  shows "\<exists>c. from_event_payload codec (JObject obj) = Some c \<and> to_schema_event c = Some (DropTable [] t)
    \<and> ddl_key (DropTable [] t) = CHR ''.'' # t"
  using assms by (simp add: from_event_payload_def to_schema_event_def string_field_def ddl_key_def table_key_def)

theorem payload_without_schema_accepted_witness:
  "\<exists>c. from_event_payload example_codec (JObject [(''ddl_type'', JString ''DROP_TABLE''), (''table'', JString ''t'')]) = Some c
    \<and> to_schema_event c = Some (DropTable [] ''t'')"
  using payload_without_schema_accepted
    [of "[(''ddl_type'', JString ''DROP_TABLE''), (''table'', JString ''t'')]" "''t''" example_codec]
  by (auto simp: string_field_def obj_get_def)

end
