(* ===== verification/Runtime_State.thy ===== *)
theory Runtime_State
  imports Commit_Barrier Stream_Offset Idempotency_Guard Transform_Pipeline Ddl_Capture
begin

text \<open>
  The runtime's data (\<open>core/runtime.rs\<close>): options, configuration, tokens, batches, the runtime
  itself, its construction, and the dispatch to a source.

  Everything the runtime reaches through a trait object lives in a world \<open>'w\<close>: the connector and
  its stream and snapshot handles, the schema history, the sink, the transforms, the clock. A handle
  is a number the world knows. The operations on the world are the fields of an environment record
  and are arguments of every definition that uses them; the checkpoint store is a second state
  \<open>'c\<close> with the operations of \<open>checkpoint_store\<close>. Metrics, tracing and log lines are observations
  and are not modelled.
\<close>

section \<open>Options\<close>

datatype transform_error_policy = Halt | Skip

datatype post_commit_source_confirm_policy = ContinueAck | FailFast

datatype transaction_boundary_policy = SplitTransactions | PreserveTransactions

record connection_retry_policy =
  max_retries :: "nat option"
  initial_delay_ms :: nat
  max_delay_ms :: nat

definition retry_policy_default :: connection_retry_policy where
  "retry_policy_default = \<lparr>max_retries = Some 5, initial_delay_ms = 300, max_delay_ms = 10000\<rparr>"

definition retry_policy_validate :: "connection_retry_policy \<Rightarrow> connection_retry_policy result" where
  "retry_policy_validate p =
     (if initial_delay_ms p = 0
      then Inl (ConfigError ''connection_retry.initial_delay_ms must be greater than zero'')
      else if max_delay_ms p < initial_delay_ms p
      then Inl (ConfigError ''connection_retry.max_delay_ms must be at least initial_delay_ms'')
      else Inr p)"

record idempotency_options =
  io_capacity :: nat
  io_ttl_ms :: "nat option"

definition idempotency_options_new :: "nat \<Rightarrow> idempotency_options result" where
  "idempotency_options_new capacity =
     (if capacity = 0 then Inl (ConfigError ''idempotency capacity must be greater than zero'')
      else Inr \<lparr>io_capacity = capacity, io_ttl_ms = None\<rparr>)"

definition idempotency_options_with_ttl_ms :: "nat \<Rightarrow> idempotency_options \<Rightarrow> idempotency_options result" where
  "idempotency_options_with_ttl_ms ttl o1 =
     (if ttl = 0 then Inl (ConfigError ''idempotency ttl_ms must be greater than zero'')
      else Inr (o1\<lparr>io_ttl_ms := Some ttl\<rparr>))"

record runtime_options =
  opt_max_buffer_size :: nat
  opt_max_poll_wait_ms :: nat
  opt_transform_error_policy :: transform_error_policy
  opt_post_commit_source_confirm_policy :: post_commit_source_confirm_policy
  opt_idempotency :: "idempotency_options option"
  opt_validate_events :: bool
  opt_schema_history_retention :: "nat option"
  opt_connection_retry :: "connection_retry_policy option"
  opt_dead_letter_handler :: bool
  opt_max_event_bytes :: "nat option"
  opt_sink_close_timeout_ms :: "nat option"
  opt_transaction_boundary :: transaction_boundary_policy

definition runtime_options_default :: runtime_options where
  "runtime_options_default =
     \<lparr>opt_max_buffer_size = 10000, opt_max_poll_wait_ms = 5000, opt_transform_error_policy = Halt,
      opt_post_commit_source_confirm_policy = FailFast,
      opt_idempotency = Some \<lparr>io_capacity = 100000, io_ttl_ms = None\<rparr>, opt_validate_events = True,
      opt_schema_history_retention = Some 256, opt_connection_retry = Some retry_policy_default,
      opt_dead_letter_handler = False, opt_max_event_bytes = None, opt_sink_close_timeout_ms = None,
      opt_transaction_boundary = SplitTransactions\<rparr>"

section \<open>Configuration\<close>

text \<open>
  A source configuration keeps what the runtime reads of it: the replication slot, the flavor a
  MySQL configuration names, the truncate option of SQL Server.
\<close>

datatype runtime_source_config =
    CfgPostgres string
  | CfgMysql string
  | CfgMariaDb
  | CfgSqlServer bool
  | CfgDisabled

fun source_type :: "runtime_source_config \<Rightarrow> string option" where
  "source_type (CfgPostgres _) = Some ''postgres''"
| "source_type (CfgMysql flavor) = Some flavor"
| "source_type CfgMariaDb = Some ''mariadb''"
| "source_type (CfgSqlServer _) = Some ''sqlserver''"
| "source_type CfgDisabled = None"

record connector_capabilities =
  cap_snapshot :: bool
  cap_snapshot_checkpoint_resume :: bool
  cap_handoff :: bool
  cap_ddl_capture :: bool
  cap_heartbeat :: bool
  cap_tls :: bool
  cap_schema_introspection :: bool
  cap_truncate :: bool
  cap_incremental_snapshot :: bool

definition capabilities_none :: connector_capabilities where
  "capabilities_none =
     \<lparr>cap_snapshot = False, cap_snapshot_checkpoint_resume = False, cap_handoff = False,
      cap_ddl_capture = False, cap_heartbeat = False, cap_tls = False,
      cap_schema_introspection = False, cap_truncate = False, cap_incremental_snapshot = False\<rparr>"

text \<open>The three connectors report the same set up to \<open>truncate\<close>; \<open>tls\<close> is a build feature.\<close>

definition connector_capabilities_with :: "bool \<Rightarrow> bool \<Rightarrow> connector_capabilities" where
  "connector_capabilities_with tls trunc =
     \<lparr>cap_snapshot = True, cap_snapshot_checkpoint_resume = True, cap_handoff = True,
      cap_ddl_capture = True, cap_heartbeat = True, cap_tls = tls,
      cap_schema_introspection = True, cap_truncate = trunc, cap_incremental_snapshot = True\<rparr>"

fun capabilities :: "bool \<Rightarrow> runtime_source_config \<Rightarrow> connector_capabilities" where
  "capabilities tls (CfgPostgres _) = connector_capabilities_with tls True"
| "capabilities tls (CfgMysql _) = connector_capabilities_with tls True"
| "capabilities tls CfgMariaDb = connector_capabilities_with tls True"
| "capabilities tls (CfgSqlServer capture_truncate) = connector_capabilities_with tls capture_truncate"
| "capabilities tls CfgDisabled = capabilities_none"

record runtime_config =
  cfg_source :: runtime_source_config
  cfg_snapshot_tables :: "string list"
  cfg_incremental_snapshot :: "json option"
  cfg_options :: runtime_options

section \<open>Tokens and batches\<close>

record ack_token =
  tok_delivery_id :: nat
  tok_event_count :: nat
  tok_epoch :: nat

definition accept_prefix :: "nat \<Rightarrow> ack_token \<Rightarrow> ack_token result" where
  "accept_prefix n t =
     (if n = 0 \<or> n > tok_event_count t
      then Inl (CheckpointError ''ack token prefix must be between 1 and the token length'')
      else Inr (t\<lparr>tok_event_count := n\<rparr>))"

datatype ack_mode = Required ack_token | NotRequired

record event_batch =
  eb_events :: "event list"
  eb_offset :: nat
  eb_ack_token :: "ack_token option"

definition batch_empty :: event_batch where
  "batch_empty = \<lparr>eb_events = [], eb_offset = 0, eb_ack_token = None\<rparr>"

definition batch_events :: "event_batch \<Rightarrow> event list" where
  "batch_events b = drop (eb_offset b) (eb_events b)"

definition batch_into_events :: "event_batch \<Rightarrow> event list" where
  "batch_into_events b = (if eb_offset b = 0 then eb_events b else drop (eb_offset b) (eb_events b))"

definition batch_ack_mode :: "event_batch \<Rightarrow> ack_mode" where
  "batch_ack_mode b = (case eb_ack_token b of Some t \<Rightarrow> Required t | None \<Rightarrow> NotRequired)"

definition batch_len :: "event_batch \<Rightarrow> nat" where
  "batch_len b = length (eb_events b) - eb_offset b"

definition batch_is_empty :: "event_batch \<Rightarrow> bool" where
  "batch_is_empty b \<longleftrightarrow> batch_len b = 0"

definition batch_tables :: "event_batch \<Rightarrow> string list" where
  "batch_tables b = remdups_adj (sort (map ev_table (batch_events b)))"

text \<open>This one and the owning iterator read the whole shared buffer.\<close>

definition batch_qualified_tables :: "event_batch \<Rightarrow> string list" where
  "batch_qualified_tables b = remdups_adj (sort (map qualified_table_name (eb_events b)))"

definition batch_into_iter :: "event_batch \<Rightarrow> event list" where
  "batch_into_iter b = eb_events b"

definition batch_event_count_for_table :: "string \<Rightarrow> event_batch \<Rightarrow> nat" where
  "batch_event_count_for_table t b = length (filter (\<lambda>e. ev_table e = t) (batch_events b))"

definition batch_has_key_only_befores :: "event_batch \<Rightarrow> bool" where
  "batch_has_key_only_befores b = list_ex ev_before_is_key_only (batch_events b)"

record pending_delivery =
  pd_delivery_id :: nat
  pd_events :: "event list"
  pd_committed_prefix :: nat
  pd_ack_epoch :: nat

section \<open>The environment\<close>

type_synonym handle = nat

datatype control_command =
    RequestSnapshot json
  | SetSnapshotPaused bool
  | StopSnapshot

record ('w, 'c) runtime_env =
  env_now :: "'w \<Rightarrow> 'w \<times> nat"
  env_sleep :: "nat \<Rightarrow> 'w \<Rightarrow> 'w"
  env_connect :: "'w \<Rightarrow> 'w \<times> unit result"
  env_close :: "'w \<Rightarrow> 'w"
  env_start_stream :: "offset option \<Rightarrow> 'w \<Rightarrow> 'w \<times> handle result"
  env_start_snapshot :: "string list \<Rightarrow> 'w \<Rightarrow> 'w \<times> handle result"
  env_start_snapshot_from_checkpoint :: "string list \<Rightarrow> offset \<Rightarrow> 'w \<Rightarrow> 'w \<times> handle result"
  env_start_incremental_snapshot :: "json \<Rightarrow> offset option \<Rightarrow> 'w \<Rightarrow> 'w \<times> handle result"
  env_perform_handoff :: "handle \<Rightarrow> handle \<Rightarrow> 'w \<Rightarrow> 'w \<times> unit result"
  env_next_chunk :: "handle \<Rightarrow> nat \<Rightarrow> 'w \<Rightarrow> 'w \<times> event list result"
  env_snapshot_checkpoint :: "handle \<Rightarrow> nat \<Rightarrow> 'w \<Rightarrow> 'c \<Rightarrow> 'w \<times> 'c \<times> unit result"
  env_next_events :: "handle \<Rightarrow> nat \<Rightarrow> 'w \<Rightarrow> 'w \<times> event list result"
  env_confirm_lsn :: "handle \<Rightarrow> 64 word \<Rightarrow> 'w \<Rightarrow> 'w \<times> unit result"
  env_resume_offset_for :: "handle \<Rightarrow> event \<Rightarrow> 'w \<Rightarrow> string option"
  env_position_offset :: "handle \<Rightarrow> 'w \<Rightarrow> offset option"
  env_incremental_snapshot_state :: "handle \<Rightarrow> 'w \<Rightarrow> json option"
  env_control :: "handle \<Rightarrow> control_command \<Rightarrow> 'w \<Rightarrow> 'w \<times> nat result"
  env_record_ddl :: "string \<Rightarrow> ddl_event \<Rightarrow> 'w \<Rightarrow> 'w \<times> nat result"
  env_apply_retention :: "nat \<Rightarrow> 'w \<Rightarrow> 'w \<times> nat result"
  env_dead_letter :: "event \<Rightarrow> error \<Rightarrow> 'w \<Rightarrow> 'w"
  env_sink_send :: "event \<Rightarrow> 'w \<Rightarrow> 'w \<times> unit result"
  env_sink_flush :: "'w \<Rightarrow> 'w \<times> unit result"
  env_sink_close :: "nat option \<Rightarrow> 'w \<Rightarrow> 'w \<times> unit result"
  env_cancelled :: "'w \<Rightarrow> 'w \<times> bool"
  env_ahash :: "token list \<Rightarrow> nat"
  env_json_len :: "json \<Rightarrow> nat"
  env_parse_json :: "string \<Rightarrow> json option"
  env_ddl_codec :: ddl_codec
  env_save :: "offset \<Rightarrow> nat \<Rightarrow> 'c \<Rightarrow> 'c \<times> unit result"
  env_load :: "'c \<Rightarrow> offset option result"
  env_committed_count :: "'c \<Rightarrow> nat result"

section \<open>The runtime\<close>

datatype runtime_state = Idle | Running | Stopping | Stopped

datatype runtime_source = SrcPostgres | SrcMysql | SrcSqlServer | SrcDisabled | SrcCustom

record ('w, 'c) cdc_runtime =
  rt_config :: runtime_config
  rt_state :: runtime_state
  rt_injected_events :: "event list"
  rt_pending_source_events :: "event list"
  rt_buffered_events :: "event list"
  rt_delivered_not_committed :: nat
  rt_next_delivery_id :: nat
  rt_pending_delivery :: "pending_delivery option"
  rt_commit_barrier :: "offset commit_barrier"
  rt_source :: runtime_source
  rt_snapshot :: "handle option"
  rt_stream :: "handle option"
  rt_handoff_complete :: bool
  rt_started_at_ms :: "nat option"
  rt_last_poll_at_ms :: "nat option"
  rt_last_source_event_ts_ms :: "nat option"
  rt_last_commit_at_ms :: "nat option"
  rt_total_events_polled :: nat
  rt_total_events_committed :: nat
  rt_total_events_deduplicated :: nat
  rt_total_events_skipped :: nat
  rt_last_checkpoint_saved_at_ms :: "nat option"
  rt_transform_pipeline :: "'w transform_pipeline"
  rt_idempotency_guard :: "idempotency_guard option"
  rt_registered_sink :: bool
  rt_control_queue :: "control_command list"
  rt_control_published :: "json option"
  rt_pending_confirmation_lsn :: "64 word option"
  rt_unconfirmed_stall_polls :: nat
  rt_checkpoint :: 'c
  rt_world :: 'w

abbreviation rt_options :: "('w, 'c) cdc_runtime \<Rightarrow> runtime_options" where
  "rt_options rt \<equiv> cfg_options (rt_config rt)"

definition build_idempotency_guard :: "runtime_options \<Rightarrow> idempotency_guard option result" where
  "build_idempotency_guard o1 =
     (case opt_idempotency o1 of
        None \<Rightarrow> Inr None
      | Some io \<Rightarrow>
          (case guard_new (io_capacity io) of
             Inl e \<Rightarrow> Inl e
           | Inr g \<Rightarrow>
               (case io_ttl_ms io of
                  None \<Rightarrow> Inr (Some g)
                | Some ttl \<Rightarrow> (case guard_with_ttl_ms ttl g of Inl e \<Rightarrow> Inl e | Inr g' \<Rightarrow> Inr (Some g')))))"

fun build_source :: "runtime_source_config \<Rightarrow> runtime_source" where
  "build_source (CfgPostgres _) = SrcPostgres"
| "build_source (CfgMysql _) = SrcMysql"
| "build_source CfgMariaDb = SrcMysql"
| "build_source (CfgSqlServer _) = SrcSqlServer"
| "build_source CfgDisabled = SrcDisabled"

definition runtime_validate :: "bool \<Rightarrow> runtime_config \<Rightarrow> unit result" where
  "runtime_validate tls cfg =
     (let o1 = cfg_options cfg; caps = capabilities tls (cfg_source cfg)
      in if opt_max_buffer_size o1 = 0
         then Inl (ConfigError ''max_buffer_size must be greater than zero'')
         else if cfg_snapshot_tables cfg \<noteq> [] \<and> cfg_incremental_snapshot cfg \<noteq> None
         then Inl (ConfigError ''snapshot_tables and incremental_snapshot are mutually exclusive'')
         else if opt_transform_error_policy o1 = Skip \<and> \<not> opt_dead_letter_handler o1
         then Inl (ConfigError ''TransformErrorPolicy::Skip requires a dead-letter handler'')
         else if cfg_source cfg \<noteq> CfgDisabled \<and> cfg_snapshot_tables cfg \<noteq> [] \<and> \<not> cap_snapshot caps
         then Inl (ConfigError ''configured source does not support snapshot mode'')
         else if cfg_source cfg \<noteq> CfgDisabled \<and> cfg_snapshot_tables cfg \<noteq> [] \<and> \<not> cap_handoff caps
         then Inl (ConfigError ''configured source does not support snapshot-to-stream handoff'')
         else case opt_connection_retry o1 of
                None \<Rightarrow> Inr ()
              | Some p \<Rightarrow> (case retry_policy_validate p of Inl e \<Rightarrow> Inl e | Inr _ \<Rightarrow> Inr ()))"

definition runtime_new :: "bool \<Rightarrow> runtime_config \<Rightarrow> 'c \<Rightarrow> 'w \<Rightarrow> ('w, 'c) cdc_runtime result" where
  "runtime_new tls cfg c w =
     (case runtime_validate tls cfg of
        Inl e \<Rightarrow> Inl e
      | Inr _ \<Rightarrow>
          (case build_idempotency_guard (cfg_options cfg) of
             Inl e \<Rightarrow> Inl e
           | Inr guard \<Rightarrow>
               Inr \<lparr>rt_config = cfg, rt_state = Idle, rt_injected_events = [],
                    rt_pending_source_events = [], rt_buffered_events = [],
                    rt_delivered_not_committed = 0, rt_next_delivery_id = 1, rt_pending_delivery = None,
                    rt_commit_barrier = barrier_new (opt_max_buffer_size (cfg_options cfg)),
                    rt_source = build_source (cfg_source cfg), rt_snapshot = None, rt_stream = None,
                    rt_handoff_complete = False, rt_started_at_ms = None, rt_last_poll_at_ms = None,
                    rt_last_source_event_ts_ms = None, rt_last_commit_at_ms = None,
                    rt_total_events_polled = 0, rt_total_events_committed = 0,
                    rt_total_events_deduplicated = 0, rt_total_events_skipped = 0,
                    rt_last_checkpoint_saved_at_ms = None, rt_transform_pipeline = [],
                    rt_idempotency_guard = guard, rt_registered_sink = False, rt_control_queue = [],
                    rt_control_published = None, rt_pending_confirmation_lsn = None,
                    rt_unconfirmed_stall_polls = 0, rt_checkpoint = c, rt_world = w\<rparr>))"

definition register_sink :: "('w, 'c) cdc_runtime \<Rightarrow> ('w, 'c) cdc_runtime" where
  "register_sink rt = rt\<lparr>rt_registered_sink := True\<rparr>"

definition register_source :: "('w, 'c) cdc_runtime \<Rightarrow> ('w, 'c) cdc_runtime" where
  "register_source rt = rt\<lparr>rt_source := SrcCustom\<rparr>"

section \<open>Dispatch to the source\<close>

definition source_disabled_error :: error where
  "source_disabled_error = ConfigError ''runtime source is disabled in this build''"

definition source_connect :: "('w, 'c) runtime_env \<Rightarrow> runtime_source \<Rightarrow> 'w \<Rightarrow> 'w \<times> unit result" where
  "source_connect env src w = (if src = SrcDisabled then (w, Inl source_disabled_error) else env_connect env w)"

definition source_close :: "('w, 'c) runtime_env \<Rightarrow> runtime_source \<Rightarrow> 'w \<Rightarrow> 'w" where
  "source_close env src w = (if src = SrcDisabled then w else env_close env w)"

definition source_start_snapshot ::
    "('w, 'c) runtime_env \<Rightarrow> runtime_source \<Rightarrow> string list \<Rightarrow> 'w \<Rightarrow> 'w \<times> handle result" where
  "source_start_snapshot env src tables w =
     (if src = SrcDisabled then (w, Inl source_disabled_error) else env_start_snapshot env tables w)"

definition source_start_snapshot_from_checkpoint ::
    "('w, 'c) runtime_env \<Rightarrow> runtime_source \<Rightarrow> string list \<Rightarrow> offset \<Rightarrow> 'w \<Rightarrow> 'w \<times> handle result" where
  "source_start_snapshot_from_checkpoint env src tables off w =
     (if src = SrcDisabled then (w, Inl source_disabled_error)
      else env_start_snapshot_from_checkpoint env tables off w)"

definition source_start_stream ::
    "('w, 'c) runtime_env \<Rightarrow> runtime_source \<Rightarrow> offset option \<Rightarrow> 'w \<Rightarrow> 'w \<times> handle result" where
  "source_start_stream env src off w =
     (if src = SrcDisabled then (w, Inl source_disabled_error) else env_start_stream env off w)"

definition source_start_incremental_snapshot ::
    "('w, 'c) runtime_env \<Rightarrow> runtime_source \<Rightarrow> json \<Rightarrow> offset option \<Rightarrow> 'w \<Rightarrow> 'w \<times> handle result" where
  "source_start_incremental_snapshot env src cfg off w =
     (case src of
        SrcDisabled \<Rightarrow> (w, Inl source_disabled_error)
      | SrcCustom \<Rightarrow> (w, Inl (ConfigError ''incremental snapshot startup is not available for a custom source''))
      | _ \<Rightarrow> env_start_incremental_snapshot env cfg off w)"

definition source_perform_handoff ::
    "('w, 'c) runtime_env \<Rightarrow> runtime_source \<Rightarrow> handle \<Rightarrow> handle \<Rightarrow> 'w \<Rightarrow> 'w \<times> unit result" where
  "source_perform_handoff env src snapshot stream w =
     (if src = SrcDisabled then (w, Inl source_disabled_error) else env_perform_handoff env snapshot stream w)"

section \<open>Batches cover the uncommitted part\<close>

text \<open>
  A redelivered batch shares the buffer of the original delivery and starts at its uncommitted
  part. Listing the events and taking them by value respect that start; the owning iterator and
  the qualified table names do not. On any batch whose start is past the first event, iterating by
  value also yields the events already committed.
\<close>

theorem owned_iteration_repeats_committed:
  assumes "0 < eb_offset b" and "eb_offset b \<le> length (eb_events b)"
  shows "batch_into_iter b = take (eb_offset b) (eb_events b) @ batch_events b
    \<and> length (batch_into_iter b) = eb_offset b + batch_len b
    \<and> batch_into_events b = batch_events b
    \<and> set (batch_qualified_tables b) = qualified_table_name ` (set (take (eb_offset b) (eb_events b)) \<union> set (batch_events b))"
proof -
  have "set (eb_events b) = set (take (eb_offset b) (eb_events b)) \<union> set (drop (eb_offset b) (eb_events b))"
    by (metis append_take_drop_id set_append)
  with assms show ?thesis
    by (simp add: batch_into_iter_def batch_events_def batch_into_events_def batch_len_def
        batch_qualified_tables_def)
qed

theorem owned_iteration_repeats_committed_witness:
  "batch_into_iter \<lparr>eb_events = [default_event\<lparr>ev_table := ''a''\<rparr>, default_event\<lparr>ev_table := ''b''\<rparr>],
      eb_offset = 1, eb_ack_token = None\<rparr>
    = [default_event\<lparr>ev_table := ''a''\<rparr>, default_event\<lparr>ev_table := ''b''\<rparr>]
   \<and> batch_events \<lparr>eb_events = [default_event\<lparr>ev_table := ''a''\<rparr>, default_event\<lparr>ev_table := ''b''\<rparr>],
      eb_offset = 1, eb_ack_token = None\<rparr> = [default_event\<lparr>ev_table := ''b''\<rparr>]"
  using owned_iteration_repeats_committed [of "\<lparr>eb_events = [default_event\<lparr>ev_table := ''a''\<rparr>,
      default_event\<lparr>ev_table := ''b''\<rparr>], eb_offset = 1, eb_ack_token = None\<rparr>"]
  by (simp add: batch_events_def)

end
