(* ===== verification/Runtime_Commit.thy ===== *)
theory Runtime_Commit
  imports Runtime_State
begin

text \<open>
  Acknowledging a delivery (\<open>core/runtime/runtime_commit.rs\<close>) and the positions the runtime
  checkpoints (\<open>resume_offset_for\<close>, \<open>build_checkpoint_offset\<close> of \<open>runtime_poll.rs\<close>), with the invariant that ties the commit barrier to the events the
  runtime holds.
\<close>

named_theorems runtime_defs \<open>definitions of the runtime's straight-line operations\<close>

section \<open>Positions\<close>

definition resume_offset_for :: "('w, 'c) runtime_env \<Rightarrow> ('w, 'c) cdc_runtime \<Rightarrow> event \<Rightarrow> string" where
  "resume_offset_for env rt e =
     (case Option.bind (rt_stream rt) (\<lambda>h. env_resume_offset_for env h e (rt_world rt)) of
        Some s \<Rightarrow> s
      | None \<Rightarrow> source_offset (ev_source e))"

definition build_checkpoint_offset ::
    "('w, 'c) runtime_env \<Rightarrow> ('w, 'c) cdc_runtime \<Rightarrow> event \<Rightarrow> offset result" where
  "build_checkpoint_offset env rt e =
     (let src = cfg_source (rt_config rt);
          st = (case source_type src of Some s \<Rightarrow> s | None \<Rightarrow> source_name (ev_source e));
          incremental = Option.bind (rt_stream rt) (\<lambda>h. env_incremental_snapshot_state env h (rt_world rt));
          resume = resume_offset_for env rt e
      in case src of
           CfgPostgres slot \<Rightarrow>
             (case parse_postgres_lsn resume of
                Inl err \<Rightarrow> Inl err
              | Inr lsn \<Rightarrow> Inr (postgres_offset lsn slot incremental))
         | CfgMysql _ \<Rightarrow>
             (case parse_mysql_stream_offset resume of
                Inl err \<Rightarrow> Inl err
              | Inr (file, pos, gtid) \<Rightarrow> Inr (mysql_offset st file pos gtid incremental))
         | CfgMariaDb \<Rightarrow>
             (case parse_mysql_stream_offset resume of
                Inl err \<Rightarrow> Inl err
              | Inr (file, pos, gtid) \<Rightarrow> Inr (mysql_offset st file pos gtid incremental))
         | CfgSqlServer _ \<Rightarrow> Inr (sqlserver_offset resume incremental)
         | CfgDisabled \<Rightarrow> Inr (st, env_parse_json env resume))"

section \<open>Acknowledgement\<close>

definition pending_remaining :: "('w, 'c) cdc_runtime \<Rightarrow> nat" where
  "pending_remaining rt =
     (case rt_pending_delivery rt of None \<Rightarrow> 0 | Some p \<Rightarrow> length (pd_events p) - pd_committed_prefix p)"

definition pending_slice :: "nat \<Rightarrow> ('w, 'c) cdc_runtime \<Rightarrow> event list" where
  "pending_slice n rt =
     (case rt_pending_delivery rt of None \<Rightarrow> [] | Some p \<Rightarrow> take n (drop (pd_committed_prefix p) (pd_events p)))"

definition pending_prefix_contains_snapshot_events :: "nat \<Rightarrow> ('w, 'c) cdc_runtime \<Rightarrow> bool" where
  "pending_prefix_contains_snapshot_events n rt = list_ex (\<lambda>e. ev_snapshot e \<noteq> None) (pending_slice n rt)"

definition persist_snapshot_checkpoint_before_commit ::
    "('w, 'c) runtime_env \<Rightarrow> nat \<Rightarrow> ('w, 'c) cdc_runtime \<Rightarrow> ('w, 'c) cdc_runtime \<times> unit result" where
  "persist_snapshot_checkpoint_before_commit env n rt =
     (if \<not> pending_prefix_contains_snapshot_events n rt then (rt, Inr ())
      else case rt_snapshot rt of
             None \<Rightarrow>
               if cfg_incremental_snapshot (rt_config rt) \<noteq> None then (rt, Inr ())
               else (rt, Inl (StateError ''snapshot events are pending commit but snapshot handle is unavailable''))
           | Some h \<Rightarrow>
               (case env_snapshot_checkpoint env h
                       (sat_add64 (committed_event_count (rt_commit_barrier rt)) n) (rt_world rt) (rt_checkpoint rt) of
                  (w', c', r) \<Rightarrow> (rt\<lparr>rt_world := w', rt_checkpoint := c'\<rparr>, r)))"

definition committed_confirmation_lsn ::
    "('w, 'c) runtime_env \<Rightarrow> nat \<Rightarrow> ('w, 'c) cdc_runtime \<Rightarrow> 64 word option result" where
  "committed_confirmation_lsn env n rt =
     (case rt_pending_delivery rt of
        None \<Rightarrow> Inr None
      | Some p \<Rightarrow>
          if n = 0 \<or> n > length (pd_events p) - pd_committed_prefix p then Inr None
          else
            let e = pd_events p ! (pd_committed_prefix p + n - 1)
            in if ev_snapshot e \<noteq> None then Inr None
               else if \<not> eq_ignore_ascii_case (source_name (ev_source e)) ''postgres''
                       \<and> (case cfg_source (rt_config rt) of CfgPostgres _ \<Rightarrow> False | _ \<Rightarrow> True)
               then Inr None
               else if CHR ''/'' \<notin> set (source_offset (ev_source e)) then Inr None
               else (case parse_postgres_lsn (resume_offset_for env rt e) of
                       Inl err \<Rightarrow> Inl err
                     | Inr lsn \<Rightarrow> Inr (Some lsn)))"

text \<open>Post-commit source confirmation: the failure, if any, and the state it leaves.\<close>

definition confirm_committed ::
    "('w, 'c) runtime_env \<Rightarrow> 64 word option \<Rightarrow> ('w, 'c) cdc_runtime \<Rightarrow> ('w, 'c) cdc_runtime \<times> error option" where
  "confirm_committed env lsn rt =
     (case (lsn, rt_stream rt) of
        (Some l, Some h) \<Rightarrow>
          (case env_confirm_lsn env h l (rt_world rt) of
             (w', Inr _) \<Rightarrow>
               (rt\<lparr>rt_world := w', rt_pending_confirmation_lsn := None, rt_unconfirmed_stall_polls := 0\<rparr>, None)
           | (w', Inl e) \<Rightarrow> (rt\<lparr>rt_world := w', rt_pending_confirmation_lsn := Some l\<rparr>, Some e))
      | _ \<Rightarrow> (rt, None))"

text \<open>The bookkeeping after a durable commit.\<close>

definition settle_commit ::
    "('w, 'c) runtime_env \<Rightarrow> nat \<Rightarrow> ('w, 'c) cdc_runtime \<Rightarrow> ('w, 'c) cdc_runtime" where
  "settle_commit env n rt =
     (case env_now env (rt_world rt) of
        (w', now) \<Rightarrow>
          rt\<lparr>rt_delivered_not_committed := rt_delivered_not_committed rt - n,
             rt_total_events_committed := sat_add64 (rt_total_events_committed rt) n,
             rt_last_commit_at_ms := Some now, rt_last_checkpoint_saved_at_ms := Some now,
             rt_pending_delivery :=
               (case rt_pending_delivery rt of
                  None \<Rightarrow> None
                | Some p \<Rightarrow>
                    if pd_committed_prefix p + n \<ge> length (pd_events p) then None
                    else Some (p\<lparr>pd_committed_prefix := pd_committed_prefix p + n,
                                 pd_ack_epoch := sat_add64 (pd_ack_epoch p) 1\<rparr>)),
             rt_world := w'\<rparr>)"

definition commit_prefix ::
    "('w, 'c) runtime_env \<Rightarrow> nat \<Rightarrow> ('w, 'c) cdc_runtime \<Rightarrow> ('w, 'c) cdc_runtime \<times> unit result" where
  "commit_prefix env n rt =
     (if n = 0 then (rt, Inr ())
      else if n > rt_delivered_not_committed rt \<or> n > pending_remaining rt
      then (rt, Inl (CheckpointError ''cannot commit more events than were delivered''))
      else case persist_snapshot_checkpoint_before_commit env n rt of
             (rt1, Inl e) \<Rightarrow> (rt1, Inl e)
           | (rt1, Inr _) \<Rightarrow>
               (case committed_confirmation_lsn env n rt1 of
                  Inl e \<Rightarrow> (rt1, Inl e)
                | Inr lsn \<Rightarrow>
                    (case accept_and_commit (env_save env) n (rt_commit_barrier rt1) (rt_checkpoint rt1) of
                       (b, c, Inl e) \<Rightarrow> (rt1\<lparr>rt_commit_barrier := b, rt_checkpoint := c\<rparr>, Inl e)
                     | (b, c, Inr _) \<Rightarrow>
                         (case confirm_committed env lsn (rt1\<lparr>rt_commit_barrier := b, rt_checkpoint := c\<rparr>) of
                            (rt2, failure) \<Rightarrow>
                              (settle_commit env n rt2,
                               if failure \<noteq> None \<and> opt_post_commit_source_confirm_policy (rt_options rt2) = FailFast
                               then Inl (PostCommitConfirmFailed True ''stream confirm_lsn'')
                               else Inr ())))))"

definition commit_ack ::
    "('w, 'c) runtime_env \<Rightarrow> ack_mode \<Rightarrow> ('w, 'c) cdc_runtime \<Rightarrow> ('w, 'c) cdc_runtime \<times> unit result" where
  "commit_ack env mode rt =
     (case mode of
        NotRequired \<Rightarrow> (rt, Inr ())
      | Required t \<Rightarrow>
          (case rt_pending_delivery rt of
             None \<Rightarrow> (rt, Inl (CheckpointError ''no in-flight batch is available for acknowledgement''))
           | Some p \<Rightarrow>
               if pd_delivery_id p \<noteq> tok_delivery_id t
               then (rt, Inl (CheckpointError ''ack token does not match the current in-flight delivery''))
               else if pd_ack_epoch p \<noteq> tok_epoch t
               then (rt, Inl (CheckpointError ''this ack token has already been committed''))
               else commit_prefix env (tok_event_count t) rt))"

section \<open>The invariant\<close>

text \<open>
  \<open>in_flight\<close> is what the caller has been given and has not committed. The barrier holds one
  unaccepted record for each in-flight and each buffered event, in this order, and the record of an
  event that is not a snapshot row carries a position the runtime built for that event.
\<close>

definition in_flight :: "('w, 'c) cdc_runtime \<Rightarrow> event list" where
  "in_flight rt =
     (case rt_pending_delivery rt of None \<Rightarrow> [] | Some p \<Rightarrow> drop (pd_committed_prefix p) (pd_events p))"

definition checkpoint_position :: "('w, 'c) runtime_env \<Rightarrow> runtime_config \<Rightarrow> event \<Rightarrow> offset \<Rightarrow> bool" where
  "checkpoint_position env cfg e off \<longleftrightarrow>
     (\<exists>rt. rt_config rt = cfg \<and> build_checkpoint_offset env rt e = Inr off)"

definition record_for ::
    "('w, 'c) runtime_env \<Rightarrow> runtime_config \<Rightarrow> event \<Rightarrow> offset pending_record \<Rightarrow> bool" where
  "record_for env cfg e r \<longleftrightarrow>
     (ev_snapshot e = None \<longrightarrow> (\<exists>off. rec_offset r = Some off \<and> checkpoint_position env cfg e off))"

definition runtime_inv :: "('w, 'c) runtime_env \<Rightarrow> ('w, 'c) cdc_runtime \<Rightarrow> bool" where
  "runtime_inv env rt \<longleftrightarrow>
     barrier_inv (rt_commit_barrier rt) \<and> accepted_of (rt_commit_barrier rt) = []
     \<and> max_buffer_size (rt_commit_barrier rt) = opt_max_buffer_size (rt_options rt)
     \<and> 0 < opt_max_buffer_size (rt_options rt) \<and> opt_max_buffer_size (rt_options rt) \<le> u64_max
     \<and> list_all2 (record_for env (rt_config rt)) (in_flight rt @ rt_buffered_events rt)
         (pending_records (rt_commit_barrier rt))
     \<and> rt_delivered_not_committed rt = length (in_flight rt)
     \<and> (case rt_pending_delivery rt of
          None \<Rightarrow> True
        | Some p \<Rightarrow>
            pd_committed_prefix p < length (pd_events p) \<and> pd_ack_epoch p \<le> pd_committed_prefix p
            \<and> length (pd_events p) \<le> opt_max_buffer_size (rt_options rt)
            \<and> pd_delivery_id p < rt_next_delivery_id rt \<and> rt_buffered_events rt = [])
     \<and> (case rt_idempotency_guard rt of None \<Rightarrow> True | Some g \<Rightarrow> guard_inv g)"

lemma runtime_new_inv:
  assumes "runtime_new tls cfg c w = Inr rt" and "opt_max_buffer_size (cfg_options cfg) \<le> u64_max"
  shows "runtime_inv env rt"
proof -
  have "0 < opt_max_buffer_size (cfg_options cfg)"
    using assms(1) by (auto simp: runtime_new_def runtime_validate_def Let_def split: if_splits sum.splits)
  moreover have "build_idempotency_guard (cfg_options cfg) = Inr (Some g) \<Longrightarrow> guard_inv g" for g
    by (auto simp: build_idempotency_guard_def guard_new_def guard_with_ttl_ms_def guard_inv_def
        split: option.splits sum.splits if_splits)
  ultimately show ?thesis
    using assms by (auto simp: runtime_new_def runtime_inv_def in_flight_def barrier_new_def barrier_inv_def
        accepted_prefix_def accepted_of_def split: sum.splits option.splits)
qed

lemma in_flight_length:
  "runtime_inv env rt \<Longrightarrow> length (in_flight rt) = pending_remaining rt"
  by (auto simp: in_flight_def pending_remaining_def split: option.split)

lemma no_accepted: "accepted_of b = [] \<Longrightarrow> unaccepted_of b = pending_records b"
  using pending_split [of b] by simp

text \<open>What a commit does to the barrier and the store, for the calls the runtime makes.\<close>

lemma runtime_accept_eq:
  assumes "runtime_inv env rt" and "0 < n" and "n \<le> length (in_flight rt)"
  defines "b \<equiv> rt_commit_barrier rt"
  defines "t \<equiv> wrap_add64 (committed_event_count b) n"
  shows "accept_and_commit save n b c =
     (case last_persistable (map rec_offset (take n (pending_records b))) of
        None \<Rightarrow> (drain_committed n t b, c, Inr ())
      | Some off \<Rightarrow>
          (case save off t c of
             (c', Inl e) \<Rightarrow> (b, c', Inl e)
           | (c', Inr _) \<Rightarrow> (drain_committed n t b, c', Inr ())))"
proof -
  have inv: "barrier_inv b" and a: "accepted_of b = []"
    and l: "length (pending_records b) = length (in_flight rt) + length (rt_buffered_events rt)"
    and m: "max_buffer_size b \<le> u64_max"
    using assms(1) by (auto simp: runtime_inv_def b_def dest: list_all2_lengthD)
  have "length (pending_records b) \<le> max_buffer_size b" using inv by (simp add: barrier_inv_def)
  with l m assms(3) have n: "n \<le> length (unaccepted_of b)" "n \<le> u64_max"
    by (auto simp: no_accepted [OF a])
  have k: "length (accepted_of b) + n = n" using a by simp
  from accept_and_commit_eq [OF inv assms(2) n, of save c] show ?thesis
    unfolding k t_def [symmetric] .
qed

lemma persist_snapshot_frame:
  assumes "persist_snapshot_checkpoint_before_commit env n rt = (rt1, r)"
  obtains w c where "rt1 = rt\<lparr>rt_world := w, rt_checkpoint := c\<rparr>"
proof (cases "pending_prefix_contains_snapshot_events n rt \<and> rt_snapshot rt \<noteq> None")
  case True
  then obtain h where h: "rt_snapshot rt = Some h" by blast
  with True assms show ?thesis
    by (auto simp: persist_snapshot_checkpoint_before_commit_def split: prod.splits intro: that)
next
  case False
  then have "rt1 = rt"
    using assms by (auto simp: persist_snapshot_checkpoint_before_commit_def split: if_splits option.splits)
  then have "rt1 = rt\<lparr>rt_world := rt_world rt, rt_checkpoint := rt_checkpoint rt\<rparr>" by simp
  then show ?thesis by (rule that)
qed

lemma confirm_frame:
  assumes "confirm_committed env lsn rt = (rt1, f)"
  obtains w l p where "rt1 = rt\<lparr>rt_world := w, rt_pending_confirmation_lsn := l, rt_unconfirmed_stall_polls := p\<rparr>"
proof (cases "lsn = None \<or> rt_stream rt = None")
  case True
  then have "rt1 = rt" using assms by (auto simp: confirm_committed_def split: option.splits)
  then have "rt1 = rt\<lparr>rt_world := rt_world rt, rt_pending_confirmation_lsn := rt_pending_confirmation_lsn rt,
      rt_unconfirmed_stall_polls := rt_unconfirmed_stall_polls rt\<rparr>" by simp
  then show ?thesis by (rule that)
next
  case False
  then obtain l h where l: "lsn = Some l" "rt_stream rt = Some h" by auto
  obtain w' r where c: "env_confirm_lsn env h l (rt_world rt) = (w', r)" by force
  show ?thesis
  proof (cases r)
    case (Inl e)
    with assms l c have "rt1 = rt\<lparr>rt_world := w', rt_pending_confirmation_lsn := Some l,
        rt_unconfirmed_stall_polls := rt_unconfirmed_stall_polls rt\<rparr>"
      by (auto simp: confirm_committed_def)
    then show ?thesis by (rule that)
  next
    case (Inr u)
    with assms l c show ?thesis by (auto simp: confirm_committed_def intro: that)
  qed
qed

lemma drain_records: "pending_records (drain_committed n t b) = drop n (pending_records b)"
  by (simp add: drain_committed_def Let_def)

text \<open>The state after a durable commit, up to the world, the store and the confirmation fields.\<close>

lemma settle_in_flight:
  "in_flight (settle_commit env n rt) = drop n (in_flight rt)"
  by (auto simp: settle_commit_def in_flight_def add.commute split: prod.split option.split)

lemma settle_inv:
  assumes inv: "runtime_inv env rt" and n: "0 < n" "n \<le> length (in_flight rt)"
    and rt1: "rt1 = rt\<lparr>rt_commit_barrier := drain_committed n t (rt_commit_barrier rt), rt_checkpoint := c,
      rt_world := w, rt_pending_confirmation_lsn := l, rt_unconfirmed_stall_polls := p\<rparr>"
  shows "runtime_inv env (settle_commit env n rt1)"
proof -
  let ?b = "rt_commit_barrier rt" and ?rt2 = "settle_commit env n rt1"
  obtain w' now where now: "env_now env w = (w', now)" by force
  have binv: "barrier_inv ?b" and a: "accepted_of ?b = []" using inv by (auto simp: runtime_inv_def)
  have d: "barrier_inv (drain_committed n t ?b)" "accepted_of (drain_committed n t ?b) = []"
    using drain_committed_inv [OF binv, of n t] a by auto
  have f: "in_flight ?rt2 = drop n (in_flight rt)"
    unfolding settle_in_flight by (simp add: rt1 in_flight_def)
  have fields: "rt_config ?rt2 = rt_config rt" "rt_buffered_events ?rt2 = rt_buffered_events rt"
    "rt_commit_barrier ?rt2 = drain_committed n t ?b" "rt_idempotency_guard ?rt2 = rt_idempotency_guard rt"
    "rt_delivered_not_committed ?rt2 = rt_delivered_not_committed rt - n"
    "rt_next_delivery_id ?rt2 = rt_next_delivery_id rt"
    by (simp_all add: settle_commit_def now rt1)
  have m: "max_buffer_size (drain_committed n t ?b) = max_buffer_size ?b"
    by (simp add: drain_committed_def Let_def)
  have r: "list_all2 (record_for env (rt_config rt)) (in_flight ?rt2 @ rt_buffered_events rt)
      (pending_records (drain_committed n t ?b))"
  proof -
    have "list_all2 (record_for env (rt_config rt)) (drop n (in_flight rt @ rt_buffered_events rt))
        (drop n (pending_records ?b))"
      using inv by (intro list_all2_dropI) (simp add: runtime_inv_def)
    then show ?thesis using n by (simp add: f drain_records)
  qed
  have pd: "case rt_pending_delivery ?rt2 of None \<Rightarrow> True
      | Some q \<Rightarrow> pd_committed_prefix q < length (pd_events q) \<and> pd_ack_epoch q \<le> pd_committed_prefix q
          \<and> length (pd_events q) \<le> opt_max_buffer_size (rt_options rt)
          \<and> pd_delivery_id q < rt_next_delivery_id rt \<and> rt_buffered_events rt = []"
  proof (cases "rt_pending_delivery rt")
    case None
    with n show ?thesis by (simp add: in_flight_def)
  next
    case (Some q)
    have "sat_add64 (pd_ack_epoch q) 1 \<le> pd_committed_prefix q + n" if "pd_ack_epoch q \<le> pd_committed_prefix q"
      using that n(1) by (simp add: sat_add64_def)
    with Some inv show ?thesis by (auto simp: settle_commit_def now rt1 runtime_inv_def)
  qed
  show ?thesis
    unfolding runtime_inv_def fields m
    using inv d r pd f by (auto simp: runtime_inv_def)
qed

lemma commit_prefix_outcome:
  assumes inv: "runtime_inv env rt" and n: "0 < n" "n \<le> length (in_flight rt)"
    and c: "commit_prefix env n rt = (rt', r)"
  obtains (failed) w cp e where "rt' = rt\<lparr>rt_world := w, rt_checkpoint := cp\<rparr>" and "r = Inl e"
  | (committed) w1 cp1 w2 cp2 l p where
      "persist_snapshot_checkpoint_before_commit env n rt = (rt\<lparr>rt_world := w1, rt_checkpoint := cp1\<rparr>, Inr ())"
      and "accept_and_commit (env_save env) n (rt_commit_barrier rt) cp1
        = (drain_committed n (wrap_add64 (committed_event_count (rt_commit_barrier rt)) n) (rt_commit_barrier rt), cp2, Inr ())"
      and "rt' = settle_commit env n (rt\<lparr>rt_commit_barrier :=
          drain_committed n (wrap_add64 (committed_event_count (rt_commit_barrier rt)) n) (rt_commit_barrier rt),
          rt_checkpoint := cp2, rt_world := w2, rt_pending_confirmation_lsn := l, rt_unconfirmed_stall_polls := p\<rparr>)"
      and "r = Inr () \<or> r = Inl (PostCommitConfirmFailed True ''stream confirm_lsn'')"
proof -
  let ?b = "rt_commit_barrier rt"
  let ?t = "wrap_add64 (committed_event_count ?b) n"
  have guard: "\<not> (n > rt_delivered_not_committed rt \<or> n > pending_remaining rt)"
    using inv n(2) in_flight_length [OF inv] by (auto simp: runtime_inv_def)
  obtain rt1 r1 where p: "persist_snapshot_checkpoint_before_commit env n rt = (rt1, r1)" by force
  obtain w1 cp1 where rt1: "rt1 = rt\<lparr>rt_world := w1, rt_checkpoint := cp1\<rparr>"
    using persist_snapshot_frame [OF p] by metis
  show thesis
  proof (cases r1)
    case (Inl e)
    with c guard n(1) p rt1 show ?thesis by (auto simp: commit_prefix_def intro: failed)
  next
    case (Inr u)
    show ?thesis
    proof (cases "committed_confirmation_lsn env n rt1")
      case (Inl e)
      with c guard n(1) p Inr rt1 show ?thesis by (auto simp: commit_prefix_def intro: failed)
    next
      case lsn: (Inr lsn)
      obtain b cp2 r2 where acc: "accept_and_commit (env_save env) n ?b cp1 = (b, cp2, r2)"
        by (cases "accept_and_commit (env_save env) n ?b cp1") auto
      note eq = runtime_accept_eq [OF inv n, of "env_save env" cp1]
      show ?thesis
      proof (cases r2)
        case (Inl e)
        with acc have "b = ?b" unfolding eq by (auto split: option.splits prod.splits sum.splits)
        with c guard n(1) p Inr lsn acc Inl rt1 have
          "rt' = rt\<lparr>rt_world := w1, rt_checkpoint := cp2\<rparr>" "r = Inl e"
          by (auto simp: commit_prefix_def)
        then show ?thesis by (rule failed)
      next
        case r2: (Inr u2)
        with acc have b: "b = drain_committed n ?t ?b"
          unfolding eq by (auto split: option.splits prod.splits sum.splits)
        let ?rt1 = "rt1\<lparr>rt_commit_barrier := b, rt_checkpoint := cp2\<rparr>"
        obtain rt2 f where cf: "confirm_committed env lsn ?rt1 = (rt2, f)" by force
        obtain w2 l q where rt2: "rt2 = ?rt1\<lparr>rt_world := w2, rt_pending_confirmation_lsn := l,
            rt_unconfirmed_stall_polls := q\<rparr>"
          using confirm_frame [OF cf] by metis
        have "rt1 = rt\<lparr>rt_world := w1, rt_checkpoint := cp1\<rparr>" by (rule rt1)
        then have acc1: "accept_and_commit (env_save env) n (rt_commit_barrier rt1) (rt_checkpoint rt1) = (b, cp2, Inr ())"
          using acc r2 by simp
        have out: "commit_prefix env n rt = (settle_commit env n rt2,
            if f \<noteq> None \<and> opt_post_commit_source_confirm_policy (rt_options rt2) = FailFast
            then Inl (PostCommitConfirmFailed True ''stream confirm_lsn'') else Inr ())"
          using guard n(1) p Inr lsn acc1 cf by (simp add: commit_prefix_def)
        have 1: "persist_snapshot_checkpoint_before_commit env n rt = (rt\<lparr>rt_world := w1, rt_checkpoint := cp1\<rparr>, Inr ())"
            using p Inr rt1 by simp
        have 2: "accept_and_commit (env_save env) n ?b cp1 = (drain_committed n ?t ?b, cp2, Inr ())"
            using acc r2 b by simp
        have 3: "rt' = settle_commit env n (rt\<lparr>rt_commit_barrier := drain_committed n ?t ?b,
              rt_checkpoint := cp2, rt_world := w2, rt_pending_confirmation_lsn := l, rt_unconfirmed_stall_polls := q\<rparr>)"
            using out c rt2 rt1 b by simp
        have 4: "r = Inr () \<or> r = Inl (PostCommitConfirmFailed True ''stream confirm_lsn'')"
            using out c by (auto split: if_splits)
        show ?thesis by (rule committed [OF 1 2 3 4])
      qed
    qed
  qed
qed

end
