(* ===== verification/Runtime_Poll.thy ===== *)
theory Runtime_Poll
  imports Runtime_Commit
begin

text \<open>
  Polling (\<open>core/runtime/runtime_poll.rs\<close>): redelivery, the queues, schema-change recording,
  duplicate suppression, transforms, the cut of a batch on count, bytes and transaction boundaries,
  delivery, and the stream poll with its reconnects.

  A poll that does not return is \<open>None\<close>: the reconnect loop without a retry bound may run for ever,
  and so may the guard's eviction loop outside its invariant. Dropping a poll future before it
  completes is outside the model.
\<close>

section \<open>Delivery\<close>

definition current_pending_batch :: "('w, 'c) cdc_runtime \<Rightarrow> event_batch option" where
  "current_pending_batch rt =
     (case rt_pending_delivery rt of
        None \<Rightarrow> None
      | Some p \<Rightarrow>
          Some \<lparr>eb_events = pd_events p, eb_offset = pd_committed_prefix p,
                eb_ack_token = Some \<lparr>tok_delivery_id = pd_delivery_id p,
                  tok_event_count = length (pd_events p) - pd_committed_prefix p, tok_epoch = pd_ack_epoch p\<rparr>\<rparr>)"

definition normalize_source_timestamp_ms :: "nat \<Rightarrow> nat" where
  "normalize_source_timestamp_ms raw =
     (if raw \<le> 4102444800 then sat_mul64 raw 1000
      else if raw \<ge> 10000000000000 then raw div 1000
      else raw)"

definition latest_source_ts :: "event list \<Rightarrow> nat" where
  "latest_source_ts es = fold max (map (\<lambda>e. normalize_source_timestamp_ms (source_timestamp (ev_source e))) es) 0"

definition deliver_buffered_batch ::
    "('w, 'c) runtime_env \<Rightarrow> ('w, 'c) cdc_runtime \<Rightarrow> ('w, 'c) cdc_runtime \<times> event_batch" where
  "deliver_buffered_batch env rt =
     (let cap = opt_max_buffer_size (rt_options rt); events = take cap (rt_buffered_events rt)
      in if events = [] then (rt, batch_empty)
         else case env_now env (rt_world rt) of
                (w', now) \<Rightarrow>
                  (rt\<lparr>rt_buffered_events := drop cap (rt_buffered_events rt),
                      rt_total_events_polled := sat_add64 (rt_total_events_polled rt) (length events),
                      rt_last_poll_at_ms := Some now,
                      rt_last_source_event_ts_ms :=
                        Some (case rt_last_source_event_ts_ms rt of
                                None \<Rightarrow> latest_source_ts events
                              | Some previous \<Rightarrow> max previous (latest_source_ts events)),
                      rt_next_delivery_id := sat_add64 (rt_next_delivery_id rt) 1,
                      rt_delivered_not_committed := sat_add64 (rt_delivered_not_committed rt) (length events),
                      rt_pending_delivery :=
                        Some \<lparr>pd_delivery_id = rt_next_delivery_id rt, pd_events = events,
                              pd_committed_prefix = 0, pd_ack_epoch = 0\<rparr>,
                      rt_world := w'\<rparr>,
                   \<lparr>eb_events = events, eb_offset = 0,
                    eb_ack_token = Some \<lparr>tok_delivery_id = rt_next_delivery_id rt,
                      tok_event_count = length events, tok_epoch = 0\<rparr>\<rparr>))"

section \<open>From the queue to the barrier\<close>

definition payload_len :: "('w, 'c) runtime_env \<Rightarrow> json option \<Rightarrow> nat" where
  "payload_len env v =
     (case v of
        None \<Rightarrow> 0
      | Some JNull \<Rightarrow> 4
      | Some (JBool _) \<Rightarrow> 5
      | Some (JString s) \<Rightarrow> length s + 2
      | Some other \<Rightarrow> env_json_len env other)"

definition estimate_event_bytes :: "('w, 'c) runtime_env \<Rightarrow> event \<Rightarrow> nat" where
  "estimate_event_bytes env e =
     payload_len env (ev_before e) + payload_len env (ev_after e) + length (ev_table e)
     + (case ev_schema e of None \<Rightarrow> 0 | Some s \<Rightarrow> length s)
     + length (source_name (ev_source e)) + length (source_offset (ev_source e))
     + (case ev_primary_key e of None \<Rightarrow> 0 | Some keys \<Rightarrow> sum_list (map length keys))
     + 128"

text \<open>The cutting loop: events popped from the queue until the count or the byte budget is used up.\<close>

fun cut_chunk ::
    "(event \<Rightarrow> nat) \<Rightarrow> nat option \<Rightarrow> nat \<Rightarrow> event list \<Rightarrow> nat \<Rightarrow> event list \<Rightarrow> event list \<times> event list" where
  "cut_chunk sz limit available chunk bytes [] = (chunk, [])"
| "cut_chunk sz limit available chunk bytes (e # q) =
     (if length chunk \<ge> available then (chunk, e # q)
      else case limit of
             None \<Rightarrow> cut_chunk sz limit available (chunk @ [e]) bytes q
           | Some l \<Rightarrow>
               if chunk \<noteq> [] \<and> sat_add64 bytes (sz e) > l then (chunk, e # q)
               else cut_chunk sz limit available (chunk @ [e]) (sat_add64 bytes (sz e)) q)"

definition event_tx_id :: "event \<Rightarrow> nat option" where
  "event_tx_id e = map_option tx_id (ev_transaction e)"

definition transaction_declared_complete :: "event \<Rightarrow> bool" where
  "transaction_declared_complete e =
     (case ev_transaction e of
        None \<Rightarrow> False
      | Some tx \<Rightarrow> (case total_events tx of None \<Rightarrow> False | Some n \<Rightarrow> sat_add64 (event_index tx) 1 \<ge> n))"

definition trim_to_transaction_boundary ::
    "runtime_options \<Rightarrow> event list \<Rightarrow> event list \<Rightarrow> event list \<times> event list" where
  "trim_to_transaction_boundary opts chunk queue =
     (if opt_transaction_boundary opts \<noteq> PreserveTransactions \<or> chunk = [] then (chunk, queue)
      else case event_tx_id (last chunk) of
             None \<Rightarrow> (chunk, queue)
           | Some last_tx \<Rightarrow>
               if transaction_declared_complete (last chunk) then (chunk, queue)
               else if list_ex (\<lambda>e. event_tx_id e \<noteq> Some last_tx) queue then (chunk, queue)
               else
                 let tail = rev (takeWhile (\<lambda>e. event_tx_id e = Some last_tx) (rev chunk));
                     head = take (length chunk - length tail) chunk
                 in if head \<noteq> [] then (head, tail @ queue)
                    else if length chunk \<ge> opt_max_buffer_size opts then (chunk, queue)
                    else ([], tail @ queue))"

text \<open>The position a record carries: none for a row of a bulk snapshot.\<close>

definition event_position ::
    "('w, 'c) runtime_env \<Rightarrow> ('w, 'c) cdc_runtime \<Rightarrow> event \<Rightarrow> offset option result" where
  "event_position env rt e =
     (if ev_snapshot e \<noteq> None
      then Inr (if rt_snapshot rt = None
                then Option.bind (rt_stream rt) (\<lambda>h. env_position_offset env h (rt_world rt))
                else None)
      else (case build_checkpoint_offset env rt e of Inl err \<Rightarrow> Inl err | Inr off \<Rightarrow> Inr (Some off)))"

definition stage_event ::
    "('w, 'c) runtime_env \<Rightarrow> event \<Rightarrow> ('w, 'c) cdc_runtime \<Rightarrow> ('w, 'c) cdc_runtime \<times> unit result" where
  "stage_event env e rt =
     (case (if opt_validate_events (rt_options rt) then validate_or_error e else Inr ()) of
        Inl err \<Rightarrow> (rt, Inl err)
      | Inr _ \<Rightarrow>
          (case event_position env rt e of
             Inl err \<Rightarrow> (rt, Inl err)
           | Inr off \<Rightarrow>
               (case push_record off (rt_commit_barrier rt) of
                  (b, Inl err) \<Rightarrow> (rt\<lparr>rt_commit_barrier := b\<rparr>, Inl err)
                | (b, Inr _) \<Rightarrow>
                    (rt\<lparr>rt_commit_barrier := b, rt_buffered_events := rt_buffered_events rt @ [e]\<rparr>, Inr ()))))"

fun stage_events ::
    "('w, 'c) runtime_env \<Rightarrow> event list \<Rightarrow> ('w, 'c) cdc_runtime \<Rightarrow> ('w, 'c) cdc_runtime \<times> unit result" where
  "stage_events env [] rt = (rt, Inr ())"
| "stage_events env (e # es) rt =
     (case stage_event env e rt of
        (rt', Inl err) \<Rightarrow> (rt', Inl err)
      | (rt', Inr _) \<Rightarrow> stage_events env es rt')"

definition buffer_and_deliver ::
    "('w, 'c) runtime_env \<Rightarrow> event list \<Rightarrow> ('w, 'c) cdc_runtime \<Rightarrow> ('w, 'c) cdc_runtime \<times> event_batch result" where
  "buffer_and_deliver env es rt =
     (case stage_events env es rt of
        (rt', Inl err) \<Rightarrow> (rt', Inl err)
      | (rt', Inr _) \<Rightarrow> (case deliver_buffered_batch env rt' of (rt'', b) \<Rightarrow> (rt'', Inr b)))"

definition flush_pending_source_events ::
    "('w, 'c) runtime_env \<Rightarrow> ('w, 'c) cdc_runtime \<Rightarrow> ('w, 'c) cdc_runtime \<times> event_batch result" where
  "flush_pending_source_events env rt =
     (if rt_pending_source_events rt = [] then (rt, Inr batch_empty)
      else
        let available = opt_max_buffer_size (rt_options rt) - pending_count (rt_commit_barrier rt)
        in if available = 0
           then (rt, Inl (Backpressure ''runtime commit barrier is full''))
           else
             case cut_chunk (estimate_event_bytes env) (opt_max_event_bytes (rt_options rt)) available [] 0
                    (rt_pending_source_events rt) of
               (chunk0, rest) \<Rightarrow>
                 (case trim_to_transaction_boundary (rt_options rt) chunk0 rest of
                    (chunk, queue) \<Rightarrow>
                      buffer_and_deliver env chunk (rt\<lparr>rt_pending_source_events := queue\<rparr>)))"

section \<open>From the source to the queue\<close>

definition record_schema_change ::
    "('w, 'c) runtime_env \<Rightarrow> nat option \<Rightarrow> event \<Rightarrow> 'w \<Rightarrow> 'w \<times> unit result" where
  "record_schema_change env retention e w =
     (case Option.bind (Option.bind (ev_after e) (from_event_payload (env_ddl_codec env))) to_schema_event of
        None \<Rightarrow> (w, Inr ())
      | Some d \<Rightarrow>
          (case env_record_ddl env (source_offset (ev_source e)) d w of
             (w1, Inl (SchemaError _)) \<Rightarrow> (w1, Inr ())
           | (w1, Inl err) \<Rightarrow> (w1, Inl err)
           | (w1, Inr _) \<Rightarrow>
               (case retention of
                  None \<Rightarrow> (w1, Inr ())
                | Some m \<Rightarrow>
                    (case env_apply_retention env m w1 of
                       (w2, Inl err) \<Rightarrow> (w2, Inl err)
                     | (w2, Inr _) \<Rightarrow> (w2, Inr ())))))"

fun record_schema_change_events ::
    "('w, 'c) runtime_env \<Rightarrow> nat option \<Rightarrow> event list \<Rightarrow> 'w \<Rightarrow> 'w \<times> unit result" where
  "record_schema_change_events env retention [] w = (w, Inr ())"
| "record_schema_change_events env retention (e # es) w =
     (if ev_op e \<noteq> SchemaChange then record_schema_change_events env retention es w
      else case record_schema_change env retention e w of
             (w', Inl err) \<Rightarrow> (w', Inl err)
           | (w', Inr _) \<Rightarrow> record_schema_change_events env retention es w')"

definition UNCONFIRMED_STALL_POLL_LIMIT :: nat where
  "UNCONFIRMED_STALL_POLL_LIMIT = 3"

fun dedup_loop ::
    "('w, 'c) runtime_env \<Rightarrow> event list \<Rightarrow> idempotency_guard \<Rightarrow> nat \<Rightarrow> 'w \<Rightarrow> event list
     \<Rightarrow> (idempotency_guard \<times> nat \<times> 'w \<times> event list result) option" where
  "dedup_loop env [] g dups w out = Some (g, dups, w, Inr out)"
| "dedup_loop env (e # es) g dups w out =
     (case env_now env w of
        (w', now) \<Rightarrow>
          (case should_process (env_ahash env) now e g of
             None \<Rightarrow> None
           | Some (g', Inl err) \<Rightarrow> Some (g', dups, w', Inl err)
           | Some (g', Inr True) \<Rightarrow> dedup_loop env es g' dups w' (out @ [e])
           | Some (g', Inr False) \<Rightarrow> dedup_loop env es g' (sat_add64 dups 1) w' out))"

definition filter_idempotent_events ::
    "('w, 'c) runtime_env \<Rightarrow> event list \<Rightarrow> ('w, 'c) cdc_runtime \<Rightarrow> (('w, 'c) cdc_runtime \<times> event list result) option" where
  "filter_idempotent_events env es rt =
     (case rt_idempotency_guard rt of
        None \<Rightarrow> Some (rt, Inr es)
      | Some g \<Rightarrow>
          (case dedup_loop env es g (rt_total_events_deduplicated rt) (rt_world rt) [] of
             None \<Rightarrow> None
           | Some (g', dups, w', Inl err) \<Rightarrow>
               Some (rt\<lparr>rt_idempotency_guard := Some g', rt_total_events_deduplicated := dups, rt_world := w'\<rparr>, Inl err)
           | Some (g', dups, w', Inr out) \<Rightarrow>
               (let rt' = rt\<lparr>rt_idempotency_guard := Some g', rt_total_events_deduplicated := dups, rt_world := w'\<rparr>
                in if es \<noteq> [] \<and> out = [] \<and> rt_pending_confirmation_lsn rt \<noteq> None
                   then (let polls = min u32_max (rt_unconfirmed_stall_polls rt + 1);
                             rt'' = rt'\<lparr>rt_unconfirmed_stall_polls := polls\<rparr>
                         in if polls \<ge> UNCONFIRMED_STALL_POLL_LIMIT
                            then Some (rt'', Inl (Unrecoverable ''runtime is not making progress''))
                            else Some (rt'', Inr out))
                   else if out \<noteq> [] then Some (rt'\<lparr>rt_unconfirmed_stall_polls := 0\<rparr>, Inr out)
                   else Some (rt', Inr out))))"

fun skip_loop ::
    "('w, 'c) runtime_env \<Rightarrow> bool \<Rightarrow> 'w transform_pipeline \<Rightarrow> event list \<Rightarrow> nat \<Rightarrow> 'w \<Rightarrow> event list \<Rightarrow> nat \<times> 'w \<times> event list" where
  "skip_loop env dlq p [] skipped w out = (skipped, w, out)"
| "skip_loop env dlq p (e # es) skipped w out =
     (case apply_one p e w of
        (w', Inr (Some e')) \<Rightarrow> skip_loop env dlq p es skipped w' (out @ [e'])
      | (w', Inr None) \<Rightarrow> skip_loop env dlq p es skipped w' out
      | (w', Inl err) \<Rightarrow>
          skip_loop env dlq p es (sat_add64 skipped 1) (if dlq then env_dead_letter env e err w' else w') out)"

definition apply_transforms ::
    "('w, 'c) runtime_env \<Rightarrow> event list \<Rightarrow> ('w, 'c) cdc_runtime \<Rightarrow> ('w, 'c) cdc_runtime \<times> event list result" where
  "apply_transforms env es rt =
     (if rt_transform_pipeline rt = [] \<or> es = [] then (rt, Inr es)
      else if opt_transform_error_policy (rt_options rt) = Halt
      then (case apply_batch (rt_transform_pipeline rt) es (rt_world rt) of
              (w', out, Inr _) \<Rightarrow> (rt\<lparr>rt_world := w'\<rparr>, Inr out)
            | (w', out, Inl err) \<Rightarrow> (rt\<lparr>rt_world := w'\<rparr>, Inl err))
      else (case skip_loop env (opt_dead_letter_handler (rt_options rt)) (rt_transform_pipeline rt) es
                   (rt_total_events_skipped rt) (rt_world rt) [] of
              (skipped, w', out) \<Rightarrow> (rt\<lparr>rt_total_events_skipped := skipped, rt_world := w'\<rparr>, Inr out)))"

text \<open>The three ingestion sites share this sequence: record schema changes, deduplicate, transform, queue, flush.\<close>

definition prepare_events ::
    "('w, 'c) runtime_env \<Rightarrow> event list \<Rightarrow> ('w, 'c) cdc_runtime \<Rightarrow> (('w, 'c) cdc_runtime \<times> event list result) option" where
  "prepare_events env chunk rt =
     (case record_schema_change_events env (opt_schema_history_retention (rt_options rt)) chunk (rt_world rt) of
        (w', Inl err) \<Rightarrow> Some (rt\<lparr>rt_world := w'\<rparr>, Inl err)
      | (w', Inr _) \<Rightarrow>
          (case filter_idempotent_events env chunk (rt\<lparr>rt_world := w'\<rparr>) of
             None \<Rightarrow> None
           | Some (rt1, Inl err) \<Rightarrow> Some (rt1, Inl err)
           | Some (rt1, Inr es) \<Rightarrow> Some (apply_transforms env es rt1)))"

definition ingest ::
    "('w, 'c) runtime_env \<Rightarrow> event list \<Rightarrow> ('w, 'c) cdc_runtime \<Rightarrow> (('w, 'c) cdc_runtime \<times> event_batch result) option" where
  "ingest env chunk rt =
     (case prepare_events env chunk rt of
        None \<Rightarrow> None
      | Some (rt1, Inl err) \<Rightarrow> Some (rt1, Inl err)
      | Some (rt1, Inr es) \<Rightarrow>
          Some (flush_pending_source_events env (rt1\<lparr>rt_pending_source_events := rt_pending_source_events rt1 @ es\<rparr>)))"

section \<open>The stream poll and its reconnects\<close>

definition resume_stream_after_reconnect ::
    "('w, 'c) runtime_env \<Rightarrow> offset option \<Rightarrow> ('w, 'c) cdc_runtime \<Rightarrow> 'w \<times> handle result" where
  "resume_stream_after_reconnect env off rt =
     (case cfg_incremental_snapshot (rt_config rt) of
        Some cfg \<Rightarrow> source_start_incremental_snapshot env (rt_source rt) cfg off (rt_world rt)
      | None \<Rightarrow> source_start_stream env (rt_source rt) off (rt_world rt))"

definition exhausted :: "connection_retry_policy \<Rightarrow> nat \<Rightarrow> bool" where
  "exhausted p attempt = (case max_retries p of None \<Rightarrow> False | Some m \<Rightarrow> attempt \<ge> m)"

definition next_delay :: "connection_retry_policy \<Rightarrow> nat \<Rightarrow> nat" where
  "next_delay p delay = min (sat_mul64 delay 2) (max_delay_ms p)"

datatype 'r phase = Proceed 'r | Return 'r error | Again 'r

text \<open>The arm at the top of the loop, for an iteration that starts without a stream.\<close>

definition reconnect_arm ::
    "('w, 'c) runtime_env \<Rightarrow> connection_retry_policy \<Rightarrow> nat \<Rightarrow> nat \<Rightarrow> ('w, 'c) cdc_runtime \<Rightarrow> ('w, 'c) cdc_runtime phase" where
  "reconnect_arm env p attempt delay rt =
     (case source_connect env (rt_source rt) (source_close env (rt_source rt) (rt_world rt)) of
        (w1, Inl e) \<Rightarrow>
          if exhausted p attempt
          then Return (rt\<lparr>rt_world := w1\<rparr>)
                 (Context ''resuming the stream after a source disconnect''
                   (Unrecoverable ''connection retries exhausted''))
          else Again (rt\<lparr>rt_world := env_sleep env delay w1\<rparr>)
      | (w1, Inr _) \<Rightarrow>
          (case env_load env (rt_checkpoint rt) of
             Inl e \<Rightarrow>
               Return (rt\<lparr>rt_world := w1\<rparr>)
                 (CheckpointError ''failed loading checkpoint while resuming the stream after reconnect'')
           | Inr off \<Rightarrow>
               (case resume_stream_after_reconnect env off (rt\<lparr>rt_world := w1\<rparr>) of
                  (w2, Inr h) \<Rightarrow> Proceed (rt\<lparr>rt_world := w2, rt_stream := Some h\<rparr>)
                | (w2, Inl e) \<Rightarrow>
                    if exhausted p attempt
                    then Return (rt\<lparr>rt_world := w2\<rparr>)
                           (Context ''restarting the stream after a recoverable source error''
                             (Unrecoverable ''stream restart retries exhausted''))
                    else Again (rt\<lparr>rt_world := env_sleep env delay w2\<rparr>))))"

text \<open>The arm for a recoverable poll error with attempts left.\<close>

definition retry_arm ::
    "('w, 'c) runtime_env \<Rightarrow> nat \<Rightarrow> ('w, 'c) cdc_runtime \<Rightarrow> ('w, 'c) cdc_runtime phase" where
  "retry_arm env delay rt =
     (let rt1 = rt\<lparr>rt_stream := None, rt_world := source_close env (rt_source rt) (env_sleep env delay (rt_world rt))\<rparr>
      in case source_connect env (rt_source rt1) (rt_world rt1) of
           (w1, Inl e) \<Rightarrow> Again (rt1\<lparr>rt_world := w1\<rparr>)
         | (w1, Inr _) \<Rightarrow>
             (case env_load env (rt_checkpoint rt1) of
                Inl e \<Rightarrow>
                  Return (rt1\<lparr>rt_world := w1\<rparr>)
                    (CheckpointError ''failed loading checkpoint while resuming the stream after a recoverable source error'')
              | Inr off \<Rightarrow>
                  (case resume_stream_after_reconnect env off (rt1\<lparr>rt_world := w1\<rparr>) of
                     (w2, Inr h) \<Rightarrow> Again (rt1\<lparr>rt_world := w2, rt_stream := Some h\<rparr>)
                   | (w2, Inl e) \<Rightarrow> Again (rt1\<lparr>rt_world := w2\<rparr>))))"

definition poll_arm ::
    "('w, 'c) runtime_env \<Rightarrow> connection_retry_policy \<Rightarrow> nat \<Rightarrow> nat \<Rightarrow> ('w, 'c) cdc_runtime
     \<Rightarrow> (('w, 'c) cdc_runtime \<times> event list result) + ('w, 'c) cdc_runtime" where
  "poll_arm env p attempt delay rt =
     (case rt_stream rt of
        None \<Rightarrow> Inl (rt, Inl (SourceError ''poll loop entered with no active stream''))
      | Some h \<Rightarrow>
          (case env_next_events env h (opt_max_poll_wait_ms (rt_options rt)) (rt_world rt) of
             (w', Inr es) \<Rightarrow> Inl (rt\<lparr>rt_world := w'\<rparr>, Inr es)
           | (w', Inl e) \<Rightarrow>
               if \<not> is_recoverable e \<or> exhausted p attempt then Inl (rt\<lparr>rt_world := w'\<rparr>, Inl e)
               else (case retry_arm env delay (rt\<lparr>rt_world := w'\<rparr>) of
                       Proceed rt' \<Rightarrow> Inr rt'
                     | Again rt' \<Rightarrow> Inr rt'
                     | Return rt' err \<Rightarrow> Inl (rt', Inl err))))"

text \<open>One iteration: finished with a result, or the state of the next iteration.\<close>

definition stream_poll_iteration ::
    "('w, 'c) runtime_env \<Rightarrow> connection_retry_policy \<Rightarrow> nat \<Rightarrow> nat \<Rightarrow> ('w, 'c) cdc_runtime
     \<Rightarrow> (('w, 'c) cdc_runtime \<times> event list result) + ('w, 'c) cdc_runtime" where
  "stream_poll_iteration env p attempt delay rt =
     (if rt_stream rt = None
      then (case reconnect_arm env p attempt delay rt of
              Proceed rt' \<Rightarrow> poll_arm env p attempt delay rt'
            | Return rt' err \<Rightarrow> Inl (rt', Inl err)
            | Again rt' \<Rightarrow> Inr rt')
      else poll_arm env p attempt delay rt)"

partial_function (option) stream_poll_loop ::
    "('w, 'c) runtime_env \<Rightarrow> connection_retry_policy \<Rightarrow> nat \<Rightarrow> nat \<Rightarrow> ('w, 'c) cdc_runtime
     \<Rightarrow> (('w, 'c) cdc_runtime \<times> event list result) option" where
  "stream_poll_loop env p attempt delay rt =
     (case stream_poll_iteration env p attempt delay rt of
        Inl r \<Rightarrow> Some r
      | Inr rt' \<Rightarrow> stream_poll_loop env p (min u32_max (attempt + 1)) (next_delay p delay) rt')"

definition poll_stream ::
    "('w, 'c) runtime_env \<Rightarrow> ('w, 'c) cdc_runtime \<Rightarrow> (('w, 'c) cdc_runtime \<times> event_batch result) option" where
  "poll_stream env rt =
     (case rt_stream rt of
        None \<Rightarrow> Some (rt, Inr batch_empty)
      | Some h \<Rightarrow>
          (case (case opt_connection_retry (rt_options rt) of
                   Some p \<Rightarrow> stream_poll_loop env p 0 (initial_delay_ms p) rt
                 | None \<Rightarrow>
                     (case env_next_events env h (opt_max_poll_wait_ms (rt_options rt)) (rt_world rt) of
                        (w', r) \<Rightarrow> Some (rt\<lparr>rt_world := w'\<rparr>, r))) of
             None \<Rightarrow> None
           | Some (rt', Inl e) \<Rightarrow> Some (rt', Inl e)
           | Some (rt', Inr es) \<Rightarrow> if es = [] then Some (rt', Inr batch_empty) else ingest env es rt'))"

section \<open>The poll\<close>

definition poll_snapshot ::
    "('w, 'c) runtime_env \<Rightarrow> ('w, 'c) cdc_runtime \<Rightarrow> (('w, 'c) cdc_runtime \<times> event_batch result) option" where
  "poll_snapshot env rt =
     (case rt_snapshot rt of
        None \<Rightarrow> poll_stream env rt
      | Some h \<Rightarrow>
          (case env_next_chunk env h (opt_max_buffer_size (rt_options rt)) (rt_world rt) of
             (w1, Inl e) \<Rightarrow> Some (rt\<lparr>rt_world := w1\<rparr>, Inl e)
           | (w1, Inr chunk) \<Rightarrow>
               if chunk \<noteq> [] then ingest env chunk (rt\<lparr>rt_world := w1\<rparr>)
               else if rt_handoff_complete rt then poll_stream env (rt\<lparr>rt_world := w1, rt_snapshot := None\<rparr>)
               else (case rt_stream rt of
                       None \<Rightarrow>
                         Some (rt\<lparr>rt_world := w1\<rparr>, Inl (StateError ''snapshot-to-stream handoff requires active stream''))
                     | Some s \<Rightarrow>
                         (case source_perform_handoff env (rt_source rt) h s w1 of
                            (w2, Inl e) \<Rightarrow> Some (rt\<lparr>rt_world := w2\<rparr>, Inl e)
                          | (w2, Inr _) \<Rightarrow>
                              poll_stream env (rt\<lparr>rt_world := w2, rt_handoff_complete := True, rt_snapshot := None\<rparr>)))))"

definition poll_injected ::
    "('w, 'c) runtime_env \<Rightarrow> ('w, 'c) cdc_runtime \<Rightarrow> (('w, 'c) cdc_runtime \<times> event_batch result) option" where
  "poll_injected env rt =
     (if rt_injected_events rt = [] then poll_snapshot env rt
      else
        let cap = opt_max_buffer_size (rt_options rt)
        in ingest env (take cap (rt_injected_events rt)) (rt\<lparr>rt_injected_events := drop cap (rt_injected_events rt)\<rparr>))"

definition retry_pending_confirmation ::
    "('w, 'c) runtime_env \<Rightarrow> ('w, 'c) cdc_runtime \<Rightarrow> ('w, 'c) cdc_runtime" where
  "retry_pending_confirmation env rt =
     (case (rt_pending_confirmation_lsn rt, rt_stream rt) of
        (Some lsn, Some h) \<Rightarrow>
          (case env_confirm_lsn env h lsn (rt_world rt) of
             (w', Inr _) \<Rightarrow>
               rt\<lparr>rt_world := w', rt_pending_confirmation_lsn := None, rt_unconfirmed_stall_polls := 0\<rparr>
           | (w', Inl _) \<Rightarrow> rt\<lparr>rt_world := w'\<rparr>)
      | _ \<Rightarrow> rt)"

text \<open>Each queued control operation is applied to a running stream and its result sent to its caller.\<close>

definition apply_control ::
    "('w, 'c) runtime_env \<Rightarrow> control_command \<Rightarrow> ('w, 'c) cdc_runtime \<Rightarrow> ('w, 'c) cdc_runtime \<times> nat result" where
  "apply_control env c rt =
     (if rt_state rt \<noteq> Running
      then (rt, Inl (StateError ''cannot control the incremental snapshot while the runtime is not running''))
      else case rt_stream rt of
             None \<Rightarrow> (rt, Inl (StateError ''the runtime has no active stream''))
           | Some h \<Rightarrow> (case env_control env h c (rt_world rt) of (w', r) \<Rightarrow> (rt\<lparr>rt_world := w'\<rparr>, r)))"

definition incremental_snapshot_state :: "('w, 'c) runtime_env \<Rightarrow> ('w, 'c) cdc_runtime \<Rightarrow> json option" where
  "incremental_snapshot_state env rt =
     Option.bind (rt_stream rt) (\<lambda>h. env_incremental_snapshot_state env h (rt_world rt))"

definition service_control_commands ::
    "('w, 'c) runtime_env \<Rightarrow> ('w, 'c) cdc_runtime \<Rightarrow> ('w, 'c) cdc_runtime" where
  "service_control_commands env rt =
     (let rt1 = fold (\<lambda>c r. fst (apply_control env c r)) (rt_control_queue rt) (rt\<lparr>rt_control_queue := []\<rparr>)
      in rt1\<lparr>rt_control_published := incremental_snapshot_state env rt1\<rparr>)"

definition poll_queued ::
    "('w, 'c) runtime_env \<Rightarrow> ('w, 'c) cdc_runtime \<Rightarrow> (('w, 'c) cdc_runtime \<times> event_batch result) option" where
  "poll_queued env rt =
     (if rt_pending_source_events rt = [] then poll_injected env rt
      else case flush_pending_source_events env rt of
             (rt', Inl e) \<Rightarrow> Some (rt', Inl e)
           | (rt', Inr b) \<Rightarrow> if \<not> batch_is_empty b then Some (rt', Inr b) else poll_injected env rt')"

definition poll_event_batch ::
    "('w, 'c) runtime_env \<Rightarrow> ('w, 'c) cdc_runtime \<Rightarrow> (('w, 'c) cdc_runtime \<times> event_batch result) option" where
  "poll_event_batch env rt =
     (if rt_state rt \<noteq> Running then Some (rt, Inl (StateError ''runtime is not running''))
      else case current_pending_batch rt of
             Some b \<Rightarrow> Some (rt, Inr b)
           | None \<Rightarrow>
               (let rt1 = retry_pending_confirmation env (service_control_commands env rt)
                in if rt_buffered_events rt1 \<noteq> []
                   then (case deliver_buffered_batch env rt1 of (rt2, b) \<Rightarrow> Some (rt2, Inr b))
                   else poll_queued env rt1))"

definition enqueue_event :: "event \<Rightarrow> ('w, 'c) cdc_runtime \<Rightarrow> ('w, 'c) cdc_runtime \<times> unit result" where
  "enqueue_event e rt =
     (if length (rt_buffered_events rt) + length (rt_injected_events rt) \<ge> opt_max_buffer_size (rt_options rt)
      then (rt, Inl (Backpressure ''runtime buffer is full''))
      else (rt\<lparr>rt_injected_events := rt_injected_events rt @ [e]\<rparr>, Inr ()))"

end
