(* ===== verification/Runtime_Delivery.thy ===== *)
theory Runtime_Delivery
  imports Runtime_Poll
begin

text \<open>
  What a poll does to the events the runtime holds. \<open>backlog\<close> lists them in delivery order: in
  flight, staged in the barrier, read from the source and not yet cut into a batch. The lemmas show
  that every step of a poll keeps the runtime's invariant and only appends to the backlog; the
  properties at the end are about redelivery, order, transaction boundaries and the reconnect loop.
\<close>

section \<open>Cutting\<close>

lemma cut_chunk_append:
  "cut_chunk sz limit n chunk bytes q = (c', q') \<Longrightarrow> c' @ q' = chunk @ q"
  by (induction sz limit n chunk bytes q rule: cut_chunk.induct)
    (auto split: if_splits option.splits)

lemma cut_chunk_length:
  "cut_chunk sz limit n chunk bytes q = (c', q') \<Longrightarrow> length chunk \<le> n \<Longrightarrow> length c' \<le> n"
  by (induction sz limit n chunk bytes q rule: cut_chunk.induct)
    (auto split: if_splits option.splits)

lemma cut_chunk_prefix:
  "cut_chunk sz limit n chunk bytes q = (c', q') \<Longrightarrow> length chunk \<le> length c'"
  by (induction sz limit n chunk bytes q rule: cut_chunk.induct)
    (auto split: if_splits option.splits)

lemma cut_chunk_nonempty:
  assumes "cut_chunk sz limit n [] 0 q = (c', q')" and "0 < n" and "q \<noteq> []"
  shows "c' \<noteq> []"
proof -
  obtain e q1 where q: "q = e # q1" using assms(3) by (cases q) auto
  have "\<exists>b. cut_chunk sz limit n [] 0 q = cut_chunk sz limit n [e] b q1"
    using assms(2) by (cases limit) (auto simp: q)
  with assms(1) cut_chunk_prefix show ?thesis by fastforce
qed

lemma takeWhile_rev_split:
  "take (length xs - length (rev (takeWhile P (rev xs)))) xs @ rev (takeWhile P (rev xs)) = xs"
proof -
  have "rev xs = takeWhile P (rev xs) @ dropWhile P (rev xs)" by simp
  then have "xs = rev (dropWhile P (rev xs)) @ rev (takeWhile P (rev xs))"
    by (metis rev_append rev_rev_ident)
  then show ?thesis by (metis append_eq_conv_conj diff_add_inverse2 length_append)
qed

lemma trim_append:
  assumes "trim_to_transaction_boundary opts chunk queue = (c', q')"
  shows "c' @ q' = chunk @ queue" and "length c' \<le> length chunk"
proof -
  let ?P = "\<lambda>tx e. event_tx_id e = Some tx"
  have "c' @ q' = chunk @ queue \<and> length c' \<le> length chunk"
  proof (cases "(c', q') = (chunk, queue)")
    case False
    then obtain tx where t: "event_tx_id (last chunk) = Some tx"
      and h: "(c', q') = (take (length chunk - length (rev (takeWhile (?P tx) (rev chunk)))) chunk,
            rev (takeWhile (?P tx) (rev chunk)) @ queue)
        \<or> (c', q') = ([], rev (takeWhile (?P tx) (rev chunk)) @ queue)
          \<and> take (length chunk - length (rev (takeWhile (?P tx) (rev chunk)))) chunk = []"
      using assms by (auto simp: trim_to_transaction_boundary_def Let_def split: if_splits option.splits)
    from h takeWhile_rev_split [of chunk "?P tx"] show ?thesis by auto
  qed auto
  then show "c' @ q' = chunk @ queue" "length c' \<le> length chunk" by auto
qed

section \<open>Staging and delivery\<close>

text \<open>The invariant speaks of neither queue in front of the barrier, nor of the world.\<close>

lemma runtime_inv_queues [simp]:
  "runtime_inv env (rt\<lparr>rt_pending_source_events := q\<rparr>) = runtime_inv env rt"
  "runtime_inv env (rt\<lparr>rt_injected_events := q\<rparr>) = runtime_inv env rt"
  "runtime_inv env (rt\<lparr>rt_world := w\<rparr>) = runtime_inv env rt"
  "runtime_inv env (rt\<lparr>rt_stream := h\<rparr>) = runtime_inv env rt"
  "runtime_inv env (rt\<lparr>rt_snapshot := h\<rparr>) = runtime_inv env rt"
  "runtime_inv env (rt\<lparr>rt_handoff_complete := d\<rparr>) = runtime_inv env rt"
  by (cases "rt_pending_delivery rt"; simp add: runtime_inv_def in_flight_def)+

definition backlog :: "('w, 'c) cdc_runtime \<Rightarrow> event list" where
  "backlog rt = in_flight rt @ rt_buffered_events rt @ rt_pending_source_events rt"

definition at_rest :: "('w, 'c) cdc_runtime \<Rightarrow> bool" where
  "at_rest rt \<longleftrightarrow> rt_pending_delivery rt = None"

lemma stage_event_ok:
  assumes inv: "runtime_inv env rt" and rest: "at_rest rt"
    and room: "length (rt_buffered_events rt) < opt_max_buffer_size (rt_options rt)"
    and s: "stage_event env e rt = (rt', r)"
  shows "case r of
      Inl err \<Rightarrow> rt' = rt
    | Inr u \<Rightarrow> runtime_inv env rt'
        \<and> (\<exists>b. rt' = rt\<lparr>rt_commit_barrier := b, rt_buffered_events := rt_buffered_events rt @ [e]\<rparr>)"
proof -
  let ?b = "rt_commit_barrier rt"
  have f: "in_flight rt = []" using rest by (simp add: in_flight_def at_rest_def)
  have len: "length (pending_records ?b) = length (rt_buffered_events rt)"
    using inv f by (auto simp: runtime_inv_def dest: list_all2_lengthD)
  have open_b: "barrier_state ?b \<noteq> Flushing" "max_buffer_size ?b = opt_max_buffer_size (rt_options rt)"
    using inv by (auto simp: runtime_inv_def barrier_inv_def)
  have push: "push_record off ?b = (?b\<lparr>barrier_state := Open, pending_records := pending_records ?b
        @ [\<lparr>rec_offset = off, rec_accepted = False\<rparr>]\<rparr>, Inr ())" for off
    using open_b len room by (simp add: push_record_def)
  show ?thesis
  proof (cases r)
    case (Inl err)
    with s push show ?thesis by (auto simp: stage_event_def split: sum.splits)
  next
    case (Inr u)
    with s push obtain off b where pos: "event_position env rt e = Inr off" and p: "push_record off ?b = (b, Inr ())"
      and rt': "rt' = rt\<lparr>rt_commit_barrier := b, rt_buffered_events := rt_buffered_events rt @ [e]\<rparr>"
      by (auto simp: stage_event_def split: sum.splits)
    have off: "\<exists>x. off = Some x \<and> build_checkpoint_offset env rt e = Inr x" if "ev_snapshot e = None"
      using pos that by (auto simp: event_position_def split: sum.splits)
    have b: "b = ?b\<lparr>barrier_state := Open, pending_records := pending_records ?b
        @ [\<lparr>rec_offset = off, rec_accepted = False\<rparr>]\<rparr>"
      using p push by simp
    have "record_for env (rt_config rt) e \<lparr>rec_offset = off, rec_accepted = False\<rparr>"
      using off by (auto simp: record_for_def checkpoint_position_def)
    then have "list_all2 (record_for env (rt_config rt)) (rt_buffered_events rt @ [e]) (pending_records b)"
      using inv f by (auto simp: runtime_inv_def b intro: list_all2_appendI)
    moreover have "barrier_inv b" using inv barrier_inv_push [OF _ p] by (simp add: runtime_inv_def)
    moreover have "accepted_of b = []"
    proof -
      have "accepted_of ?b = []" using inv by (simp add: runtime_inv_def)
      then show ?thesis by (cases "pending_records ?b") (auto simp: b accepted_of_def split: if_splits)
    qed
    moreover have "in_flight rt' = []" "rt_pending_delivery rt' = None"
      using rest by (auto simp: rt' in_flight_def at_rest_def)
    ultimately have "runtime_inv env rt'"
      using inv f by (auto simp: runtime_inv_def rt' b)
    with Inr rt' show ?thesis by auto
  qed
qed

lemma stage_events_ok:
  assumes "runtime_inv env rt" and "at_rest rt"
    and "length (rt_buffered_events rt) + length es \<le> opt_max_buffer_size (rt_options rt)"
    and "stage_events env es rt = (rt', r)"
  shows "runtime_inv env rt'
    \<and> (\<exists>b k. k \<le> length es \<and> rt' = rt\<lparr>rt_commit_barrier := b, rt_buffered_events := rt_buffered_events rt @ take k es\<rparr>
         \<and> (r = Inr () \<longrightarrow> k = length es) \<and> (r \<noteq> Inr () \<longrightarrow> k < length es))"
  using assms
proof (induction es arbitrary: rt)
  case Nil
  then have "rt' = rt" "r = Inr ()" by simp_all
  with Nil show ?case by (intro conjI exI [of _ "rt_commit_barrier rt"] exI [of _ 0]) simp_all
next
  case (Cons e es)
  obtain rt1 r1 where s: "stage_event env e rt = (rt1, r1)" by force
  have room: "length (rt_buffered_events rt) < opt_max_buffer_size (rt_options rt)" using Cons.prems(3) by simp
  note ok = stage_event_ok [OF Cons.prems(1,2) room s]
  show ?case
  proof (cases r1)
    case (Inl err)
    with ok s Cons.prems(4) have "rt' = rt" "r = Inl err" by auto
    with Cons.prems(1) show ?thesis
      by (intro conjI exI [of _ "rt_commit_barrier rt"] exI [of _ 0]) simp_all
  next
    case (Inr u)
    with ok obtain b where inv1: "runtime_inv env rt1"
      and rt1: "rt1 = rt\<lparr>rt_commit_barrier := b, rt_buffered_events := rt_buffered_events rt @ [e]\<rparr>" by auto
    have rest1: "at_rest rt1" using Cons.prems(2) by (simp add: rt1 at_rest_def)
    have room1: "length (rt_buffered_events rt1) + length es \<le> opt_max_buffer_size (rt_options rt1)"
      using Cons.prems(3) by (simp add: rt1)
    from Cons.prems(4) s Inr have "stage_events env es rt1 = (rt', r)" by simp
    from Cons.IH [OF inv1 rest1 room1 this] obtain b1 k where k: "runtime_inv env rt'" "k \<le> length es"
      "rt' = rt1\<lparr>rt_commit_barrier := b1, rt_buffered_events := rt_buffered_events rt1 @ take k es\<rparr>"
      "r = Inr () \<longrightarrow> k = length es" "r \<noteq> Inr () \<longrightarrow> k < length es" by blast
    have "rt' = rt\<lparr>rt_commit_barrier := b1, rt_buffered_events := rt_buffered_events rt @ take (Suc k) (e # es)\<rparr>"
      unfolding k(3) rt1 by simp
    with k show ?thesis by (intro conjI exI [of _ b1] exI [of _ "Suc k"]) auto
  qed
qed

lemma deliver_ok:
  assumes inv: "runtime_inv env rt" and rest: "at_rest rt" and d: "deliver_buffered_batch env rt = (rt', b)"
    and id: "rt_next_delivery_id rt < u64_max"
  shows "runtime_inv env rt'" and "in_flight rt' = rt_buffered_events rt" and "rt_buffered_events rt' = []"
    and "batch_events b = in_flight rt'" and "rt_pending_source_events rt' = rt_pending_source_events rt"
    and "rt_injected_events rt' = rt_injected_events rt" and "rt_config rt' = rt_config rt"
    and "rt_state rt' = rt_state rt" and "rt_stream rt' = rt_stream rt"
    and "rt_next_delivery_id rt \<le> rt_next_delivery_id rt'"
    and "\<And>p. rt_pending_delivery rt' = Some p \<Longrightarrow> pd_delivery_id p = rt_next_delivery_id rt"
proof -
  let ?q = "rt_buffered_events rt" and ?cap = "opt_max_buffer_size (rt_options rt)"
  have f: "in_flight rt = []" using rest by (simp add: in_flight_def at_rest_def)
  have len: "length ?q \<le> ?cap"
    using inv f by (auto simp: runtime_inv_def barrier_inv_def dest: list_all2_lengthD)
  have cap: "0 < ?cap" "?cap \<le> u64_max" using inv by (auto simp: runtime_inv_def)
  have all: "runtime_inv env rt' \<and> in_flight rt' = ?q \<and> rt_buffered_events rt' = []
    \<and> batch_events b = in_flight rt' \<and> rt_pending_source_events rt' = rt_pending_source_events rt
    \<and> rt_injected_events rt' = rt_injected_events rt \<and> rt_config rt' = rt_config rt
    \<and> rt_state rt' = rt_state rt \<and> rt_stream rt' = rt_stream rt
    \<and> rt_next_delivery_id rt \<le> rt_next_delivery_id rt'
    \<and> (\<forall>p. rt_pending_delivery rt' = Some p \<longrightarrow> pd_delivery_id p = rt_next_delivery_id rt)"
  proof (cases "?q = []")
    case True
    with d inv f rest show ?thesis
      by (auto simp: deliver_buffered_batch_def Let_def batch_empty_def batch_events_def at_rest_def)
  next
    case False
    obtain w now where now: "env_now env (rt_world rt) = (w, now)" by force
    have whole: "take ?cap ?q = ?q" "drop ?cap ?q = []" using len by auto
    have rt': "rt' = rt\<lparr>rt_buffered_events := [],
        rt_total_events_polled := sat_add64 (rt_total_events_polled rt) (length ?q),
        rt_last_poll_at_ms := Some now,
        rt_last_source_event_ts_ms := Some (case rt_last_source_event_ts_ms rt of None \<Rightarrow> latest_source_ts ?q
          | Some previous \<Rightarrow> max previous (latest_source_ts ?q)),
        rt_next_delivery_id := sat_add64 (rt_next_delivery_id rt) 1,
        rt_delivered_not_committed := sat_add64 (rt_delivered_not_committed rt) (length ?q),
        rt_pending_delivery := Some \<lparr>pd_delivery_id = rt_next_delivery_id rt, pd_events = ?q,
          pd_committed_prefix = 0, pd_ack_epoch = 0\<rparr>,
        rt_world := w\<rparr>"
      and b: "eb_events b = ?q" "eb_offset b = 0"
      using d False unfolding deliver_buffered_batch_def Let_def whole now by auto
    have dn: "rt_delivered_not_committed rt = 0" using inv f by (simp add: runtime_inv_def)
    have "length ?q \<le> u64_max" using len cap by simp
    then have d': "sat_add64 0 (length ?q) = length ?q" by (simp add: sat_add64_def)
    have n': "sat_add64 (rt_next_delivery_id rt) (Suc 0) = Suc (rt_next_delivery_id rt)"
      using id by (simp add: sat_add64_def)
    have fl: "in_flight rt' = ?q" by (simp add: rt' in_flight_def)
    have "runtime_inv env rt'"
      using inv f False len unfolding runtime_inv_def fl by (simp add: rt' dn d' n')
    with fl b n' show ?thesis by (simp add: rt' batch_events_def)
  qed
  then show "runtime_inv env rt'" "in_flight rt' = ?q" "rt_buffered_events rt' = []"
    "batch_events b = in_flight rt'" "rt_pending_source_events rt' = rt_pending_source_events rt"
    "rt_injected_events rt' = rt_injected_events rt" "rt_config rt' = rt_config rt"
    "rt_state rt' = rt_state rt" "rt_stream rt' = rt_stream rt"
    "rt_next_delivery_id rt \<le> rt_next_delivery_id rt'"
    "\<And>p. rt_pending_delivery rt' = Some p \<Longrightarrow> pd_delivery_id p = rt_next_delivery_id rt"
    by blast+
qed

section \<open>Flushing the queue\<close>

lemma batch_empty_simps [simp]: "batch_events batch_empty = []" "batch_is_empty batch_empty"
  by (simp_all add: batch_empty_def batch_events_def batch_is_empty_def batch_len_def)

lemma batch_is_empty_iff: "batch_is_empty b \<longleftrightarrow> batch_events b = []"
  by (auto simp: batch_is_empty_def batch_len_def batch_events_def)

text \<open>The fields of the runtime a step leaves alone, and the ones it may advance.\<close>

definition steady :: "('w, 'c) cdc_runtime \<Rightarrow> ('w, 'c) cdc_runtime \<Rightarrow> bool" where
  "steady rt rt' \<longleftrightarrow>
     rt_config rt' = rt_config rt \<and> rt_state rt' = rt_state rt \<and> rt_next_delivery_id rt \<le> rt_next_delivery_id rt'
     \<and> (\<forall>p. rt_pending_delivery rt' = Some p \<longrightarrow>
          rt_pending_delivery rt = Some p \<or> rt_next_delivery_id rt \<le> pd_delivery_id p)"

lemma steady_refl [simp]: "steady rt rt"
  by (simp add: steady_def)

lemma steady_trans: "steady a b \<Longrightarrow> steady b c \<Longrightarrow> steady a c"
  by (auto simp: steady_def)

lemma flush_ok:
  assumes inv: "runtime_inv env rt" and rest: "at_rest rt" and q: "rt_buffered_events rt = []"
    and id: "rt_next_delivery_id rt < u64_max"
    and fl: "flush_pending_source_events env rt = (rt', r)"
  shows "runtime_inv env rt' \<and> steady rt rt' \<and> rt_injected_events rt' = rt_injected_events rt
    \<and> rt_stream rt' = rt_stream rt
    \<and> (case r of
         Inr b \<Rightarrow> backlog rt' = backlog rt \<and> rt_buffered_events rt' = [] \<and> batch_events b = in_flight rt'
       | Inl e \<Rightarrow> at_rest rt' \<and> (\<exists>dropped. rt_buffered_events rt' @ dropped @ rt_pending_source_events rt' = backlog rt
            \<and> dropped \<noteq> []))"
proof -
  have f: "in_flight rt = []" using rest by (simp add: in_flight_def at_rest_def)
  have bl: "backlog rt = rt_pending_source_events rt" by (simp add: backlog_def f q)
  let ?cap = "opt_max_buffer_size (rt_options rt)"
  have none: "pending_count (rt_commit_barrier rt) = 0"
    using inv f q by (auto simp: runtime_inv_def pending_count_def)
  have cap: "0 < ?cap" using inv by (simp add: runtime_inv_def)
  show ?thesis
  proof (cases "rt_pending_source_events rt = []")
    case True
    with fl inv f q show ?thesis by (auto simp: flush_pending_source_events_def)
  next
    case False
    obtain c0 q0 where cut: "cut_chunk (estimate_event_bytes env) (opt_max_event_bytes (rt_options rt)) ?cap [] 0
        (rt_pending_source_events rt) = (c0, q0)" by force
    obtain c1 q1 where tr: "trim_to_transaction_boundary (rt_options rt) c0 q0 = (c1, q1)" by force
    let ?rt1 = "rt\<lparr>rt_pending_source_events := q1\<rparr>"
    have eq: "flush_pending_source_events env rt = buffer_and_deliver env c1 ?rt1"
      using False none cap cut tr by (simp add: flush_pending_source_events_def Let_def)
    have split: "c1 @ q1 = rt_pending_source_events rt"
      using trim_append(1) [OF tr] cut_chunk_append [OF cut] by simp
    have len: "length c1 \<le> ?cap" using trim_append(2) [OF tr] cut_chunk_length [OF cut] by simp
    have inv1: "runtime_inv env ?rt1" and rest1: "at_rest ?rt1"
      using inv rest by (auto simp: runtime_inv_def in_flight_def at_rest_def)
    obtain rt2 r2 where st: "stage_events env c1 ?rt1 = (rt2, r2)" by force
    from stage_events_ok [OF inv1 rest1 _ st] len q obtain b k where inv2: "runtime_inv env rt2"
      and rt2: "rt2 = ?rt1\<lparr>rt_commit_barrier := b, rt_buffered_events := take k c1\<rparr>"
      and k: "k \<le> length c1" "r2 = Inr () \<longrightarrow> k = length c1" "r2 \<noteq> Inr () \<longrightarrow> k < length c1" by auto
    have rest2: "at_rest rt2" using rest by (simp add: rt2 at_rest_def)
    show ?thesis
    proof (cases r2)
      case (Inl e)
      with fl eq st have r: "rt' = rt2" "r = Inl e" by (auto simp: buffer_and_deliver_def)
      have "rt_buffered_events rt2 @ drop k c1 @ rt_pending_source_events rt2 = backlog rt"
        unfolding bl split [symmetric] by (simp add: rt2)
      moreover have "drop k c1 \<noteq> []" using k(3) Inl by simp
      ultimately show ?thesis
        using inv2 rest2 r rest by (auto simp: rt2 steady_def at_rest_def)
    next
      case (Inr u)
      obtain rt3 b3 where d: "deliver_buffered_batch env rt2 = (rt3, b3)" by force
      with fl eq st Inr have r: "rt' = rt3" "r = Inr b3" by (auto simp: buffer_and_deliver_def)
      have id2: "rt_next_delivery_id rt2 < u64_max" using id by (simp add: rt2)
      note dok = deliver_ok [OF inv2 rest2 d id2]
      have "backlog rt3 = backlog rt"
        using k(2) Inr f q split unfolding backlog_def dok(2,3,5) by (simp add: rt2)
      moreover have "steady rt rt3"
        using dok(7,8,10,11) by (auto simp: steady_def rt2)
      ultimately show ?thesis using dok r by (simp add: rt2)
    qed
  qed
qed

text \<open>At most one delivery identifier is spent, and none unless a batch goes out.\<close>

definition spends_one :: "('w, 'c) cdc_runtime \<Rightarrow> ('w, 'c) cdc_runtime \<Rightarrow> bool" where
  "spends_one rt rt' \<longleftrightarrow> rt_next_delivery_id rt' \<le> Suc (rt_next_delivery_id rt)
     \<and> (rt_pending_delivery rt' = None \<longrightarrow> rt_next_delivery_id rt' \<le> rt_next_delivery_id rt)"

lemma deliver_ids: "deliver_buffered_batch env rt = (rt', b) \<Longrightarrow> spends_one rt rt'"
  by (auto simp: deliver_buffered_batch_def spends_one_def Let_def sat_add64_def split: if_splits prod.splits)

lemma stage_events_ids:
  "stage_events env es rt = (rt', r) \<Longrightarrow> rt_next_delivery_id rt' = rt_next_delivery_id rt"
  by (induction es arbitrary: rt) (auto simp: stage_event_def split: sum.splits prod.splits)

lemma flush_ids:
  assumes "flush_pending_source_events env rt = (rt', r)"
  shows "spends_one rt rt'"
proof -
  have buf: "spends_one rt1 rt'" if "buffer_and_deliver env c rt1 = (rt', r)" for c rt1
    using that stage_events_ids [of env c rt1] deliver_ids [of env]
    by (auto simp: buffer_and_deliver_def spends_one_def split: prod.splits sum.splits) metis+
  show ?thesis
    using assms(1) by (auto simp: flush_pending_source_events_def spends_one_def Let_def split: if_splits prod.splits
        dest!: buf)
qed

section \<open>Reading from the sources\<close>

text \<open>A step that touches the world, the guard, the counters and the connection only.\<close>

definition quiet :: "('w, 'c) cdc_runtime \<Rightarrow> ('w, 'c) cdc_runtime \<Rightarrow> bool" where
  "quiet rt rt' \<longleftrightarrow>
     rt_config rt' = rt_config rt \<and> rt_state rt' = rt_state rt \<and> rt_injected_events rt' = rt_injected_events rt
     \<and> rt_pending_source_events rt' = rt_pending_source_events rt \<and> rt_buffered_events rt' = rt_buffered_events rt
     \<and> rt_delivered_not_committed rt' = rt_delivered_not_committed rt
     \<and> rt_next_delivery_id rt' = rt_next_delivery_id rt \<and> rt_pending_delivery rt' = rt_pending_delivery rt
     \<and> rt_commit_barrier rt' = rt_commit_barrier rt \<and> rt_checkpoint rt' = rt_checkpoint rt
     \<and> (pred_option guard_inv (rt_idempotency_guard rt) \<longrightarrow> pred_option guard_inv (rt_idempotency_guard rt'))"

lemma quiet_refl [simp]: "quiet rt rt"
  by (simp add: quiet_def)

lemma quiet_trans: "quiet a b \<Longrightarrow> quiet b c \<Longrightarrow> quiet a c"
  by (simp add: quiet_def)

lemma quiet_facts:
  assumes "quiet rt rt'"
  shows "runtime_inv env rt \<Longrightarrow> runtime_inv env rt'" and "at_rest rt' = at_rest rt" and "backlog rt' = backlog rt"
    and "in_flight rt' = in_flight rt" and "rt_buffered_events rt' = rt_buffered_events rt" and "steady rt rt'"
    and "rt_pending_source_events rt' = rt_pending_source_events rt" and "rt_next_delivery_id rt' = rt_next_delivery_id rt"
    and "rt_injected_events rt' = rt_injected_events rt" and "rt_config rt' = rt_config rt"
proof -
  have f: "in_flight rt' = in_flight rt" using assms by (simp add: quiet_def in_flight_def)
  then show "in_flight rt' = in_flight rt" "backlog rt' = backlog rt"
    using assms by (auto simp: quiet_def backlog_def)
  show "runtime_inv env rt \<Longrightarrow> runtime_inv env rt'"
    using assms f by (auto simp: quiet_def runtime_inv_def split: option.splits)
  show "at_rest rt' = at_rest rt" "rt_buffered_events rt' = rt_buffered_events rt" "steady rt rt'"
    "rt_pending_source_events rt' = rt_pending_source_events rt" "rt_next_delivery_id rt' = rt_next_delivery_id rt"
    "rt_injected_events rt' = rt_injected_events rt" "rt_config rt' = rt_config rt"
    using assms by (auto simp: quiet_def at_rest_def steady_def)
qed

lemma quiet_world: "quiet rt (rt\<lparr>rt_world := w\<rparr>)"
  by (simp add: quiet_def)

lemma dedup_loop_ok:
  assumes "guard_inv g"
  shows "\<exists>g' dups' w' r. dedup_loop env es g dups w out = Some (g', dups', w', r) \<and> guard_inv g'"
  using assms
proof (induction es arbitrary: g dups w out)
  case Nil
  then show ?case by simp
next
  case (Cons e es)
  obtain w' now where now: "env_now env w = (w', now)" by force
  obtain g1 d where g1: "should_process (env_ahash env) now e g = Some (g1, d)" "guard_inv g1"
    using should_process_window [OF Cons.prems, of "env_ahash env" now e] by metis
  show ?case
  proof (cases d)
    case (Inl err)
    with now g1 show ?thesis by simp
  next
    case (Inr keep)
    with now g1 Cons.IH [OF g1(2)] show ?thesis by (cases keep) auto
  qed
qed

lemma filter_ok:
  assumes "runtime_inv env rt"
  shows "\<exists>rt' r. filter_idempotent_events env es rt = Some (rt', r) \<and> quiet rt rt' \<and> rt_stream rt' = rt_stream rt"
proof (cases "rt_idempotency_guard rt")
  case None
  then show ?thesis by (simp add: filter_idempotent_events_def)
next
  case (Some g)
  then have g: "guard_inv g" using assms by (simp add: runtime_inv_def)
  obtain g' dups w r where d: "dedup_loop env es g (rt_total_events_deduplicated rt) (rt_world rt) [] = Some (g', dups, w, r)"
    "guard_inv g'" using dedup_loop_ok [OF g, of env es "rt_total_events_deduplicated rt" "rt_world rt" "[]"] by blast
  show ?thesis
  proof (cases r)
    case (Inl err)
    with Some d show ?thesis by (simp add: filter_idempotent_events_def quiet_def)
  next
    case (Inr out)
    with Some d show ?thesis by (simp add: filter_idempotent_events_def Let_def quiet_def)
  qed
qed

lemma apply_transforms_ok:
  "quiet rt (fst (apply_transforms env es rt)) \<and> rt_stream (fst (apply_transforms env es rt)) = rt_stream rt"
  by (auto simp: apply_transforms_def quiet_def split: prod.split sum.split)

lemma prepare_ok:
  assumes "runtime_inv env rt"
  shows "\<exists>rt' r. prepare_events env chunk rt = Some (rt', r) \<and> quiet rt rt' \<and> rt_stream rt' = rt_stream rt"
proof -
  obtain w r where rec: "record_schema_change_events env (opt_schema_history_retention (rt_options rt)) chunk (rt_world rt) = (w, r)"
    by force
  let ?rt0 = "rt\<lparr>rt_world := w\<rparr>"
  have q0: "quiet rt ?rt0" by (rule quiet_world)
  show ?thesis
  proof (cases r)
    case (Inl err)
    with rec q0 show ?thesis by (simp add: prepare_events_def)
  next
    case (Inr u)
    obtain rt1 r1 where fl: "filter_idempotent_events env chunk ?rt0 = Some (rt1, r1)" "quiet ?rt0 rt1" "rt_stream rt1 = rt_stream rt"
      using filter_ok [OF quiet_facts(1) [OF q0 assms], of chunk] by auto
    have q1: "quiet rt rt1" using q0 fl(2) by (rule quiet_trans)
    show ?thesis
    proof (cases r1)
      case (Inl err)
      with rec Inr fl q1 show ?thesis by (simp add: prepare_events_def)
    next
      case r1: (Inr es)
      obtain rt2 r2 where t: "apply_transforms env es rt1 = (rt2, r2)" by force
      have "quiet rt rt2" "rt_stream rt2 = rt_stream rt"
        using apply_transforms_ok [of rt1 env es] t quiet_trans [OF q1] fl(3) by auto
      with rec Inr fl r1 t show ?thesis by (simp add: prepare_events_def)
    qed
  qed
qed

lemma ingest_ok:
  assumes inv: "runtime_inv env rt" and rest: "at_rest rt" and q: "rt_buffered_events rt = []"
    and id: "rt_next_delivery_id rt < u64_max"
  obtains rt' r where "ingest env chunk rt = Some (rt', r)" and "runtime_inv env rt'" and "steady rt rt'"
    and "rt_injected_events rt' = rt_injected_events rt" and "rt_stream rt' = rt_stream rt"
    and "spends_one rt rt'"
    and "case r of
      Inl e \<Rightarrow> at_rest rt'
    | Inr b \<Rightarrow> batch_events b = in_flight rt'
        \<and> (\<exists>rt1 es. prepare_events env chunk rt = Some (rt1, Inr es) \<and> backlog rt' = backlog rt @ es)"
proof -
  obtain rt1 r1 where p: "prepare_events env chunk rt = Some (rt1, r1)" "quiet rt rt1" "rt_stream rt1 = rt_stream rt"
    using prepare_ok [OF inv] by blast
  note qf = quiet_facts [OF p(2)]
  show thesis
  proof (cases r1)
    case (Inl e)
    show thesis
      by (rule that [of rt1 "Inl e"]) (use Inl p qf inv rest in \<open>auto simp: ingest_def spends_one_def\<close>)
  next
    case (Inr es)
    let ?rt2 = "rt1\<lparr>rt_pending_source_events := rt_pending_source_events rt1 @ es\<rparr>"
    have inv2: "runtime_inv env ?rt2" using qf(1) [OF inv] by simp
    have rest2: "at_rest ?rt2" using qf(2) rest by (simp add: at_rest_def)
    have q2: "rt_buffered_events ?rt2 = []" using qf(5) q by simp
    have id2: "rt_next_delivery_id ?rt2 < u64_max" using qf(8) id by simp
    have bl2: "backlog ?rt2 = backlog rt @ es"
      using qf(3) by (simp add: backlog_def in_flight_def)
    have st2: "steady rt ?rt2" using qf(6) by (simp add: steady_def)
    obtain rt3 r3 where fl: "flush_pending_source_events env ?rt2 = (rt3, r3)" by force
    note fok = flush_ok [OF inv2 rest2 q2 id2 fl]
    show thesis
    proof (rule that [of rt3 r3])
      show "ingest env chunk rt = Some (rt3, r3)" using p(1) Inr fl by (simp add: ingest_def)
      show "runtime_inv env rt3" "rt_injected_events rt3 = rt_injected_events rt" "rt_stream rt3 = rt_stream rt"
        using fok qf(9) p(3) by auto
      show "steady rt rt3" using fok steady_trans [OF st2] by blast
      show "spends_one rt rt3" using flush_ids [OF fl] qf(8) by (simp add: spends_one_def)
      show "case r3 of Inl e \<Rightarrow> at_rest rt3
          | Inr b \<Rightarrow> batch_events b = in_flight rt3
              \<and> (\<exists>rt1 es. prepare_events env chunk rt = Some (rt1, Inr es) \<and> backlog rt3 = backlog rt @ es)"
        using fok bl2 p(1) Inr by (auto split: sum.splits)
    qed
  qed
qed

section \<open>The reconnect loop\<close>

lemma quiet_connection: "quiet rt (rt\<lparr>rt_world := w, rt_stream := h\<rparr>)"
  by (simp add: quiet_def)

lemma reconnect_arm_quiet:
  "case reconnect_arm env p attempt delay rt of
     Proceed rt' \<Rightarrow> quiet rt rt' | Return rt' e \<Rightarrow> quiet rt rt' | Again rt' \<Rightarrow> quiet rt rt'"
  by (auto simp: reconnect_arm_def quiet_def split: prod.split sum.split)

lemma retry_arm_quiet:
  "case retry_arm env delay rt of
     Proceed rt' \<Rightarrow> quiet rt rt' | Return rt' e \<Rightarrow> quiet rt rt' | Again rt' \<Rightarrow> quiet rt rt'"
  by (auto simp: retry_arm_def Let_def quiet_def split: prod.split sum.split)

lemma poll_arm_quiet:
  "case poll_arm env p attempt delay rt of Inl (rt', r) \<Rightarrow> quiet rt rt' | Inr rt' \<Rightarrow> quiet rt rt'"
proof (cases "rt_stream rt")
  case None
  then show ?thesis by (simp add: poll_arm_def)
next
  case (Some h)
  obtain w r where n: "env_next_events env h (opt_max_poll_wait_ms (rt_options rt)) (rt_world rt) = (w, r)" by force
  let ?rt = "rt\<lparr>rt_world := w\<rparr>"
  have q: "quiet rt ?rt" by (rule quiet_world)
  show ?thesis
    using retry_arm_quiet [of ?rt env delay] Some n q
    by (cases r; cases "retry_arm env delay ?rt") (auto simp: poll_arm_def dest: quiet_trans [OF q])
qed

lemma iteration_quiet:
  "case stream_poll_iteration env p attempt delay rt of Inl (rt', r) \<Rightarrow> quiet rt rt' | Inr rt' \<Rightarrow> quiet rt rt'"
proof (cases "reconnect_arm env p attempt delay rt")
  case (Proceed rt1)
  with reconnect_arm_quiet [of rt env p attempt delay] have q: "quiet rt rt1" by simp
  show ?thesis
    using poll_arm_quiet [of rt env p attempt delay] poll_arm_quiet [of rt1 env p attempt delay] Proceed
    by (auto simp: stream_poll_iteration_def dest: quiet_trans [OF q] split: sum.splits prod.splits)
qed (use reconnect_arm_quiet [of rt env p attempt delay] poll_arm_quiet [of rt env p attempt delay] in
    \<open>auto simp: stream_poll_iteration_def\<close>)

lemma stream_poll_loop_quiet:
  assumes "stream_poll_loop env p attempt delay rt = Some y"
  shows "quiet rt (fst y)"
proof (rule stream_poll_loop.raw_induct [OF _ assms, where P = "\<lambda>_ _ _ _ rt y. quiet rt (fst y)"])
  fix loop env p attempt delay rt y
  assume ih: "\<And>env p attempt delay rt y. loop env p attempt delay rt = Some y \<Longrightarrow> quiet rt (fst y)"
    and body: "(case stream_poll_iteration env p attempt delay rt of
        Inl r \<Rightarrow> Some r
      | Inr rt' \<Rightarrow> loop env p (min u32_max (attempt + 1)) (next_delay p delay) rt') = Some y"
  show "quiet rt (fst y)"
    using iteration_quiet [of rt env p attempt delay] body ih quiet_trans [of rt]
    by (cases "stream_poll_iteration env p attempt delay rt") auto
qed

text \<open>An iteration that goes round again has not exhausted its retries.\<close>

lemma iteration_again:
  assumes "stream_poll_iteration env p attempt delay rt = Inr rt'"
  shows "\<not> exhausted p attempt"
proof
  assume e: "exhausted p attempt"
  have "\<exists>r. poll_arm env p attempt delay r' = Inl r" for r'
    using e by (auto simp: poll_arm_def split: option.split prod.split sum.split)
  moreover have "reconnect_arm env p attempt delay r' \<noteq> Again r''" for r' r''
    using e by (auto simp: reconnect_arm_def split: prod.split sum.split)
  ultimately show False
    using assms by (auto simp: stream_poll_iteration_def split: phase.splits if_splits) (metis sum.distinct(1))+
qed

lemma stream_poll_loop_returns:
  assumes "max_retries p = Some m" and "m \<le> u32_max"
  shows "\<exists>y. stream_poll_loop env p attempt delay rt = Some y"
proof (induction "m - attempt" arbitrary: attempt delay rt rule: less_induct)
  case less
  show ?case
  proof (cases "stream_poll_iteration env p attempt delay rt")
    case (Inl r)
    then show ?thesis by (subst stream_poll_loop.simps) simp
  next
    case (Inr rt1)
    from iteration_again [OF this] have "attempt < m" using assms by (simp add: exhausted_def)
    then have "m - min u32_max (attempt + 1) < m - attempt" using assms(2) by auto
    from less [OF this] Inr show ?thesis by (subst stream_poll_loop.simps) simp
  qed
qed

section \<open>The poll\<close>

text \<open>What every path of a poll that starts with nothing in flight ends in.\<close>

definition poll_post ::
    "('w, 'c) runtime_env \<Rightarrow> ('w, 'c) cdc_runtime \<Rightarrow> ('w, 'c) cdc_runtime \<Rightarrow> event_batch result \<Rightarrow> bool" where
  "poll_post env rt rt' r \<longleftrightarrow>
     runtime_inv env rt' \<and> steady rt rt' \<and> rt_next_delivery_id rt' \<le> Suc (rt_next_delivery_id rt)
     \<and> (case r of
          Inl e \<Rightarrow> at_rest rt'
        | Inr b \<Rightarrow> batch_events b = in_flight rt' \<and> (\<exists>new. backlog rt' = backlog rt @ new))"

lemma poll_post_quiet:
  assumes "quiet rt0 rt" and "poll_post env rt rt' r"
  shows "poll_post env rt0 rt' r"
  using assms(2) quiet_facts [OF assms(1)] steady_trans
  by (fastforce simp: poll_post_def split: sum.splits)

lemma poll_post_same:
  assumes "runtime_inv env rt" and "at_rest rt" and "quiet rt rt'"
  shows "poll_post env rt rt' (Inl e)" and "poll_post env rt rt' (Inr batch_empty)"
  using assms quiet_facts [OF assms(3)] by (auto simp: poll_post_def at_rest_def in_flight_def)

lemma ingest_post:
  assumes "runtime_inv env rt" and "at_rest rt" and "rt_buffered_events rt = []" and "rt_next_delivery_id rt < u64_max"
  shows "\<exists>rt' r. ingest env chunk rt = Some (rt', r) \<and> poll_post env rt rt' r"
  by (rule ingest_ok [OF assms, of chunk]) (auto simp: poll_post_def spends_one_def split: sum.splits)

text \<open>The states every stage of the poll starts from.\<close>

definition poll_ready :: "('w, 'c) runtime_env \<Rightarrow> ('w, 'c) cdc_runtime \<Rightarrow> bool" where
  "poll_ready env rt \<longleftrightarrow>
     runtime_inv env rt \<and> at_rest rt \<and> rt_buffered_events rt = [] \<and> rt_next_delivery_id rt < u64_max"

lemma poll_ready_quiet: "poll_ready env rt \<Longrightarrow> quiet rt rt' \<Longrightarrow> poll_ready env rt'"
  using quiet_facts [of rt rt'] by (auto simp: poll_ready_def)

lemma poll_stream_post:
  assumes r: "poll_ready env rt" and p: "poll_stream env rt = Some (rt', res)"
  shows "poll_post env rt rt' res"
proof (cases "rt_stream rt")
  case None
  with r p poll_post_same [of env rt rt] show ?thesis by (auto simp: poll_stream_def poll_ready_def)
next
  case (Some h)
  have fin: "poll_post env rt rt' res"
    if "quiet rt rt1" "(case r1 of Inl e \<Rightarrow> Some (rt1, Inl e)
        | Inr es \<Rightarrow> if es = [] then Some (rt1, Inr batch_empty) else ingest env es rt1) = Some (rt', res)" for rt1 r1
  proof (cases "r1 = Inr [] \<or> (\<exists>e. r1 = Inl e)")
    case True
    with that r poll_post_same [of env rt rt1] show ?thesis by (auto simp: poll_ready_def)
  next
    case False
    then obtain es where "r1 = Inr es" "es \<noteq> []" by (cases r1) auto
    moreover from poll_ready_quiet [OF r that(1)] ingest_post obtain rt2 r2
      where "ingest env es rt1 = Some (rt2, r2)" "poll_post env rt1 rt2 r2" by (metis poll_ready_def)
    ultimately show ?thesis using that poll_post_quiet [OF that(1)] by auto
  qed
  show ?thesis
  proof (cases "opt_connection_retry (rt_options rt)")
    case None
    obtain w r1 where "env_next_events env h (opt_max_poll_wait_ms (rt_options rt)) (rt_world rt) = (w, r1)" by force
    with Some None p fin [OF quiet_world, of w r1] show ?thesis by (auto simp: poll_stream_def split: sum.splits)
  next
    case pol: (Some pol)
    with Some p obtain rt1 r1 where l: "stream_poll_loop env pol 0 (initial_delay_ms pol) rt = Some (rt1, r1)"
      by (auto simp: poll_stream_def split: option.splits)
    with stream_poll_loop_quiet have "quiet rt rt1" by fastforce
    with Some pol l p fin [of rt1 r1] show ?thesis by (auto simp: poll_stream_def split: sum.splits)
  qed
qed

lemma poll_snapshot_post:
  assumes r: "poll_ready env rt" and p: "poll_snapshot env rt = Some (rt', res)"
  shows "poll_post env rt rt' res"
proof (cases "rt_snapshot rt")
  case None
  with r p show ?thesis by (auto simp: poll_snapshot_def intro: poll_stream_post)
next
  case (Some h)
  have quiet_snap: "quiet rt (rt\<lparr>rt_world := w, rt_snapshot := s\<rparr>)"
      "quiet rt (rt\<lparr>rt_world := w, rt_handoff_complete := d, rt_snapshot := s\<rparr>)" for w s d
    by (simp_all add: quiet_def)
  have stream: "poll_post env rt rt' res" if "quiet rt rt1" "poll_stream env rt1 = Some (rt', res)" for rt1
    using poll_post_quiet [OF that(1) poll_stream_post [OF poll_ready_quiet [OF r that(1)] that(2)]] .
  have same: "poll_post env rt (rt\<lparr>rt_world := w\<rparr>) (Inl e)" for w e
    using r by (intro poll_post_same(1) quiet_world) (simp_all add: poll_ready_def)
  have chunk: "poll_post env rt rt' res" if "ingest env c (rt\<lparr>rt_world := w\<rparr>) = Some (rt', res)" for c w
    using that ingest_post [of env "rt\<lparr>rt_world := w\<rparr>" c] poll_ready_quiet [OF r quiet_world, of w]
      poll_post_quiet [OF quiet_world] by (auto simp: poll_ready_def)
  show ?thesis
    using p Some same by (auto simp: poll_snapshot_def split: prod.splits sum.splits if_splits option.splits
        intro: chunk stream [OF quiet_snap(1)] stream [OF quiet_snap(2)])
qed

lemma poll_injected_post:
  assumes r: "poll_ready env rt" and p: "poll_injected env rt = Some (rt', res)"
  shows "poll_post env rt rt' res"
proof (cases "rt_injected_events rt = []")
  case True
  with r p show ?thesis by (auto simp: poll_injected_def intro: poll_snapshot_post)
next
  case False
  let ?c = "opt_max_buffer_size (rt_options rt)"
  let ?rt = "rt\<lparr>rt_injected_events := drop ?c (rt_injected_events rt)\<rparr>"
  have "poll_ready env ?rt" using r by (simp add: poll_ready_def at_rest_def)
  with ingest_post [of env ?rt "take ?c (rt_injected_events rt)"] p False have "poll_post env ?rt rt' res"
    by (auto simp: poll_injected_def Let_def poll_ready_def)
  then show ?thesis by (auto simp: poll_post_def steady_def backlog_def in_flight_def split: sum.splits)
qed

lemma poll_queued_post:
  assumes r: "poll_ready env rt" and p: "poll_queued env rt = Some (rt', res)"
  shows "poll_post env rt rt' res"
proof (cases "rt_pending_source_events rt = []")
  case True
  with r p show ?thesis by (auto simp: poll_queued_def intro: poll_injected_post)
next
  case False
  obtain rt1 r1 where fl: "flush_pending_source_events env rt = (rt1, r1)" by force
  have ids: "spends_one rt rt1" by (rule flush_ids [OF fl])
  have fok: "runtime_inv env rt1" "steady rt rt1"
      "case r1 of Inr b \<Rightarrow> backlog rt1 = backlog rt \<and> rt_buffered_events rt1 = [] \<and> batch_events b = in_flight rt1
       | Inl e \<Rightarrow> at_rest rt1"
    using flush_ok [OF _ _ _ _ fl] r by (auto simp: poll_ready_def split: sum.splits)
  show ?thesis
  proof (cases r1)
    case (Inl e)
    with fl False p fok ids show ?thesis by (auto simp: poll_queued_def poll_post_def spends_one_def)
  next
    case (Inr b)
    show ?thesis
    proof (cases "batch_is_empty b")
      case False
      with fl Inr p fok ids \<open>rt_pending_source_events rt \<noteq> []\<close> show ?thesis
        by (auto simp: poll_queued_def poll_post_def spends_one_def)
    next
      case True
      with Inr fok have emp: "in_flight rt1 = []" by (simp add: batch_is_empty_iff)
      have rest: "at_rest rt1"
        using fok(1) emp by (auto simp: runtime_inv_def in_flight_def at_rest_def split: option.splits)
      have id: "rt_next_delivery_id rt1 = rt_next_delivery_id rt"
        using ids rest fok(2) by (auto simp: at_rest_def spends_one_def steady_def)
      with fok Inr rest r have "poll_ready env rt1" by (auto simp: poll_ready_def)
      moreover have "poll_injected env rt1 = Some (rt', res)" using fl Inr True p False by (auto simp: poll_queued_def)
      ultimately have "poll_post env rt1 rt' res" by (rule poll_injected_post)
      with fok Inr id show ?thesis using steady_trans [OF fok(2)] by (auto simp: poll_post_def split: sum.splits)
    qed
  qed
qed

end
