(* ===== verification/Runtime_Lifecycle.thy ===== *)
theory Runtime_Lifecycle
  imports Runtime_Delivery
begin

text \<open>
  Starting, running into a sink, and stopping (\<open>core/runtime/runtime_lifecycle.rs\<close>), with the
  conversion of a snapshot checkpoint into the position the stream resumes from. The loops that
  poll until something happens are partial functions: \<open>None\<close> is a loop that does not return.
\<close>

section \<open>Resuming from a snapshot checkpoint\<close>

definition is_snapshot_checkpoint :: "runtime_config \<Rightarrow> offset \<Rightarrow> bool" where
  "is_snapshot_checkpoint cfg off =
     (case source_type (cfg_source cfg) of
        None \<Rightarrow> False
      | Some s \<Rightarrow> fst off = s @ ''_snapshot'')"

definition decoded_payload :: "offset \<Rightarrow> json result" where
  "decoded_payload off =
     (case snd off of None \<Rightarrow> Inl (CheckpointError ''checkpoint payload is not JSON'') | Some v \<Rightarrow> Inr v)"

definition postgres_stream_offset_from_snapshot_checkpoint :: "string \<Rightarrow> offset \<Rightarrow> offset result" where
  "postgres_stream_offset_from_snapshot_checkpoint slot off =
     (case decoded_payload off of
        Inl e \<Rightarrow> Inl e
      | Inr v \<Rightarrow>
          (case Option.bind (json_get v ''snapshot_watermark'') as_u64 of
             None \<Rightarrow> Inl (CheckpointError ''postgres snapshot checkpoint is missing snapshot_watermark'')
           | Some lsn \<Rightarrow> Inr (postgres_offset (of_nat lsn) slot None)))"

definition mysql_stream_offset_from_snapshot_checkpoint :: "string \<Rightarrow> offset \<Rightarrow> offset result" where
  "mysql_stream_offset_from_snapshot_checkpoint flavor off =
     (case decoded_payload off of
        Inl e \<Rightarrow> Inl e
      | Inr v \<Rightarrow>
          (case Option.bind (json_get v ''binlog_file'') as_str of
             None \<Rightarrow> Inl (CheckpointError ''mysql snapshot checkpoint is missing binlog_file'')
           | Some file \<Rightarrow>
               (case Option.bind (json_get v ''binlog_pos'') as_u64 of
                  None \<Rightarrow> Inl (CheckpointError ''mysql snapshot checkpoint is missing binlog_pos'')
                | Some pos \<Rightarrow>
                    if pos > u32_max then Inl (CheckpointError ''mysql snapshot checkpoint binlog_pos exceeds u32'')
                    else
                      let gtid = (case Option.bind (json_get v ''gtid'') as_str of None \<Rightarrow> [] | Some g \<Rightarrow> g)
                      in Inr (mysql_offset flavor file pos gtid None))))"

definition upper_hex_digit :: "nat \<Rightarrow> char" where
  "upper_hex_digit d = ''0123456789ABCDEF'' ! (d mod 16)"

definition upper_hex_byte :: "nat \<Rightarrow> string" where
  "upper_hex_byte b = [upper_hex_digit (b div 16), upper_hex_digit b]"

fun lsn_bytes :: "json list \<Rightarrow> nat list result" where
  "lsn_bytes [] = Inr []"
| "lsn_bytes (v # vs) =
     (case as_u64 v of
        None \<Rightarrow> Inl (CheckpointError ''sqlserver snapshot checkpoint lsn_start contains non-byte value'')
      | Some b \<Rightarrow>
          if b > 255 then Inl (CheckpointError ''sqlserver snapshot checkpoint lsn_start contains out-of-range byte'')
          else (case lsn_bytes vs of Inl e \<Rightarrow> Inl e | Inr bs \<Rightarrow> Inr (b # bs)))"

fun as_array :: "json \<Rightarrow> json list option" where
  "as_array (JArray xs) = Some xs"
| "as_array _ = None"

definition sqlserver_stream_offset_from_snapshot_checkpoint :: "offset \<Rightarrow> offset result" where
  "sqlserver_stream_offset_from_snapshot_checkpoint off =
     (case decoded_payload off of
        Inl e \<Rightarrow> Inl e
      | Inr v \<Rightarrow>
          (case Option.bind (json_get v ''lsn_start'') as_array of
             None \<Rightarrow> Inl (CheckpointError ''sqlserver snapshot checkpoint is missing lsn_start'')
           | Some xs \<Rightarrow>
               if length xs \<noteq> 10
               then Inl (CheckpointError ''sqlserver snapshot checkpoint lsn_start must contain exactly 10 bytes'')
               else (case lsn_bytes xs of
                       Inl e \<Rightarrow> Inl e
                     | Inr bs \<Rightarrow> Inr (''sqlserver'', Some (JString (''0x'' @ concat (map upper_hex_byte bs)))))))"

text \<open>
  A MySQL configuration is labelled \<open>mysql\<close> whatever flavor it names; only the MariaDB variant of
  the configuration is labelled \<open>mariadb\<close>.
\<close>

definition stream_resume_offset_for_snapshot_checkpoint :: "runtime_config \<Rightarrow> offset \<Rightarrow> offset option result" where
  "stream_resume_offset_for_snapshot_checkpoint cfg off =
     (let wrap = (\<lambda>r. case r of Inl e \<Rightarrow> Inl e | Inr x \<Rightarrow> Inr (Some x))
      in case cfg_source cfg of
           CfgPostgres slot \<Rightarrow> wrap (postgres_stream_offset_from_snapshot_checkpoint slot off)
         | CfgMysql _ \<Rightarrow> wrap (mysql_stream_offset_from_snapshot_checkpoint ''mysql'' off)
         | CfgMariaDb \<Rightarrow> wrap (mysql_stream_offset_from_snapshot_checkpoint ''mariadb'' off)
         | CfgSqlServer _ \<Rightarrow> wrap (sqlserver_stream_offset_from_snapshot_checkpoint off)
         | CfgDisabled \<Rightarrow> Inr None)"

section \<open>Start\<close>

definition reset_run_counters :: "('w, 'c) runtime_env \<Rightarrow> ('w, 'c) cdc_runtime \<Rightarrow> ('w, 'c) cdc_runtime" where
  "reset_run_counters env rt =
     (case env_now env (rt_world rt) of
        (w', now) \<Rightarrow>
          rt\<lparr>rt_started_at_ms := Some now, rt_last_poll_at_ms := None, rt_last_source_event_ts_ms := None,
             rt_last_commit_at_ms := None, rt_total_events_polled := 0, rt_total_events_committed := 0,
             rt_total_events_deduplicated := 0, rt_total_events_skipped := 0, rt_world := w'\<rparr>)"

text \<open>The position to start from: the durable one, checked against the configured start mode.\<close>

definition start_position ::
    "('w, 'c) runtime_env \<Rightarrow> bool \<Rightarrow> ('w, 'c) cdc_runtime \<Rightarrow> offset option result" where
  "start_position env tls rt =
     (case env_load env (rt_checkpoint rt) of
        Inl e \<Rightarrow> Inl e
      | Inr None \<Rightarrow> Inr None
      | Inr (Some off) \<Rightarrow>
          if \<not> is_snapshot_checkpoint (rt_config rt) off then Inr (Some off)
          else if cfg_incremental_snapshot (rt_config rt) \<noteq> None
          then Inl (ConfigError ''cannot resume incremental snapshot startup from a snapshot checkpoint'')
          else if \<not> cap_snapshot_checkpoint_resume (capabilities tls (cfg_source (rt_config rt))) then Inr None
          else if cfg_snapshot_tables (rt_config rt) = []
          then Inl (ConfigError ''snapshot_tables must not be empty when resuming from a snapshot checkpoint'')
          else Inr (Some off))"

text \<open>Opening the snapshot and stream handles. An early return keeps the handles opened before it.\<close>

definition start_handles ::
    "('w, 'c) runtime_env \<Rightarrow> offset option \<Rightarrow> ('w, 'c) cdc_runtime \<Rightarrow> ('w, 'c) cdc_runtime \<times> unit result" where
  "start_handles env pos rt =
     (let stream_from = (\<lambda>off snap handoff r.
            case source_start_stream env (rt_source r) off (rt_world r) of
              (w', Inl e) \<Rightarrow> (r\<lparr>rt_world := w'\<rparr>, Inl e)
            | (w', Inr h) \<Rightarrow> (r\<lparr>rt_world := w', rt_stream := Some h, rt_snapshot := snap,
                rt_handoff_complete := handoff\<rparr>, Inr ()))
      in case cfg_incremental_snapshot (rt_config rt) of
           Some inc \<Rightarrow>
             (case source_start_incremental_snapshot env (rt_source rt) inc pos (rt_world rt) of
                (w', Inl e) \<Rightarrow> (rt\<lparr>rt_world := w', rt_snapshot := None\<rparr>, Inl e)
              | (w', Inr h) \<Rightarrow>
                  (rt\<lparr>rt_world := w', rt_snapshot := None, rt_stream := Some h, rt_handoff_complete := True\<rparr>, Inr ()))
         | None \<Rightarrow>
             (case pos of
                Some off \<Rightarrow>
                  if is_snapshot_checkpoint (rt_config rt) off
                  then (case source_start_snapshot_from_checkpoint env (rt_source rt)
                               (cfg_snapshot_tables (rt_config rt)) off (rt_world rt) of
                          (w', Inl e) \<Rightarrow> (rt\<lparr>rt_world := w'\<rparr>, Inl e)
                        | (w', Inr h) \<Rightarrow>
                            (let rt1 = rt\<lparr>rt_world := w', rt_snapshot := Some h\<rparr>
                             in case stream_resume_offset_for_snapshot_checkpoint (rt_config rt) off of
                                  Inl e \<Rightarrow> (rt1, Inl e)
                                | Inr None \<Rightarrow>
                                    (rt1, Inl (StateError ''cannot resume streaming after snapshot checkpoint''))
                                | Inr (Some from) \<Rightarrow> stream_from (Some from) (Some h) False rt1))
                  else stream_from (Some off) None True rt
              | None \<Rightarrow>
                  if cfg_snapshot_tables (rt_config rt) = [] then stream_from None None True (rt\<lparr>rt_snapshot := None\<rparr>)
                  else (case source_start_snapshot env (rt_source rt) (cfg_snapshot_tables (rt_config rt)) (rt_world rt) of
                          (w', Inl e) \<Rightarrow> (rt\<lparr>rt_world := w'\<rparr>, Inl e)
                        | (w', Inr h) \<Rightarrow>
                            stream_from None (Some h) False (rt\<lparr>rt_world := w', rt_snapshot := Some h\<rparr>))))"

definition start_source ::
    "('w, 'c) runtime_env \<Rightarrow> bool \<Rightarrow> ('w, 'c) cdc_runtime \<Rightarrow> ('w, 'c) cdc_runtime \<times> unit result" where
  "start_source env tls rt =
     (if cfg_incremental_snapshot (rt_config rt) \<noteq> None \<and> cfg_snapshot_tables (rt_config rt) \<noteq> []
      then (rt, Inl (ConfigError ''cannot configure both snapshot_tables and incremental_snapshot''))
      else case start_position env tls rt of
             Inl e \<Rightarrow> (rt, Inl e)
           | Inr pos \<Rightarrow>
               (case source_connect env (rt_source rt) (rt_world rt) of
                  (w', Inl e) \<Rightarrow> (rt\<lparr>rt_world := w'\<rparr>, Inl e)
                | (w', Inr _) \<Rightarrow> start_handles env pos (rt\<lparr>rt_world := w'\<rparr>)))"

definition start ::
    "('w, 'c) runtime_env \<Rightarrow> bool \<Rightarrow> ('w, 'c) cdc_runtime \<Rightarrow> ('w, 'c) cdc_runtime \<times> unit result" where
  "start env tls rt =
     (if rt_state rt = Running then (rt, Inl (StateError ''runtime already started''))
      else if rt_state rt = Stopping then (rt, Inl (StateError ''runtime is currently stopping''))
      else case env_committed_count env (rt_checkpoint rt) of
             Inl e \<Rightarrow> (rt, Inl e)
           | Inr n \<Rightarrow>
               (case hydrate_committed_event_count n (rt_commit_barrier rt) of
                  (b, Inl e) \<Rightarrow> (rt\<lparr>rt_commit_barrier := b\<rparr>, Inl e)
                | (b, Inr _) \<Rightarrow>
                    (case (if rt_source rt = SrcDisabled then (rt\<lparr>rt_commit_barrier := b\<rparr>, Inr ())
                           else start_source env tls (rt\<lparr>rt_commit_barrier := b\<rparr>)) of
                       (rt1, Inl e) \<Rightarrow> (rt1, Inl e)
                     | (rt1, Inr _) \<Rightarrow> (reset_run_counters env (rt1\<lparr>rt_state := Running\<rparr>), Inr ()))))"

section \<open>Stop\<close>

definition close_registered_sink ::
    "('w, 'c) runtime_env \<Rightarrow> ('w, 'c) cdc_runtime \<Rightarrow> ('w, 'c) cdc_runtime \<times> unit result" where
  "close_registered_sink env rt =
     (if \<not> rt_registered_sink rt then (rt, Inr ())
      else case env_sink_close env (opt_sink_close_timeout_ms (rt_options rt)) (rt_world rt) of
             (w', r) \<Rightarrow> (rt\<lparr>rt_world := w', rt_registered_sink := False\<rparr>, r))"

definition release_source :: "('w, 'c) runtime_env \<Rightarrow> ('w, 'c) cdc_runtime \<Rightarrow> ('w, 'c) cdc_runtime" where
  "release_source env rt =
     rt\<lparr>rt_delivered_not_committed := 0, rt_pending_delivery := None,
        rt_world := source_close env (rt_source rt) (rt_world rt), rt_snapshot := None, rt_stream := None,
        rt_started_at_ms := None, rt_last_source_event_ts_ms := None, rt_state := Stopped\<rparr>"

definition stop ::
    "('w, 'c) runtime_env \<Rightarrow> ('w, 'c) cdc_runtime \<Rightarrow> ('w, 'c) cdc_runtime \<times> event list result" where
  "stop env rt =
     (case rt_state rt of
        Idle \<Rightarrow> (rt\<lparr>rt_state := Stopped\<rparr>, Inr [])
      | Stopped \<Rightarrow> (rt, Inr [])
      | Stopping \<Rightarrow> (rt, Inl (StateError ''runtime already stopping''))
      | Running \<Rightarrow>
          if pending_count (rt_commit_barrier rt) + length (rt_injected_events rt)
             + length (rt_pending_source_events rt) > 0
          then (rt, Inl (StateError ''runtime has uncommitted events''))
          else case close_registered_sink env (release_source env rt) of
                 (rt', Inl e) \<Rightarrow> (rt', Inl e)
               | (rt', Inr _) \<Rightarrow> (rt', Inr []))"

definition force_stop ::
    "('w, 'c) runtime_env \<Rightarrow> ('w, 'c) cdc_runtime \<Rightarrow> ('w, 'c) cdc_runtime \<times> event list result" where
  "force_stop env rt =
     (case rt_state rt of
        Idle \<Rightarrow> (rt\<lparr>rt_state := Stopped\<rparr>, Inr [])
      | Stopped \<Rightarrow> (rt, Inr [])
      | Stopping \<Rightarrow> (rt, Inl (StateError ''runtime already stopping''))
      | Running \<Rightarrow>
          (let drained = (case rt_pending_delivery rt of
                            None \<Rightarrow> []
                          | Some p \<Rightarrow> drop (pd_committed_prefix p) (pd_events p))
                         @ rt_buffered_events rt @ rt_pending_source_events rt @ rt_injected_events rt
           in case close_registered_sink env (release_source env
                     (rt\<lparr>rt_buffered_events := [], rt_pending_source_events := [], rt_injected_events := [],
                         rt_commit_barrier := clear_pending (rt_commit_barrier rt)\<rparr>)) of
                (rt', Inl e) \<Rightarrow> (rt', Inl e)
              | (rt', Inr _) \<Rightarrow> (rt', Inr drained)))"

partial_function (option) drain_loop ::
    "('w, 'c) runtime_env \<Rightarrow> event list \<Rightarrow> ('w, 'c) cdc_runtime \<Rightarrow> (('w, 'c) cdc_runtime \<times> event list result) option" where
  "drain_loop env drained rt =
     (case poll_event_batch env rt of
        None \<Rightarrow> None
      | Some (rt1, Inl e) \<Rightarrow> Some (rt1, Inl e)
      | Some (rt1, Inr b) \<Rightarrow>
          if batch_is_empty b then Some (rt1, Inr drained)
          else (case commit_ack env (batch_ack_mode b) rt1 of
                  (rt2, Inl e) \<Rightarrow> Some (rt2, Inl e)
                | (rt2, Inr _) \<Rightarrow> drain_loop env (drained @ batch_into_events b) rt2))"

definition drain_and_stop ::
    "('w, 'c) runtime_env \<Rightarrow> ('w, 'c) cdc_runtime \<Rightarrow> (('w, 'c) cdc_runtime \<times> event list result) option" where
  "drain_and_stop env rt =
     (case drain_loop env [] rt of
        None \<Rightarrow> None
      | Some (rt1, Inl e) \<Rightarrow> Some (rt1, Inl e)
      | Some (rt1, Inr drained) \<Rightarrow>
          (case stop env rt1 of
             (rt2, Inl e) \<Rightarrow> Some (rt2, Inl e)
           | (rt2, Inr _) \<Rightarrow> Some (rt2, Inr drained)))"

section \<open>Running into a sink\<close>

fun send_all :: "('w, 'c) runtime_env \<Rightarrow> event list \<Rightarrow> 'w \<Rightarrow> 'w \<times> unit result" where
  "send_all env [] w = (w, Inr ())"
| "send_all env (e # es) w =
     (case env_sink_send env e w of
        (w', Inl err) \<Rightarrow> (w', Inl err)
      | (w', Inr _) \<Rightarrow> send_all env es w')"

text \<open>The body of the loop for a batch that is not empty: send, flush, acknowledge.\<close>

definition deliver_to_sink ::
    "('w, 'c) runtime_env \<Rightarrow> event_batch \<Rightarrow> ('w, 'c) cdc_runtime \<Rightarrow> ('w, 'c) cdc_runtime \<times> unit result" where
  "deliver_to_sink env b rt =
     (case send_all env (batch_events b) (rt_world rt) of
        (w1, Inl e) \<Rightarrow> (rt\<lparr>rt_world := w1\<rparr>, Inl e)
      | (w1, Inr _) \<Rightarrow>
          (case env_sink_flush env w1 of
             (w2, Inl e) \<Rightarrow> (rt\<lparr>rt_world := w2\<rparr>, Inl e)
           | (w2, Inr _) \<Rightarrow> commit_ack env (batch_ack_mode b) (rt\<lparr>rt_world := w2\<rparr>)))"

partial_function (option) run_sink_loop ::
    "('w, 'c) runtime_env \<Rightarrow> nat \<Rightarrow> ('w, 'c) cdc_runtime \<Rightarrow> (('w, 'c) cdc_runtime \<times> nat result) option" where
  "run_sink_loop env delivered rt =
     (case env_cancelled env (rt_world rt) of
        (w0, cancelled) \<Rightarrow>
          if cancelled then Some (rt\<lparr>rt_world := w0\<rparr>, Inr delivered)
          else (case poll_event_batch env (rt\<lparr>rt_world := w0\<rparr>) of
                  None \<Rightarrow> None
                | Some (rt1, Inl e) \<Rightarrow> Some (rt1, Inl e)
                | Some (rt1, Inr b) \<Rightarrow>
                    if batch_is_empty b then run_sink_loop env delivered rt1
                    else (case deliver_to_sink env b rt1 of
                            (rt2, Inl e) \<Rightarrow> Some (rt2, Inl e)
                          | (rt2, Inr _) \<Rightarrow> run_sink_loop env (sat_add64 delivered (batch_len b)) rt2)))"

definition run_to_completion ::
    "('w, 'c) runtime_env \<Rightarrow> ('w, 'c) cdc_runtime \<Rightarrow> (('w, 'c) cdc_runtime \<times> nat result) option" where
  "run_to_completion env rt =
     (if \<not> rt_registered_sink rt then Some (rt, Inl (ConfigError ''run_to_completion needs a sink to deliver to''))
      else case run_sink_loop env 0 (rt\<lparr>rt_registered_sink := False\<rparr>) of
             None \<Rightarrow> None
           | Some (rt', r) \<Rightarrow> Some (rt'\<lparr>rt_registered_sink := True\<rparr>, r))"

end
