(* ===== verification/Runtime_Api.thy ===== *)
theory Runtime_Api
  imports Runtime_Lifecycle
begin

text \<open>
  What the runtime guarantees its caller: redelivery until acknowledged, all-or-nothing
  acknowledgement, single-use tokens, order and completeness over any sequence of calls, bounded
  polls, and what each way of stopping does with the events still held.
\<close>

section \<open>One poll\<close>

lemma current_batch_in_flight: "current_pending_batch rt = Some b \<Longrightarrow> batch_events b = in_flight rt"
  by (auto simp: current_pending_batch_def batch_events_def in_flight_def split: option.splits)

lemma apply_control_quiet: "quiet rt (fst (apply_control env c rt))"
  by (auto simp: apply_control_def quiet_world split: option.split prod.split)

lemma service_control_quiet: "quiet rt (service_control_commands env rt)"
proof -
  have "quiet r (fold (\<lambda>c r. fst (apply_control env c r)) cs r)" for cs r
    by (induction cs arbitrary: r) (auto intro: quiet_trans apply_control_quiet)
  from quiet_trans [OF _ this] show ?thesis
    by (auto simp: service_control_commands_def Let_def quiet_def)
qed

lemma retry_confirmation_quiet: "quiet rt (retry_pending_confirmation env rt)"
  by (auto simp: retry_pending_confirmation_def quiet_def split: option.split prod.split sum.split)

lemma poll_prologue_quiet: "quiet rt (retry_pending_confirmation env (service_control_commands env rt))"
  using quiet_trans [OF service_control_quiet retry_confirmation_quiet] .

lemma deliver_post:
  assumes "runtime_inv env rt" and "at_rest rt" and "rt_next_delivery_id rt < u64_max"
    and "deliver_buffered_batch env rt = (rt', b)"
  shows "poll_post env rt rt' (Inr b)"
proof -
  note d = deliver_ok [OF assms(1,2,4,3)]
  have "in_flight rt = []" using assms(2) by (simp add: at_rest_def in_flight_def)
  with d deliver_ids [OF assms(4)] show ?thesis by (auto simp: poll_post_def steady_def backlog_def spends_one_def)
qed

lemma poll_ok:
  assumes inv: "runtime_inv env rt" and id: "rt_next_delivery_id rt < u64_max"
    and p: "poll_event_batch env rt = Some (rt', r)"
  shows "runtime_inv env rt' \<and> steady rt rt' \<and> rt_next_delivery_id rt' \<le> Suc (rt_next_delivery_id rt)
    \<and> (case r of
         Inl e \<Rightarrow> in_flight rt' = in_flight rt
       | Inr b \<Rightarrow> batch_events b = in_flight rt' \<and> (\<exists>new. backlog rt' = backlog rt @ new))"
proof (cases "rt_state rt = Running \<and> current_pending_batch rt = None")
  case False
  with p inv show ?thesis
    by (auto simp: poll_event_batch_def current_batch_in_flight split: if_splits option.splits)
next
  case True
  then have rest: "at_rest rt" and emp: "in_flight rt = []"
    by (auto simp: current_pending_batch_def at_rest_def in_flight_def split: option.splits)
  define rt1 where "rt1 = retry_pending_confirmation env (service_control_commands env rt)"
  have q: "quiet rt rt1" unfolding rt1_def by (rule poll_prologue_quiet)
  note qf = quiet_facts [OF q]
  have inv1: "runtime_inv env rt1" and rest1: "at_rest rt1" and id1: "rt_next_delivery_id rt1 < u64_max"
    using qf(1) [OF inv] qf(2,8) rest id by auto
  have "poll_post env rt1 rt' r"
  proof (cases "rt_buffered_events rt1 = []")
    case False
    obtain rt2 b where d: "deliver_buffered_batch env rt1 = (rt2, b)" by force
    with True p False have "rt' = rt2" "r = Inr b" by (auto simp: poll_event_batch_def Let_def rt1_def)
    with deliver_post [OF inv1 rest1 id1 d] show ?thesis by simp
  next
    case True
    then have "poll_ready env rt1" using inv1 rest1 id1 by (simp add: poll_ready_def)
    moreover have "poll_queued env rt1 = Some (rt', r)"
      using p True \<open>rt_state rt = Running \<and> current_pending_batch rt = None\<close>
      by (auto simp: poll_event_batch_def Let_def rt1_def)
    ultimately show ?thesis by (rule poll_queued_post)
  qed
  from poll_post_quiet [OF q this] emp show ?thesis
    by (auto simp: poll_post_def at_rest_def in_flight_def split: sum.splits)
qed

text \<open>A non-empty batch carries a token for exactly the events in flight.\<close>

definition batch_current :: "('w, 'c) cdc_runtime \<Rightarrow> event_batch \<Rightarrow> bool" where
  "batch_current rt b \<longleftrightarrow> (\<exists>p. rt_pending_delivery rt = Some p \<and> current_pending_batch rt = Some b)"

lemma deliver_current:
  "deliver_buffered_batch env rt = (rt', b) \<Longrightarrow> \<not> batch_is_empty b \<Longrightarrow> batch_current rt' b"
  by (auto simp: deliver_buffered_batch_def Let_def batch_current_def current_pending_batch_def
      batch_empty_def batch_is_empty_def batch_len_def split: if_splits prod.splits)

lemma flush_current:
  assumes "flush_pending_source_events env rt = (rt', Inr b)" and "\<not> batch_is_empty b"
  shows "batch_current rt' b"
proof -
  have buf: "batch_current rt' b" if "buffer_and_deliver env c rt1 = (rt', Inr b)" for c rt1
    using that assms(2) deliver_current
    by (auto simp: buffer_and_deliver_def split: prod.splits sum.splits)
  show ?thesis
    using assms by (auto simp: flush_pending_source_events_def Let_def split: if_splits prod.splits dest: buf)
qed

lemma ingest_current:
  "ingest env c rt = Some (rt', Inr b) \<Longrightarrow> \<not> batch_is_empty b \<Longrightarrow> batch_current rt' b"
  by (auto simp: ingest_def split: option.splits sum.splits prod.splits dest: flush_current)

lemma poll_stream_current:
  "poll_stream env rt = Some (rt', Inr b) \<Longrightarrow> \<not> batch_is_empty b \<Longrightarrow> batch_current rt' b"
  by (auto simp: poll_stream_def split: option.splits sum.splits prod.splits if_splits dest: ingest_current)

lemma poll_injected_current:
  "poll_injected env rt = Some (rt', Inr b) \<Longrightarrow> \<not> batch_is_empty b \<Longrightarrow> batch_current rt' b"
  by (auto simp: poll_injected_def poll_snapshot_def Let_def split: option.splits sum.splits prod.splits if_splits
      dest: ingest_current poll_stream_current)

lemma poll_current:
  assumes p: "poll_event_batch env rt = Some (rt', Inr b)" and ne: "\<not> batch_is_empty b"
  shows "batch_current rt' b"
proof (cases "current_pending_batch rt")
  case (Some b')
  with p show ?thesis
    by (auto simp: poll_event_batch_def batch_current_def current_pending_batch_def split: if_splits option.splits)
next
  case None
  have "batch_current rt' b" if "poll_queued env rt1 = Some (rt', Inr b)" for rt1
    using that ne by (auto simp: poll_queued_def split: sum.splits prod.splits if_splits
        dest: flush_current poll_injected_current)
  with p None ne show ?thesis
    by (auto simp: poll_event_batch_def Let_def split: if_splits prod.splits dest: deliver_current)
qed

section \<open>One acknowledgement\<close>

lemma runtime_inv_cong:
  assumes "rt_config rt' = rt_config rt" "rt_commit_barrier rt' = rt_commit_barrier rt"
    "rt_pending_delivery rt' = rt_pending_delivery rt" "rt_buffered_events rt' = rt_buffered_events rt"
    "rt_delivered_not_committed rt' = rt_delivered_not_committed rt"
    "rt_next_delivery_id rt' = rt_next_delivery_id rt" "rt_idempotency_guard rt' = rt_idempotency_guard rt"
  shows "runtime_inv env rt' = runtime_inv env rt"
  unfolding runtime_inv_def in_flight_def assms by (rule refl)

text \<open>
  Acknowledging either leaves the runtime as it was, up to the world and the store, or settles the
  token's events: they leave the front of the in-flight list, and the epoch of what remains moves
  past the token's.
\<close>

lemma commit_ack_outcome:
  assumes inv: "runtime_inv env rt" and c: "commit_ack env mode rt = (rt', r)"
  obtains (kept) w cp where "rt' = rt\<lparr>rt_world := w, rt_checkpoint := cp\<rparr>"
      and "r = Inr () \<longrightarrow> (\<forall>t. mode = Required t \<longrightarrow> tok_event_count t = 0)"
  | (settled) t p where "mode = Required t" and "rt_pending_delivery rt = Some p"
      and "pd_delivery_id p = tok_delivery_id t" and "pd_ack_epoch p = tok_epoch t"
      and "0 < tok_event_count t" and "tok_event_count t \<le> length (in_flight rt)"
      and "commit_prefix env (tok_event_count t) rt = (rt', r)"
      and "runtime_inv env rt'" and "in_flight rt' = drop (tok_event_count t) (in_flight rt)"
      and "rt_buffered_events rt' = rt_buffered_events rt" "rt_pending_source_events rt' = rt_pending_source_events rt"
      and "rt_injected_events rt' = rt_injected_events rt" "rt_next_delivery_id rt' = rt_next_delivery_id rt"
      and "rt_config rt' = rt_config rt" "rt_state rt' = rt_state rt"
      and "\<forall>p'. rt_pending_delivery rt' = Some p' \<longrightarrow>
             pd_delivery_id p' = pd_delivery_id p \<and> pd_ack_epoch p' = pd_ack_epoch p + 1"
      and "r = Inr () \<or> r = Inl (PostCommitConfirmFailed True ''stream confirm_lsn'')"
proof (cases "\<exists>t p. mode = Required t \<and> rt_pending_delivery rt = Some p \<and> pd_delivery_id p = tok_delivery_id t
    \<and> pd_ack_epoch p = tok_epoch t \<and> 0 < tok_event_count t \<and> tok_event_count t \<le> length (in_flight rt)")
  case False
  have dn: "rt_delivered_not_committed rt = length (in_flight rt)" using inv by (simp add: runtime_inv_def)
  have "rt' = rt \<and> (r = Inr () \<longrightarrow> (\<forall>t. mode = Required t \<longrightarrow> tok_event_count t = 0))"
    using c False dn by (auto simp: commit_ack_def commit_prefix_def split: ack_mode.splits option.splits if_splits)
  then have "rt' = rt\<lparr>rt_world := rt_world rt, rt_checkpoint := rt_checkpoint rt\<rparr>"
    "r = Inr () \<longrightarrow> (\<forall>t. mode = Required t \<longrightarrow> tok_event_count t = 0)" by simp_all
  then show thesis by (rule kept)
next
  case True
  then obtain t p where m: "mode = Required t" "rt_pending_delivery rt = Some p"
    "pd_delivery_id p = tok_delivery_id t" "pd_ack_epoch p = tok_epoch t" "0 < tok_event_count t"
    "tok_event_count t \<le> length (in_flight rt)" by blast
  let ?n = "tok_event_count t"
  from c m have cp: "commit_prefix env ?n rt = (rt', r)" by (simp add: commit_ack_def)
  show thesis
  proof (rule commit_prefix_outcome [OF inv m(5,6) cp])
    fix w cp' e assume "rt' = rt\<lparr>rt_world := w, rt_checkpoint := cp'\<rparr>" "r = Inl e"
    then show thesis by (intro kept) auto
  next
    fix w1 cp1 w2 cp2 l q
    let ?b = "rt_commit_barrier rt"
    let ?rt1 = "rt\<lparr>rt_commit_barrier := drain_committed ?n (wrap_add64 (committed_event_count ?b) ?n) ?b,
          rt_checkpoint := cp2, rt_world := w2, rt_pending_confirmation_lsn := l, rt_unconfirmed_stall_polls := q\<rparr>"
    assume rt': "rt' = settle_commit env ?n ?rt1" and r: "r = Inr () \<or> r = Inl (PostCommitConfirmFailed True ''stream confirm_lsn'')"
    have inv': "runtime_inv env rt'" unfolding rt' by (rule settle_inv [OF inv m(5,6) refl])
    have fl: "in_flight rt' = drop ?n (in_flight rt)"
      unfolding rt' settle_in_flight by (simp add: in_flight_def)
    obtain w3 now where now: "env_now env w2 = (w3, now)" by force
    have fields: "rt_buffered_events rt' = rt_buffered_events rt"
      "rt_pending_source_events rt' = rt_pending_source_events rt"
      "rt_injected_events rt' = rt_injected_events rt" "rt_next_delivery_id rt' = rt_next_delivery_id rt"
      "rt_config rt' = rt_config rt" "rt_state rt' = rt_state rt"
      by (simp_all add: rt' settle_commit_def now)
    have "pd_ack_epoch p < u64_max" using inv m(2) by (auto simp: runtime_inv_def)
    then have ep: "sat_add64 (pd_ack_epoch p) 1 = pd_ack_epoch p + 1" by (intro sat_add64_small) simp
    have "\<forall>p'. rt_pending_delivery rt' = Some p' \<longrightarrow>
        pd_delivery_id p' = pd_delivery_id p \<and> pd_ack_epoch p' = pd_ack_epoch p + 1"
      using m(2) ep by (auto simp: rt' settle_commit_def now split: if_splits)
    from settled [OF m cp inv' fl fields this r] show thesis .
  qed
qed

lemma commit_ack_ok:
  assumes inv: "runtime_inv env rt" and c: "commit_ack env mode rt = (rt', r)"
  shows "runtime_inv env rt' \<and> rt_next_delivery_id rt' = rt_next_delivery_id rt
    \<and> rt_config rt' = rt_config rt \<and> rt_state rt' = rt_state rt
    \<and> rt_injected_events rt' = rt_injected_events rt
    \<and> in_flight rt' = drop (length (in_flight rt) - length (in_flight rt')) (in_flight rt)
    \<and> backlog rt = take (length (in_flight rt) - length (in_flight rt')) (in_flight rt) @ backlog rt'"
  using assms
proof (cases rule: commit_ack_outcome)
  case (kept w cp)
  have "runtime_inv env rt' = runtime_inv env rt" by (rule runtime_inv_cong) (simp_all add: kept)
  with kept inv show ?thesis by (simp add: in_flight_def backlog_def)
next
  case (settled t p)
  let ?n = "tok_event_count t"
  have n: "length (in_flight rt) - length (in_flight rt') = ?n"
    using settled by simp
  have "in_flight rt @ x = take ?n (in_flight rt) @ in_flight rt' @ x" for x
    unfolding settled(9) by (metis append.assoc append_take_drop_id)
  then show ?thesis
    unfolding n backlog_def settled(10,11) using settled by simp
qed

section \<open>Start and stop\<close>

text \<open>The handles, the flags and the clock fields a start or a stop sets.\<close>

definition same_events :: "('w, 'c) cdc_runtime \<Rightarrow> ('w, 'c) cdc_runtime \<Rightarrow> bool" where
  "same_events rt rt' \<longleftrightarrow>
     rt_config rt' = rt_config rt \<and> rt_pending_delivery rt' = rt_pending_delivery rt
     \<and> rt_buffered_events rt' = rt_buffered_events rt \<and> rt_pending_source_events rt' = rt_pending_source_events rt
     \<and> rt_injected_events rt' = rt_injected_events rt \<and> rt_next_delivery_id rt' = rt_next_delivery_id rt
     \<and> rt_delivered_not_committed rt' = rt_delivered_not_committed rt
     \<and> rt_idempotency_guard rt' = rt_idempotency_guard rt \<and> rt_checkpoint rt' = rt_checkpoint rt
     \<and> rt_source rt' = rt_source rt"

lemma same_events_refl [simp]: "same_events rt rt"
  by (simp add: same_events_def)

lemma same_events_trans: "same_events a b \<Longrightarrow> same_events b c \<Longrightarrow> same_events a c"
  by (simp add: same_events_def)

lemma same_events_facts:
  assumes "same_events rt rt'"
  shows "in_flight rt' = in_flight rt" and "backlog rt' = backlog rt"
    and "rt_commit_barrier rt' = rt_commit_barrier rt \<Longrightarrow> runtime_inv env rt' = runtime_inv env rt"
proof -
  show "in_flight rt' = in_flight rt" "backlog rt' = backlog rt"
    using assms by (simp_all add: same_events_def in_flight_def backlog_def)
  show "runtime_inv env rt' = runtime_inv env rt" if "rt_commit_barrier rt' = rt_commit_barrier rt"
    using assms that unfolding same_events_def by (intro runtime_inv_cong) blast+
qed

lemma start_handles_frame:
  "start_handles env pos rt = (rt', r) \<Longrightarrow>
   same_events rt rt' \<and> rt_commit_barrier rt' = rt_commit_barrier rt \<and> rt_state rt' = rt_state rt"
  by (auto simp: start_handles_def same_events_def Let_def
      split: option.splits prod.splits sum.splits if_splits)

lemma reset_counters_frame:
  "same_events rt (reset_run_counters env rt) \<and> rt_commit_barrier (reset_run_counters env rt) = rt_commit_barrier rt
   \<and> rt_state (reset_run_counters env rt) = rt_state rt \<and> rt_stream (reset_run_counters env rt) = rt_stream rt"
  by (auto simp: reset_run_counters_def same_events_def split: prod.split)

lemma hydrate_keeps_inv:
  assumes "runtime_inv env rt" and "hydrate_committed_event_count n (rt_commit_barrier rt) = (b, r)"
    and "same_events rt rt'" and "rt_commit_barrier rt' = b"
  shows "runtime_inv env rt'"
proof -
  let ?b = "rt_commit_barrier rt"
  have b: "pending_records b = pending_records ?b" "max_buffer_size b = max_buffer_size ?b"
    "barrier_inv b" "accepted_of b = accepted_of ?b"
    using assms(1,2) barrier_inv_hydrate
    by (auto simp: hydrate_committed_event_count_def runtime_inv_def accepted_of_def barrier_inv_def split: if_splits)
  have e: "rt_config rt' = rt_config rt" "in_flight rt' = in_flight rt" "rt_buffered_events rt' = rt_buffered_events rt"
    "rt_delivered_not_committed rt' = rt_delivered_not_committed rt" "rt_pending_delivery rt' = rt_pending_delivery rt"
    "rt_next_delivery_id rt' = rt_next_delivery_id rt" "rt_idempotency_guard rt' = rt_idempotency_guard rt"
    using assms(3) by (auto simp: same_events_def in_flight_def)
  show ?thesis using assms(1) b unfolding runtime_inv_def e assms(4) by simp
qed

lemma start_source_frame:
  assumes "start_source env tls rt = (rt', r)"
  shows "same_events rt rt' \<and> rt_commit_barrier rt' = rt_commit_barrier rt \<and> rt_state rt' = rt_state rt"
proof -
  have w: "same_events rt (rt\<lparr>rt_world := w\<rparr>)" for w by (simp add: same_events_def)
  have h: ?thesis if "start_handles env pos (rt\<lparr>rt_world := w\<rparr>) = (rt', r)" for pos w
    using start_handles_frame [OF that] same_events_trans [OF w] by auto
  show ?thesis
    using assms by (auto simp: start_source_def w split: if_splits sum.splits prod.splits dest: h)
qed

lemma start_ok:
  assumes inv: "runtime_inv env rt" and s: "start env tls rt = (rt', r)"
  shows "runtime_inv env rt' \<and> same_events rt rt'
    \<and> (case r of Inl e \<Rightarrow> rt_state rt' = rt_state rt | Inr u \<Rightarrow> rt_state rt' = Running)"
proof (cases "rt_state rt = Running \<or> rt_state rt = Stopping \<or> (\<exists>e. env_committed_count env (rt_checkpoint rt) = Inl e)")
  case True
  with s inv show ?thesis by (auto simp: start_def split: if_splits)
next
  case False
  then obtain n where n: "env_committed_count env (rt_checkpoint rt) = Inr n"
    by (cases "env_committed_count env (rt_checkpoint rt)") auto
  obtain b rb where h: "hydrate_committed_event_count n (rt_commit_barrier rt) = (b, rb)" by force
  let ?rt0 = "rt\<lparr>rt_commit_barrier := b\<rparr>"
  note fin = hydrate_keeps_inv [OF inv h]
  have s0: "same_events rt ?rt0" by (simp add: same_events_def)
  show ?thesis
  proof (cases rb)
    case (Inl e)
    with s False n h have "rt' = ?rt0" "r = Inl e" by (auto simp: start_def)
    with fin [OF s0] s0 show ?thesis by simp
  next
    case (Inr u)
    obtain rt1 r1 where src: "(if rt_source rt = SrcDisabled then (?rt0, Inr ()) else start_source env tls ?rt0) = (rt1, r1)"
      by (cases "if rt_source rt = SrcDisabled then (?rt0, Inr ()) else start_source env tls ?rt0") auto
    have "same_events ?rt0 rt1 \<and> rt_commit_barrier rt1 = b \<and> rt_state rt1 = rt_state rt"
      using src start_source_frame [of env tls ?rt0 rt1 r1] by (cases "rt_source rt = SrcDisabled") auto
    with same_events_trans [OF s0] have fr: "same_events rt rt1" "rt_commit_barrier rt1 = b" "rt_state rt1 = rt_state rt"
      by blast+
    let ?rt2 = "reset_run_counters env (rt1\<lparr>rt_state := Running\<rparr>)"
    have "same_events rt1 (rt1\<lparr>rt_state := Running\<rparr>)" by (simp add: same_events_def)
    from same_events_trans [OF fr(1) this] have run: "same_events rt ?rt2" "rt_commit_barrier ?rt2 = b" "rt_state ?rt2 = Running"
      using reset_counters_frame [of "rt1\<lparr>rt_state := Running\<rparr>" env] fr(2) same_events_trans by auto
    have "(rt', r) = (case r1 of Inl e \<Rightarrow> (rt1, Inl e) | Inr _ \<Rightarrow> (?rt2, Inr ()))"
      using s False n h Inr src by (simp add: start_def split: sum.split)
    then consider e where "rt' = rt1" "r = Inl e" | "rt' = ?rt2" "r = Inr ()"
      by (auto split: sum.splits)
    then show ?thesis
    proof cases
      case 1
      with fin [OF fr(1,2)] fr show ?thesis by simp
    next
      case 2
      with fin [OF run(1,2)] run show ?thesis by simp
    qed
  qed
qed

lemma close_sink_frame:
  "close_registered_sink env rt = (rt', r) \<Longrightarrow>
   same_events rt rt' \<and> rt_commit_barrier rt' = rt_commit_barrier rt \<and> rt_state rt' = rt_state rt"
  by (auto simp: close_registered_sink_def same_events_def split: if_splits prod.splits)

lemma pending_count_backlog:
  "runtime_inv env rt \<Longrightarrow> pending_count (rt_commit_barrier rt) = length (in_flight rt) + length (rt_buffered_events rt)"
  by (auto simp: runtime_inv_def pending_count_def dest: list_all2_lengthD)

lemma stop_ok:
  assumes inv: "runtime_inv env rt" and s: "stop env rt = (rt', r)"
  shows "runtime_inv env rt' \<and> backlog rt' = backlog rt \<and> rt_injected_events rt' = rt_injected_events rt
    \<and> rt_next_delivery_id rt' = rt_next_delivery_id rt
    \<and> (\<forall>p. rt_pending_delivery rt' = Some p \<longrightarrow> rt_pending_delivery rt = Some p)"
proof (cases "rt_state rt = Running \<and> backlog rt = [] \<and> rt_injected_events rt = []")
  case True
  note pc = pending_count_backlog [OF inv]
  obtain rt1 r1 where c: "close_registered_sink env (release_source env rt) = (rt1, r1)" by force
  have rt1: "rt' = rt1" using True c s pc by (auto simp: stop_def backlog_def split: sum.splits)
  have fr: "same_events (release_source env rt) rt1" "rt_commit_barrier rt1 = rt_commit_barrier rt"
    using close_sink_frame [OF c] by (auto simp: release_source_def)
  have none: "rt_pending_delivery rt = None"
    using True inv by (auto simp: backlog_def runtime_inv_def in_flight_def split: option.splits)
  have dn: "rt_delivered_not_committed rt = 0" using True inv by (simp add: runtime_inv_def backlog_def)
  have same: "rt_config rt1 = rt_config rt" "rt_pending_delivery rt1 = rt_pending_delivery rt"
    "rt_buffered_events rt1 = rt_buffered_events rt" "rt_delivered_not_committed rt1 = rt_delivered_not_committed rt"
    "rt_next_delivery_id rt1 = rt_next_delivery_id rt" "rt_idempotency_guard rt1 = rt_idempotency_guard rt"
    "rt_pending_source_events rt1 = rt_pending_source_events rt" "rt_injected_events rt1 = rt_injected_events rt"
    using fr(1) none dn by (auto simp: same_events_def release_source_def)
  have "runtime_inv env rt1" using runtime_inv_cong [of rt1 rt env] same fr(2) inv by simp
  with rt1 same show ?thesis by (simp add: backlog_def in_flight_def)
next
  case False
  have "rt' = rt \<or> rt' = rt\<lparr>rt_state := Stopped\<rparr>"
    using s False pending_count_backlog [OF inv] by (auto simp: stop_def backlog_def split: runtime_state.splits if_splits)
  moreover have "runtime_inv env (rt\<lparr>rt_state := Stopped\<rparr>) = runtime_inv env rt" by (rule runtime_inv_cong) simp_all
  ultimately show ?thesis using inv by (auto simp: backlog_def in_flight_def)
qed

lemma force_stop_ok:
  assumes inv: "runtime_inv env rt" and s: "force_stop env rt = (rt', r)" and run: "rt_state rt = Running"
  shows "runtime_inv env rt'" and "backlog rt' = []" and "rt_injected_events rt' = []"
    and "rt_pending_delivery rt' = None" and "rt_next_delivery_id rt' = rt_next_delivery_id rt"
    and "rt_checkpoint rt' = rt_checkpoint rt" and "rt_state rt' = Stopped"
    and "\<And>evs. r = Inr evs \<Longrightarrow> evs = backlog rt @ rt_injected_events rt"
proof -
  let ?rt0 = "release_source env (rt\<lparr>rt_buffered_events := [], rt_pending_source_events := [],
      rt_injected_events := [], rt_commit_barrier := clear_pending (rt_commit_barrier rt)\<rparr>)"
  obtain rt1 r1 where c: "close_registered_sink env ?rt0 = (rt1, r1)" by force
  have rt1: "rt' = rt1" and r: "\<And>evs. r = Inr evs \<Longrightarrow> evs = backlog rt @ rt_injected_events rt"
    using run c s by (auto simp: force_stop_def Let_def backlog_def in_flight_def split: sum.splits)
  have inv0: "runtime_inv env ?rt0"
    using inv by (auto simp: runtime_inv_def in_flight_def release_source_def barrier_inv_clear)
      (simp_all add: clear_pending_def accepted_of_def)
  note fr = close_sink_frame [OF c]
  show "runtime_inv env rt'" unfolding rt1 using same_events_facts(3) [of ?rt0 rt1 env] fr inv0 by auto
  show "backlog rt' = []" "rt_injected_events rt' = []" "rt_pending_delivery rt' = None"
    "rt_next_delivery_id rt' = rt_next_delivery_id rt" "rt_checkpoint rt' = rt_checkpoint rt" "rt_state rt' = Stopped"
    unfolding rt1 using fr by (auto simp: same_events_def release_source_def backlog_def in_flight_def)
  show "\<And>evs. r = Inr evs \<Longrightarrow> evs = backlog rt @ rt_injected_events rt" by (rule r)
qed

end
