(* ===== verification/Runtime_Runs.thy ===== *)
theory Runtime_Runs
  imports Runtime_Api
begin

text \<open>
  Sequences of calls on a runtime, in any order and with any outcome: polls, acknowledgements,
  injected events, starts and stops. The run records, beside the runtime, the events taken from the
  sources, the events that left the runtime for good, and the tokens that were granted.
\<close>

section \<open>The step relation\<close>

record ('w, 'c) api_run =
  run_rt :: "('w, 'c) cdc_runtime"
  run_taken :: "event list"
  run_settled :: "event list"
  run_spent :: "(nat \<times> nat) list"
  run_failed :: bool

definition token_key :: "ack_token \<Rightarrow> nat \<times> nat" where
  "token_key t = (tok_delivery_id t, tok_epoch t)"

definition spent_by :: "ack_mode \<Rightarrow> unit result \<Rightarrow> (nat \<times> nat) list" where
  "spent_by mode r =
     (case mode of
        NotRequired \<Rightarrow> []
      | Required t \<Rightarrow> if r = Inr () \<and> 0 < tok_event_count t then [token_key t] else [])"

text \<open>
  A poll that fails may drop events it has already read, and a forced stop whose sink does not close
  loses the list it would have returned; both mark the run as failed. The guard on the polls says
  that the 64-bit delivery counter has not saturated.
\<close>

inductive api_step :: "('w, 'c) runtime_env \<Rightarrow> ('w, 'c) api_run \<Rightarrow> ('w, 'c) api_run \<Rightarrow> bool" for env where
  polled: "rt_next_delivery_id (run_rt s) < u64_max \<Longrightarrow> poll_event_batch env (run_rt s) = Some (rt', Inr b) \<Longrightarrow>
    api_step env s (s\<lparr>run_rt := rt', run_taken := run_taken s @ drop (length (backlog (run_rt s))) (backlog rt')\<rparr>)"
| poll_failed: "rt_next_delivery_id (run_rt s) < u64_max \<Longrightarrow> poll_event_batch env (run_rt s) = Some (rt', Inl e) \<Longrightarrow>
    api_step env s (s\<lparr>run_rt := rt', run_failed := True\<rparr>)"
| acked: "commit_ack env mode (run_rt s) = (rt', r) \<Longrightarrow>
    api_step env s (s\<lparr>run_rt := rt',
      run_settled := run_settled s @ take (length (in_flight (run_rt s)) - length (in_flight rt')) (in_flight (run_rt s)),
      run_spent := run_spent s @ spent_by mode r\<rparr>)"
| enqueued: "enqueue_event e (run_rt s) = (rt', r) \<Longrightarrow> api_step env s (s\<lparr>run_rt := rt'\<rparr>)"
| started: "start env tls (run_rt s) = (rt', r) \<Longrightarrow> api_step env s (s\<lparr>run_rt := rt'\<rparr>)"
| stopped: "stop env (run_rt s) = (rt', r) \<Longrightarrow> api_step env s (s\<lparr>run_rt := rt'\<rparr>)"
| forced: "rt_state (run_rt s) = Running \<Longrightarrow> force_stop env (run_rt s) = (rt', Inr evs) \<Longrightarrow>
    api_step env s (s\<lparr>run_rt := rt', run_taken := run_taken s @ rt_injected_events (run_rt s),
      run_settled := run_settled s @ evs\<rparr>)"
| force_failed: "rt_state (run_rt s) = Running \<Longrightarrow> force_stop env (run_rt s) = (rt', Inl e) \<Longrightarrow>
    api_step env s (s\<lparr>run_rt := rt', run_failed := True\<rparr>)"

inductive api_reach :: "('w, 'c) runtime_env \<Rightarrow> ('w, 'c) cdc_runtime \<Rightarrow> ('w, 'c) api_run \<Rightarrow> bool" for env rt where
  init: "api_reach env rt \<lparr>run_rt = rt, run_taken = [], run_settled = [], run_spent = [], run_failed = False\<rparr>"
| step: "api_reach env rt s \<Longrightarrow> api_step env s s' \<Longrightarrow> api_reach env rt s'"

section \<open>The invariants of a run\<close>

text \<open>No granted token can match the delivery in flight or any later one.\<close>

definition tokens_spent :: "('w, 'c) cdc_runtime \<Rightarrow> (nat \<times> nat) list \<Rightarrow> bool" where
  "tokens_spent rt ks \<longleftrightarrow>
     distinct ks
     \<and> (\<forall>(d, n) \<in> set ks. d < rt_next_delivery_id rt
          \<and> (\<forall>p. rt_pending_delivery rt = Some p \<longrightarrow> pd_delivery_id p = d \<longrightarrow> n < pd_ack_epoch p))"

lemma tokens_spent_mono:
  assumes "tokens_spent rt ks" and "rt_next_delivery_id rt \<le> rt_next_delivery_id rt'"
    and "\<And>p. rt_pending_delivery rt' = Some p \<Longrightarrow>
           rt_pending_delivery rt = Some p \<or> rt_next_delivery_id rt \<le> pd_delivery_id p"
  shows "tokens_spent rt' ks"
  using assms by (fastforce simp: tokens_spent_def)

lemma tokens_spent_steady: "tokens_spent rt ks \<Longrightarrow> steady rt rt' \<Longrightarrow> tokens_spent rt' ks"
  by (erule tokens_spent_mono) (auto simp: steady_def)

lemma tokens_spent_ack:
  assumes inv: "runtime_inv env rt" and sp: "tokens_spent rt ks" and c: "commit_ack env mode rt = (rt', r)"
  shows "tokens_spent rt' (ks @ spent_by mode r)"
  using inv c
proof (cases rule: commit_ack_outcome)
  case (kept w cp)
  have "spent_by mode r = []" using kept(2) by (auto simp: spent_by_def split: ack_mode.split)
  with sp show ?thesis by (simp add: kept(1) tokens_spent_def)
next
  case (settled t p)
  have id: "pd_delivery_id p < rt_next_delivery_id rt" using inv settled(2) by (simp add: runtime_inv_def)
  have old: "d < rt_next_delivery_id rt" "pd_delivery_id p = d \<Longrightarrow> n < pd_ack_epoch p" if "(d, n) \<in> set ks" for d n
    using that sp settled(2) unfolding tokens_spent_def by blast+
  have new: "token_key t \<notin> set ks"
    using old(2) [of "tok_delivery_id t" "tok_epoch t"] settled(3,4) by (auto simp: token_key_def)
  have epoch: "pd_delivery_id p' = pd_delivery_id p" "pd_ack_epoch p' = pd_ack_epoch p + 1"
    if "rt_pending_delivery rt' = Some p'" for p'
    using that settled(16) by blast+
  have past: "n < pd_ack_epoch p'" if "(d, n) \<in> set (ks @ [token_key t])" "rt_pending_delivery rt' = Some p'"
      "pd_delivery_id p' = d" for d n p'
  proof -
    have d: "pd_delivery_id p = d" using epoch(1) [OF that(2)] that(3) by simp
    from that(1) consider "(d, n) \<in> set ks" | "n = tok_epoch t" by (auto simp: token_key_def)
    then have "n \<le> pd_ack_epoch p" by cases (use old(2) [OF _ d] settled(4) in \<open>auto intro: less_imp_le\<close>)
    then show ?thesis unfolding epoch(2) [OF that(2)] by simp
  qed
  have "d < rt_next_delivery_id rt'" if "(d, n) \<in> set (ks @ [token_key t])" for d n
    using that old(1) id settled(3,13) by (auto simp: token_key_def)
  with past sp new have "tokens_spent rt' (ks @ [token_key t])" "tokens_spent rt' ks"
    unfolding tokens_spent_def by (fastforce, fastforce)
  moreover have "spent_by mode r = [] \<or> spent_by mode r = [token_key t]"
    by (simp add: spent_by_def settled(1))
  ultimately show ?thesis by (elim disjE) simp_all
qed

definition api_inv :: "('w, 'c) runtime_env \<Rightarrow> ('w, 'c) cdc_runtime \<Rightarrow> ('w, 'c) api_run \<Rightarrow> bool" where
  "api_inv env rt0 s \<longleftrightarrow>
     runtime_inv env (run_rt s) \<and> tokens_spent (run_rt s) (run_spent s)
     \<and> (\<not> run_failed s \<longrightarrow> run_settled s @ backlog (run_rt s) = backlog rt0 @ run_taken s)"

lemma enqueue_frame:
  "enqueue_event e rt = (rt', r) \<Longrightarrow> rt' = rt \<or> rt' = rt\<lparr>rt_injected_events := rt_injected_events rt @ [e]\<rparr>"
  by (auto simp: enqueue_event_def split: if_splits)

text \<open>A call that leaves the events, the tokens and the counter alone keeps the invariant.\<close>

lemma api_inv_frame:
  assumes "api_inv env rt0 s" and "runtime_inv env rt'" and "backlog rt' = backlog (run_rt s)"
    and "rt_next_delivery_id rt' = rt_next_delivery_id (run_rt s)"
    and "\<And>p. rt_pending_delivery rt' = Some p \<Longrightarrow> rt_pending_delivery (run_rt s) = Some p"
  shows "api_inv env rt0 (s\<lparr>run_rt := rt'\<rparr>)"
  using assms by (auto simp: api_inv_def intro: tokens_spent_mono [of "run_rt s"])

lemma api_inv_step:
  assumes "api_step env s s'" and i: "api_inv env rt0 s"
  shows "api_inv env rt0 s'"
  using assms(1)
proof cases
  case (polled rt' b)
  note ok = poll_ok [OF _ polled(2,3)]
  from i ok obtain new where p: "runtime_inv env rt'" "steady (run_rt s) rt'" "backlog rt' = backlog (run_rt s) @ new"
    by (auto simp: api_inv_def)
  from i tokens_spent_steady [OF _ p(2)] have "tokens_spent rt' (run_spent s)" by (simp add: api_inv_def)
  with i p show ?thesis by (simp add: api_inv_def polled(1) flip: append_assoc)
next
  case (poll_failed rt' e)
  note ok = poll_ok [OF _ poll_failed(2,3)]
  with i show ?thesis by (auto simp: api_inv_def poll_failed(1) intro: tokens_spent_steady)
next
  case (acked mode rt' r)
  have inv: "runtime_inv env (run_rt s)" using i by (simp add: api_inv_def)
  note ok = commit_ack_ok [OF inv acked(2)]
  from i tokens_spent_ack [OF inv _ acked(2)] ok show ?thesis
    by (auto simp: api_inv_def acked(1))
next
  case (enqueued e rt' r)
  from enqueue_frame [OF enqueued(2)] i show ?thesis
    unfolding enqueued(1) by (intro api_inv_frame) (auto simp: api_inv_def backlog_def in_flight_def)
next
  case (started tls rt' r)
  from start_ok [OF _ started(2)] i have "runtime_inv env rt'" "same_events (run_rt s) rt'" by (auto simp: api_inv_def)
  with i same_events_facts(2) [of "run_rt s" rt'] show ?thesis
    unfolding started(1) by (intro api_inv_frame) (auto simp: same_events_def)
next
  case (stopped rt' r)
  from stop_ok [OF _ stopped(2)] i show ?thesis
    unfolding stopped(1) by (intro api_inv_frame) (auto simp: api_inv_def)
next
  case (forced rt' evs)
  have inv: "runtime_inv env (run_rt s)" using i by (simp add: api_inv_def)
  note ok = force_stop_ok [OF inv forced(3,2)]
  have "tokens_spent rt' (run_spent s)"
    using i ok(4,5) by (auto simp: api_inv_def intro: tokens_spent_mono [of "run_rt s"])
  with i ok(1,2) ok(8) [OF refl] show ?thesis by (auto simp: api_inv_def forced(1) simp flip: append_assoc)
next
  case (force_failed rt' e)
  have inv: "runtime_inv env (run_rt s)" using i by (simp add: api_inv_def)
  note ok = force_stop_ok [OF inv force_failed(3,2)]
  have "tokens_spent rt' (run_spent s)"
    using i ok(4,5) by (auto simp: api_inv_def intro: tokens_spent_mono [of "run_rt s"])
  with ok(1) show ?thesis by (simp add: api_inv_def force_failed(1))
qed

lemma api_inv_reach:
  assumes "api_reach env rt0 s" and "runtime_inv env rt0"
  shows "api_inv env rt0 s"
  using assms
proof (induction rule: api_reach.induct)
  case init
  then show ?case by (simp add: api_inv_def tokens_spent_def)
next
  case (step s s')
  then show ?case using api_inv_step by blast
qed

section \<open>Polls return\<close>

lemma poll_stream_returns:
  assumes r: "poll_ready env rt"
    and bound: "\<And>p. opt_connection_retry (rt_options rt) = Some p \<Longrightarrow> \<exists>m. max_retries p = Some m \<and> m \<le> u32_max"
  shows "\<exists>y. poll_stream env rt = Some y"
proof (cases "rt_stream rt")
  case None
  then show ?thesis by (simp add: poll_stream_def)
next
  case (Some h)
  have fin: "\<exists>y. (case r1 of Inl e \<Rightarrow> Some (rt1, Inl e)
      | Inr es \<Rightarrow> if es = [] then Some (rt1, Inr batch_empty) else ingest env es rt1) = Some y"
    if "quiet rt rt1" for rt1 and r1 :: "event list result"
  proof -
    have "\<exists>rt2 r2. ingest env es rt1 = Some (rt2, r2)" for es
      using ingest_post [of env rt1 es] poll_ready_quiet [OF r that] by (auto simp: poll_ready_def)
    then show ?thesis by (cases r1) auto
  qed
  show ?thesis
  proof (cases "opt_connection_retry (rt_options rt)")
    case None
    obtain w r1 where "env_next_events env h (opt_max_poll_wait_ms (rt_options rt)) (rt_world rt) = (w, r1)" by force
    with Some None fin [OF quiet_world, of w r1] show ?thesis by (auto simp: poll_stream_def split: sum.splits)
  next
    case pol: (Some pol)
    from bound [OF this] stream_poll_loop_returns obtain rt1 r1
      where l: "stream_poll_loop env pol 0 (initial_delay_ms pol) rt = Some (rt1, r1)" by (metis surj_pair)
    with stream_poll_loop_quiet have "quiet rt rt1" by fastforce
    with Some pol l fin [of rt1 r1] show ?thesis by (auto simp: poll_stream_def split: sum.splits)
  qed
qed

lemma poll_injected_returns:
  assumes r: "poll_ready env rt"
    and bound: "\<And>p. opt_connection_retry (rt_options rt) = Some p \<Longrightarrow> \<exists>m. max_retries p = Some m \<and> m \<le> u32_max"
  shows "\<exists>y. poll_injected env rt = Some y"
proof -
  have ing: "\<exists>y. ingest env c rt1 = Some y" if "poll_ready env rt1" for c rt1
    using ingest_post [of env rt1 c] that by (auto simp: poll_ready_def)
  have stream: "\<exists>y. poll_stream env rt1 = Some y" if "quiet rt rt1" for rt1
    using poll_stream_returns [OF poll_ready_quiet [OF r that]] bound quiet_facts(10) [OF that] by auto
  have "\<exists>y. poll_snapshot env rt = Some y"
  proof (cases "rt_snapshot rt")
    case None
    with stream [OF quiet_refl] show ?thesis by (simp add: poll_snapshot_def)
  next
    case (Some h)
    have q: "quiet rt (rt\<lparr>rt_world := w, rt_snapshot := s\<rparr>)"
      "quiet rt (rt\<lparr>rt_world := w, rt_handoff_complete := d, rt_snapshot := s\<rparr>)" for w s d
      by (simp_all add: quiet_def)
    with Some ing [OF poll_ready_quiet [OF r quiet_world]] stream [OF q(1)] stream [OF q(2)] show ?thesis
      by (auto simp: poll_snapshot_def split: prod.split sum.split option.split)
  qed
  moreover have "poll_ready env (rt\<lparr>rt_injected_events := q\<rparr>)" for q
    using r by (simp add: poll_ready_def at_rest_def)
  ultimately show ?thesis using ing by (simp add: poll_injected_def Let_def)
qed

lemma poll_returns:
  assumes inv: "runtime_inv env rt" and id: "rt_next_delivery_id rt < u64_max"
    and bound: "\<And>p. opt_connection_retry (rt_options rt) = Some p \<Longrightarrow> \<exists>m. max_retries p = Some m \<and> m \<le> u32_max"
  shows "\<exists>y. poll_event_batch env rt = Some y"
proof (cases "rt_state rt = Running \<and> current_pending_batch rt = None")
  case False
  then show ?thesis by (auto simp: poll_event_batch_def split: option.split)
next
  case True
  define rt1 where "rt1 = retry_pending_confirmation env (service_control_commands env rt)"
  note qf = quiet_facts [OF poll_prologue_quiet [of rt env, folded rt1_def]]
  have rest: "at_rest rt" using True by (auto simp: current_pending_batch_def at_rest_def split: option.splits)
  show ?thesis
  proof (cases "rt_buffered_events rt1 = []")
    case False
    with True show ?thesis by (auto simp: poll_event_batch_def Let_def rt1_def split: prod.split)
  next
    case emp: True
    then have ready: "poll_ready env rt1" using qf(1) [OF inv] qf(2,8) rest id by (simp add: poll_ready_def)
    have "\<exists>y. poll_injected env rt2 = Some y" if "flush_pending_source_events env rt1 = (rt2, Inr b)" "batch_is_empty b" for rt2 b
    proof (rule poll_injected_returns)
      have f: "runtime_inv env rt2" "rt_buffered_events rt2 = []" "in_flight rt2 = []" "rt_config rt2 = rt_config rt1"
        using flush_ok [OF _ _ _ _ that(1)] ready that(2) by (auto simp: poll_ready_def batch_is_empty_iff steady_def)
      have rest2: "rt_pending_delivery rt2 = None"
        using f(1,3) by (auto simp: runtime_inv_def in_flight_def split: option.splits)
      then show "poll_ready env rt2"
        using f ready flush_ids [OF that(1)] by (simp add: poll_ready_def at_rest_def spends_one_def)
      show "\<And>p. opt_connection_retry (rt_options rt2) = Some p \<Longrightarrow> \<exists>m. max_retries p = Some m \<and> m \<le> u32_max"
        using bound f(4) qf(10) by simp
    qed
    moreover have "\<exists>y. poll_injected env rt1 = Some y"
      using poll_injected_returns [OF ready] bound qf(10) by simp
    ultimately have "\<exists>y. poll_queued env rt1 = Some y"
      by (auto simp: poll_queued_def split: prod.split sum.split)
    with True emp show ?thesis by (simp add: poll_event_batch_def Let_def rt1_def)
  qed
qed

end
