(* ===== verification/Runtime_Example.thy ===== *)
theory Runtime_Example
  imports Runtime_Runs Checkpoint_Store
begin

text \<open>
  A small concrete environment for the witnesses of the runtime's properties: a world that is a
  script of stream reads, a checkpoint store given as an argument, and a short run over the
  in-memory store, evaluated.
\<close>

section \<open>An example environment\<close>

definition example_env ::
    "(offset \<Rightarrow> nat \<Rightarrow> 'c \<Rightarrow> 'c \<times> unit result) \<Rightarrow> ('c \<Rightarrow> offset option result) \<Rightarrow> ('c \<Rightarrow> nat result)
     \<Rightarrow> (event list list, 'c) runtime_env" where
  "example_env sv ld cnt =
     \<lparr>env_now = (\<lambda>w. (w, 1000)), env_sleep = (\<lambda>_ w. w), env_connect = (\<lambda>w. (w, Inr ())), env_close = (\<lambda>w. w),
      env_start_stream = (\<lambda>_ w. (w, Inr 1)), env_start_snapshot = (\<lambda>_ w. (w, Inr 2)),
      env_start_snapshot_from_checkpoint = (\<lambda>_ _ w. (w, Inr 2)),
      env_start_incremental_snapshot = (\<lambda>_ _ w. (w, Inr 1)), env_perform_handoff = (\<lambda>_ _ w. (w, Inr ())),
      env_next_chunk = (\<lambda>_ _ w. (w, Inr [])), env_snapshot_checkpoint = (\<lambda>_ _ w c. (w, c, Inr ())),
      env_next_events = (\<lambda>_ _ w. case w of [] \<Rightarrow> ([], Inr []) | es # w' \<Rightarrow> (w', Inr es)),
      env_confirm_lsn = (\<lambda>_ _ w. (w, Inr ())), env_resume_offset_for = (\<lambda>_ _ _. None),
      env_position_offset = (\<lambda>_ _. None), env_incremental_snapshot_state = (\<lambda>_ _. None),
      env_control = (\<lambda>_ _ w. (w, Inr 0)), env_record_ddl = (\<lambda>_ _ w. (w, Inr 0)),
      env_apply_retention = (\<lambda>_ w. (w, Inr 0)), env_dead_letter = (\<lambda>_ _ w. w),
      env_sink_send = (\<lambda>_ w. (w, Inr ())), env_sink_flush = (\<lambda>w. (w, Inr ())),
      env_sink_close = (\<lambda>_ w. (w, Inr ())), env_cancelled = (\<lambda>w. (w, True)),
      env_ahash = length, env_json_len = (\<lambda>_. 2), env_parse_json = (\<lambda>s. Some (JString s)),
      
      env_ddl_codec = \<lparr>enc_schema = (\<lambda>_. None), dec_schema = (\<lambda>_. None), enc_diff = (\<lambda>_. None), dec_diff = (\<lambda>_. None)\<rparr>,
       env_save = sv, env_load = ld, env_committed_count = cnt\<rparr>"

definition example_options :: runtime_options where
  "example_options = runtime_options_default\<lparr>opt_max_buffer_size := 2, opt_idempotency := None,
     opt_validate_events := False, opt_connection_retry := None\<rparr>"

definition example_cfg :: "runtime_source_config \<Rightarrow> runtime_config" where
  "example_cfg src = \<lparr>cfg_source = src, cfg_snapshot_tables = [], cfg_incremental_snapshot = None,
     cfg_options = example_options\<rparr>"

definition mem_env :: "(event list list, offset in_memory_checkpoint) runtime_env" where
  "mem_env = example_env in_memory_save in_memory_load in_memory_get_committed_count"

definition mem_new :: "(event list list, offset in_memory_checkpoint) cdc_runtime" where
  "mem_new = (case runtime_new False (example_cfg CfgDisabled) [] [] of Inr rt \<Rightarrow> rt | Inl _ \<Rightarrow> undefined)"

lemmas example_config_simps =
  example_options_def runtime_options_default_def example_cfg_def runtime_new_def runtime_validate_def
  build_idempotency_guard_def barrier_new_def

lemma mem_new_eq: "runtime_new False (example_cfg CfgDisabled) [] [] = Inr mem_new"
  by (simp add: mem_new_def example_config_simps Let_def)

lemma example_buffer: "opt_max_buffer_size (cfg_options (example_cfg src)) \<le> u64_max"
  by (simp add: example_config_simps u64_max_def)

text \<open>A run on it: start, inject two events, poll, acknowledge the first of them.\<close>

definition mem_started :: "(event list list, offset in_memory_checkpoint) cdc_runtime" where
  "mem_started = fst (start mem_env False mem_new)"

definition example_event :: "string \<Rightarrow> event" where
  "example_event t = default_event\<lparr>ev_table := t, ev_source := \<lparr>source_name = ''s'', source_offset = t, source_timestamp = 7\<rparr>\<rparr>"

definition mem_queued :: "(event list list, offset in_memory_checkpoint) cdc_runtime" where
  "mem_queued = mem_started\<lparr>rt_injected_events := [example_event ''a'', example_event ''b'']\<rparr>"

definition mem_token :: ack_token where
  "mem_token = \<lparr>tok_delivery_id = 1, tok_event_count = 1, tok_epoch = 0\<rparr>"

definition mem_delivered :: "(event list list, offset in_memory_checkpoint) cdc_runtime" where
  "mem_delivered = fst (the (poll_event_batch mem_env mem_queued))"

definition mem_acked :: "(event list list, offset in_memory_checkpoint) cdc_runtime" where
  "mem_acked = fst (commit_ack mem_env (Required mem_token) mem_delivered)"

lemma mem_start: "start mem_env False mem_new = (mem_started, Inr ())"
  by (simp add: mem_started_def start_def mem_new_def example_config_simps mem_env_def example_env_def
      in_memory_get_committed_count_def hydrate_committed_event_count_def Let_def)

lemma mem_started_eq: "mem_started = mem_new\<lparr>rt_state := Running, rt_started_at_ms := Some 1000\<rparr>"
  by (simp add: mem_started_def start_def mem_new_def example_config_simps mem_env_def example_env_def
      in_memory_get_committed_count_def hydrate_committed_event_count_def Let_def reset_run_counters_def)

lemma mem_enqueue:
  "enqueue_event (example_event ''a'') mem_started = (mem_started\<lparr>rt_injected_events := [example_event ''a'']\<rparr>, Inr ())"
  "enqueue_event (example_event ''b'') (mem_started\<lparr>rt_injected_events := [example_event ''a'']\<rparr>) = (mem_queued, Inr ())"
  by (simp_all add: enqueue_event_def mem_queued_def mem_started_eq mem_new_def example_config_simps Let_def)

lemma example_event_simps [simp]:
  "ev_op (example_event t) = Insert" "ev_snapshot (example_event t) = None" "ev_transaction (example_event t) = None"
  "ev_source (example_event t) = \<lparr>source_name = ''s'', source_offset = t, source_timestamp = 7\<rparr>"
  by (simp_all add: example_event_def default_event_def)

lemmas runtime_eval =
  poll_event_batch_def current_pending_batch_def service_control_commands_def retry_pending_confirmation_def
  incremental_snapshot_state_def poll_queued_def poll_injected_def ingest_def prepare_events_def
  filter_idempotent_events_def apply_transforms_def flush_pending_source_events_def buffer_and_deliver_def
  trim_to_transaction_boundary_def stage_event_def event_position_def build_checkpoint_offset_def
  resume_offset_for_def push_record_def deliver_buffered_batch_def latest_source_ts_def
  normalize_source_timestamp_ms_def pending_count_def Let_def

lemma sat_small [simp]: "sat_add64 0 n = min n u64_max" "sat_add64 (Suc 0) (Suc 0) = 2"
  by (auto simp: sat_add64_def u64_max_def)

lemma mem_poll:
  "\<exists>rt. poll_event_batch mem_env mem_queued = Some (rt,
     Inr \<lparr>eb_events = [example_event ''a'', example_event ''b''], eb_offset = 0,
        eb_ack_token = Some \<lparr>tok_delivery_id = 1, tok_event_count = 2, tok_epoch = 0\<rparr>\<rparr>)"
  by (simp add: mem_queued_def mem_started_eq mem_new_def example_config_simps runtime_eval mem_env_def example_env_def)


lemma mem_delivered_poll:
  "poll_event_batch mem_env mem_queued = Some (mem_delivered,
     Inr \<lparr>eb_events = [example_event ''a'', example_event ''b''], eb_offset = 0,
        eb_ack_token = Some \<lparr>tok_delivery_id = 1, tok_event_count = 2, tok_epoch = 0\<rparr>\<rparr>)"
  using mem_poll by (auto simp: mem_delivered_def)

lemmas commit_eval =
  commit_ack_def commit_prefix_def pending_remaining_def persist_snapshot_checkpoint_before_commit_def
  pending_prefix_contains_snapshot_events_def pending_slice_def committed_confirmation_lsn_def
  eq_ignore_ascii_case_def to_ascii_lowercase_def ascii_lower_def confirm_committed_def settle_commit_def
  accept_and_commit_def commit_def notify_consumer_accepted_def drain_committed_def set_accepted_def
  wrap_sub64_def wrap_add64_def u64_max_def sat_mul64_def

lemma mem_ack:
  "\<exists>rt. commit_ack mem_env (Required mem_token) mem_delivered = (rt, Inr ()) \<and> in_flight rt = [example_event ''b'']"
  unfolding mem_delivered_def
  by (simp add: mem_queued_def mem_started_eq mem_new_def example_config_simps runtime_eval mem_env_def example_env_def
     commit_eval in_flight_def mem_token_def in_memory_save_def)

lemma mem_acked_eq: "commit_ack mem_env (Required mem_token) mem_delivered = (mem_acked, Inr ())"
  "in_flight mem_acked = [example_event ''b'']"
  using mem_ack by (auto simp: mem_acked_def)

lemma mem_backlogs:
  "backlog mem_queued = []" "backlog mem_delivered = [example_event ''a'', example_event ''b'']"
  "in_flight mem_delivered = [example_event ''a'', example_event ''b'']"
  unfolding mem_delivered_def
  by (simp_all add: mem_queued_def mem_started_eq mem_new_def example_config_simps runtime_eval mem_env_def
      example_env_def backlog_def in_flight_def)

lemma mem_ids: "rt_next_delivery_id mem_queued < u64_max"
  by (simp add: mem_queued_def mem_started_eq mem_new_def example_config_simps Let_def u64_max_def)

definition mem_run :: "(event list list, offset in_memory_checkpoint) api_run" where
  "mem_run = \<lparr>run_rt = mem_acked, run_taken = [example_event ''a'', example_event ''b''],
     run_settled = [example_event ''a''], run_spent = [(1, 0)], run_failed = False\<rparr>"

lemma mem_reach: "api_reach mem_env mem_new mem_run"
proof -
  let ?s = "\<lambda>rt. \<lparr>run_rt = rt, run_taken = [], run_settled = [], run_spent = [], run_failed = False\<rparr>"
  have "api_reach mem_env mem_new (?s mem_new)" by (rule api_reach.init)
  from api_reach.step [OF this api_step.started [of mem_env False]] mem_start
  have "api_reach mem_env mem_new (?s mem_started)" by simp
  from api_reach.step [OF this api_step.enqueued [of "example_event ''a''"]] mem_enqueue(1)
  have "api_reach mem_env mem_new (?s (mem_started\<lparr>rt_injected_events := [example_event ''a'']\<rparr>))" by simp
  from api_reach.step [OF this api_step.enqueued [of "example_event ''b''"]] mem_enqueue(2)
  have q: "api_reach mem_env mem_new (?s mem_queued)" by simp
  let ?d = "(?s mem_delivered)\<lparr>run_taken := [example_event ''a'', example_event ''b'']\<rparr>"
  have "api_step mem_env (?s mem_queued) ?d"
    using api_step.polled [of "?s mem_queued" mem_env] mem_delivered_poll mem_ids by (simp add: mem_backlogs)
  from api_reach.step [OF q this] have d: "api_reach mem_env mem_new ?d" .
  have "api_step mem_env ?d mem_run"
    using api_step.acked [of mem_env "Required mem_token" ?d] mem_acked_eq
    by (simp add: mem_run_def mem_backlogs spent_by_def token_key_def mem_token_def)
  from api_reach.step [OF d this] show ?thesis .
qed

lemma mem_queued_inv: "runtime_inv mem_env mem_queued"
proof -
  have "runtime_inv mem_env mem_started"
    using start_ok [OF runtime_new_inv [OF mem_new_eq example_buffer] mem_start] by blast
  then show ?thesis by (simp add: mem_queued_def)
qed

lemma mem_delivered_inv: "runtime_inv mem_env mem_delivered" "rt_state mem_delivered = Running"
proof -
  note ok = poll_ok [OF mem_queued_inv mem_ids mem_delivered_poll]
  then show "runtime_inv mem_env mem_delivered" by blast
  from ok have "steady mem_queued mem_delivered" by blast
  then show "rt_state mem_delivered = Running" by (simp add: steady_def mem_queued_def mem_started_eq)
qed

lemma mem_acked_state:
  "rt_state mem_acked = Running \<and> runtime_inv mem_env mem_acked \<and> backlog mem_acked = [example_event ''b'']
   \<and> rt_next_delivery_id mem_acked = 2"
proof -
  note ok = commit_ack_ok [OF mem_delivered_inv(1) mem_acked_eq(1)]
  have "rt_next_delivery_id mem_delivered = 2"
    unfolding mem_delivered_def
    by (simp add: mem_queued_def mem_started_eq mem_new_def example_config_simps runtime_eval mem_env_def example_env_def)
  with ok mem_delivered_inv(2) show ?thesis by (auto simp: mem_acked_eq(2) mem_backlogs)
qed

text \<open>Draining after it: the event left is redelivered, committed, returned, and the runtime stops.\<close>

lemma mem_drain: "\<exists>rt'. drain_and_stop mem_env mem_acked = Some (rt', Inr [example_event ''b''])"
  unfolding mem_acked_def mem_delivered_def drain_and_stop_def
  apply (subst drain_loop.simps)
  apply (subst drain_loop.simps)
  by (simp add: mem_queued_def mem_started_eq mem_new_def example_config_simps runtime_eval mem_env_def example_env_def
     commit_eval mem_token_def in_memory_save_def batch_is_empty_def batch_len_def batch_into_events_def batch_ack_mode_def
     poll_snapshot_def poll_stream_def batch_empty_def stop_def release_source_def close_registered_sink_def source_close_def)

end
