(* ===== verification/Runtime_Admin.thy ===== *)
theory Runtime_Admin
  imports Runtime_Lifecycle
begin

text \<open>
  What the runtime reports about itself (\<open>core/runtime/runtime_admin.rs\<close>): the derived health
  verdict, the admin snapshot, the lag estimate, and the escaping of metric labels. The rule report
  of the transforms and the slot lag of the stream are read from the world through the arguments
  \<open>rules\<close> and \<open>lag\<close>. The Prometheus text around the labels is formatting and is not modelled.
\<close>

section \<open>Health\<close>

datatype health_verdict = Healthy | IdleSource | Stalled string | NotRunning

definition is_alertable :: "health_verdict \<Rightarrow> bool" where
  "is_alertable h = (case h of Stalled _ \<Rightarrow> True | _ \<Rightarrow> False)"

definition verdict_as_str :: "health_verdict \<Rightarrow> string" where
  "verdict_as_str h =
     (case h of Healthy \<Rightarrow> ''healthy'' | IdleSource \<Rightarrow> ''idle'' | Stalled _ \<Rightarrow> ''stalled'' | NotRunning \<Rightarrow> ''not_running'')"

definition HEALTH_POLL_STALL_MULTIPLIER :: nat where
  "HEALTH_POLL_STALL_MULTIPLIER = 6"

definition HEALTH_MIN_POLL_STALL_MS :: nat where
  "HEALTH_MIN_POLL_STALL_MS = 30000"

definition stall_threshold_ms :: "runtime_options \<Rightarrow> nat" where
  "stall_threshold_ms opts =
     max (sat_mul64 (opt_max_poll_wait_ms opts) HEALTH_POLL_STALL_MULTIPLIER) HEALTH_MIN_POLL_STALL_MS"

text \<open>The reasons keep which signal fired; their wording with the measured numbers is dropped.\<close>

definition derive_health :: "nat \<Rightarrow> ('w, 'c) cdc_runtime \<Rightarrow> health_verdict" where
  "derive_health now rt =
     (let limit = stall_threshold_ms (rt_options rt);
          uncommitted = rt_total_events_polled rt - rt_total_events_committed rt;
          since_commit = (case rt_last_commit_at_ms rt of Some at \<Rightarrow> now - at | None \<Rightarrow> u64_max)
      in if rt_state rt \<noteq> Running then NotRunning
         else if rt_pending_confirmation_lsn rt \<noteq> None then Stalled ''unconfirmed source position''
         else if (case rt_last_poll_at_ms rt of None \<Rightarrow> False | Some last_poll \<Rightarrow> now - last_poll > limit)
         then Stalled ''no poll has completed''
         else if uncommitted > 0 \<and> since_commit > limit then Stalled ''delivered but not committed''
         else (case rt_last_source_event_ts_ms rt of
                 Some _ \<Rightarrow> if rt_total_events_polled rt > 0 then Healthy else IdleSource
               | None \<Rightarrow> IdleSource))"

definition estimate_replication_lag_ms :: "nat \<Rightarrow> ('w, 'c) cdc_runtime \<Rightarrow> nat option" where
  "estimate_replication_lag_ms now rt =
     map_option (\<lambda>ts. now - min ts now) (rt_last_source_event_ts_ms rt)"

definition runtime_state_label :: "runtime_state \<Rightarrow> string" where
  "runtime_state_label s =
     (case s of Idle \<Rightarrow> ''idle'' | Running \<Rightarrow> ''running'' | Stopping \<Rightarrow> ''stopping'' | Stopped \<Rightarrow> ''stopped'')"

record 'u runtime_admin_snapshot =
  adm_source_type :: "string option"
  adm_state :: string
  adm_readiness :: bool
  adm_liveness :: bool
  adm_capabilities :: connector_capabilities
  adm_buffer_depth :: nat
  adm_in_flight_events :: nat
  adm_snapshot_active :: bool
  adm_incremental_snapshot :: "json option"
  adm_stream_active :: bool
  adm_handoff_complete :: bool
  adm_total_events_polled :: nat
  adm_total_events_committed :: nat
  adm_total_events_deduplicated :: nat
  adm_total_events_skipped :: nat
  adm_unmatched_transform_rules :: 'u
  adm_idempotency_evictions :: "nat option"
  adm_idempotency_unidentifiable_passthrough :: "nat option"
  adm_health :: health_verdict
  adm_started_at_ms :: "nat option"
  adm_last_poll_at_ms :: "nat option"
  adm_last_commit_at_ms :: "nat option"
  adm_checkpoint_age_ms :: "nat option"
  adm_replication_lag_ms :: "nat option"
  adm_replication_slot_lag_bytes :: "nat option"

definition admin_readiness :: "('w, 'c) cdc_runtime \<Rightarrow> bool" where
  "admin_readiness rt \<longleftrightarrow>
     rt_state rt = Running
     \<and> (cfg_source (rt_config rt) = CfgDisabled \<or> rt_stream rt \<noteq> None \<or> rt_snapshot rt \<noteq> None)
     \<and> rt_pending_confirmation_lsn rt = None"

definition admin_snapshot ::
    "('w, 'c) runtime_env \<Rightarrow> bool \<Rightarrow> ('w \<Rightarrow> 'u) \<Rightarrow> (handle \<Rightarrow> 'w \<Rightarrow> nat option) \<Rightarrow> nat \<Rightarrow> ('w, 'c) cdc_runtime
     \<Rightarrow> 'u runtime_admin_snapshot" where
  "admin_snapshot env tls rules lag now rt =
     \<lparr>adm_source_type = source_type (cfg_source (rt_config rt)),
      adm_state = runtime_state_label (rt_state rt),
      adm_readiness = admin_readiness rt,
      adm_liveness = (rt_state rt \<noteq> Stopped),
      adm_capabilities = capabilities tls (cfg_source (rt_config rt)),
      adm_buffer_depth = length (rt_buffered_events rt) + length (rt_injected_events rt)
        + length (rt_pending_source_events rt),
      adm_in_flight_events = (case rt_pending_delivery rt of None \<Rightarrow> 0
        | Some p \<Rightarrow> length (pd_events p) - pd_committed_prefix p),
      adm_snapshot_active = (rt_snapshot rt \<noteq> None),
      adm_incremental_snapshot = incremental_snapshot_state env rt,
      adm_stream_active = (rt_stream rt \<noteq> None),
      adm_handoff_complete = rt_handoff_complete rt,
      adm_total_events_polled = rt_total_events_polled rt,
      adm_total_events_committed = rt_total_events_committed rt,
      adm_total_events_deduplicated = rt_total_events_deduplicated rt,
      adm_total_events_skipped = rt_total_events_skipped rt,
      adm_unmatched_transform_rules = rules (rt_world rt),
      adm_idempotency_evictions = map_option ig_evictions (rt_idempotency_guard rt),
      adm_idempotency_unidentifiable_passthrough = map_option ig_unidentifiable (rt_idempotency_guard rt),
      adm_health = derive_health now rt,
      adm_started_at_ms = rt_started_at_ms rt,
      adm_last_poll_at_ms = rt_last_poll_at_ms rt,
      adm_last_commit_at_ms = rt_last_commit_at_ms rt,
      adm_checkpoint_age_ms = map_option (\<lambda>t. now - t) (rt_last_checkpoint_saved_at_ms rt),
      adm_replication_lag_ms = estimate_replication_lag_ms now rt,
      adm_replication_slot_lag_bytes = Option.bind (rt_stream rt) (\<lambda>h. lag h (rt_world rt))\<rparr>"

section \<open>Metric labels\<close>

definition escape_char :: "char \<Rightarrow> string" where
  "escape_char c =
     (if c = CHR 92 then [CHR 92, CHR 92]
      else if c = CHR 34 then [CHR 92, CHR 34]
      else if c = CHR 10 then [CHR 92, CHR ''n'']
      else if c = CHR 13 then [CHR 92, CHR ''r'']
      else [c])"

definition escape_prometheus_label :: "string \<Rightarrow> string" where
  "escape_prometheus_label value = concat (map escape_char value)"

end
