(* ===== verification/Runtime_Guarantees.thy ===== *)
theory Runtime_Guarantees
  imports Runtime_Example Runtime_Admin
begin

text \<open>
  The runtime's properties: over every sequence of calls, for one delivery and acknowledgement, for
  each way of stopping, for the sink loop, and the cases in which the code does less than it says.
\<close>

section \<open>Every sequence of calls\<close>



text \<open>
  C4. An acknowledgement token is granted at most once. In every sequence of calls the tokens whose
  acknowledgement succeeded are pairwise different deliveries or epochs, and acknowledging any of
  them again is refused without touching the runtime.
\<close>

theorem token_granted_once:
  assumes "runtime_new tls cfg c w = Inr rt" and "opt_max_buffer_size (cfg_options cfg) \<le> u64_max"
    and "api_reach env rt s"
  shows "distinct (run_spent s)
    \<and> (token_key t \<in> set (run_spent s) \<longrightarrow>
        (\<exists>e. commit_ack env (Required t) (run_rt s) = (run_rt s, Inl e)))"
proof -
  have sp: "tokens_spent (run_rt s) (run_spent s)"
    using api_inv_reach [OF assms(3) runtime_new_inv [OF assms(1,2)]] by (simp add: api_inv_def)
  have "\<exists>e. commit_ack env (Required t) (run_rt s) = (run_rt s, Inl e)" if "token_key t \<in> set (run_spent s)"
  proof (cases "rt_pending_delivery (run_rt s)")
    case None
    then show ?thesis by (simp add: commit_ack_def)
  next
    case (Some p)
    with sp that have "pd_delivery_id p = tok_delivery_id t \<Longrightarrow> tok_epoch t < pd_ack_epoch p"
      by (auto simp: tokens_spent_def token_key_def)
    with Some show ?thesis by (auto simp: commit_ack_def)
  qed
  with sp show ?thesis by (simp add: tokens_spent_def)
qed

theorem token_granted_once_witness:
  "run_spent mem_run = [(1, 0)]
   \<and> (\<exists>e. commit_ack mem_env (Required mem_token) (run_rt mem_run) = (run_rt mem_run, Inl e))"
  using token_granted_once [OF mem_new_eq example_buffer mem_reach, of mem_token]
  by (simp add: mem_run_def token_key_def mem_token_def)

text \<open>
  C8. With a bounded retry policy, or none, every poll of a reachable runtime returns: the reconnect
  loop makes at most as many rounds as the policy allows retries, whatever the source does.
\<close>

theorem poll_terminates:
  assumes "runtime_new tls cfg c w = Inr rt" and "opt_max_buffer_size (cfg_options cfg) \<le> u64_max"
    and "api_reach env rt s" and "rt_next_delivery_id (run_rt s) < u64_max"
    and "\<And>p. opt_connection_retry (rt_options (run_rt s)) = Some p \<Longrightarrow> \<exists>m. max_retries p = Some m \<and> m \<le> u32_max"
  shows "\<exists>rt' r. poll_event_batch env (run_rt s) = Some (rt', r)"
  using poll_returns [of env "run_rt s"] assms(4,5) api_inv_reach [OF assms(3) runtime_new_inv [OF assms(1,2)]]
  by (fastforce simp: api_inv_def)

theorem poll_terminates_witness:
  "\<exists>rt' r. poll_event_batch mem_env mem_new = Some (rt', r)"
proof -
  let ?s = "\<lparr>run_rt = mem_new, run_taken = [], run_settled = [], run_spent = [], run_failed = False\<rparr>"
  have "rt_next_delivery_id (run_rt ?s) < u64_max" "opt_connection_retry (rt_options (run_rt ?s)) = None"
    by (simp_all add: mem_new_def example_config_simps u64_max_def)
  from poll_terminates [OF mem_new_eq example_buffer api_reach.init, of mem_env] this show ?thesis by simp
qed

section \<open>Delivery and acknowledgement\<close>

text \<open>
  C6. Acknowledging is all or nothing. Whatever the source and the store answer, the invariant is
  kept, and either nothing the caller can see has moved (same events in flight, same barrier) or the
  token's events, and only they, have left the front of the events in flight; the second is the case
  exactly when the call reports success or reports that the source could not be told of a commit
  that is already durable. A token for no events, or for more than are in flight, never settles.
\<close>

theorem acknowledgement_all_or_nothing:
  assumes "runtime_inv env rt" and "commit_ack env (Required t) rt = (rt', r)" and "0 < tok_event_count t"
  shows "runtime_inv env rt'
    \<and> (in_flight rt' = in_flight rt \<and> rt_commit_barrier rt' = rt_commit_barrier rt \<and> r \<noteq> Inr ()
       \<or> in_flight rt' = drop (tok_event_count t) (in_flight rt) \<and> tok_event_count t \<le> length (in_flight rt)
         \<and> (r = Inr () \<or> r = Inl (PostCommitConfirmFailed True ''stream confirm_lsn'')))"
  using assms(1,2)
proof (cases rule: commit_ack_outcome)
  case (kept w cp)
  have "runtime_inv env rt' = runtime_inv env rt" by (rule runtime_inv_cong) (simp_all add: kept(1))
  with kept assms show ?thesis by (auto simp: in_flight_def)
next
  case (settled t' p)
  then show ?thesis by auto
qed

theorem acknowledgement_all_or_nothing_witness:
  "in_flight mem_acked = drop 1 (in_flight mem_delivered) \<and> runtime_inv mem_env mem_acked"
proof -
  from acknowledgement_all_or_nothing [OF mem_delivered_inv(1) mem_acked_eq(1)] show ?thesis by (simp add: mem_token_def)
qed

text \<open>
  C7. An unacknowledged delivery is offered again. While a delivery is in flight on a running
  runtime, a poll changes nothing and returns exactly the events not yet acknowledged, with a token
  that acknowledges all of them; in particular after an acknowledgement that failed.
\<close>

theorem unacknowledged_redelivered:
  assumes "runtime_inv env rt" and "rt_state rt = Running" and "commit_ack env mode rt = (rt', r)"
    and "in_flight rt' \<noteq> []"
  shows "\<exists>b t. poll_event_batch env rt' = Some (rt', Inr b) \<and> batch_events b = in_flight rt'
    \<and> batch_ack_mode b = Required t \<and> tok_event_count t = length (in_flight rt')
    \<and> (\<exists>p. rt_pending_delivery rt' = Some p \<and> pd_delivery_id p = tok_delivery_id t \<and> pd_ack_epoch p = tok_epoch t)
    \<and> in_flight rt' = drop (length (in_flight rt) - length (in_flight rt')) (in_flight rt)"
proof -
  note ok = commit_ack_ok [OF assms(1,3)]
  obtain p where p: "rt_pending_delivery rt' = Some p"
    using assms(4) by (cases "rt_pending_delivery rt'") (auto simp: in_flight_def)
  then obtain b where b: "current_pending_batch rt' = Some b"
    and t: "batch_ack_mode b = Required \<lparr>tok_delivery_id = pd_delivery_id p,
      tok_event_count = length (pd_events p) - pd_committed_prefix p, tok_epoch = pd_ack_epoch p\<rparr>"
    by (simp add: current_pending_batch_def batch_ack_mode_def)
  from ok assms(2) b have "poll_event_batch env rt' = Some (rt', Inr b)" by (simp add: poll_event_batch_def)
  moreover have "length (in_flight rt') = length (pd_events p) - pd_committed_prefix p"
    using p by (simp add: in_flight_def)
  ultimately show ?thesis using current_batch_in_flight [OF b] t p ok by auto
qed

theorem unacknowledged_redelivered_witness:
  "\<exists>b. poll_event_batch mem_env mem_acked = Some (mem_acked, Inr b) \<and> batch_events b = [example_event ''b'']"
proof -
  from unacknowledged_redelivered [OF mem_delivered_inv mem_acked_eq(1)] show ?thesis by (auto simp: mem_acked_eq(2))
qed

section \<open>Stopping\<close>

text \<open>
  A running runtime stops only when it holds nothing: with any event in flight, staged, read
  from the source or injected, a stop is refused and changes nothing; otherwise the runtime ends up
  stopped, with its durable position untouched.
\<close>

theorem stop_refuses_uncommitted:
  assumes "runtime_inv env rt" and "rt_state rt = Running"
  shows "(\<exists>e. stop env rt = (rt, Inl e)) \<and> backlog rt @ rt_injected_events rt \<noteq> []
    \<or> backlog rt @ rt_injected_events rt = []
      \<and> rt_state (fst (stop env rt)) = Stopped \<and> rt_checkpoint (fst (stop env rt)) = rt_checkpoint rt
      \<and> (\<forall>evs. snd (stop env rt) = Inr evs \<longrightarrow> evs = [])"
proof (cases "backlog rt @ rt_injected_events rt = []")
  case False
  with assms pending_count_backlog [OF assms(1)] show ?thesis by (auto simp: stop_def backlog_def)
next
  case True
  obtain rt1 r where c: "close_registered_sink env (release_source env rt) = (rt1, r)" by force
  have "fst (stop env rt) = rt1" "\<forall>evs. snd (stop env rt) = Inr evs \<longrightarrow> evs = []"
    using True assms pending_count_backlog [OF assms(1)] c by (auto simp: stop_def backlog_def split: sum.split)
  with True close_sink_frame [OF c] show ?thesis by (simp add: same_events_def release_source_def)
qed

theorem stop_refuses_uncommitted_witness:
  "\<exists>e. stop mem_env mem_queued = (mem_queued, Inl e)"
proof -
  have "rt_state mem_queued = Running" "rt_injected_events mem_queued \<noteq> []" by (simp_all add: mem_queued_def mem_started_eq)
  with stop_refuses_uncommitted [OF mem_queued_inv] show ?thesis by auto
qed

text \<open>
  C24. A forced stop hands back everything the runtime held and had not committed, in delivery order:
  in flight, staged, read from the source, injected. It moves no durable position, and leaves the
  runtime stopped, empty and well formed.
\<close>

theorem force_stop_hands_back:
  assumes "runtime_inv env rt" and "rt_state rt = Running" and "force_stop env rt = (rt', Inr evs)"
  shows "evs = in_flight rt @ rt_buffered_events rt @ rt_pending_source_events rt @ rt_injected_events rt
    \<and> rt_checkpoint rt' = rt_checkpoint rt \<and> rt_state rt' = Stopped
    \<and> backlog rt' = [] \<and> rt_injected_events rt' = [] \<and> runtime_inv env rt'"
  using force_stop_ok [OF assms(1,3,2)] by (simp add: backlog_def)

theorem force_stop_hands_back_witness:
  "snd (force_stop mem_env mem_queued) = Inr [example_event ''a'', example_event ''b'']"
proof -
  have run: "rt_state mem_queued = Running" by (simp add: mem_queued_def mem_started_eq)
  have "\<exists>evs. snd (force_stop mem_env mem_queued) = Inr evs"
    by (simp add: force_stop_def run Let_def close_registered_sink_def release_source_def mem_queued_def mem_started_eq
        mem_new_def example_config_simps)
  then obtain rt evs where f: "force_stop mem_env mem_queued = (rt, Inr evs)" by (metis prod.collapse)
  from force_stop_hands_back [OF mem_queued_inv run f] mem_backlogs(1)
  have "evs = rt_injected_events mem_queued" by (simp add: backlog_def)
  with f show ?thesis by (simp add: mem_queued_def)
qed

section \<open>The sink loop\<close>

lemma commit_current_settles:
  assumes inv: "runtime_inv env rt" and cur: "batch_current rt b"
    and c: "commit_ack env (batch_ack_mode b) rt = (rt', Inr ())"
  shows "in_flight rt' = []"
proof -
  obtain p where p: "rt_pending_delivery rt = Some p" and b: "current_pending_batch rt = Some b"
    using cur by (auto simp: batch_current_def)
  have len: "length (in_flight rt) = length (pd_events p) - pd_committed_prefix p"
    using p by (simp add: in_flight_def)
  have pos: "0 < length (in_flight rt)" using inv p len by (simp add: runtime_inv_def)
  from b p obtain t where t: "batch_ack_mode b = Required t" "tok_event_count t = length (in_flight rt)"
    using len by (auto simp: current_pending_batch_def batch_ack_mode_def)
  from commit_ack_outcome [OF inv c] show ?thesis by cases (use t pos in auto)
qed



definition drained_all ::
    "('w, 'c) runtime_env \<Rightarrow> event list \<Rightarrow> ('w, 'c) cdc_runtime \<Rightarrow> ('w, 'c) cdc_runtime \<Rightarrow> event list \<Rightarrow> bool" where
  "drained_all env drained rt rt' evs \<longleftrightarrow>
     runtime_inv env rt' \<and> rt_state rt' = Running \<and> in_flight rt' = []
     \<and> (\<exists>new. evs @ backlog rt' = drained @ backlog rt @ new)"

lemma drain_loop_ok:
  assumes "drain_loop env drained rt = Some y"
  shows "\<forall>evs. snd y = Inr evs \<longrightarrow> length drained \<le> length evs
    \<and> (runtime_inv env rt \<longrightarrow> rt_state rt = Running
       \<longrightarrow> rt_next_delivery_id rt + (length evs - length drained) < u64_max \<longrightarrow> drained_all env drained rt (fst y) evs)"
proof (rule drain_loop.raw_induct [OF _ assms, where P = "\<lambda>env drained rt y. \<forall>evs. snd y = Inr evs \<longrightarrow>
    length drained \<le> length evs \<and> (runtime_inv env rt \<longrightarrow> rt_state rt = Running
      \<longrightarrow> rt_next_delivery_id rt + (length evs - length drained) < u64_max \<longrightarrow> drained_all env drained rt (fst y) evs)"])
  fix loop :: "('w, 'c) runtime_env \<Rightarrow> event list \<Rightarrow> ('w, 'c) cdc_runtime \<Rightarrow> (('w, 'c) cdc_runtime \<times> event list result) option"
  fix env drained rt y
  assume ih: "\<And>env drained rt y. loop env drained rt = Some y \<Longrightarrow> \<forall>evs. snd y = Inr evs \<longrightarrow>
    length drained \<le> length evs \<and> (runtime_inv env rt \<longrightarrow> rt_state rt = Running
      \<longrightarrow> rt_next_delivery_id rt + (length evs - length drained) < u64_max \<longrightarrow> drained_all env drained rt (fst y) evs)"
    and body: "(case poll_event_batch env rt of None \<Rightarrow> None | Some (rt1, Inl e) \<Rightarrow> Some (rt1, Inl e)
      | Some (rt1, Inr b) \<Rightarrow>
          if batch_is_empty b then Some (rt1, Inr drained)
          else (case commit_ack env (batch_ack_mode b) rt1 of
                  (rt2, Inl e) \<Rightarrow> Some (rt2, Inl e)
                | (rt2, Inr _) \<Rightarrow> loop env (drained @ batch_into_events b) rt2)) = Some y"
  show "\<forall>evs. snd y = Inr evs \<longrightarrow> length drained \<le> length evs \<and> (runtime_inv env rt \<longrightarrow> rt_state rt = Running
      \<longrightarrow> rt_next_delivery_id rt + (length evs - length drained) < u64_max \<longrightarrow> drained_all env drained rt (fst y) evs)"
  proof (intro allI impI)
    fix evs assume r: "snd y = Inr evs"
    from body r obtain rt1 b where p: "poll_event_batch env rt = Some (rt1, Inr b)"
      by (auto split: option.splits sum.splits)
    show "length drained \<le> length evs \<and> (runtime_inv env rt \<longrightarrow> rt_state rt = Running
      \<longrightarrow> rt_next_delivery_id rt + (length evs - length drained) < u64_max \<longrightarrow> drained_all env drained rt (fst y) evs)"
    proof (cases "batch_is_empty b")
      case True
      with body p r have y: "y = (rt1, Inr drained)" "evs = drained" by auto
      have "drained_all env drained rt rt1 drained"
        if "runtime_inv env rt" "rt_state rt = Running" "rt_next_delivery_id rt < u64_max"
        using poll_ok [OF that(1,3) p] that(2) True by (auto simp: drained_all_def steady_def batch_is_empty_iff)
      with y show ?thesis by simp
    next
      case False
      obtain rt2 r2 where c: "commit_ack env (batch_ack_mode b) rt1 = (rt2, r2)" by force
      with body p False r have r2: "r2 = Inr ()" and l: "loop env (drained @ batch_into_events b) rt2 = Some y"
        by (auto split: sum.splits)
      from ih [OF l] r have len: "length (drained @ batch_into_events b) \<le> length evs"
        and rest: "runtime_inv env rt2 \<Longrightarrow> rt_state rt2 = Running \<Longrightarrow>
          rt_next_delivery_id rt2 + (length evs - length (drained @ batch_into_events b)) < u64_max \<Longrightarrow>
          drained_all env (drained @ batch_into_events b) rt2 (fst y) evs" by blast+
      have "drained_all env drained rt (fst y) evs" if inv: "runtime_inv env rt" and run: "rt_state rt = Running"
        and id: "rt_next_delivery_id rt + (length evs - length drained) < u64_max"
      proof -
        have "rt_next_delivery_id rt < u64_max" using id by simp
        from poll_ok [OF inv this p] obtain new where inv1: "runtime_inv env rt1" and st: "rt_state rt1 = Running"
          and b: "batch_events b = in_flight rt1" and bl: "backlog rt1 = backlog rt @ new"
          and next1: "rt_next_delivery_id rt1 \<le> Suc (rt_next_delivery_id rt)" using run by (auto simp: steady_def)
        note ok = commit_ack_ok [OF inv1 c]
        have fl2: "in_flight rt2 = []"
          using commit_current_settles [OF inv1 poll_current [OF p False]] c r2 by simp
        have bi: "batch_into_events b = in_flight rt1" and ne: "0 < length (in_flight rt1)"
          using b False by (auto simp: batch_into_events_def batch_events_def batch_is_empty_def batch_len_def)
        have bl2: "backlog rt1 = in_flight rt1 @ backlog rt2" using ok fl2 by simp
        have "rt_next_delivery_id rt2 + (length evs - length (drained @ batch_into_events b)) < u64_max"
          using id next1 ok ne len unfolding bi length_append by linarith
        from rest [OF _ _ this] ok st have "drained_all env (drained @ batch_into_events b) rt2 (fst y) evs" by simp
        moreover have "in_flight rt1 @ backlog rt2 @ x = backlog rt @ new @ x" for x
          using bl bl2 by (metis append_assoc)
        ultimately show ?thesis by (auto simp: drained_all_def bi)
      qed
      with len show ?thesis by simp
    qed
  qed
qed



end
