(* ===== verification/Runtime_Gaps.thy ===== *)
theory Runtime_Gaps
  imports Runtime_Example Runtime_Admin
begin

text \<open>
  Cases in which the runtime does less than its documentation says, as theorems about the model:
  a transaction split under the preserving policy, events lost to a failed staging, a stream that is
  never reopened, and a quiet source reported as stalled. The last section is about metric labels.
\<close>

section \<open>Transaction boundaries\<close>

text \<open>
  The policy that preserves transactions splits one whenever any later transaction is queued
  behind it. The cut keeps a batch as it is as soon as some queued event belongs to another
  transaction, without looking whether the event right after the cut still belongs to the last one:
  the batch then ends inside that transaction, although it would have fitted a batch of its own.
\<close>

theorem preserving_policy_splits:
  assumes "opt_transaction_boundary opts = PreserveTransactions"
    and "event_tx_id (last chunk) = Some tx" and "\<not> transaction_declared_complete (last chunk)"
    and "event_tx_id e = Some tx" and "e' \<in> set rest" and "event_tx_id e' \<noteq> Some tx"
  shows "trim_to_transaction_boundary opts chunk (e # rest) = (chunk, e # rest)"
  using assms by (auto simp: trim_to_transaction_boundary_def list_ex_iff)

definition tx_event :: "nat \<Rightarrow> event" where
  "tx_event n = (example_event ''t'')\<lparr>ev_transaction := Some \<lparr>tx_id = n, total_events = None, event_index = 0\<rparr>\<rparr>"

theorem preserving_policy_splits_witness:
  "trim_to_transaction_boundary (example_options\<lparr>opt_transaction_boundary := PreserveTransactions\<rparr>)
     [tx_event 1, tx_event 2] [tx_event 2, tx_event 3] = ([tx_event 1, tx_event 2], [tx_event 2, tx_event 3])"
  by (rule preserving_policy_splits [where tx = 2 and e' = "tx_event 3"])
    (simp_all add: tx_event_def event_tx_id_def transaction_declared_complete_def)

section \<open>Staging failures\<close>

text \<open>
  C32. A poll that fails while staging a batch loses events for good. The events of the batch are
  taken off the queue first; if one of them is rejected (by validation, or because it has no
  parseable position), that event and the rest of the batch are in no queue any more, while the
  events read after them stay queued and will be delivered and committed over the gap.
\<close>

theorem failed_staging_loses_events:
  assumes "runtime_inv env rt" and "rt_pending_delivery rt = None" and "rt_buffered_events rt = []"
    and "rt_next_delivery_id rt < u64_max" and "flush_pending_source_events env rt = (rt', Inl e)"
  shows "\<exists>dropped. dropped \<noteq> []
    \<and> rt_pending_source_events rt = rt_buffered_events rt' @ dropped @ rt_pending_source_events rt'
    \<and> backlog rt' = rt_buffered_events rt' @ rt_pending_source_events rt'"
proof -
  have rest: "at_rest rt" using assms(2) by (simp add: at_rest_def)
  from flush_ok [OF assms(1) rest assms(3,4,5)] obtain dropped where d: "at_rest rt'" "dropped \<noteq> []"
    "rt_buffered_events rt' @ dropped @ rt_pending_source_events rt' = backlog rt" by auto
  moreover have "backlog rt = rt_pending_source_events rt" using assms(2,3) by (simp add: backlog_def in_flight_def)
  moreover have "backlog rt' = rt_buffered_events rt' @ rt_pending_source_events rt'"
    using d(1) by (simp add: backlog_def in_flight_def at_rest_def)
  ultimately show ?thesis by auto
qed

definition pg_queued :: "(event list list, offset in_memory_checkpoint) cdc_runtime" where
  "pg_queued = mem_started\<lparr>rt_config := example_cfg (CfgPostgres ''slot''), rt_source := SrcPostgres, rt_stream := Some 1,
     rt_pending_source_events := [example_event ''x'', example_event ''0/2'', example_event ''0/3'']\<rparr>"

lemma pg_queued_inv: "runtime_inv mem_env pg_queued"
  by (simp add: pg_queued_def mem_started_eq mem_new_def example_config_simps runtime_inv_def in_flight_def
      barrier_inv_def accepted_prefix_def accepted_of_def u64_max_def)

theorem failed_staging_loses_events_witness:
  "\<exists>rt' e. flush_pending_source_events mem_env pg_queued = (rt', Inl e)
     \<and> length (rt_buffered_events rt' @ rt_pending_source_events rt') < 3"
proof -
  have bad: "\<exists>e. parse_postgres_lsn ''x'' = Inl e"
    by (simp add: parse_postgres_lsn_def)
  have "\<exists>rt' e. flush_pending_source_events mem_env pg_queued = (rt', Inl e)"
    using bad by (auto simp: pg_queued_def mem_started_eq mem_new_def example_config_simps runtime_eval mem_env_def example_env_def)
  then obtain rt' e where f: "flush_pending_source_events mem_env pg_queued = (rt', Inl e)" by blast
  have s: "rt_pending_delivery pg_queued = None" "rt_buffered_events pg_queued = []" "rt_next_delivery_id pg_queued < u64_max"
    "length (rt_pending_source_events pg_queued) = 3"
    by (simp_all add: pg_queued_def mem_started_eq mem_new_def example_config_simps u64_max_def)
  from failed_staging_loses_events [OF pg_queued_inv s(1-3) f] obtain dropped where d: "dropped \<noteq> []"
    "rt_pending_source_events pg_queued = rt_buffered_events rt' @ dropped @ rt_pending_source_events rt'" by blast
  from d(2) s(4) have "length (rt_buffered_events rt') + (length dropped + length (rt_pending_source_events rt')) = 3" by simp
  moreover have "0 < length dropped" using d(1) by simp
  ultimately have "length (rt_buffered_events rt' @ rt_pending_source_events rt') < 3" unfolding length_append by linarith
  with f show ?thesis by blast
qed

section \<open>Reconnecting\<close>

text \<open>A running runtime without a source handle, with nothing queued or in flight.\<close>

definition silent :: "('w, 'c) cdc_runtime \<Rightarrow> bool" where
  "silent rt \<longleftrightarrow>
     rt_state rt = Running \<and> rt_stream rt = None \<and> rt_snapshot rt = None \<and> rt_pending_delivery rt = None
     \<and> rt_buffered_events rt = [] \<and> rt_pending_source_events rt = [] \<and> rt_injected_events rt = []"

lemma apply_control_keeps: "rt_stream (fst (apply_control env c rt)) = rt_stream rt \<and> rt_snapshot (fst (apply_control env c rt)) = rt_snapshot rt"
  by (auto simp: apply_control_def split: option.split prod.split)

lemma prologue_keeps:
  "rt_stream (retry_pending_confirmation env (service_control_commands env rt)) = rt_stream rt
   \<and> rt_snapshot (retry_pending_confirmation env (service_control_commands env rt)) = rt_snapshot rt"
proof -
  have f: "rt_stream (fold (\<lambda>c r. fst (apply_control env c r)) cs r) = rt_stream r
      \<and> rt_snapshot (fold (\<lambda>c r. fst (apply_control env c r)) cs r) = rt_snapshot r" for cs r
    by (induction cs arbitrary: r) (simp_all add: apply_control_keeps)
  have "rt_stream (service_control_commands env rt) = rt_stream rt \<and> rt_snapshot (service_control_commands env rt) = rt_snapshot rt"
    using f [of "rt_control_queue rt" "rt\<lparr>rt_control_queue := []\<rparr>"] by (simp add: service_control_commands_def Let_def)
  moreover have "rt_stream (retry_pending_confirmation env r) = rt_stream r \<and> rt_snapshot (retry_pending_confirmation env r) = rt_snapshot r" for r
    by (auto simp: retry_pending_confirmation_def split: option.split prod.split sum.split)
  ultimately show ?thesis by simp
qed

lemma silent_poll:
  assumes "silent rt"
  shows "\<exists>rt'. poll_event_batch env rt = Some (rt', Inr batch_empty) \<and> silent rt'"
proof -
  define rt1 where "rt1 = retry_pending_confirmation env (service_control_commands env rt)"
  have q: "quiet rt rt1" unfolding rt1_def by (rule poll_prologue_quiet)
  have "silent rt1" using q assms prologue_keeps [of env rt] by (simp add: silent_def quiet_def rt1_def)
  moreover from this have "poll_queued env rt1 = Some (rt1, Inr batch_empty)"
    by (simp add: silent_def poll_queued_def poll_injected_def poll_snapshot_def poll_stream_def)
  ultimately have "poll_event_batch env rt = Some (rt1, Inr batch_empty)"
    using assms by (simp add: poll_event_batch_def Let_def current_pending_batch_def silent_def flip: rt1_def)
  with \<open>silent rt1\<close> show ?thesis by blast
qed

lemma reconnect_exhausts:
  assumes "rt_stream rt = None" and "\<And>w. \<exists>w' e. source_connect env (rt_source rt) w = (w', Inl e)"
    and "max_retries p = Some m" and "m \<le> u32_max" and "attempt \<le> m"
  shows "\<exists>w e. stream_poll_loop env p attempt delay rt = Some (rt\<lparr>rt_world := w\<rparr>, Inl e)"
  using assms
proof (induction "m - attempt" arbitrary: attempt delay rt)
  case 0
  obtain w' e where c: "source_connect env (rt_source rt) (source_close env (rt_source rt) (rt_world rt)) = (w', Inl e)"
    using 0(3) by blast
  have "exhausted p attempt" using 0 by (simp add: exhausted_def)
  with 0(2) c show ?case
    by (subst stream_poll_loop.simps) (auto simp: stream_poll_iteration_def reconnect_arm_def)
next
  case (Suc k)
  obtain w' e where c: "source_connect env (rt_source rt) (source_close env (rt_source rt) (rt_world rt)) = (w', Inl e)"
    using Suc(4) by blast
  let ?rt = "rt\<lparr>rt_world := env_sleep env delay w'\<rparr>" and ?a = "min u32_max (attempt + 1)"
  have "\<not> exhausted p attempt" using Suc(2,5) by (simp add: exhausted_def)
  with Suc(3) c have it: "stream_poll_iteration env p attempt delay rt = Inr ?rt"
    by (simp add: stream_poll_iteration_def reconnect_arm_def)
  have a: "k = m - ?a" "?a \<le> m" using Suc(2,6) by auto
  from Suc(1) [OF a(1), of ?rt "next_delay p delay"] Suc(3-6) a(2)
  obtain w e where "stream_poll_loop env p ?a (next_delay p delay) ?rt = Some (?rt\<lparr>rt_world := w\<rparr>, Inl e)" by auto
  with it show ?case by (subst stream_poll_loop.simps) auto
qed

text \<open>
  After a source outage that outlasts the retry budget the runtime goes silent. The poll that
  gives up returns an error, but leaves the runtime running without a stream, and no later poll ever
  tries to open one: each returns an empty batch and success, for ever, also when the source is back.
\<close>

theorem exhausted_reconnect_goes_silent:
  assumes "rt_state rt = Running" and "rt_pending_delivery rt = None" and "rt_buffered_events rt = []"
    and "rt_pending_source_events rt = []" and "rt_injected_events rt = []" and "rt_snapshot rt = None"
    and "rt_control_queue rt = []" and "rt_pending_confirmation_lsn rt = None"
    and "rt_stream rt = Some h" and "opt_connection_retry (rt_options rt) = Some p"
    and "max_retries p = Some m" and "0 < m" and "m \<le> u32_max"
    and "\<exists>w e. env_next_events env h (opt_max_poll_wait_ms (rt_options rt)) (rt_world rt) = (w, Inl e) \<and> is_recoverable e"
    and "\<And>w. \<exists>w' e. env_connect env w = (w', Inl e)"
  shows "\<exists>rt' e. poll_event_batch env rt = Some (rt', Inl e) \<and> silent rt'
    \<and> (\<forall>other rt1. silent rt1 \<longrightarrow> (\<exists>rt2. poll_event_batch other rt1 = Some (rt2, Inr batch_empty) \<and> silent rt2))"
proof -
  let ?rt1 = "rt\<lparr>rt_control_published := incremental_snapshot_state env (rt\<lparr>rt_control_queue := []\<rparr>), rt_control_queue := []\<rparr>"
  have pro: "retry_pending_confirmation env (service_control_commands env rt) = ?rt1"
    using assms(7,8) by (simp add: service_control_commands_def retry_pending_confirmation_def Let_def)
  obtain w e where n: "env_next_events env h (opt_max_poll_wait_ms (rt_options rt)) (rt_world rt) = (w, Inl e)"
    and rec: "is_recoverable e" using assms(14) by blast
  have fail: "\<exists>w' e. source_connect env (rt_source rt) w = (w', Inl e)" for w
    using assms(15) by (simp add: source_connect_def)
  have "\<not> exhausted p 0" using assms(11,12) by (simp add: exhausted_def)
  let ?d = "initial_delay_ms p"
  let ?rt2 = "?rt1\<lparr>rt_stream := None, rt_world := source_close env (rt_source rt) (env_sleep env ?d w)\<rparr>"
  obtain w2 e2 where c: "source_connect env (rt_source rt) (rt_world ?rt2) = (w2, Inl e2)" using fail by blast
  have "retry_arm env ?d (?rt1\<lparr>rt_world := w\<rparr>) = Again (?rt2\<lparr>rt_world := w2\<rparr>)"
    using c by (simp add: retry_arm_def Let_def)
  then have it: "stream_poll_iteration env p 0 ?d ?rt1 = Inr (?rt2\<lparr>rt_world := w2\<rparr>)"
    using assms(9) n rec \<open>\<not> exhausted p 0\<close> by (simp add: stream_poll_iteration_def poll_arm_def)
  have "min u32_max (0 + 1) \<le> m" using assms(12,13) by simp
  from reconnect_exhausts [OF _ _ assms(11,13) this, of "?rt2\<lparr>rt_world := w2\<rparr>" env "next_delay p ?d"] fail
  obtain w3 e3 where l: "stream_poll_loop env p (min u32_max (0 + 1)) (next_delay p ?d) (?rt2\<lparr>rt_world := w2\<rparr>)
      = Some (?rt2\<lparr>rt_world := w2, rt_world := w3\<rparr>, Inl e3)" by auto
  have loop: "stream_poll_loop env p 0 ?d ?rt1 = Some (?rt2\<lparr>rt_world := w3\<rparr>, Inl e3)"
    by (subst stream_poll_loop.simps) (use it l in simp)
  have "poll_event_batch env rt = Some (?rt2\<lparr>rt_world := w3\<rparr>, Inl e3)"
    unfolding poll_event_batch_def Let_def pro
    using assms loop by (simp add: current_pending_batch_def poll_queued_def poll_injected_def poll_snapshot_def poll_stream_def)
  moreover have "silent (?rt2\<lparr>rt_world := w3\<rparr>)" using assms by (simp add: silent_def)
  ultimately show ?thesis using silent_poll by blast
qed

definition outage_env :: "(event list list, offset in_memory_checkpoint) runtime_env" where
  "outage_env = mem_env\<lparr>env_next_events := (\<lambda>_ _ w. (w, Inl (SourceError ''connection reset''))),
     env_connect := (\<lambda>w. (w, Inl (SourceError ''connection refused'')))\<rparr>"

definition outage_rt :: "(event list list, offset in_memory_checkpoint) cdc_runtime" where
  "outage_rt = mem_started\<lparr>rt_config := (example_cfg (CfgSqlServer False))\<lparr>cfg_options := runtime_options_default\<rparr>,
     rt_source := SrcSqlServer, rt_stream := Some 1\<rparr>"

theorem exhausted_reconnect_goes_silent_witness:
  "\<exists>rt' e rt2. poll_event_batch outage_env outage_rt = Some (rt', Inl e)
     \<and> poll_event_batch mem_env rt' = Some (rt2, Inr batch_empty)"
proof -
  have "is_recoverable (SourceError ''connection reset'')" by (simp add: is_recoverable_def)
  then have "\<exists>rt' e. poll_event_batch outage_env outage_rt = Some (rt', Inl e) \<and> silent rt'
    \<and> (\<forall>other rt1. silent rt1 \<longrightarrow> (\<exists>rt2. poll_event_batch (other :: (event list list, offset in_memory_checkpoint) runtime_env) rt1
        = Some (rt2, Inr batch_empty) \<and> silent rt2))"
    by (intro exhausted_reconnect_goes_silent [where h = 1 and p = retry_policy_default and m = 5])
      (simp_all add: outage_rt_def outage_env_def mem_env_def example_env_def mem_started_eq mem_new_def
        example_config_simps retry_policy_default_def u32_max_def)
  then show ?thesis by blast
qed

section \<open>Health\<close>

text \<open>
  A source with nothing to say is reported as stalled. The time of the last poll is recorded
  only when a batch goes out, so a poll that completes and finds nothing does not count: once the
  last delivery is older than the threshold, every healthy empty poll still leaves the verdict
  \<open>Stalled\<close>, whose reason says that no poll has completed.
\<close>

theorem quiet_source_reported_stalled:
  assumes "rt_state rt = Running" and "rt_pending_delivery rt = None" and "rt_buffered_events rt = []"
    and "rt_pending_source_events rt = []" and "rt_injected_events rt = []" and "rt_snapshot rt = None"
    and "rt_control_queue rt = []" and "rt_pending_confirmation_lsn rt = None"
    and "rt_stream rt = Some h" and "opt_connection_retry (rt_options rt) = None"
    and "env_next_events env h (opt_max_poll_wait_ms (rt_options rt)) (rt_world rt) = (w, Inr [])"
    and "rt_last_poll_at_ms rt = Some t" and "stall_threshold_ms (rt_options rt) < now - t"
  shows "\<exists>rt'. poll_event_batch env rt = Some (rt', Inr batch_empty)
    \<and> derive_health now rt' = Stalled ''no poll has completed'' \<and> is_alertable (derive_health now rt')"
  using assms
  by (simp add: poll_event_batch_def current_pending_batch_def service_control_commands_def
      retry_pending_confirmation_def poll_queued_def poll_injected_def poll_snapshot_def poll_stream_def Let_def
      derive_health_def is_alertable_def)

theorem quiet_source_reported_stalled_witness:
  "\<exists>rt'. poll_event_batch mem_env (pg_queued\<lparr>rt_pending_source_events := [], rt_last_poll_at_ms := Some 0\<rparr>)
       = Some (rt', Inr batch_empty)
     \<and> verdict_as_str (derive_health 30001 rt') = ''stalled''"
proof -
  let ?rt = "pg_queued\<lparr>rt_pending_source_events := [], rt_last_poll_at_ms := Some 0\<rparr>"
  have "\<exists>rt'. poll_event_batch mem_env ?rt = Some (rt', Inr batch_empty)
    \<and> derive_health 30001 rt' = Stalled ''no poll has completed'' \<and> is_alertable (derive_health 30001 rt')"
    by (rule quiet_source_reported_stalled [where h = 1 and t = 0 and w = "[]"])
      (simp_all add: pg_queued_def mem_env_def example_env_def mem_started_eq mem_new_def example_config_simps
        stall_threshold_ms_def HEALTH_POLL_STALL_MULTIPLIER_def HEALTH_MIN_POLL_STALL_MS_def sat_mul64_def u64_max_def)
  then show ?thesis by (auto simp: verdict_as_str_def)
qed

section \<open>Metric labels\<close>

fun unescape_label :: "string \<Rightarrow> string" where
  "unescape_label (a # b # s) =
     (if a = CHR 92 then (if b = CHR ''n'' then CHR 10 else if b = CHR ''r'' then CHR 13 else b) # unescape_label s
      else a # unescape_label (b # s))"
| "unescape_label s = s"

lemma unescape_plain: "c \<noteq> CHR 92 \<Longrightarrow> unescape_label (c # s) = c # unescape_label s"
  by (cases s) simp_all

text \<open>
  A label survives its escaping: reading the escaped text back gives the label, so different
  labels stay different series, and no line feed or carriage return of a label reaches the
  exposition, where it would end the line.
\<close>

theorem label_escape_round_trip:
  "unescape_label (escape_prometheus_label s) = s
   \<and> CHR 10 \<notin> set (escape_prometheus_label s) \<and> CHR 13 \<notin> set (escape_prometheus_label s)"
  by (induction s) (auto simp: escape_prometheus_label_def escape_char_def unescape_plain)

end
