(* ===== verification/Runtime_Restart.thy ===== *)
theory Runtime_Restart
  imports Runtime_Api Checkpoint_Store
begin

text \<open>
  The runtime over the file store: what an acknowledgement leaves on disk, and where a runtime
  started on the same directory resumes.
\<close>

lemma position_not_snapshot:
  assumes "checkpoint_position env cfg e off"
  shows "\<not> is_snapshot_checkpoint cfg off"
proof -
  from assms obtain rt where cfg: "rt_config rt = cfg" and b: "build_checkpoint_offset env rt e = Inr off"
    by (auto simp: checkpoint_position_def)
  show ?thesis
  proof (cases "cfg_source cfg")
    case (CfgPostgres slot)
    with cfg b show ?thesis
      by (auto simp: build_checkpoint_offset_def is_snapshot_checkpoint_def Let_def postgres_offset_def split: sum.splits)
  next
    case (CfgMysql flavor)
    with cfg b show ?thesis
      by (auto simp: build_checkpoint_offset_def is_snapshot_checkpoint_def Let_def mysql_offset_def split: sum.splits)
  next
    case CfgMariaDb
    with cfg b show ?thesis
      by (auto simp: build_checkpoint_offset_def is_snapshot_checkpoint_def Let_def mysql_offset_def split: sum.splits)
  next
    case (CfgSqlServer t)
    with cfg b show ?thesis
      by (auto simp: build_checkpoint_offset_def is_snapshot_checkpoint_def Let_def sqlserver_offset_def)
  next
    case CfgDisabled
    then show ?thesis by (simp add: is_snapshot_checkpoint_def)
  qed
qed

lemma last_persistable_last: "xs \<noteq> [] \<Longrightarrow> last xs = Some y \<Longrightarrow> last_persistable xs = Some y"
  by (cases xs rule: rev_cases) (simp_all add: last_persistable_append)

text \<open>The record of the last acknowledged event carries that event's position.\<close>

lemma acknowledged_position:
  assumes inv: "runtime_inv env rt" and n: "0 < n" "n \<le> length (in_flight rt)"
    and e: "e = in_flight rt ! (n - 1)" "ev_snapshot e = None"
  shows "\<exists>off. checkpoint_position env (rt_config rt) e off
    \<and> last_persistable (map rec_offset (take n (pending_records (rt_commit_barrier rt)))) = Some off"
proof -
  let ?ps = "pending_records (rt_commit_barrier rt)"
  have rel: "list_all2 (record_for env (rt_config rt)) (in_flight rt @ rt_buffered_events rt) ?ps"
    using inv by (simp add: runtime_inv_def)
  have len: "n \<le> length ?ps" using rel n(2) by (auto dest: list_all2_lengthD)
  have "record_for env (rt_config rt) ((in_flight rt @ rt_buffered_events rt) ! (n - 1)) (?ps ! (n - 1))"
    using list_all2_nthD [OF rel, of "n - 1"] n by simp
  then have "record_for env (rt_config rt) e (?ps ! (n - 1))" using n e(1) by (auto simp: nth_append split: if_splits)
  with e(2) obtain off where off: "rec_offset (?ps ! (n - 1)) = Some off" "checkpoint_position env (rt_config rt) e off"
    by (auto simp: record_for_def)
  have "last (map rec_offset (take n ?ps)) = rec_offset (?ps ! (n - 1))"
  proof -
    have "take n ?ps \<noteq> []" "length (take n ?ps) = n" using n len by auto
    then show ?thesis using n by (simp add: last_conv_nth last_map)
  qed
  with off n len show ?thesis
    by (intro exI [of _ off] conjI last_persistable_last) auto
qed

lemma persist_nothing:
  "\<not> list_ex (\<lambda>e. ev_snapshot e \<noteq> None) (take n (in_flight rt)) \<Longrightarrow>
   persist_snapshot_checkpoint_before_commit env n rt = (rt, Inr ())"
  by (auto simp: persist_snapshot_checkpoint_before_commit_def pending_prefix_contains_snapshot_events_def
      pending_slice_def in_flight_def split: option.splits)

lemma acknowledged_on_disk:
  assumes inv: "runtime_inv env rt" and save: "env_save env = file_save sha"
    and good: "file_good sha decodes fam (rt_checkpoint rt)"
    and cnt: "file_get_committed_count sha (rt_checkpoint rt) = Inr m" "m \<le> committed_event_count (rt_commit_barrier rt)"
    and cap: "committed_event_count (rt_commit_barrier rt) + n \<le> u64_max"
    and n: "0 < n" "n \<le> length (in_flight rt)" and c: "commit_prefix env n rt = (rt', Inr ())"
    and rows: "\<not> list_ex (\<lambda>e. ev_snapshot e \<noteq> None) (take n (in_flight rt))"
    and last: "last_persistable (map rec_offset (take n (pending_records (rt_commit_barrier rt)))) = Some off"
    and valid: "file_valid decodes fam off"
  shows "file_load sha decodes (rt_checkpoint rt') = Inr (Some off)
    \<and> file_get_committed_count sha (rt_checkpoint rt') = Inr (committed_event_count (rt_commit_barrier rt'))"
  using inv n c
proof (cases rule: commit_prefix_outcome)
  case (failed w cp e)
  then show ?thesis by simp
next
  case (committed w1 cp1 w2 cp2 l p)
  let ?b = "rt_commit_barrier rt" and ?t = "wrap_add64 (committed_event_count (rt_commit_barrier rt)) n"
  have "rt\<lparr>rt_world := w1, rt_checkpoint := cp1\<rparr> = rt" using committed(1) persist_nothing [OF rows] by simp
  then have "rt_checkpoint (rt\<lparr>rt_world := w1, rt_checkpoint := cp1\<rparr>) = rt_checkpoint rt" by (rule arg_cong)
  then have cp1: "cp1 = rt_checkpoint rt" by simp
  have bi: "barrier_inv ?b" and a: "accepted_of ?b = []" using inv by (auto simp: runtime_inv_def)
  have un: "n \<le> length (unaccepted_of ?b)"
    using inv n(2) no_accepted [OF a] by (auto simp: runtime_inv_def dest: list_all2_lengthD)
  have cap': "committed_event_count ?b + length (accepted_of ?b) + n \<le> u64_max" using cap a by simp
  have last': "last_persistable (map rec_offset (take (length (accepted_of ?b) + n) (pending_records ?b))) = Some off"
    using last a by simp
  have acc: "accept_and_commit (file_save sha) n ?b (rt_checkpoint rt) = (drain_committed n ?t ?b, cp2, Inr ())"
    using committed(2) save cp1 by simp
  have "rt_checkpoint rt' = cp2" "rt_commit_barrier rt' = drain_committed n ?t ?b"
    by (auto simp: committed(3) settle_commit_def split: prod.split)
  with disk.accept_durable [OF good bi n(1) un cap' cnt last' valid acc] show ?thesis by simp
qed

text \<open>Where a start resumes: at the durable position, unless it is a snapshot's.\<close>

lemma start_resumes_at:
  assumes s: "start env tls rt = (rt', Inr ())" and src: "rt_source rt \<noteq> SrcDisabled"
    and inc: "cfg_incremental_snapshot (rt_config rt) = None"
    and load: "env_load env (rt_checkpoint rt) = Inr (Some off)" and pos: "\<not> is_snapshot_checkpoint (rt_config rt) off"
  shows "\<exists>w w' h. env_start_stream env (Some off) w = (w', Inr h) \<and> rt_stream rt' = Some h \<and> rt_snapshot rt' = None
    \<and> env_committed_count env (rt_checkpoint rt) = Inr (committed_event_count (rt_commit_barrier rt'))"
proof -
  from s obtain n where n: "env_committed_count env (rt_checkpoint rt) = Inr n"
    by (auto simp: start_def split: if_splits sum.splits)
  from s n obtain b where h: "hydrate_committed_event_count n (rt_commit_barrier rt) = (b, Inr ())"
    by (auto simp: start_def split: if_splits sum.splits prod.splits)
  let ?rt0 = "rt\<lparr>rt_commit_barrier := b\<rparr>"
  from s n h src obtain rt1 where st: "start_source env tls ?rt0 = (rt1, Inr ())"
    and rt': "rt' = reset_run_counters env (rt1\<lparr>rt_state := Running\<rparr>)"
    by (auto simp: start_def split: if_splits sum.splits prod.splits)
  have "start_position env tls ?rt0 = Inr (Some off)" using load pos by (simp add: start_position_def)
  with st inc obtain w where hd: "start_handles env (Some off) (?rt0\<lparr>rt_world := w\<rparr>) = (rt1, Inr ())"
    by (auto simp: start_source_def split: sum.splits prod.splits)
  with inc pos src obtain w' h where "env_start_stream env (Some off) w = (w', Inr h)"
    "rt1 = ?rt0\<lparr>rt_world := w', rt_stream := Some h, rt_snapshot := None, rt_handoff_complete := True\<rparr>"
    by (auto simp: start_handles_def source_start_stream_def Let_def split: sum.splits prod.splits)
  moreover from this have "rt_stream rt' = Some h" "rt_snapshot rt' = None" "rt_commit_barrier rt' = b"
    by (auto simp: rt' reset_run_counters_def split: prod.split)
  moreover have "committed_event_count b = n" using h by (auto simp: hydrate_committed_event_count_def split: if_splits)
  ultimately show ?thesis using n by auto
qed

end
