(* ===== verification/Snapshot_Driver.thy ===== *)
theory Snapshot_Driver
  imports Event_Envelope "HOL-Library.AList"
begin

text \<open>
  The incremental snapshot (\<open>source/incremental_snapshot.rs\<close>, \<open>source/incremental_snapshot/driver.rs\<close>):
  a stream handle that reads tables in chunks while the live stream keeps flowing, and drops a chunk
  row when the stream carries a change of that row which the chunk read could not have seen.

  The database side of the snapshot (catalog, watermark queries, chunk reads) and the live stream
  are operations on a world \<open>'w\<close>, given by an environment record; a stream position is a type \<open>'p\<close>
  with the backend's own comparison. Positions inside \<open>tables\<close> are within range because the phase
  is set from them; an index out of range would panic.
\<close>

named_theorems snapshot_defs \<open>definitions of the driver's straight-line operations\<close>

section \<open>State\<close>

datatype bracket_position = Before | Inside | After

record snapshot_table =
  st_schema :: string
  st_name :: string
  st_qualified :: string
  st_pk_columns :: "string list"
  st_pk_types :: "string list"
  st_columns :: "string list"
  st_condition :: "string option"

record chunk_row =
  cr_cursor :: "json list"
  cr_row :: json

record snapshot_table_state =
  sts_table :: string
  sts_pk_cursor :: "json list option"
  sts_is_complete :: bool
  sts_chunks_emitted :: nat
  sts_rows_emitted :: nat
  sts_condition :: "string option"

record snapshot_progress_state =
  iss_snapshot_id :: string
  iss_tables :: "snapshot_table_state list"
  iss_paused :: bool
  iss_stopped :: bool
  iss_generation :: nat

definition state_table :: "string \<Rightarrow> snapshot_progress_state \<Rightarrow> snapshot_table_state option" where
  "state_table t s = find (\<lambda>e. eq_ignore_ascii_case (sts_table e) t) (iss_tables s)"

definition state_is_complete :: "snapshot_progress_state \<Rightarrow> bool" where
  "state_is_complete s \<longleftrightarrow> iss_tables s \<noteq> [] \<and> list_all sts_is_complete (iss_tables s)"

definition state_rows_emitted :: "snapshot_progress_state \<Rightarrow> nat" where
  "state_rows_emitted s = sum_list (map sts_rows_emitted (iss_tables s))"

definition state_tables_remaining :: "snapshot_progress_state \<Rightarrow> nat" where
  "state_tables_remaining s = length (filter (\<lambda>t. \<not> sts_is_complete t) (iss_tables s))"

record table_progress =
  tp_spec :: snapshot_table
  tp_pk_cursor :: "json list option"
  tp_is_complete :: bool
  tp_chunks_emitted :: nat
  tp_rows_emitted :: nat

definition table_ref_key :: "snapshot_table \<Rightarrow> string" where
  "table_ref_key spec = st_schema spec @ ''.'' @ st_name spec"

definition progress_key :: "table_progress \<Rightarrow> string" where
  "progress_key t = table_ref_key (tp_spec t)"

text \<open>
  The map from fingerprints to chunk positions is built from the rows and only looked up, so it is
  the function \<open>row_index\<close> below.
\<close>

datatype 'p snapshot_phase =
    ChunkPrepare nat
  | ChunkCollect nat 'p 'p "(string \<times> event) list" "string list" "json list"
  | ChunkEmit nat "event list" "json list" nat
  | Done

record 'p snapshot_driver =
  sd_tables :: "table_progress list"
  sd_phase :: "'p snapshot_phase"
  sd_chunk_size :: nat
  sd_table_conditions :: "(string \<times> string) list"
  sd_source_name :: string
  sd_snapshot_id :: string
  sd_events_emitted :: nat
  sd_paused :: bool
  sd_generation :: nat
  sd_stopped :: bool
  sd_deferred :: "event list"

record ('w, 'p) snapshot_env =
  bk_describe_table :: "string \<Rightarrow> 'w \<Rightarrow> 'w \<times> snapshot_table result"
  bk_current_position :: "'w \<Rightarrow> 'w \<times> 'p result"
  bk_fetch_chunk :: "snapshot_table \<Rightarrow> json list option \<Rightarrow> nat \<Rightarrow> 'w \<Rightarrow> 'w \<times> chunk_row list result"
  bk_position_of_event :: "event \<Rightarrow> 'p option"
  bk_less :: "'p \<Rightarrow> 'p \<Rightarrow> bool"
  bk_event_in_bracket :: "event \<Rightarrow> 'p \<Rightarrow> 'p \<Rightarrow> 'p \<Rightarrow> bracket_position"
  bk_render_values :: "json list \<Rightarrow> string"
  bk_hash_order :: "(string \<times> string) list \<Rightarrow> (string \<times> string) list"
  bk_now :: "'w \<Rightarrow> 'w \<times> nat"
  in_next_events :: "nat \<Rightarrow> 'w \<Rightarrow> 'w \<times> event list result"

definition default_event_in_bracket :: "('p \<Rightarrow> 'p \<Rightarrow> bool) \<Rightarrow> event \<Rightarrow> 'p \<Rightarrow> 'p \<Rightarrow> 'p \<Rightarrow> bracket_position" where
  "default_event_in_bracket lt e position low high =
     (if lt high position then After else if lt low position then Inside else Before)"

section \<open>Row filters\<close>

text \<open>The conditions are a hash map; \<open>bk_hash_order\<close> is the order its iterator yields.\<close>

definition lookup_condition ::
    "('w, 'p) snapshot_env \<Rightarrow> (string \<times> string) list \<Rightarrow> string \<Rightarrow> snapshot_table \<Rightarrow> string option" where
  "lookup_condition env conditions table_ref spec =
     map_option snd (find (\<lambda>(k, _). eq_ignore_ascii_case k table_ref \<or> eq_ignore_ascii_case k (table_ref_key spec))
       (bk_hash_order env conditions))"

definition describe_with_condition ::
    "('w, 'p) snapshot_env \<Rightarrow> string \<Rightarrow> (string \<times> string) list \<Rightarrow> 'w \<Rightarrow> 'w \<times> snapshot_table result" where
  "describe_with_condition env table_ref conditions w =
     (case bk_describe_table env table_ref w of
        (w', Inl e) \<Rightarrow> (w', Inl e)
      | (w', Inr spec) \<Rightarrow> (w', Inr (spec\<lparr>st_condition := lookup_condition env conditions table_ref spec\<rparr>)))"

section \<open>Fingerprints\<close>

definition pk_fingerprint :: "('w, 'p) snapshot_env \<Rightarrow> string \<Rightarrow> json list \<Rightarrow> string" where
  "pk_fingerprint env t vs = t @ ''|'' @ bk_render_values env vs"

definition fingerprint_from_payload :: "('w, 'p) snapshot_env \<Rightarrow> string \<Rightarrow> string list \<Rightarrow> json \<Rightarrow> string" where
  "fingerprint_from_payload env t pk payload =
     pk_fingerprint env t (map (\<lambda>c. case json_get payload c of Some v \<Rightarrow> v | None \<Rightarrow> JNull) pk)"

definition event_fingerprint :: "('w, 'p) snapshot_env \<Rightarrow> event \<Rightarrow> string option" where
  "event_fingerprint env e =
     (case ev_primary_key e of
        None \<Rightarrow> None
      | Some pk \<Rightarrow>
          if pk = [] then None
          else (case ev_after e of
                  Some payload \<Rightarrow> Some (fingerprint_from_payload env (ev_table e) pk payload)
                | None \<Rightarrow> map_option (fingerprint_from_payload env (ev_table e) pk) (ev_before e)))"

section \<open>Construction and control\<close>

definition next_incomplete_table :: "table_progress list \<Rightarrow> nat option" where
  "next_incomplete_table ts = map_option fst (find (\<lambda>(_, t). \<not> tp_is_complete t) (enumerate 0 ts))"

text \<open>The configured tables, each resumed from its persisted entry.\<close>

fun seed_tables ::
    "('w, 'p) snapshot_env \<Rightarrow> (string \<times> string) list \<Rightarrow> snapshot_progress_state option \<Rightarrow> string list
     \<Rightarrow> table_progress list \<Rightarrow> 'w \<Rightarrow> 'w \<times> table_progress list result" where
  "seed_tables env conditions resume [] acc w = (w, Inr acc)"
| "seed_tables env conditions resume (ref # refs) acc w =
     (case describe_with_condition env ref conditions w of
        (w', Inl e) \<Rightarrow> (w', Inl e)
      | (w', Inr spec) \<Rightarrow>
          if st_pk_columns spec = [] then (w', Inl (ConfigError ''incremental snapshot: table must have a primary key''))
          else
            let persisted = Option.bind resume (state_table (table_ref_key spec));
                cursor = Option.bind persisted sts_pk_cursor
            in if (case cursor of None \<Rightarrow> False | Some c \<Rightarrow> length c \<noteq> length (st_pk_columns spec))
               then (w', Inl (CheckpointError ''incremental snapshot: persisted keyset cursor does not match the primary key''))
               else
                 seed_tables env conditions resume refs
                   (acc @ [\<lparr>tp_spec = spec, tp_pk_cursor = cursor,
                            tp_is_complete = (case persisted of None \<Rightarrow> False | Some p \<Rightarrow> sts_is_complete p),
                            tp_chunks_emitted = (case persisted of None \<Rightarrow> 0 | Some p \<Rightarrow> sts_chunks_emitted p),
                            tp_rows_emitted = (case persisted of None \<Rightarrow> 0 | Some p \<Rightarrow> sts_rows_emitted p)\<rparr>]) w')"

text \<open>Tables in flight that the checkpoint knows and the configuration does not.\<close>

fun adopt_tables ::
    "('w, 'p) snapshot_env \<Rightarrow> (string \<times> string) list \<Rightarrow> snapshot_table_state list \<Rightarrow> table_progress list \<Rightarrow> 'w
     \<Rightarrow> 'w \<times> table_progress list" where
  "adopt_tables env conditions [] acc w = (w, acc)"
| "adopt_tables env conditions (p # ps) acc w =
     (if sts_is_complete p \<or> list_ex (\<lambda>t. progress_key t = sts_table p) acc then adopt_tables env conditions ps acc w
      else case describe_with_condition env (sts_table p) conditions w of
             (w', Inr spec) \<Rightarrow>
               if st_pk_columns spec \<noteq> []
               then adopt_tables env conditions ps
                      (acc @ [\<lparr>tp_spec = spec, tp_pk_cursor = sts_pk_cursor p, tp_is_complete = False,
                               tp_chunks_emitted = sts_chunks_emitted p, tp_rows_emitted = sts_rows_emitted p\<rparr>]) w'
               else adopt_tables env conditions ps acc w'
           | (w', Inl _) \<Rightarrow> adopt_tables env conditions ps acc w')"

definition first_phase :: "table_progress list \<Rightarrow> 'p snapshot_phase" where
  [snapshot_defs]: "first_phase ts = (case next_incomplete_table ts of Some i \<Rightarrow> ChunkPrepare i | None \<Rightarrow> Done)"

definition driver_new ::
    "('w, 'p) snapshot_env \<Rightarrow> string list \<Rightarrow> nat \<Rightarrow> (string \<times> string) list \<Rightarrow> string
     \<Rightarrow> snapshot_progress_state option \<Rightarrow> 'w \<Rightarrow> 'w \<times> 'p snapshot_driver result" where
  "driver_new env tables chunk_size conditions source resume w =
     (let stopped = (case resume of None \<Rightarrow> False | Some s \<Rightarrow> iss_stopped s)
      in case seed_tables env conditions resume (if stopped then [] else tables) [] w of
           (w1, Inl e) \<Rightarrow> (w1, Inl e)
         | (w1, Inr seeded) \<Rightarrow>
             (case (case resume of
                      Some s \<Rightarrow> if stopped then (w1, seeded) else adopt_tables env conditions (iss_tables s) seeded w1
                    | None \<Rightarrow> (w1, seeded)) of
                (w2, ts) \<Rightarrow>
                  (case (case resume of
                           Some s \<Rightarrow> if iss_snapshot_id s \<noteq> [] then (w2, iss_snapshot_id s)
                                     else (case bk_now env w2 of (w3, now) \<Rightarrow> (w3, ''incremental-'' @ show_radix 10 now))
                         | None \<Rightarrow> (case bk_now env w2 of (w3, now) \<Rightarrow> (w3, ''incremental-'' @ show_radix 10 now))) of
                     (w3, sid) \<Rightarrow>
                       (w3, Inr \<lparr>sd_tables = ts, sd_phase = first_phase ts, sd_chunk_size = max chunk_size 1,
                                 sd_table_conditions = conditions, sd_source_name = source, sd_snapshot_id = sid,
                                 sd_events_emitted = 0,
                                 sd_paused = (case resume of None \<Rightarrow> False | Some s \<Rightarrow> iss_paused s),
                                 sd_generation = (case resume of None \<Rightarrow> 0 | Some s \<Rightarrow> iss_generation s),
                                 sd_stopped = stopped, sd_deferred = []\<rparr>))))"

fun resolve_tables ::
    "('w, 'p) snapshot_env \<Rightarrow> (string \<times> string) list \<Rightarrow> string list \<Rightarrow> snapshot_table list \<Rightarrow> 'w
     \<Rightarrow> 'w \<times> snapshot_table list result" where
  "resolve_tables env conditions [] acc w = (w, Inr acc)"
| "resolve_tables env conditions (ref # refs) acc w =
     (case describe_with_condition env ref conditions w of
        (w', Inl e) \<Rightarrow> (w', Inl e)
      | (w', Inr spec) \<Rightarrow>
          if st_pk_columns spec = [] then (w', Inl (ConfigError ''incremental snapshot: table must have a primary key''))
          else resolve_tables env conditions refs (acc @ [spec]) w')"

text \<open>One resolved table: ignored while in flight, rewound when finished, appended when new.\<close>

fun enqueue_spec :: "snapshot_table \<Rightarrow> table_progress list \<Rightarrow> table_progress list \<times> bool" where
  "enqueue_spec spec [] =
     ([\<lparr>tp_spec = spec, tp_pk_cursor = None, tp_is_complete = False, tp_chunks_emitted = 0, tp_rows_emitted = 0\<rparr>], True)"
| "enqueue_spec spec (t # ts) =
     (if progress_key t = table_ref_key spec
      then (if \<not> tp_is_complete t then (t # ts, False)
            else (\<lparr>tp_spec = spec, tp_pk_cursor = None, tp_is_complete = False, tp_chunks_emitted = 0,
                   tp_rows_emitted = 0\<rparr> # ts, True))
      else (case enqueue_spec spec ts of (ts', b) \<Rightarrow> (t # ts', b)))"

fun enqueue_specs :: "snapshot_table list \<Rightarrow> table_progress list \<Rightarrow> nat \<Rightarrow> table_progress list \<times> nat" where
  "enqueue_specs [] ts n = (ts, n)"
| "enqueue_specs (spec # specs) ts n =
     (case enqueue_spec spec ts of (ts', b) \<Rightarrow> enqueue_specs specs ts' (if b then Suc n else n))"

definition sat_inc32 :: "nat \<Rightarrow> nat" where
  "sat_inc32 n = min u32_max (n + 1)"

definition enqueue_tables ::
    "('w, 'p) snapshot_env \<Rightarrow> string list \<Rightarrow> (string \<times> string) list \<Rightarrow> 'p snapshot_driver \<Rightarrow> 'w
     \<Rightarrow> 'p snapshot_driver \<times> 'w \<times> nat result" where
  "enqueue_tables env tables conditions d w =
     (case resolve_tables env (fold (\<lambda>(k, v). AList.update k v) conditions (sd_table_conditions d)) tables [] w of
        (w', Inl e) \<Rightarrow> (d, w', Inl e)
      | (w', Inr specs) \<Rightarrow>
          (case enqueue_specs specs (sd_tables d) 0 of
             (ts, n) \<Rightarrow>
               (if n > 0
                then d\<lparr>sd_tables := ts, sd_generation := sat_inc32 (sd_generation d), sd_stopped := False,
                       sd_phase := (case (next_incomplete_table ts, sd_phase d) of
                                      (Some i, Done) \<Rightarrow> ChunkPrepare i
                                    | _ \<Rightarrow> sd_phase d)\<rparr>
                else d\<lparr>sd_tables := ts\<rparr>,
                w', Inr n)))"

definition set_paused :: "bool \<Rightarrow> 'p snapshot_driver \<Rightarrow> 'p snapshot_driver \<times> bool" where
  "set_paused p d =
     (d\<lparr>sd_paused := p,
        sd_phase := (case sd_phase d of
                       Done \<Rightarrow> if p then Done
                               else (case next_incomplete_table (sd_tables d) of Some i \<Rightarrow> ChunkPrepare i | None \<Rightarrow> Done)
                     | ph \<Rightarrow> ph)\<rparr>,
      sd_paused d)"

definition stop_snapshot :: "'p snapshot_driver \<Rightarrow> 'p snapshot_driver \<times> nat" where
  "stop_snapshot d =
     (d\<lparr>sd_tables := [], sd_phase := Done, sd_paused := False, sd_stopped := True,
        sd_generation := sat_inc32 (sd_generation d)\<rparr>,
      length (filter (\<lambda>t. \<not> tp_is_complete t) (sd_tables d)))"

definition snapshot_state :: "'p snapshot_driver \<Rightarrow> snapshot_progress_state" where
  "snapshot_state d =
     \<lparr>iss_snapshot_id = sd_snapshot_id d,
      iss_tables = map (\<lambda>t. \<lparr>sts_table = progress_key t, sts_pk_cursor = tp_pk_cursor t,
                             sts_is_complete = tp_is_complete t, sts_chunks_emitted = tp_chunks_emitted t,
                             sts_rows_emitted = tp_rows_emitted t, sts_condition = st_condition (tp_spec t)\<rparr>) (sd_tables d),
      iss_paused = sd_paused d, iss_stopped = sd_stopped d, iss_generation = sd_generation d\<rparr>"

section \<open>Reading a chunk\<close>

definition build_snapshot_event ::
    "'p snapshot_driver \<Rightarrow> snapshot_table \<Rightarrow> nat \<Rightarrow> string \<Rightarrow> json \<Rightarrow> nat \<Rightarrow> event" where
  "build_snapshot_event d spec now fp row n =
     default_event\<lparr>ev_before := None, ev_after := Some row, ev_op := Read,
       ev_source := \<lparr>source_name = sd_source_name d,
         source_offset = ''incremental:'' @ show_radix 10 (sd_generation d) @ '':'' @ st_qualified spec @ '':'' @ fp,
         source_timestamp = now\<rparr>,
       ev_ts := now, ev_schema := Some (st_schema spec), ev_table := st_name spec,
       ev_primary_key := Some (st_pk_columns spec),
       ev_snapshot := Some \<lparr>snapshot_id = sd_snapshot_id d, chunk_index = n, is_last_chunk = False\<rparr>,
       ev_transaction := None\<rparr>"

fun build_chunk_rows ::
    "('w, 'p) snapshot_env \<Rightarrow> 'p snapshot_driver \<Rightarrow> snapshot_table \<Rightarrow> nat \<Rightarrow> chunk_row list \<Rightarrow> 'w
     \<Rightarrow> 'w \<times> (string \<times> event) list" where
  "build_chunk_rows env d spec n [] w = (w, [])"
| "build_chunk_rows env d spec n (r # rs) w =
     (let fp = fingerprint_from_payload env (st_name spec) (st_pk_columns spec) (cr_row r)
      in case bk_now env w of
           (w1, now) \<Rightarrow>
             (case build_chunk_rows env d spec n rs w1 of
                (w2, rows) \<Rightarrow> (w2, (fp, build_snapshot_event d spec now fp (cr_row r) n) # rows)))"

definition prepare_index :: "nat \<Rightarrow> table_progress list \<Rightarrow> nat option" where
  "prepare_index i ts = (if i < length ts \<and> \<not> tp_is_complete (ts ! i) then Some i else next_incomplete_table ts)"

definition drive_chunk_prepare ::
    "('w, 'p) snapshot_env \<Rightarrow> nat \<Rightarrow> 'p snapshot_driver \<Rightarrow> 'w \<Rightarrow> 'p snapshot_driver \<times> 'w \<times> unit result" where
  "drive_chunk_prepare env i0 d w =
     (if sd_paused d then (d, w, Inr ())
      else case prepare_index i0 (sd_tables d) of
             None \<Rightarrow> (d\<lparr>sd_phase := Done\<rparr>, w, Inr ())
           | Some i \<Rightarrow>
               (let t = sd_tables d ! i
                in case bk_current_position env w of
                     (w1, Inl e) \<Rightarrow> (d, w1, Inl e)
                   | (w1, Inr low) \<Rightarrow>
                       (case bk_fetch_chunk env (tp_spec t) (tp_pk_cursor t) (sd_chunk_size d) w1 of
                          (w2, Inl e) \<Rightarrow> (d, w2, Inl e)
                        | (w2, Inr rows) \<Rightarrow>
                            (case bk_current_position env w2 of
                               (w3, Inl e) \<Rightarrow> (d, w3, Inl e)
                             | (w3, Inr high) \<Rightarrow>
                                 if rows = []
                                 then let ts = (sd_tables d)[i := t\<lparr>tp_is_complete := True\<rparr>]
                                      in (d\<lparr>sd_tables := ts, sd_phase := first_phase ts\<rparr>, w3, Inr ())
                                 else (case build_chunk_rows env d (tp_spec t) (tp_chunks_emitted t) rows w3 of
                                         (w4, chunk) \<Rightarrow>
                                           (d\<lparr>sd_phase := ChunkCollect i low high chunk [] (cr_cursor (last rows))\<rparr>,
                                            w4, Inr ()))))))"

section \<open>The override window\<close>

definition row_index :: "string \<Rightarrow> (string \<times> event) list \<Rightarrow> nat option" where
  "row_index fp rows = map_option fst (find (\<lambda>(_, f, _). f = fp) (rev (enumerate 0 rows)))"

definition fill_columns :: "jobj \<Rightarrow> string list \<Rightarrow> json option \<Rightarrow> string list \<times> json option \<times> string list" where
  "fill_columns shadow columns img =
     (if columns = [] then (columns, img, [])
      else case Option.bind img as_object of
             None \<Rightarrow> (columns, img, [])
           | Some o1 \<Rightarrow>
               (let kept = filter (\<lambda>c. obj_get shadow c = None) columns
                in (kept,
                    Some (JObject (fold (\<lambda>c m. case obj_get shadow c of Some v \<Rightarrow> obj_insert c v m | None \<Rightarrow> m) columns o1)),
                    kept)))"

definition repair_partial_payload ::
    "string \<Rightarrow> event \<Rightarrow> (string \<times> event) list \<Rightarrow> (string \<times> event) list \<times> event \<times> string list" where
  "repair_partial_payload fp e rows =
     (case row_index fp rows of
        None \<Rightarrow> (rows, e, [])
      | Some i \<Rightarrow>
          (case Option.bind (ev_after (snd (rows ! i))) as_object of
             None \<Rightarrow> (rows, e, ev_unavailable_columns e)
           | Some shadow \<Rightarrow>
               (case fill_columns shadow (ev_before_unavailable_columns e) (ev_before e) of
                  (bcols, bimage, bunfilled) \<Rightarrow>
                    (case fill_columns shadow (ev_unavailable_columns e) (ev_after e) of
                       (acols, aimage, aunfilled) \<Rightarrow>
                         (let e' = e\<lparr>ev_before := bimage, ev_before_unavailable_columns := bcols,
                                     ev_after := aimage, ev_unavailable_columns := acols\<rparr>;
                              shadow' = (case Option.bind aimage as_object of
                                           Some m \<Rightarrow> fold (\<lambda>(c, v) s. obj_insert c v s) m shadow
                                         | None \<Rightarrow> shadow)
                          in (rows[i := (fst (rows ! i), (snd (rows ! i))\<lparr>ev_after := Some (JObject shadow')\<rparr>)],
                              e', bunfilled @ aunfilled))))))"

definition membership :: "('w, 'p) snapshot_env \<Rightarrow> 'p \<Rightarrow> 'p \<Rightarrow> event \<Rightarrow> bracket_position option" where
  "membership env low high e =
     (case bk_position_of_event env e of None \<Rightarrow> None | Some p \<Rightarrow> Some (bk_event_in_bracket env e p low high))"

definition same_table :: "snapshot_table \<Rightarrow> event \<Rightarrow> bool" where
  "same_table spec e \<longleftrightarrow> ev_table e = st_name spec \<and> (case ev_schema e of Some s \<Rightarrow> s | None \<Rightarrow> st_schema spec) = st_schema spec"

definition superseding :: "('w, 'p) snapshot_env \<Rightarrow> snapshot_table \<Rightarrow> 'p \<Rightarrow> 'p \<Rightarrow> event \<Rightarrow> string option" where
  "superseding env spec low high e =
     (if same_table spec e \<and> membership env low high e = Some Inside then event_fingerprint env e else None)"

fun max_batch_position :: "('w, 'p) snapshot_env \<Rightarrow> event list \<Rightarrow> 'p option \<Rightarrow> 'p option" where
  "max_batch_position env [] acc = acc"
| "max_batch_position env (e # es) acc =
     max_batch_position env es
       (case bk_position_of_event env e of
          None \<Rightarrow> acc
        | Some p \<Rightarrow> (case acc of None \<Rightarrow> Some p | Some c \<Rightarrow> if bk_less env c p then Some p else Some c))"

definition before_split :: "('w, 'p) snapshot_env \<Rightarrow> 'p \<Rightarrow> 'p \<Rightarrow> event list \<Rightarrow> nat" where
  "before_split env low high es = length (takeWhile (\<lambda>e. membership env low high e \<noteq> Some After) es)"

text \<open>The superseding events of a batch are repaired one after the other and their keys recorded.\<close>

fun absorb ::
    "('w, 'p) snapshot_env \<Rightarrow> snapshot_table \<Rightarrow> 'p \<Rightarrow> 'p \<Rightarrow> event list \<Rightarrow> (string \<times> event) list \<Rightarrow> string list
     \<Rightarrow> event list \<times> (string \<times> event) list \<times> string list" where
  "absorb env spec low high [] rows ov = ([], rows, ov)"
| "absorb env spec low high (e # es) rows ov =
     (case superseding env spec low high e of
        None \<Rightarrow> (case absorb env spec low high es rows ov of (es', rows', ov') \<Rightarrow> (e # es', rows', ov'))
      | Some fp \<Rightarrow>
          (case repair_partial_payload fp e rows of
             (rows1, e1, _) \<Rightarrow>
               (case absorb env spec low high es rows1 (List.insert fp ov) of
                  (es', rows', ov') \<Rightarrow> (e1 # es', rows', ov'))))"

definition watermark_passed ::
    "('w, 'p) snapshot_env \<Rightarrow> 'p \<Rightarrow> event list \<Rightarrow> 'w \<Rightarrow> 'w \<times> bool result" where
  "watermark_passed env high es w =
     (if (case max_batch_position env es None of None \<Rightarrow> False | Some p \<Rightarrow> \<not> bk_less env p high) then (w, Inr True)
      else if es = []
      then (case bk_current_position env w of
              (w', Inl e) \<Rightarrow> (w', Inl e)
            | (w', Inr p) \<Rightarrow> (w', Inr (\<not> bk_less env p high)))
      else (w, Inr False))"

definition merged_rows :: "(string \<times> event) list \<Rightarrow> string list \<Rightarrow> event list" where
  "merged_rows rows ov = map snd (filter (\<lambda>(f, _). f \<notin> set ov) rows)"

definition finalize_collect :: "'p snapshot_driver \<Rightarrow> 'p snapshot_driver" where
  "finalize_collect d =
     (case sd_phase d of
        ChunkCollect i low high rows ov cursor \<Rightarrow>
          d\<lparr>sd_phase := ChunkEmit i (merged_rows rows ov) cursor (length (merged_rows rows ov))\<rparr>
      | _ \<Rightarrow> d)"

definition commit_chunk_progress :: "nat \<Rightarrow> json list \<Rightarrow> nat \<Rightarrow> 'p snapshot_driver \<Rightarrow> 'p snapshot_driver" where
  "commit_chunk_progress i cursor n d =
     d\<lparr>sd_tables := (sd_tables d)[i := (let t = sd_tables d ! i in
          t\<lparr>tp_pk_cursor := (if cursor \<noteq> [] then Some cursor else tp_pk_cursor t),
            tp_chunks_emitted := sat_inc32 (tp_chunks_emitted t),
            tp_rows_emitted := sat_add64 (tp_rows_emitted t) n\<rparr>)]\<rparr>"

section \<open>Driving\<close>

definition EMIT_BATCH_SIZE :: nat where
  "EMIT_BATCH_SIZE = 1000"

definition COLLECT_POLL_CEILING_MS :: nat where
  "COLLECT_POLL_CEILING_MS = 100"

definition emit_batch_size :: "'p snapshot_driver \<Rightarrow> nat" where
  "emit_batch_size d = (if sd_chunk_size d = 0 then EMIT_BATCH_SIZE else sd_chunk_size d)"

lemma emit_batch_size_frame [simp]:
  "emit_batch_size (d\<lparr>sd_phase := ph\<rparr>) = emit_batch_size d"
  "emit_batch_size (d\<lparr>sd_tables := ts\<rparr>) = emit_batch_size d"
  "emit_batch_size (d\<lparr>sd_deferred := es\<rparr>) = emit_batch_size d"
  "emit_batch_size (d\<lparr>sd_paused := p\<rparr>) = emit_batch_size d"
  "emit_batch_size (d\<lparr>sd_generation := g\<rparr>) = emit_batch_size d"
  "emit_batch_size (d\<lparr>sd_stopped := b\<rparr>) = emit_batch_size d"
  by (simp_all add: emit_batch_size_def)

definition drain_deferred :: "'p snapshot_driver \<Rightarrow> 'p snapshot_driver \<times> event list" where
  "drain_deferred d =
     (d\<lparr>sd_deferred := drop (emit_batch_size d) (sd_deferred d)\<rparr>, take (emit_batch_size d) (sd_deferred d))"

text \<open>Held-back events first, then the live stream.\<close>

definition pass_through ::
    "('w, 'p) snapshot_env \<Rightarrow> nat \<Rightarrow> 'p snapshot_driver \<Rightarrow> 'w \<Rightarrow> 'p snapshot_driver \<times> 'w \<times> event list result" where
  "pass_through env timeout d w =
     (if sd_deferred d \<noteq> [] then (case drain_deferred d of (d', es) \<Rightarrow> (d', w, Inr es))
      else (case in_next_events env timeout w of (w', r) \<Rightarrow> (d, w', r)))"

text \<open>A result of an iteration on the left ends the call; on the right is the state of the next iteration.\<close>

definition collect_arm ::
    "('w, 'p) snapshot_env \<Rightarrow> nat \<Rightarrow> nat \<Rightarrow> 'p \<Rightarrow> 'p \<Rightarrow> (string \<times> event) list \<Rightarrow> string list \<Rightarrow> json list
     \<Rightarrow> 'p snapshot_driver \<Rightarrow> 'w
     \<Rightarrow> ('p snapshot_driver \<times> 'w \<times> event list result) + ('p snapshot_driver \<times> 'w)" where
  "collect_arm env timeout i low high rows ov cursor d w =
     (case in_next_events env (min timeout COLLECT_POLL_CEILING_MS) w of
        (w1, Inl e) \<Rightarrow> Inl (d, w1, Inl e)
      | (w1, Inr batch) \<Rightarrow>
          (case absorb env (tp_spec (sd_tables d ! i)) low high batch rows ov of
             (es, rows', ov') \<Rightarrow>
               (let d1 = d\<lparr>sd_phase := ChunkCollect i low high rows' ov' cursor\<rparr>
                in case watermark_passed env high batch w1 of
                     (w2, Inl e) \<Rightarrow> Inl (d1, w2, Inl e)
                   | (w2, Inr passed) \<Rightarrow>
                       (let n = before_split env low high batch;
                            d2 = d1\<lparr>sd_deferred := sd_deferred d1 @ drop n es\<rparr>;
                            d3 = (if passed then finalize_collect d2 else d2)
                        in if take n es \<noteq> [] then Inl (d3, w2, Inr (take n es))
                           else if passed then Inr (d3, w2)
                           else Inl (d3, w2, Inr [])))))"

definition drive_iteration ::
    "('w, 'p) snapshot_env \<Rightarrow> nat \<Rightarrow> 'p snapshot_driver \<Rightarrow> 'w
     \<Rightarrow> ('p snapshot_driver \<times> 'w \<times> event list result) + ('p snapshot_driver \<times> 'w)" where
  "drive_iteration env timeout d w =
     (case sd_phase d of
        Done \<Rightarrow> Inl (pass_through env timeout d w)
      | ChunkEmit i events cursor n \<Rightarrow>
          (let k = min (length events) (emit_batch_size d)
           in if k > 0 then Inl (d\<lparr>sd_phase := ChunkEmit i (drop k events) cursor n\<rparr>, w, Inr (take k events))
              else
                let d1 = (commit_chunk_progress i cursor n d)\<lparr>sd_phase := ChunkPrepare i\<rparr>
                in if sd_deferred d1 \<noteq> [] then (case drain_deferred d1 of (d2, es) \<Rightarrow> Inl (d2, w, Inr es))
                   else Inr (d1, w))
      | ChunkPrepare i \<Rightarrow>
          if sd_paused d then Inl (pass_through env timeout d w)
          else (case drive_chunk_prepare env i d w of
                  (d', w', Inl e) \<Rightarrow> Inl (d', w', Inl e)
                | (d', w', Inr _) \<Rightarrow> Inr (d', w'))
      | ChunkCollect i low high rows ov cursor \<Rightarrow> collect_arm env timeout i low high rows ov cursor d w)"


section \<open>A call always returns\<close>

text \<open>
  The loop ends without any hypothesis on the source. An iteration that does not return finishes a
  table, reads a chunk, or closes a window; a window that closes in the round it was opened in has
  rows to deliver, because nothing has superseded them yet, or events it has held back.
\<close>

definition incomplete :: "'p snapshot_driver \<Rightarrow> nat" where
  "incomplete d = length (filter (\<lambda>t. \<not> tp_is_complete t) (sd_tables d))"

definition rank :: "'p snapshot_driver \<Rightarrow> nat" where
  "rank d =
     (case sd_phase d of
        Done \<Rightarrow> 0
      | ChunkEmit i events cursor n \<Rightarrow> if events \<noteq> [] \<or> sd_deferred d \<noteq> [] then 1 else incomplete d + 4
      | ChunkPrepare i \<Rightarrow> incomplete d + 3
      | ChunkCollect i low high rows ov cursor \<Rightarrow> if ov = [] \<and> rows \<noteq> [] then 2 else incomplete d + 5)"

lemma find_enumerate_Some:
  "find (\<lambda>(_, t). P t) (enumerate n ts) = Some (i, t) \<Longrightarrow> n \<le> i \<and> i < n + length ts \<and> P (ts ! (i - n)) \<and> t = ts ! (i - n)"
proof (induction ts arbitrary: n)
  case (Cons a ts)
  show ?case
  proof (cases "P a")
    case False
    with Cons.prems have "find (\<lambda>(_, t). P t) (enumerate (Suc n) ts) = Some (i, t)" by simp
    from Cons.IH [OF this] show ?thesis by (auto simp: nth_Cons' Suc_diff_le)
  qed (use Cons.prems in auto)
qed simp

lemma next_incomplete_tableD:
  "next_incomplete_table ts = Some i \<Longrightarrow> i < length ts \<and> \<not> tp_is_complete (ts ! i)"
  unfolding next_incomplete_table_def
  by (auto dest!: find_enumerate_Some [where P = "\<lambda>t. \<not> tp_is_complete t"])

lemma prepare_indexD: "prepare_index i0 ts = Some i \<Longrightarrow> i < length ts \<and> \<not> tp_is_complete (ts ! i)"
  by (auto simp: prepare_index_def dest: next_incomplete_tableD split: if_splits)

lemma length_filter_update:
  "i < length xs \<Longrightarrow> P (xs ! i) \<Longrightarrow> \<not> P y \<Longrightarrow> Suc (length (filter P (xs[i := y]))) = length (filter P xs)"
  by (induction xs arbitrary: i) (auto split: nat.splits simp: nth_Cons')

lemma length_filter_update_same:
  "P y = P (xs ! i) \<Longrightarrow> length (filter P (xs[i := y])) = length (filter P xs)"
  by (induction xs arbitrary: i) (auto split: nat.splits simp: nth_Cons')

lemma incomplete_commit [simp]: "incomplete (commit_chunk_progress i cursor n d) = incomplete d"
  by (auto simp: incomplete_def commit_chunk_progress_def Let_def intro!: length_filter_update_same)

lemma build_chunk_rows_length: "build_chunk_rows env d spec n rows w = (w', chunk) \<Longrightarrow> length chunk = length rows"
  by (induction rows arbitrary: w w' chunk) (auto simp: Let_def split: prod.splits)

lemma rank_prepare:
  assumes "drive_chunk_prepare env i0 d w = (d', w', Inr ())" and "sd_phase d = ChunkPrepare i0" and "\<not> sd_paused d"
  shows "rank d' < rank d"
proof (cases "prepare_index i0 (sd_tables d)")
  case None
  with assms show ?thesis by (auto simp: drive_chunk_prepare_def rank_def)
next
  case (Some i)
  note i = prepare_indexD [OF Some]
  let ?ts = "(sd_tables d)[i := (sd_tables d ! i)\<lparr>tp_is_complete := True\<rparr>]"
  have less: "Suc (length (filter (\<lambda>t. \<not> tp_is_complete t) ?ts)) = incomplete d"
    unfolding incomplete_def using i by (intro length_filter_update) auto
  from assms Some consider
      "d' = d\<lparr>sd_tables := ?ts, sd_phase := first_phase ?ts\<rparr>"
    | low high chunk cursor w3 w4 rows where "rows \<noteq> []" "d' = d\<lparr>sd_phase := ChunkCollect i low high chunk [] cursor\<rparr>"
        "build_chunk_rows env d (tp_spec (sd_tables d ! i)) (tp_chunks_emitted (sd_tables d ! i)) rows w3 = (w4, chunk)"
    by (auto simp: drive_chunk_prepare_def Let_def split: sum.splits prod.splits if_splits)
  then show ?thesis
  proof cases
    case 1
    with less assms(2) show ?thesis by (auto simp: rank_def first_phase_def incomplete_def split: option.splits)
  next
    case 2
    then have "chunk \<noteq> []" using build_chunk_rows_length [OF 2(3)] by auto
    with 2 assms(2) show ?thesis by (simp add: rank_def)
  qed
qed

lemma absorb_length: "absorb env spec low high es rows ov = (es', rows', ov') \<Longrightarrow> length es' = length es"
  by (induction es arbitrary: rows ov es' rows' ov') (auto split: option.splits prod.splits)

lemma before_split_le: "before_split env low high es \<le> length es"
  by (simp add: before_split_def length_takeWhile_le)

lemma rank_collect:
  assumes "collect_arm env timeout i low high rows ov cursor d w = Inr (d', w')"
    and "sd_phase d = ChunkCollect i low high rows ov cursor"
  shows "rank d' < rank d"
proof -
  from assms(1) obtain w1 batch es rows' ov' where b: "in_next_events env (min timeout COLLECT_POLL_CEILING_MS) w = (w1, Inr batch)"
      and a: "absorb env (tp_spec (sd_tables d ! i)) low high batch rows ov = (es, rows', ov')"
      and t: "take (before_split env low high batch) es = []"
      and d': "d' = finalize_collect (d\<lparr>sd_phase := ChunkCollect i low high rows' ov' cursor,
                 sd_deferred := sd_deferred d @ drop (before_split env low high batch) es\<rparr>)"
    by (auto simp: collect_arm_def Let_def split: sum.splits prod.splits if_splits)
  have emit: "sd_phase d' = ChunkEmit i (merged_rows rows' ov') cursor (length (merged_rows rows' ov'))"
    and def: "sd_deferred d' = sd_deferred d @ drop (before_split env low high batch) es"
    and inc: "incomplete d' = incomplete d"
    by (auto simp: d' finalize_collect_def incomplete_def)
  show ?thesis
  proof (cases "batch = []")
    case True
    then have "es = []" "rows' = rows" "ov' = ov" using a by auto
    then have "ov = [] \<and> rows \<noteq> [] \<Longrightarrow> merged_rows rows' ov' \<noteq> []" by (auto simp: merged_rows_def)
    with emit inc assms(2) show ?thesis by (auto simp: rank_def)
  next
    case False
    with t absorb_length [OF a] have "sd_deferred d' \<noteq> []" by (auto simp: def)
    with emit assms(2) show ?thesis by (auto simp: rank_def)
  qed
qed

lemma rank_iteration:
  assumes "drive_iteration env timeout d w = Inr (d', w')"
  shows "rank d' < rank d"
proof (cases "sd_phase d")
  case (ChunkPrepare i)
  with assms have "\<not> sd_paused d" "drive_chunk_prepare env i d w = (d', w', Inr ())"
    by (auto simp: drive_iteration_def split: if_splits prod.splits sum.splits)
  with ChunkPrepare show ?thesis by (intro rank_prepare)
next
  case (ChunkCollect i low high rows ov cursor)
  with assms have "collect_arm env timeout i low high rows ov cursor d w = Inr (d', w')" by (simp add: drive_iteration_def)
  then show ?thesis using ChunkCollect by (rule rank_collect)
next
  case (ChunkEmit i events cursor n)
  have "0 < emit_batch_size d" by (simp add: emit_batch_size_def EMIT_BATCH_SIZE_def)
  with assms ChunkEmit have e: "events = []" "sd_deferred d = []"
      "d' = (commit_chunk_progress i cursor n d)\<lparr>sd_phase := ChunkPrepare i\<rparr>"
    by (auto simp: drive_iteration_def Let_def commit_chunk_progress_def split: if_splits prod.splits)
  have "incomplete d' = incomplete (commit_chunk_progress i cursor n d)" by (simp add: e(3) incomplete_def)
  then show ?thesis using e ChunkEmit by (simp add: rank_def)
next
  case Done
  with assms show ?thesis by (simp add: drive_iteration_def)
qed

function drive ::
    "('w, 'p) snapshot_env \<Rightarrow> nat \<Rightarrow> 'p snapshot_driver \<Rightarrow> 'w \<Rightarrow> 'p snapshot_driver \<times> 'w \<times> event list result" where
  "drive env timeout d w =
     (case drive_iteration env timeout d w of
        Inl r \<Rightarrow> r
      | Inr (d', w') \<Rightarrow> drive env timeout d' w')"
  by pat_completeness auto

termination drive
  by (relation "measure (\<lambda>(env, timeout, d, w). rank d)") (auto dest: rank_iteration)

declare drive.simps [simp del]

section \<open>The stream handle\<close>

definition next_events ::
    "('w, 'p) snapshot_env \<Rightarrow> nat \<Rightarrow> 'p snapshot_driver \<Rightarrow> 'w \<Rightarrow> 'p snapshot_driver \<times> 'w \<times> event list result" where
  "next_events env timeout d w =
     (case drive env timeout d w of
        (d', w', Inl e) \<Rightarrow> (d', w', Inl e)
      | (d', w', Inr es) \<Rightarrow> (d'\<lparr>sd_events_emitted := sat_add64 (sd_events_emitted d') (length es)\<rparr>, w', Inr es))"

text \<open>
  The offset the driver reports: none while events are held back. \<open>inner\<close> is the offset of the live
  stream and \<open>attach\<close> the backend's encoding of the progress into it.
\<close>

definition position_offset ::
    "'o option \<Rightarrow> ('o \<Rightarrow> snapshot_progress_state \<Rightarrow> 'o option) \<Rightarrow> 'p snapshot_driver \<Rightarrow> 'o option" where
  "position_offset inner attach d =
     (if sd_deferred d \<noteq> [] then None else Option.bind inner (\<lambda>o1. attach o1 (snapshot_state d)))"

definition save_position ::
    "'o option \<Rightarrow> ('o \<Rightarrow> snapshot_progress_state \<Rightarrow> 'o option) \<Rightarrow> ('o \<Rightarrow> nat \<Rightarrow> 'c \<Rightarrow> 'c \<times> unit result)
     \<Rightarrow> ('c \<Rightarrow> 'c \<times> unit result) \<Rightarrow> 'p snapshot_driver \<Rightarrow> 'c \<Rightarrow> 'c \<times> unit result" where
  "save_position inner attach save inner_save d c =
     (if sd_deferred d \<noteq> [] then (c, Inr ())
      else case position_offset inner attach d of
             None \<Rightarrow> inner_save c
           | Some off \<Rightarrow> save off (sd_events_emitted d) c)"

end
