(* ===== verification/Snapshot_Runs.thy ===== *)
theory Snapshot_Runs
  imports Snapshot_Driver
begin

text \<open>
  Runs of the incremental snapshot. A run is a sequence of loop iterations and control operations in
  any order; beside the driver it records what was read from the live stream, what was delivered, and
  the last chunk read with its watermarks. What the driver needs from a backend is the locale
  \<open>ordered_brackets\<close>: positions are compared by a total preorder, and an event is placed behind the
  window only when its position is past the high watermark.
\<close>

locale ordered_brackets =
  fixes env :: "('w, 'p) snapshot_env"
  assumes less_asym: "bk_less env p q \<Longrightarrow> \<not> bk_less env q p"
    and less_total: "bk_less env p r \<Longrightarrow> bk_less env p q \<or> bk_less env q r"
    and after_past_high: "bk_event_in_bracket env e p low high = After \<Longrightarrow> bk_less env high p"

section \<open>What repairing changes\<close>

text \<open>The part of an event that identifies it; repairing fills in columns of the images only.\<close>

definition skeleton :: "event \<Rightarrow> event" where
  "skeleton e = e\<lparr>ev_before := None, ev_after := None, ev_unavailable_columns := [], ev_before_unavailable_columns := []\<rparr>"

definition superseded_keys ::
    "('w, 'p) snapshot_env \<Rightarrow> snapshot_table \<Rightarrow> 'p \<Rightarrow> 'p \<Rightarrow> event list \<Rightarrow> string set" where
  "superseded_keys env spec low high es = {f. \<exists>e \<in> set es. superseding env spec low high e = Some f}"

lemma superseded_keys_append:
  "superseded_keys env spec low high (xs @ ys) = superseded_keys env spec low high xs \<union> superseded_keys env spec low high ys"
  by (auto simp: superseded_keys_def)

lemma find_SomeD: "find P xs = Some x \<Longrightarrow> x \<in> set xs \<and> P x"
  by (induction xs) (auto split: if_splits)

lemma row_indexD:
  assumes "row_index fp rows = Some i"
  shows "i < length rows \<and> fst (rows ! i) = fp"
proof -
  from assms obtain r where "find (\<lambda>(_, f, _). f = fp) (rev (enumerate 0 rows)) = Some (i, r)"
    by (auto simp: row_index_def)
  then have "(i, r) \<in> set (enumerate 0 rows)" "fst r = fp"
    by (auto dest!: find_SomeD)
  then show ?thesis by (auto simp: in_set_enumerate_eq)
qed

lemma repair_skeleton: "repair_partial_payload fp e rows = (rows', e', u) \<Longrightarrow> skeleton e' = skeleton e"
  by (auto simp: repair_partial_payload_def skeleton_def Let_def split: option.splits prod.splits)

lemma repair_rows:
  assumes "repair_partial_payload fp e rows = (rows', e', u)"
  shows "map fst rows' = map fst rows" and "fp \<in> O' \<Longrightarrow> filter (\<lambda>(f, _). f \<notin> O') rows' = filter (\<lambda>(f, _). f \<notin> O') rows"
proof -
  have eq: "rows' = rows \<or> (\<exists>i x. i < length rows \<and> fst (rows ! i) = fp \<and> rows' = rows[i := (fp, x)])"
    using assms by (auto simp: repair_partial_payload_def Let_def dest!: row_indexD split: option.splits prod.splits)
  then show "map fst rows' = map fst rows"
    by (auto simp: map_update intro!: list_update_same_conv [THEN iffD2] nth_map)
  assume "fp \<in> O'"
  have upd: "i < length xs \<Longrightarrow> fst (xs ! i) = fp \<Longrightarrow> filter (\<lambda>(f, _). f \<notin> O') (xs[i := (fp, x)]) = filter (\<lambda>(f, _). f \<notin> O') xs"
    for i x and xs :: "(string \<times> event) list"
    using \<open>fp \<in> O'\<close> by (induction xs arbitrary: i) (auto split: nat.splits simp: nth_Cons')
  from eq upd show "filter (\<lambda>(f, _). f \<notin> O') rows' = filter (\<lambda>(f, _). f \<notin> O') rows" by blast
qed

lemma absorb_spec:
  assumes "absorb env spec low high es rows ov = (es', rows', ov')"
  shows "map skeleton es' = map skeleton es" and "map fst rows' = map fst rows"
    and "set ov' = set ov \<union> superseded_keys env spec low high es"
    and "filter (\<lambda>(f, _). f \<notin> set ov') rows' = filter (\<lambda>(f, _). f \<notin> set ov') rows"
proof -
  have "map skeleton es' = map skeleton es \<and> map fst rows' = map fst rows
    \<and> set ov' = set ov \<union> superseded_keys env spec low high es
    \<and> filter (\<lambda>(f, _). f \<notin> set ov') rows' = filter (\<lambda>(f, _). f \<notin> set ov') rows"
    using assms
  proof (induction es arbitrary: rows ov es' rows' ov')
    case Nil
    then show ?case by (simp add: superseded_keys_def)
  next
    case (Cons e es)
    show ?case
    proof (cases "superseding env spec low high e")
      case None
      with Cons.prems obtain es1 where a: "absorb env spec low high es rows ov = (es1, rows', ov')" "es' = e # es1"
        by (auto split: prod.splits)
      from Cons.IH [OF a(1)] None a(2) show ?thesis by (auto simp: superseded_keys_def)
    next
      case (Some fp)
      with Cons.prems obtain rows1 e1 u es1 where r: "repair_partial_payload fp e rows = (rows1, e1, u)"
          and a: "absorb env spec low high es rows1 (List.insert fp ov) = (es1, rows', ov')" "es' = e1 # es1"
        by (auto split: prod.splits)
      from Cons.IH [OF a(1)] have ih: "map skeleton es1 = map skeleton es" "map fst rows' = map fst rows1"
          "set ov' = set (List.insert fp ov) \<union> superseded_keys env spec low high es"
          "filter (\<lambda>(f, _). f \<notin> set ov') rows' = filter (\<lambda>(f, _). f \<notin> set ov') rows1" by blast+
      have ov: "set ov' = set ov \<union> superseded_keys env spec low high (e # es)"
        using ih(3) Some by (auto simp: superseded_keys_def)
      have "fp \<in> set ov'" using ih(3) by auto
      from ih(4) repair_rows(2) [OF r this]
      have "filter (\<lambda>(f, _). f \<notin> set ov') rows' = filter (\<lambda>(f, _). f \<notin> set ov') rows" by (rule trans)
      moreover have "map fst rows' = map fst rows" using ih(2) repair_rows(1) [OF r] by (rule trans)
      moreover have "map skeleton es' = map skeleton (e # es)" using ih(1) repair_skeleton [OF r] a(2) by simp
      ultimately show ?thesis using ov by blast
    qed
  qed
  then show "map skeleton es' = map skeleton es" "map fst rows' = map fst rows"
      "set ov' = set ov \<union> superseded_keys env spec low high es"
      "filter (\<lambda>(f, _). f \<notin> set ov') rows' = filter (\<lambda>(f, _). f \<notin> set ov') rows"
    by auto
qed

section \<open>An event behind the window closes it\<close>

context ordered_brackets
begin

lemma max_batch_acc: "max_batch_position env es (Some c) \<noteq> None"
  by (induction es arbitrary: c) (auto split: option.splits)

lemma max_batch_upper:
  "max_batch_position env es acc = Some m \<Longrightarrow>
     (\<forall>c. acc = Some c \<longrightarrow> \<not> bk_less env m c) \<and> (\<forall>e \<in> set es. \<forall>p. bk_position_of_event env e = Some p \<longrightarrow> \<not> bk_less env m p)"
proof (induction es arbitrary: acc)
  case Nil
  then show ?case using less_asym by auto
next
  case (Cons e es)
  let ?acc = "case bk_position_of_event env e of None \<Rightarrow> acc
    | Some p \<Rightarrow> (case acc of None \<Rightarrow> Some p | Some c \<Rightarrow> if bk_less env c p then Some p else Some c)"
  from Cons.prems have "max_batch_position env es ?acc = Some m" by simp
  note ih = Cons.IH [OF this]
  have up: "\<not> bk_less env m q \<Longrightarrow> \<not> bk_less env q r \<Longrightarrow> \<not> bk_less env m r" for q r
    using less_total by blast
  have c: "\<exists>q. ?acc = Some q \<and> \<not> bk_less env q c" if "acc = Some c" for c
  proof (cases "bk_position_of_event env e")
    case None
    with that less_asym show ?thesis by auto
  next
    case (Some p)
    with that less_asym show ?thesis by (cases "bk_less env c p") auto
  qed
  have p: "\<exists>q. ?acc = Some q \<and> \<not> bk_less env q p" if "bk_position_of_event env e = Some p" for p
  proof (cases acc)
    case None
    with that less_asym show ?thesis by auto
  next
    case (Some c)
    with that less_asym show ?thesis by (cases "bk_less env c p") auto
  qed
  show ?case
  proof (intro conjI allI impI ballI)
    fix x assume "acc = Some x"
    from c [OF this] ih up show "\<not> bk_less env m x" by blast
  next
    fix x y assume x: "x \<in> set (e # es)" "bk_position_of_event env x = Some y"
    then consider "bk_position_of_event env e = Some y" | "x \<in> set es" by auto
    then show "\<not> bk_less env m y"
    proof cases
      case 1
      from p [OF this] ih up show ?thesis by blast
    next
      case 2
      with ih x(2) show ?thesis by blast
    qed
  qed
qed

lemma after_closes:
  assumes "e \<in> set es" and "membership env low high e = Some After"
  shows "watermark_passed env high es w = (w, Inr True)"
proof -
  from assms(2) obtain p where p: "bk_position_of_event env e = Some p" "bk_less env high p"
    using after_past_high by (auto simp: membership_def split: option.splits)
  have "max_batch_position env es None \<noteq> None"
    using assms(1) p(1)
  proof (induction es)
    case (Cons x xs)
    then show ?case using max_batch_acc by (cases "bk_position_of_event env x") auto
  qed simp
  then obtain m where m: "max_batch_position env es None = Some m" by auto
  have "\<not> bk_less env m p" using max_batch_upper [OF m] assms(1) p(1) by auto
  then have "\<not> bk_less env m high" using p(2) less_total less_asym by blast
  with m show ?thesis by (simp add: watermark_passed_def)
qed

lemma open_window_delivers:
  assumes "watermark_passed env high es w = (w', Inr False)"
  shows "before_split env low high es = length es \<and> (\<forall>e \<in> set es. membership env low high e \<noteq> Some After)"
proof -
  have all: "\<forall>e \<in> set es. membership env low high e \<noteq> Some After"
    using after_closes assms by fastforce
  have "takeWhile (\<lambda>e. membership env low high e \<noteq> Some After) es = es"
    using all by (subst takeWhile_eq_all_conv) blast
  then have "before_split env low high es = length es" by (simp only: before_split_def)
  with all show ?thesis by blast
qed

end

section \<open>Runs\<close>

record ('w, 'p) snap_run =
  sr_driver :: "'p snapshot_driver"
  sr_world :: 'w
  sr_read :: "event list"
  sr_stream :: "event list"
  sr_chunk :: "(snapshot_table \<times> 'p \<times> 'p \<times> (string \<times> event) list \<times> json list) option"
  sr_window :: "event list"
  sr_head :: "event list"
  sr_rows :: "event list"

text \<open>
  \<open>sr_read\<close> are the events taken from the live stream and \<open>sr_stream\<close> those delivered; \<open>sr_chunk\<close> is the
  last chunk as it was read, with its table, watermarks and cursor; \<open>sr_window\<close> are the events read
  while its window was open, \<open>sr_head\<close> those of them delivered before the window closed, and
  \<open>sr_rows\<close> the rows of the chunk delivered so far.
\<close>

definition batch_read :: "('w, 'p) snapshot_env \<Rightarrow> nat \<Rightarrow> 'p snapshot_driver \<Rightarrow> 'w \<Rightarrow> event list" where
  "batch_read env timeout d w =
     (let events = (\<lambda>t. case in_next_events env t w of (_, Inr es) \<Rightarrow> es | (_, Inl _) \<Rightarrow> [])
      in case sd_phase d of
           ChunkCollect i low high rows ov cursor \<Rightarrow> events (min timeout COLLECT_POLL_CEILING_MS)
         | ChunkPrepare i \<Rightarrow> if sd_paused d \<and> sd_deferred d = [] then events timeout else []
         | Done \<Rightarrow> if sd_deferred d = [] then events timeout else []
         | ChunkEmit i events cursor n \<Rightarrow> [])"

definition outcome ::
    "('p snapshot_driver \<times> 'w \<times> event list result) + ('p snapshot_driver \<times> 'w) \<Rightarrow> 'p snapshot_driver \<times> 'w \<times> event list" where
  "outcome x =
     (case x of
        Inl (d, w, Inr es) \<Rightarrow> (d, w, es)
      | Inl (d, w, Inl _) \<Rightarrow> (d, w, [])
      | Inr (d, w) \<Rightarrow> (d, w, []))"

definition observe :: "('w, 'p) snapshot_env \<Rightarrow> nat \<Rightarrow> ('w, 'p) snap_run \<Rightarrow> ('w, 'p) snap_run" where
  "observe env timeout r =
     (let d = sr_driver r; batch = batch_read env timeout d (sr_world r)
      in case outcome (drive_iteration env timeout d (sr_world r)) of
           (d', w', out) \<Rightarrow>
             (let r1 = r\<lparr>sr_driver := d', sr_world := w', sr_read := sr_read r @ batch\<rparr>
              in case sd_phase d of
                   ChunkEmit i events cursor n \<Rightarrow>
                     if events \<noteq> [] then r1\<lparr>sr_rows := sr_rows r @ out\<rparr> else r1\<lparr>sr_stream := sr_stream r @ out\<rparr>
                 | ChunkCollect i low high rows ov cursor \<Rightarrow>
                     r1\<lparr>sr_stream := sr_stream r @ out, sr_window := sr_window r @ batch,
                        sr_head := sr_head r @ take (before_split env low high batch) batch\<rparr>
                 | _ \<Rightarrow>
                     (let r2 = r1\<lparr>sr_stream := sr_stream r @ out\<rparr>
                      in case sd_phase d' of
                           ChunkCollect i low high rows ov cursor \<Rightarrow>
                             r2\<lparr>sr_chunk := Some (tp_spec (sd_tables d' ! i), low, high, rows, cursor),
                                sr_window := [], sr_head := [], sr_rows := []\<rparr>
                         | _ \<Rightarrow> r2)))"

definition snap_start :: "'p snapshot_driver \<Rightarrow> 'w \<Rightarrow> ('w, 'p) snap_run" where
  "snap_start d w =
     \<lparr>sr_driver = d, sr_world = w, sr_read = [], sr_stream = [], sr_chunk = None, sr_window = [], sr_head = [], sr_rows = []\<rparr>"

text \<open>A driver as it is built: nothing held back, no chunk in flight, and parked only without work.\<close>

definition at_boundary :: "'p snapshot_driver \<Rightarrow> bool" where
  "at_boundary d \<longleftrightarrow> sd_deferred d = []
     \<and> (case sd_phase d of ChunkPrepare i \<Rightarrow> True | Done \<Rightarrow> next_incomplete_table (sd_tables d) = None | _ \<Rightarrow> False)"

text \<open>
  Order is kept as long as what is held back goes out in one piece, since the driver turns to the next
  chunk after one delivery: the live stream yields at most as many events at a time as the driver
  delivers, and no table is requested between a stop and the delivery of what the stop left behind.
\<close>

definition bounded_batches :: "('w, 'p) snapshot_env \<Rightarrow> nat \<Rightarrow> bool" where
  "bounded_batches env n \<longleftrightarrow> (\<forall>t w w' es. in_next_events env t w = (w', Inr es) \<longrightarrow> length es \<le> n)"

inductive snap_reach :: "('w, 'p) snapshot_env \<Rightarrow> 'p snapshot_driver \<Rightarrow> 'w \<Rightarrow> ('w, 'p) snap_run \<Rightarrow> bool"
  for env :: "('w, 'p) snapshot_env" and d0 :: "'p snapshot_driver" and w0 :: 'w where
  reach_start: "snap_reach env d0 w0 (snap_start d0 w0)"
| reach_iterate: "snap_reach env d0 w0 r \<Longrightarrow> snap_reach env d0 w0 (observe env timeout r)"
| reach_request: "snap_reach env d0 w0 r \<Longrightarrow>
    sd_phase (sr_driver r) = Done \<longrightarrow> sd_deferred (sr_driver r) = [] \<Longrightarrow>
    enqueue_tables env tables conditions (sr_driver r) (sr_world r) = (d', w', res) \<Longrightarrow>
    snap_reach env d0 w0 (r\<lparr>sr_driver := d', sr_world := w'\<rparr>)"
| reach_pause: "snap_reach env d0 w0 r \<Longrightarrow>
    snap_reach env d0 w0 (r\<lparr>sr_driver := fst (set_paused p (sr_driver r))\<rparr>)"
| reach_stop: "snap_reach env d0 w0 r \<Longrightarrow>
    snap_reach env d0 w0 (r\<lparr>sr_driver := fst (stop_snapshot (sr_driver r))\<rparr>)"

lemma driver_new_boundary:
  "driver_new env tables n conditions source resume w = (w', Inr d) \<Longrightarrow> at_boundary d"
  by (auto simp: driver_new_def at_boundary_def first_phase_def Let_def split: sum.splits prod.splits option.splits if_splits)

text \<open>Every call of the stream handle is a finite run of iterations.\<close>

lemma drive_is_run:
  "snap_reach env d0 w0 r \<Longrightarrow> drive env timeout (sr_driver r) (sr_world r) = (d', w', res) \<Longrightarrow>
     \<exists>r'. snap_reach env d0 w0 r' \<and> sr_driver r' = d' \<and> sr_world r' = w'"
proof (induction "rank (sr_driver r)" arbitrary: r rule: less_induct)
  case less
  let ?it = "drive_iteration env timeout (sr_driver r) (sr_world r)"
  have reach: "snap_reach env d0 w0 (observe env timeout r)" by (rule reach_iterate) (rule less.prems(1))
  have obs: "sr_driver (observe env timeout r) = fst (outcome ?it)" "sr_world (observe env timeout r) = fst (snd (outcome ?it))"
    by (auto simp: observe_def Let_def split: prod.split snapshot_phase.split)
  show ?case
  proof (cases ?it)
    case (Inl x)
    then have "x = (d', w', res)" using less.prems(2) by (subst (asm) drive.simps) simp
    with Inl obs have "sr_driver (observe env timeout r) = d'" "sr_world (observe env timeout r) = w'"
      by (auto simp: outcome_def split: sum.splits)
    with reach show ?thesis by blast
  next
    case (Inr x)
    then obtain d1 w1 where x: "?it = Inr (d1, w1)" by (cases x) auto
    then have o: "sr_driver (observe env timeout r) = d1" "sr_world (observe env timeout r) = w1"
      using obs by (auto simp: outcome_def)
    have "drive env timeout d1 w1 = (d', w', res)" using less.prems(2) x by (subst (asm) drive.simps) simp
    with o less.hyps [OF _ reach] rank_iteration [OF x] show ?thesis by simp
  qed
qed

section \<open>The invariant\<close>

definition active :: "nat \<Rightarrow> 'p snapshot_driver \<Rightarrow> bool" where
  "active i d \<longleftrightarrow> i < length (sd_tables d) \<and> \<not> tp_is_complete (sd_tables d ! i)"

text \<open>
  The window of the chunk in flight: what was delivered while it was open are the events read, up to
  the first one the backend places behind it.
\<close>

definition window_ok ::
    "('w, 'p) snapshot_env \<Rightarrow> ('w, 'p) snap_run \<Rightarrow> 'p \<Rightarrow> 'p \<Rightarrow> bool" where
  "window_ok env r low high \<longleftrightarrow>
     (\<exists>tail. sr_window r = sr_head r @ tail \<and> (tail \<noteq> [] \<longrightarrow> membership env low high (hd tail) = Some After))
     \<and> (\<forall>s \<in> set (sr_head r). membership env low high s \<noteq> Some After)
     \<and> (\<exists>pre. map skeleton (sr_stream r) = pre @ map skeleton (sr_head r))"

definition phase_ok :: "('w, 'p) snapshot_env \<Rightarrow> ('w, 'p) snap_run \<Rightarrow> bool" where
  "phase_ok env r =
     (case sd_phase (sr_driver r) of
        ChunkCollect i low high rows ov cursor \<Rightarrow>
          sd_deferred (sr_driver r) = [] \<and> active i (sr_driver r) \<and> sr_head r = sr_window r \<and> window_ok env r low high
          \<and> sr_rows r = [] \<and> set ov = superseded_keys env (tp_spec (sd_tables (sr_driver r) ! i)) low high (sr_window r)
          \<and> (\<exists>chunk. sr_chunk r = Some (tp_spec (sd_tables (sr_driver r) ! i), low, high, chunk, cursor)
               \<and> filter (\<lambda>(f, _). f \<notin> set ov) rows = filter (\<lambda>(f, _). f \<notin> set ov) chunk)
      | ChunkEmit i events cursor n \<Rightarrow>
          active i (sr_driver r) \<and> length (sd_deferred (sr_driver r)) \<le> emit_batch_size (sr_driver r)
          \<and> (\<exists>spec low high chunk. sr_chunk r = Some (spec, low, high, chunk, cursor) \<and> window_ok env r low high
               \<and> sr_rows r @ events
                   = map snd (filter (\<lambda>(f, _). f \<notin> superseded_keys env spec low high (sr_window r)) chunk))
      | ChunkPrepare i \<Rightarrow> sd_deferred (sr_driver r) = []
      | Done \<Rightarrow> next_incomplete_table (sd_tables (sr_driver r)) = None)"

definition snap_inv :: "('w, 'p) snapshot_env \<Rightarrow> ('w, 'p) snap_run \<Rightarrow> bool" where
  "snap_inv env r \<longleftrightarrow> bounded_batches env (emit_batch_size (sr_driver r)) \<and>
     map skeleton (sr_stream r @ sd_deferred (sr_driver r)) = map skeleton (sr_read r) \<and> phase_ok env r"

lemma pass_through_step:
  assumes "snap_inv env r" and "pass_through env timeout (sr_driver r) (sr_world r) = (d', w', res)"
    and "batch = (if sd_deferred (sr_driver r) = []
           then (case in_next_events env timeout (sr_world r) of (_, Inr es) \<Rightarrow> es | (_, Inl _) \<Rightarrow> []) else [])"
  shows "sd_phase d' = sd_phase (sr_driver r) \<and> sd_tables d' = sd_tables (sr_driver r)
      \<and> emit_batch_size d' = emit_batch_size (sr_driver r) \<and> (sd_deferred (sr_driver r) = [] \<longrightarrow> sd_deferred d' = [])"
    and "map skeleton (sr_stream r @ (case res of Inr es \<Rightarrow> es | Inl _ \<Rightarrow> []) @ sd_deferred d') = map skeleton (sr_read r @ batch)"
proof -
  show "sd_phase d' = sd_phase (sr_driver r) \<and> sd_tables d' = sd_tables (sr_driver r)
      \<and> emit_batch_size d' = emit_batch_size (sr_driver r) \<and> (sd_deferred (sr_driver r) = [] \<longrightarrow> sd_deferred d' = [])"
    using assms(2) by (auto simp: pass_through_def drain_deferred_def split: if_splits prod.splits)
  have inv: "map skeleton (sr_stream r @ sd_deferred (sr_driver r)) = map skeleton (sr_read r)"
    using assms(1) by (simp add: snap_inv_def)
  show "map skeleton (sr_stream r @ (case res of Inr es \<Rightarrow> es | Inl _ \<Rightarrow> []) @ sd_deferred d') = map skeleton (sr_read r @ batch)"
  proof (cases "sd_deferred (sr_driver r) = []")
    case True
    with assms(2) have "in_next_events env timeout (sr_world r) = (w', res)" "d' = sr_driver r"
      by (auto simp: pass_through_def split: prod.splits)
    with inv True assms(3) show ?thesis by (auto split: sum.splits)
  next
    case False
    with assms(2) have "d' = fst (drain_deferred (sr_driver r))" "res = Inr (snd (drain_deferred (sr_driver r)))"
      by (auto simp: pass_through_def split: prod.splits)
    with inv False assms(3) show ?thesis by (simp add: drain_deferred_def)
  qed
qed

lemma observe_pass:
  assumes inv: "snap_inv env r"
    and "sd_phase (sr_driver r) = Done \<or> (\<exists>i. sd_phase (sr_driver r) = ChunkPrepare i) \<and> sd_paused (sr_driver r)"
  shows "snap_inv env (observe env timeout r)"
proof -
  obtain d' w' res where p: "pass_through env timeout (sr_driver r) (sr_world r) = (d', w', res)"
    by (metis prod_cases3)
  let ?batch = "batch_read env timeout (sr_driver r) (sr_world r)"
  let ?out = "case res of Inr es \<Rightarrow> es | Inl _ \<Rightarrow> []"
  have it: "drive_iteration env timeout (sr_driver r) (sr_world r) = Inl (d', w', res)"
    using assms(2) p by (auto simp: drive_iteration_def)
  have o: "outcome (Inl (d', w', res)) = (d', w', ?out)" by (auto simp: outcome_def split: sum.splits)
  have b: "?batch = (if sd_deferred (sr_driver r) = []
      then (case in_next_events env timeout (sr_world r) of (_, Inr es) \<Rightarrow> es | (_, Inl _) \<Rightarrow> []) else [])"
    using assms(2) by (auto simp: batch_read_def Let_def)
  note st = pass_through_step [OF inv p b]
  have "observe env timeout r = r\<lparr>sr_driver := d', sr_world := w', sr_read := sr_read r @ ?batch, sr_stream := sr_stream r @ ?out\<rparr>"
    using assms(2) st(1) unfolding observe_def Let_def it o by auto
  moreover have "phase_ok env (r\<lparr>sr_driver := d', sr_world := w', sr_read := sr_read r @ ?batch, sr_stream := sr_stream r @ ?out\<rparr>)"
    using assms st(1) by (auto simp: phase_ok_def snap_inv_def)
  ultimately show ?thesis using st inv by (simp add: snap_inv_def)
qed

lemma prepare_outcomes:
  assumes "drive_chunk_prepare env i0 d w = (d', w', res)" and "\<not> sd_paused d"
  obtains (same) "d' = d"
    | (finished) "sd_deferred d' = sd_deferred d" "emit_batch_size d' = emit_batch_size d" "sd_phase d' = first_phase (sd_tables d')"
    | (chunk) i low high rows cursor where "d' = d\<lparr>sd_phase := ChunkCollect i low high rows [] cursor\<rparr>" "active i d"
proof (cases "prepare_index i0 (sd_tables d)")
  case None
  then have "next_incomplete_table (sd_tables d) = None" by (auto simp: prepare_index_def split: if_splits)
  with None assms show ?thesis
    by (intro finished) (auto simp: drive_chunk_prepare_def first_phase_def)
next
  case (Some i)
  have act: "active i d" using prepare_indexD [OF Some] by (simp add: active_def)
  let ?ts = "(sd_tables d)[i := (sd_tables d ! i)\<lparr>tp_is_complete := True\<rparr>]"
  from assms Some consider "d' = d" | "d' = d\<lparr>sd_tables := ?ts, sd_phase := first_phase ?ts\<rparr>"
    | low high chunk cursor where "d' = d\<lparr>sd_phase := ChunkCollect i low high chunk [] cursor\<rparr>"
    by (auto simp: drive_chunk_prepare_def Let_def split: sum.splits prod.splits if_splits)
  then show ?thesis
  proof cases
    case 1
    then show ?thesis by (rule same)
  next
    case 2
    show ?thesis by (rule finished) (auto simp: 2)
  next
    case 3
    then show ?thesis using chunk act by blast
  qed
qed

lemma observe_prepare:
  assumes inv: "snap_inv env r" and ph: "sd_phase (sr_driver r) = ChunkPrepare i0" and np: "\<not> sd_paused (sr_driver r)"
  shows "snap_inv env (observe env timeout r)"
proof -
  obtain d' w' res where p: "drive_chunk_prepare env i0 (sr_driver r) (sr_world r) = (d', w', res)" by (metis prod_cases3)
  have o: "outcome (drive_iteration env timeout (sr_driver r) (sr_world r)) = (d', w', [])"
    using ph np p by (auto simp: drive_iteration_def outcome_def split: sum.splits)
  have b: "batch_read env timeout (sr_driver r) (sr_world r) = []" using ph np by (simp add: batch_read_def)
  let ?r = "r\<lparr>sr_driver := d', sr_world := w'\<rparr>"
  have obs: "observe env timeout r = (case sd_phase d' of
      ChunkCollect i low high rows ov cursor \<Rightarrow>
        ?r\<lparr>sr_chunk := Some (tp_spec (sd_tables d' ! i), low, high, rows, cursor), sr_window := [], sr_head := [], sr_rows := []\<rparr>
    | _ \<Rightarrow> ?r)"
    unfolding observe_def Let_def o b by (simp add: ph split: snapshot_phase.split)
  from p np show ?thesis
  proof (cases rule: prepare_outcomes)
    case same
    with inv ph show ?thesis unfolding obs by (auto simp: snap_inv_def phase_ok_def)
  next
    case finished
    have "sd_deferred (sr_driver r) = []" using inv ph by (simp add: snap_inv_def phase_ok_def)
    with inv finished show ?thesis unfolding obs
      by (auto simp: snap_inv_def phase_ok_def first_phase_def split: option.split)
  next
    case (chunk i low high rows cursor)
    have "observe env timeout r = ?r\<lparr>sr_chunk := Some (tp_spec (sd_tables d' ! i), low, high, rows, cursor),
        sr_window := [], sr_head := [], sr_rows := []\<rparr>"
      unfolding obs by (simp add: chunk(1))
    moreover have "sd_deferred (sr_driver r) = []" using inv ph by (simp add: snap_inv_def phase_ok_def)
    ultimately show ?thesis
      using inv chunk(2)
      by (simp add: snap_inv_def phase_ok_def chunk(1) active_def window_ok_def superseded_keys_def)
  qed
qed

lemma observe_emit:
  assumes inv: "snap_inv env r" and ph: "sd_phase (sr_driver r) = ChunkEmit i events cursor n"
  shows "snap_inv env (observe env timeout r)"
proof -
  let ?d = "sr_driver r" and ?k = "min (length events) (emit_batch_size (sr_driver r))"
  have b: "batch_read env timeout ?d (sr_world r) = []" using ph by (simp add: batch_read_def)
  have pos: "0 < emit_batch_size ?d" by (simp add: emit_batch_size_def EMIT_BATCH_SIZE_def)
  from inv ph have act: "active i ?d" and len: "length (sd_deferred ?d) \<le> emit_batch_size ?d"
    and bb: "bounded_batches env (emit_batch_size ?d)"
    and sk: "map skeleton (sr_stream r @ sd_deferred ?d) = map skeleton (sr_read r)"
    by (simp_all add: snap_inv_def phase_ok_def)
  show ?thesis
  proof (cases "events = []")
    case False
    then have it: "drive_iteration env timeout ?d (sr_world r)
        = Inl (?d\<lparr>sd_phase := ChunkEmit i (drop ?k events) cursor n\<rparr>, sr_world r, Inr (take ?k events))"
      using ph pos by (simp add: drive_iteration_def Let_def)
    have obs: "observe env timeout r
        = r\<lparr>sr_driver := ?d\<lparr>sd_phase := ChunkEmit i (drop ?k events) cursor n\<rparr>, sr_rows := sr_rows r @ take ?k events\<rparr>"
      unfolding observe_def Let_def it b by (simp add: outcome_def ph False)
    from inv show ?thesis
      unfolding obs by (simp add: snap_inv_def phase_ok_def ph active_def window_ok_def)
  next
    case True
    let ?d1 = "(commit_chunk_progress i cursor n ?d)\<lparr>sd_phase := ChunkPrepare i\<rparr>"
    have d1: "sd_deferred ?d1 = sd_deferred ?d" "emit_batch_size ?d1 = emit_batch_size ?d"
      by (simp_all add: commit_chunk_progress_def)
    have o: "outcome (drive_iteration env timeout ?d (sr_world r)) = (?d1\<lparr>sd_deferred := []\<rparr>, sr_world r, sd_deferred ?d)"
      using ph True len d1 by (simp add: drive_iteration_def Let_def drain_deferred_def outcome_def)
    have obs: "observe env timeout r
        = r\<lparr>sr_driver := ?d1\<lparr>sd_deferred := []\<rparr>, sr_stream := sr_stream r @ sd_deferred ?d\<rparr>"
      unfolding observe_def Let_def o b by (simp add: ph True)
    from sk bb d1 show ?thesis
      unfolding obs by (simp add: snap_inv_def phase_ok_def)
  qed
qed

context ordered_brackets
begin

lemma collect_outcome:
  assumes "collect_arm env timeout i low high rows ov cursor d w = x" and "sd_deferred d = []"
    and "sd_phase d = ChunkCollect i low high rows ov cursor"
    and "batch = (case in_next_events env (min timeout COLLECT_POLL_CEILING_MS) w of (_, Inr es) \<Rightarrow> es | (_, Inl _) \<Rightarrow> [])"
    and "absorb env (tp_spec (sd_tables d ! i)) low high batch rows ov = (es, rows', ov')"
  obtains (still) w' where "outcome x = (d\<lparr>sd_phase := ChunkCollect i low high rows' ov' cursor\<rparr>, w', es)"
        "before_split env low high batch = length batch" "\<forall>e \<in> set batch. membership env low high e \<noteq> Some After"
    | (closed) w' where "outcome x = (d\<lparr>sd_phase := ChunkEmit i (merged_rows rows' ov') cursor (length (merged_rows rows' ov')),
          sd_deferred := drop (before_split env low high batch) es\<rparr>, w', take (before_split env low high batch) es)"
proof -
  obtain w1 res where n: "in_next_events env (min timeout COLLECT_POLL_CEILING_MS) w = (w1, res)" by fastforce
  have same: "d\<lparr>sd_phase := ChunkCollect i low high rows ov cursor\<rparr> = d" using assms(3) by (cases d) simp
  let ?n = "before_split env low high batch"
  let ?d1 = "d\<lparr>sd_phase := ChunkCollect i low high rows' ov' cursor\<rparr>"
  show ?thesis
  proof (cases res)
    case (Inl e)
    with n assms(4) have bt: "batch = []" by simp
    then have ab: "es = []" "rows' = rows" "ov' = ov" using assms(5) by auto
    have "outcome x = (?d1, w1, es)"
      unfolding assms(1) [symmetric] collect_arm_def n Inl by (simp add: outcome_def ab same)
    then show ?thesis by (rule still) (simp_all add: bt before_split_def)
  next
    case (Inr es0)
    with n assms(4) have bt: "es0 = batch" by simp
    obtain w2 p where wp: "watermark_passed env high batch w1 = (w2, p)" by fastforce
    have len: "length es = length batch" using absorb_length [OF assms(5)] .
    have arm: "x = (case p of
        Inl e \<Rightarrow> Inl (?d1, w2, Inl e)
      | Inr passed \<Rightarrow>
          (let d2 = ?d1\<lparr>sd_deferred := sd_deferred ?d1 @ drop ?n es\<rparr>; d3 = (if passed then finalize_collect d2 else d2)
           in if take ?n es \<noteq> [] then Inl (d3, w2, Inr (take ?n es))
              else if passed then Inr (d3, w2) else Inl (d3, w2, Inr [])))"
      unfolding assms(1) [symmetric] collect_arm_def n Inr bt by (cases p) (simp_all add: assms(5) wp Let_def)
    show ?thesis
    proof (cases p)
      case (Inl e)
      with wp have bn: "batch = []" by (auto simp: watermark_passed_def split: if_splits)
      then have "es = []" using len by simp
      then have "outcome x = (?d1, w2, es)" unfolding arm Inl by (simp add: outcome_def)
      then show ?thesis by (rule still) (simp_all add: bn before_split_def)
    next
      case p: (Inr passed)
      show ?thesis
      proof (cases passed)
        case True
        have "outcome x = (d\<lparr>sd_phase := ChunkEmit i (merged_rows rows' ov') cursor (length (merged_rows rows' ov')),
            sd_deferred := drop ?n es\<rparr>, w2, take ?n es)"
          unfolding arm p by (simp add: True outcome_def finalize_collect_def Let_def assms(2))
        then show ?thesis by (rule closed)
      next
        case False
        with wp p have wf: "watermark_passed env high batch w1 = (w2, Inr False)" by simp
        from open_window_delivers [OF wf]
        have o: "?n = length batch" "\<forall>e \<in> set batch. membership env low high e \<noteq> Some After" by blast+
        have "sd_deferred ?d1 = []" using assms(2) by simp
        then have "?d1\<lparr>sd_deferred := []\<rparr> = ?d1" by (cases d) simp
        then have "outcome x = (?d1, w2, es)"
          unfolding arm p by (simp add: False outcome_def Let_def assms(2) o(1) len [symmetric])
        then show ?thesis using o by (rule still)
      qed
    qed
  qed
qed

lemma takeWhile_split:
  "\<exists>tail. es = take (before_split env low high es) es @ tail
     \<and> (tail \<noteq> [] \<longrightarrow> membership env low high (hd tail) = Some After)"
proof -
  let ?P = "\<lambda>e. membership env low high e \<noteq> Some After"
  have "take (before_split env low high es) es = takeWhile ?P es"
    by (metis before_split_def takeWhile_eq_take)
  then show ?thesis
    by (intro exI [of _ "dropWhile ?P es"]) (use hd_dropWhile [of ?P es] in auto)
qed

lemma before_split_not_after:
  assumes "e \<in> set (take (before_split env low high es) es)"
  shows "membership env low high e \<noteq> Some After"
proof -
  let ?P = "\<lambda>e. membership env low high e \<noteq> Some After"
  have "take (before_split env low high es) es = takeWhile ?P es"
    by (metis before_split_def takeWhile_eq_take)
  with assms show ?thesis by (metis set_takeWhileD)
qed

lemma observe_collect:
  assumes inv: "snap_inv env r" and ph: "sd_phase (sr_driver r) = ChunkCollect i low high rows ov cursor"
  shows "snap_inv env (observe env timeout r)"
proof -
  let ?d = "sr_driver r" and ?spec = "tp_spec (sd_tables (sr_driver r) ! i)"
  let ?batch = "batch_read env timeout ?d (sr_world r)"
  let ?n = "before_split env low high ?batch"
  from inv ph obtain chunk where bb: "bounded_batches env (emit_batch_size ?d)"
    and sk: "map skeleton (sr_stream r @ sd_deferred ?d) = map skeleton (sr_read r)"
    and def: "sd_deferred ?d = []" and act: "active i ?d" and hw: "sr_head r = sr_window r" and win: "window_ok env r low high"
    and rs: "sr_rows r = []" and ov: "set ov = superseded_keys env ?spec low high (sr_window r)"
    and ch: "sr_chunk r = Some (?spec, low, high, chunk, cursor)"
    and flt: "filter (\<lambda>(f, _). f \<notin> set ov) rows = filter (\<lambda>(f, _). f \<notin> set ov) chunk"
    by (auto simp: snap_inv_def phase_ok_def)
  have b: "?batch = (case in_next_events env (min timeout COLLECT_POLL_CEILING_MS) (sr_world r) of (_, Inr es) \<Rightarrow> es | (_, Inl _) \<Rightarrow> [])"
    by (simp add: batch_read_def ph)
  have it: "drive_iteration env timeout ?d (sr_world r) = collect_arm env timeout i low high rows ov cursor ?d (sr_world r)"
    by (simp add: drive_iteration_def ph)
  obtain es rows' ov' where ab: "absorb env ?spec low high ?batch rows ov = (es, rows', ov')" by (metis prod_cases3)
  note a = absorb_spec [OF ab] and len = absorb_length [OF ab]
  have sk': "map skeleton (sr_stream r @ es) = map skeleton (sr_read r @ ?batch)" using sk def a(1) by simp
  have ov2: "set ov' = superseded_keys env ?spec low high (sr_window r @ ?batch)"
    using a(3) ov by (simp add: superseded_keys_append)
  have flt': "filter (\<lambda>(f, _). f \<notin> set ov') rows' = filter (\<lambda>(f, _). f \<notin> set ov') chunk"
  proof -
    have weaken: "filter (\<lambda>(f, _). f \<notin> set ov') xs = filter (\<lambda>(f, _). f \<notin> set ov') (filter (\<lambda>(f, _). f \<notin> set ov) xs)"
      for xs :: "(string \<times> event) list"
      using a(3) by (induction xs) auto
    show ?thesis unfolding a(4) weaken [of rows] weaken [of chunk] flt ..
  qed
  have sktake: "map skeleton (take ?n es) = map skeleton (take ?n ?batch)" using a(1) by (metis take_map)
  from win obtain pre where pre: "map skeleton (sr_stream r) = pre @ map skeleton (sr_head r)" by (auto simp: window_ok_def)
  have notafter: "\<forall>s \<in> set (sr_head r). membership env low high s \<noteq> Some After" using win by (simp add: window_ok_def)
  from takeWhile_split [of ?batch low high] obtain tail where tail: "?batch = take ?n ?batch @ tail"
      "tail \<noteq> [] \<longrightarrow> membership env low high (hd tail) = Some After" by blast
  let ?upd = "\<lambda>d' w' out. r\<lparr>sr_driver := d', sr_world := w', sr_read := sr_read r @ ?batch, sr_stream := sr_stream r @ out,
      sr_window := sr_window r @ ?batch, sr_head := sr_head r @ take ?n ?batch\<rparr>"
  have obs: "observe env timeout r = ?upd d' w' out" if "outcome (drive_iteration env timeout ?d (sr_world r)) = (d', w', out)" for d' w' out
    unfolding observe_def Let_def that by (simp add: ph)
  have win': "window_ok env (?upd d' w' (take ?n es)) low high" for d' w'
  proof -
    have "sr_window r @ ?batch = (sr_head r @ take ?n ?batch) @ tail" using hw tail(1) by simp
    moreover have "\<forall>s \<in> set (sr_head r @ take ?n ?batch). membership env low high s \<noteq> Some After"
      using notafter before_split_not_after by auto
    moreover have "map skeleton (sr_stream r @ take ?n es) = pre @ map skeleton (sr_head r @ take ?n ?batch)"
      using pre sktake by simp
    ultimately show ?thesis using tail(2) by (auto simp: window_ok_def)
  qed
  from it [symmetric] def ph b ab show ?thesis
  proof (cases rule: collect_outcome)
    case (still w')
    have n: "?n = length ?batch" by (rule still(2))
    have eq: "observe env timeout r = ?upd (?d\<lparr>sd_phase := ChunkCollect i low high rows' ov' cursor\<rparr>) w' (take ?n es)"
      using obs [OF still(1)] n len by simp
    show ?thesis unfolding eq snap_inv_def phase_ok_def
      using bb def sk' act hw n len rs ov2 ch flt' win'
      by (simp add: active_def)
  next
    case (closed w')
    let ?d' = "?d\<lparr>sd_phase := ChunkEmit i (merged_rows rows' ov') cursor (length (merged_rows rows' ov')), sd_deferred := drop ?n es\<rparr>"
    have eq: "observe env timeout r = ?upd ?d' w' (take ?n es)" by (rule obs) (rule closed)
    have "length ?batch \<le> emit_batch_size ?d"
      using bb b by (auto simp: bounded_batches_def split: prod.splits sum.splits)
    then have len': "length (drop ?n es) \<le> emit_batch_size ?d" using len by simp
    have merged: "merged_rows rows' ov'
        = map snd (filter (\<lambda>(f, _). f \<notin> superseded_keys env ?spec low high (sr_window r @ ?batch)) chunk)"
      unfolding merged_rows_def flt' ov2 [symmetric] ..
    show ?thesis unfolding eq snap_inv_def phase_ok_def
      using bb sk' act rs ch merged win' len' by (simp add: active_def)
  qed
qed

lemma observe_inv: "snap_inv env r \<Longrightarrow> snap_inv env (observe env timeout r)"
  by (cases "sd_phase (sr_driver r)")
    (metis observe_pass observe_prepare, metis observe_collect, metis observe_emit, metis observe_pass)

end

section \<open>Control operations\<close>

lemma enqueue_spec_active:
  "enqueue_spec spec ts = (ts', b) \<Longrightarrow> i < length ts \<Longrightarrow> \<not> tp_is_complete (ts ! i) \<Longrightarrow>
     i < length ts' \<and> ts' ! i = ts ! i"
proof (induction ts arbitrary: ts' b i)
  case (Cons t ts)
  show ?case
  proof (cases i)
    case 0
    with Cons.prems show ?thesis by (auto split: if_splits prod.splits)
  next
    case (Suc j)
    with Cons.IH [of _ _ j] Cons.prems show ?thesis by (auto split: if_splits prod.splits)
  qed
qed simp

lemma enqueue_specs_active:
  "enqueue_specs specs ts n = (ts', m) \<Longrightarrow> i < length ts \<Longrightarrow> \<not> tp_is_complete (ts ! i) \<Longrightarrow>
     i < length ts' \<and> ts' ! i = ts ! i"
proof (induction specs arbitrary: ts n)
  case (Cons spec specs)
  obtain ts1 b where e: "enqueue_spec spec ts = (ts1, b)" by fastforce
  from enqueue_spec_active [OF e Cons.prems(2,3)] have a: "i < length ts1" "ts1 ! i = ts ! i" by auto
  with Cons.prems e have "i < length ts' \<and> ts' ! i = ts1 ! i" by (intro Cons.IH) auto
  with a show ?case by simp
qed simp

lemma enqueue_spec_same: "enqueue_spec spec ts = (ts', False) \<Longrightarrow> ts' = ts"
  by (induction ts arbitrary: ts') (auto split: if_splits prod.splits)

lemma enqueue_specs_same: "enqueue_specs specs ts n = (ts', m) \<Longrightarrow> n \<le> m \<and> (m = n \<longrightarrow> ts' = ts)"
proof (induction specs arbitrary: ts n)
  case (Cons spec specs)
  obtain ts1 b where e: "enqueue_spec spec ts = (ts1, b)" by fastforce
  with Cons.prems have "enqueue_specs specs ts1 (if b then Suc n else n) = (ts', m)" by simp
  from Cons.IH [OF this] e show ?case by (cases b) (auto dest: enqueue_spec_same)
qed simp

lemma enqueue_inv:
  assumes inv: "snap_inv env r" and guard: "sd_phase (sr_driver r) = Done \<longrightarrow> sd_deferred (sr_driver r) = []"
    and eq: "enqueue_tables env tables conditions (sr_driver r) (sr_world r) = (d', w', res)"
  shows "snap_inv env (r\<lparr>sr_driver := d', sr_world := w'\<rparr>)"
proof -
  let ?d = "sr_driver r"
  consider "d' = ?d" | specs ts n where "enqueue_specs specs (sd_tables ?d) 0 = (ts, n)"
      "d' = (if n > 0
             then ?d\<lparr>sd_tables := ts, sd_generation := sat_inc32 (sd_generation ?d), sd_stopped := False,
                    sd_phase := (case (next_incomplete_table ts, sd_phase ?d) of (Some i, Done) \<Rightarrow> ChunkPrepare i | _ \<Rightarrow> sd_phase ?d)\<rparr>
             else ?d\<lparr>sd_tables := ts\<rparr>)"
    using eq by (auto simp: enqueue_tables_def split: sum.splits prod.splits)
  then show ?thesis
  proof cases
    case 1
    with inv show ?thesis by (simp add: snap_inv_def phase_ok_def window_ok_def cong: snapshot_phase.case_cong)
  next
    case 2
    have act: "active i ?d \<Longrightarrow> active i d' \<and> sd_tables d' ! i = sd_tables ?d ! i" for i
      using enqueue_specs_active [OF 2(1)] 2(2) by (auto simp: active_def)
    have fr: "sd_deferred d' = sd_deferred ?d" "emit_batch_size d' = emit_batch_size ?d"
      using 2(2) by auto
    let ?r = "r\<lparr>sr_driver := d', sr_world := w'\<rparr>"
    have proj: "sr_driver ?r = d'" "sr_read ?r = sr_read r" "sr_stream ?r = sr_stream r" "sr_chunk ?r = sr_chunk r"
        "sr_window ?r = sr_window r" "sr_head ?r = sr_head r" "sr_rows ?r = sr_rows r" by simp_all
    show ?thesis
    proof (cases "sd_phase ?d")
      case (ChunkPrepare i)
      then have "sd_phase d' = ChunkPrepare i" using 2(2) by (auto split: option.split)
      with inv fr ChunkPrepare show ?thesis by (auto simp: snap_inv_def phase_ok_def)
    next
      case (ChunkCollect i low high rows ov cursor)
      then have ph: "sd_phase d' = ChunkCollect i low high rows ov cursor" using 2(2) by (auto split: option.split)
      from inv ChunkCollect have "active i ?d" by (simp add: snap_inv_def phase_ok_def)
      from act [OF this] have a: "active i d'" "sd_tables d' ! i = sd_tables ?d ! i" by blast+
      have w: "window_ok env (r\<lparr>sr_driver := d', sr_world := w'\<rparr>) low high = window_ok env r low high"
        by (simp add: window_ok_def)
      show ?thesis
        unfolding snap_inv_def phase_ok_def proj ph snapshot_phase.case fr w a(2)
        using inv a(1) unfolding snap_inv_def phase_ok_def ChunkCollect snapshot_phase.case by blast
    next
      case (ChunkEmit i events cursor n')
      then have ph: "sd_phase d' = ChunkEmit i events cursor n'" using 2(2) by (auto split: option.split)
      from inv ChunkEmit have "active i ?d" by (simp add: snap_inv_def phase_ok_def)
      then have "active i d'" using act by blast
      moreover have w: "window_ok env (r\<lparr>sr_driver := d', sr_world := w'\<rparr>) low high = window_ok env r low high" for low high
        by (simp add: window_ok_def)
      ultimately show ?thesis
        unfolding snap_inv_def phase_ok_def proj ph snapshot_phase.case fr w
        using inv unfolding snap_inv_def phase_ok_def ChunkEmit snapshot_phase.case by blast
    next
      case Done
      then have "sd_deferred ?d = []" using guard by simp
      moreover have "(case sd_phase d' of ChunkPrepare i \<Rightarrow> True | Done \<Rightarrow> next_incomplete_table (sd_tables d') = None | _ \<Rightarrow> False)"
      proof (cases "n > 0")
        case True
        with 2(2) Done show ?thesis by (cases "next_incomplete_table ts") auto
      next
        case False
        with enqueue_specs_same [OF 2(1)] have "ts = sd_tables ?d" by simp
        with False 2(2) Done inv show ?thesis by (simp add: snap_inv_def phase_ok_def)
      qed
      ultimately show ?thesis using inv fr by (auto simp: snap_inv_def phase_ok_def split: snapshot_phase.splits)
    qed
  qed
qed

lemma snap_inv_frame:
  assumes inv: "snap_inv env r" and eq: "sd_phase d' = sd_phase (sr_driver r)" "sd_tables d' = sd_tables (sr_driver r)"
    "sd_deferred d' = sd_deferred (sr_driver r)" "emit_batch_size d' = emit_batch_size (sr_driver r)"
  shows "snap_inv env (r\<lparr>sr_driver := d'\<rparr>)"
proof -
  let ?r = "r\<lparr>sr_driver := d'\<rparr>"
  have proj: "sr_driver ?r = d'" "sr_read ?r = sr_read r" "sr_stream ?r = sr_stream r" "sr_chunk ?r = sr_chunk r"
      "sr_window ?r = sr_window r" "sr_head ?r = sr_head r" "sr_rows ?r = sr_rows r" by simp_all
  have a: "active i d' = active i (sr_driver r)" for i unfolding active_def eq ..
  have w: "window_ok env ?r low high = window_ok env r low high" for low high by (simp add: window_ok_def)
  show ?thesis using inv unfolding snap_inv_def phase_ok_def proj eq a w .
qed

lemma pause_inv:
  assumes "snap_inv env r"
  shows "snap_inv env (r\<lparr>sr_driver := fst (set_paused p (sr_driver r))\<rparr>)"
proof (rule snap_inv_frame [OF assms])
  have "sd_phase (sr_driver r) = Done \<Longrightarrow> next_incomplete_table (sd_tables (sr_driver r)) = None"
    using assms by (simp add: snap_inv_def phase_ok_def)
  then show "sd_phase (fst (set_paused p (sr_driver r))) = sd_phase (sr_driver r)"
    by (cases "sd_phase (sr_driver r)") (simp_all add: set_paused_def)
qed (simp_all add: set_paused_def)

lemma stop_inv:
  assumes "snap_inv env r"
  shows "snap_inv env (r\<lparr>sr_driver := fst (stop_snapshot (sr_driver r))\<rparr>)"
  using assms by (simp add: snap_inv_def phase_ok_def stop_snapshot_def next_incomplete_table_def)

context ordered_brackets
begin

lemma reach_inv:
  assumes "snap_reach env d0 w0 r" and "at_boundary d0" and "bounded_batches env (emit_batch_size d0)"
  shows "snap_inv env r"
  using assms(1)
proof induction
  case reach_start
  from assms(2,3) show ?case
    by (auto simp: snap_inv_def snap_start_def at_boundary_def phase_ok_def split: snapshot_phase.splits)
next
  case (reach_iterate r timeout)
  then show ?case by (intro observe_inv)
next
  case (reach_request r tables conditions d' w' res)
  then show ?case by (intro enqueue_inv)
next
  case (reach_pause r p)
  then show ?case by (intro pause_inv)
next
  case (reach_stop r)
  then show ?case by (intro stop_inv)
qed

lemma stream_conserved:
  assumes "snap_reach env d0 w0 r" and "at_boundary d0" and "bounded_batches env (emit_batch_size d0)"
  shows "map skeleton (sr_stream r @ sd_deferred (sr_driver r)) = map skeleton (sr_read r)"
  using reach_inv [OF assms] by (simp add: snap_inv_def)

lemma chunk_merged:
  assumes "snap_reach env d0 w0 r" and "at_boundary d0" and "bounded_batches env (emit_batch_size d0)"
    and "sd_phase (sr_driver r) = ChunkEmit i events cursor n"
  shows "\<exists>spec low high chunk. sr_chunk r = Some (spec, low, high, chunk, cursor) \<and> window_ok env r low high
    \<and> sr_rows r @ events = map snd (filter (\<lambda>(f, _). f \<notin> superseded_keys env spec low high (sr_window r)) chunk)"
  using reach_inv [OF assms(1-3)] assms(4) by (simp add: snap_inv_def phase_ok_def)

lemma cursor_after_rows:
  assumes "snap_reach env d0 w0 r" and "at_boundary d0" and "bounded_batches env (emit_batch_size d0)"
    and "map tp_pk_cursor (sd_tables (sr_driver (observe env timeout r))) \<noteq> map tp_pk_cursor (sd_tables (sr_driver r))"
  shows "\<exists>spec low high chunk cursor i. sr_chunk r = Some (spec, low, high, chunk, cursor)
    \<and> sr_rows r = map snd (filter (\<lambda>(f, _). f \<notin> superseded_keys env spec low high (sr_window r)) chunk)
    \<and> map tp_pk_cursor (sd_tables (sr_driver (observe env timeout r)))
        = (map tp_pk_cursor (sd_tables (sr_driver r)))[i := Some cursor]"
proof -
  let ?d = "sr_driver r" and ?it = "drive_iteration env timeout (sr_driver r) (sr_world r)"
  have obs: "sr_driver (observe env timeout r) = fst (outcome ?it)"
    by (auto simp: observe_def Let_def split: prod.split snapshot_phase.split)
  note inv = reach_inv [OF assms(1-3)]
  show ?thesis
  proof (cases "sd_phase ?d")
    case (ChunkPrepare i)
    have "map tp_pk_cursor (sd_tables (fst (outcome ?it))) = map tp_pk_cursor (sd_tables ?d)"
      using ChunkPrepare
      by (auto simp: drive_iteration_def outcome_def pass_through_def drain_deferred_def drive_chunk_prepare_def Let_def
          map_update list_update_same_conv split: prod.split sum.split option.split
          dest!: prepare_indexD intro!: list_update_same_conv [THEN iffD2])
    with assms(4) obs show ?thesis by simp
  next
    case (ChunkCollect i low high rows ov cursor)
    have "sd_tables (fst (outcome ?it)) = sd_tables ?d"
      using ChunkCollect
      by (auto simp: drive_iteration_def outcome_def collect_arm_def finalize_collect_def Let_def split: prod.split sum.split)
    with assms(4) obs show ?thesis by simp
  next
    case Done
    have "sd_tables (fst (outcome ?it)) = sd_tables ?d"
      using Done by (auto simp: drive_iteration_def outcome_def pass_through_def drain_deferred_def split: prod.split sum.split)
    with assms(4) obs show ?thesis by simp
  next
    case (ChunkEmit i events cursor n)
    from chunk_merged [OF assms(1-3) ChunkEmit] obtain spec low high chunk where
      ch: "sr_chunk r = Some (spec, low, high, chunk, cursor)"
        "sr_rows r @ events = map snd (filter (\<lambda>(f, _). f \<notin> superseded_keys env spec low high (sr_window r)) chunk)"
      by blast
    have pos: "0 < emit_batch_size ?d" by (simp add: emit_batch_size_def EMIT_BATCH_SIZE_def)
    have "events = []"
      using assms(4) obs ChunkEmit pos by (cases events) (auto simp: drive_iteration_def outcome_def Let_def)
    then have "sd_tables (fst (outcome ?it)) = sd_tables (commit_chunk_progress i cursor n ?d)"
      using ChunkEmit by (auto simp: drive_iteration_def outcome_def drain_deferred_def Let_def)
    then have t: "map tp_pk_cursor (sd_tables (sr_driver (observe env timeout r)))
        = (map tp_pk_cursor (sd_tables ?d))[i := (if cursor \<noteq> [] then Some cursor else tp_pk_cursor (sd_tables ?d ! i))]"
      using obs by (simp add: commit_chunk_progress_def map_update Let_def)
    have "active i ?d" using inv ChunkEmit by (simp add: snap_inv_def phase_ok_def)
    then have "cursor \<noteq> []" using t assms(4) by (auto simp: active_def list_update_same_conv [THEN iffD2])
    with t ch \<open>events = []\<close> show ?thesis by (intro exI conjI) auto
  qed
qed

end

end
