(* ===== verification/Overlap_Dedup.thy ===== *)
theory Overlap_Dedup
  imports Event_Envelope
begin

text \<open>
  Collapsing the events that both a snapshot and the start of its stream have seen. The MySQL and the
  SQL Server connector have the same loop and the same key, in \<open>source/mysql/query.rs\<close> and
  \<open>source/sqlserver/parser.rs\<close>; this theory holds the loop and what it computes. \<open>render\<close> is the
  JSON library's rendering of a value (\<open>Value::to_string\<close>).
\<close>

fun fingerprint_columns :: "(json \<Rightarrow> string) \<Rightarrow> jobj \<Rightarrow> string list \<Rightarrow> string option" where
  "fingerprint_columns render row [] = Some []"
| "fingerprint_columns render row (c # cs) =
     (case obj_get row c of
        None \<Rightarrow> None
      | Some v \<Rightarrow> map_option (\<lambda>r. ''|'' @ c @ ''='' @ render v @ r) (fingerprint_columns render row cs))"

text \<open>The loop carries the events kept, the index of each key's event, and the duplicates counted.\<close>

fun overlap_loop ::
    "(event \<Rightarrow> string option) \<Rightarrow> event list \<Rightarrow> (string \<rightharpoonup> nat) \<Rightarrow> nat \<Rightarrow> event list \<Rightarrow> event list \<times> nat" where
  "overlap_loop fp deduped idx dups [] = (deduped, dups)"
| "overlap_loop fp deduped idx dups (e # es) =
     (case fp e of
        None \<Rightarrow> overlap_loop fp (deduped @ [e]) idx dups es
      | Some pk \<Rightarrow>
          (case idx pk of
             Some i \<Rightarrow> overlap_loop fp (deduped[i := e]) idx (sat_add64 dups 1) es
           | None \<Rightarrow> overlap_loop fp (deduped @ [e]) (idx(pk \<mapsto> length deduped)) dups es))"

section \<open>Last writer wins\<close>

text \<open>
  What collapsing should give: one slot for each key, where the key first occurs, holding the last
  event of the key; events without a key keep a slot of their own.
\<close>

fun firsts :: "('e \<Rightarrow> 'k option) \<Rightarrow> 'k set \<Rightarrow> 'e list \<Rightarrow> 'e list" where
  "firsts fp seen [] = []"
| "firsts fp seen (e # es) =
     (case fp e of
        None \<Rightarrow> e # firsts fp seen es
      | Some k \<Rightarrow> if k \<in> seen then firsts fp seen es else e # firsts fp (insert k seen) es)"

definition latest :: "('e \<Rightarrow> 'k option) \<Rightarrow> 'e list \<Rightarrow> 'e \<Rightarrow> 'e" where
  "latest fp es e = (if fp e = None then e else last (filter (\<lambda>x. fp x = fp e) es))"

lemma firsts_snoc:
  "firsts fp seen (es @ [e]) =
     firsts fp seen es
     @ (case fp e of None \<Rightarrow> [e] | Some k \<Rightarrow> if k \<in> seen \<or> Some k \<in> fp ` set es then [] else [e])"
  by (induction es arbitrary: seen) (auto split: option.splits)

lemma firsts_subset: "set (firsts fp seen es) \<subseteq> set es"
  by (induction fp seen es rule: firsts.induct) (auto split: option.splits)

text \<open>The loop invariant: the index maps exactly the keys seen, each to the slot of its first event.\<close>

definition indexed :: "('e \<Rightarrow> 'k option) \<Rightarrow> 'e list \<Rightarrow> ('k \<rightharpoonup> nat) \<Rightarrow> bool" where
  "indexed fp es idx \<longleftrightarrow>
     (\<forall>k. (idx k = None) \<longleftrightarrow> Some k \<notin> fp ` set es)
     \<and> (\<forall>k i. idx k = Some i \<longleftrightarrow> i < length (firsts fp {} es) \<and> fp (firsts fp {} es ! i) = Some k)"

lemma indexed_Nil: "indexed fp [] Map.empty"
  by (simp add: indexed_def)

lemma indexed_plain: "indexed fp es idx \<Longrightarrow> fp e = None \<Longrightarrow> indexed fp (es @ [e]) idx"
  by (auto simp: indexed_def firsts_snoc nth_append less_Suc_eq split: if_splits)

lemma indexed_repeat: "indexed fp es idx \<Longrightarrow> fp e = Some k \<Longrightarrow> idx k = Some i \<Longrightarrow> indexed fp (es @ [e]) idx"
  by (auto simp: indexed_def firsts_snoc split: if_splits) (metis option.distinct(1))+

lemma indexed_new:
  assumes "indexed fp es idx" "fp e = Some k" "idx k = None"
  shows "indexed fp (es @ [e]) (idx(k \<mapsto> length (firsts fp {} es)))"
proof -
  have new: "Some k \<notin> fp ` set es" using assms by (simp add: indexed_def)
  then have "fp (firsts fp {} es ! i) \<noteq> Some k" if "i < length (firsts fp {} es)" for i
    using that firsts_subset [of fp "{}" es] by (metis image_eqI nth_mem subsetD)
  with assms new show ?thesis
    by (auto simp: indexed_def firsts_snoc nth_append less_Suc_eq split: if_splits)
qed

lemma latest_other: "fp e \<noteq> fp x \<or> fp x = None \<Longrightarrow> latest fp (es @ [e]) x = latest fp es x"
  by (auto simp: latest_def)

lemma latest_same: "fp x = fp e \<Longrightarrow> fp e \<noteq> None \<Longrightarrow> latest fp (es @ [e]) x = e"
  by (auto simp: latest_def)

lemma overlap_loop_spec:
  assumes "indexed fp es idx" "deduped = map (latest fp es) (firsts fp {} es)"
    "dups + length (firsts fp {} es) = length es" "length es + length rest \<le> u64_max"
  shows "overlap_loop fp deduped idx dups rest
    = (map (latest fp (es @ rest)) (firsts fp {} (es @ rest)), length (es @ rest) - length (firsts fp {} (es @ rest)))"
  using assms
proof (induction rest arbitrary: es idx deduped dups)
  case Nil
  then show ?case by simp
next
  case (Cons e rest)
  let ?F = "firsts fp {} es"
  have len: "length (es @ [e]) + length rest \<le> u64_max" using Cons.prems(4) by simp
  have sat: "sat_add64 dups (Suc 0) = Suc dups" using Cons.prems(3,4) by (simp add: sat_add64_def)
  show ?case
  proof (cases "fp e")
    case None
    have "firsts fp {} (es @ [e]) = ?F @ [e]" using None by (simp add: firsts_snoc)
    moreover have "map (latest fp (es @ [e])) ?F = map (latest fp es) ?F"
      by (rule map_cong) (auto simp: latest_other None latest_def)
    ultimately have "deduped @ [e] = map (latest fp (es @ [e])) (firsts fp {} (es @ [e]))"
      using Cons.prems(2) None by (simp add: latest_def)
    with Cons.IH [OF indexed_plain [OF Cons.prems(1) None], of "deduped @ [e]" dups] Cons.prems(3) len None
    show ?thesis by (simp add: firsts_snoc)
  next
    case (Some k)
    show ?thesis
    proof (cases "idx k")
      case None
      then have new: "Some k \<notin> fp ` set es" using Cons.prems(1) by (simp add: indexed_def)
      then have F: "firsts fp {} (es @ [e]) = ?F @ [e]" using Some by (simp add: firsts_snoc)
      have "map (latest fp (es @ [e])) ?F = map (latest fp es) ?F"
        using new Some firsts_subset [of fp "{}" es] by (intro map_cong latest_other) auto
      with F have "deduped @ [e] = map (latest fp (es @ [e])) (firsts fp {} (es @ [e]))"
        using Cons.prems(2) Some by (simp add: latest_same)
      with Cons.IH [OF indexed_new [OF Cons.prems(1) Some None], of "deduped @ [e]" dups] Cons.prems(2,3) len Some None F
      show ?thesis by (simp add: fun_upd_def)
    next
      case (Some i)
      note k = \<open>fp e = Some k\<close>
      have i: "i < length ?F" "fp (?F ! i) = Some k" "Some k \<in> fp ` set es"
        and uniq: "\<And>j. j < length ?F \<Longrightarrow> fp (?F ! j) = Some k \<Longrightarrow> j = i"
        using Cons.prems(1) Some by (auto simp: indexed_def) (metis option.inject option.distinct(1))+
      have F: "firsts fp {} (es @ [e]) = ?F" using k i(3) by (simp add: firsts_snoc)
      have "deduped[i := e] = map (latest fp (es @ [e])) ?F"
      proof (rule nth_equalityI)
        show "length (deduped[i := e]) = length (map (latest fp (es @ [e])) ?F)" using Cons.prems(2) by simp
        fix j assume "j < length (deduped[i := e])"
        then have j: "j < length ?F" using Cons.prems(2) by simp
        show "deduped[i := e] ! j = map (latest fp (es @ [e])) ?F ! j"
        proof (cases "j = i")
          case True
          then show ?thesis using i k Cons.prems(2) by (simp add: latest_same)
        next
          case False
          then have "fp e \<noteq> fp (?F ! j)" using uniq j k by metis
          then show ?thesis using False j Cons.prems(2) by (simp add: latest_other)
        qed
      qed
      with Cons.IH [OF indexed_repeat [OF Cons.prems(1) k Some], of "deduped[i := e]" "dups + 1"] Cons.prems(3) len k Some F
      show ?thesis by (simp add: sat)
    qed
  qed
qed

end
