(* ===== verification/Mysql_Parser.thy ===== *)
theory Mysql_Parser
  imports Overlap_Dedup Quoted_Names Gtid_Set Stream_Offset "HOL-Library.List_Lexorder" "HOL-Library.Char_ord"
begin

text \<open>
  The text layer of the MySQL connector: stream offsets, table references and binlog file names
  (\<open>source/mysql/parser.rs\<close>), binlog coordinates (\<open>source/mysql/state.rs\<close>), and the union of GTID
  sets with the overlap key (\<open>source/mysql/query.rs\<close>).
\<close>

section \<open>Offsets and coordinates\<close>

definition parse_mysql_source_offset :: "string \<Rightarrow> (string \<times> nat) option" where
  "parse_mysql_source_offset off =
     (case split_once (CHR '':'') off of
        None \<Rightarrow> None
      | Some (file, rest) \<Rightarrow>
          map_option (Pair file)
            (parse_u32 (case split_once_str ''#gtid='' rest of None \<Rightarrow> rest | Some (position, _) \<Rightarrow> position)))"

definition format_mysql_source_offset :: "string \<Rightarrow> nat \<Rightarrow> string \<Rightarrow> string" where
  "format_mysql_source_offset binlog_file binlog_pos gtid =
     (if gtid = [] then binlog_file @ '':'' @ show_nat binlog_pos
      else binlog_file @ '':'' @ show_nat binlog_pos @ ''#gtid='' @ gtid)"

definition compare_binlog_position :: "string \<Rightarrow> nat \<Rightarrow> string \<Rightarrow> nat \<Rightarrow> ordering" where
  "compare_binlog_position file_a pos_a file_b pos_b =
     (case compare_of file_a file_b of Equal \<Rightarrow> compare_of pos_a pos_b | other \<Rightarrow> other)"

record mysql_handoff =
  mh_snapshot_binlog_file :: string
  mh_snapshot_binlog_pos :: nat
  mh_snapshot_gtid :: string
  mh_stream_start_binlog_file :: string
  mh_stream_start_binlog_pos :: nat
  mh_stream_start_gtid :: string

definition has_no_gap :: "mysql_handoff \<Rightarrow> bool" where
  "has_no_gap h \<longleftrightarrow>
     compare_binlog_position (mh_stream_start_binlog_file h) (mh_stream_start_binlog_pos h)
       (mh_snapshot_binlog_file h) (mh_snapshot_binlog_pos h) \<noteq> Greater"

section \<open>Table references\<close>

definition invalid_mysql_name :: error where
  "invalid_mysql_name = ConfigError ''mysql snapshot table name is invalid''"

definition finalize_mysql_identifier_segment :: "string \<Rightarrow> bool \<Rightarrow> string result" where
  "finalize_mysql_identifier_segment raw quoted =
     (let segment = (if quoted then raw else trim raw)
      in if segment = [] then Inl invalid_mysql_name
         else if (if quoted then \<not> has_control segment
                  else list_all (\<lambda>c. is_ascii_alphanumeric c \<or> c = CHR ''_'' \<or> c = CHR ''$'') segment)
         then Inr segment
         else Inl invalid_mysql_name)"

fun backtick_loop :: "string list \<Rightarrow> string \<Rightarrow> bool \<Rightarrow> bool \<Rightarrow> string \<Rightarrow> string list result" where
  "backtick_loop parts current in_quotes segment_quoted [] =
     (if in_quotes then Inl invalid_mysql_name
      else case finalize_mysql_identifier_segment current segment_quoted of
             Inl e \<Rightarrow> Inl e
           | Inr segment \<Rightarrow> Inr (parts @ [segment]))"
| "backtick_loop parts current in_quotes segment_quoted (c # cs) =
     (if in_quotes then
        (if c = CHR 0x60 then
           (case cs of
              [] \<Rightarrow> backtick_loop parts current False segment_quoted cs
            | d # ds \<Rightarrow>
                if d = CHR 0x60 then backtick_loop parts (current @ [CHR 0x60]) True segment_quoted ds
                else backtick_loop parts current False segment_quoted cs)
         else backtick_loop parts (current @ [c]) True segment_quoted cs)
      else if c = CHR 0x60 then
        (if \<not> blank current then Inl invalid_mysql_name
         else backtick_loop parts [] True True cs)
      else if c = CHR ''.'' then
        (case finalize_mysql_identifier_segment current segment_quoted of
           Inl e \<Rightarrow> Inl e
         | Inr segment \<Rightarrow> backtick_loop (parts @ [segment]) [] False False cs)
      else backtick_loop parts (current @ [c]) False segment_quoted cs)"

definition parse_mysql_identifier_path :: "string \<Rightarrow> string list result" where
  "parse_mysql_identifier_path input = backtick_loop [] [] False False input"

definition split_table_reference :: "string \<Rightarrow> (string option \<times> string) result" where
  "split_table_reference table =
     (let trimmed = trim table
      in if trimmed = [] then Inl (ConfigError ''mysql snapshot table name must not be empty'')
         else case parse_mysql_identifier_path trimmed of
                Inl e \<Rightarrow> Inl e
              | Inr [table_name] \<Rightarrow> Inr (None, table_name)
              | Inr [schema_name, table_name] \<Rightarrow> Inr (Some schema_name, table_name)
              | Inr _ \<Rightarrow> Inl invalid_mysql_name)"

definition quoted_mysql_identifier :: "string \<Rightarrow> string" where
  "quoted_mysql_identifier identifier =
     CHR 0x60 # concat (map (\<lambda>c. if c = CHR 0x60 then [CHR 0x60, CHR 0x60] else [c]) identifier) @ [CHR 0x60]"

definition mysql_qualified_table_name :: "string option \<Rightarrow> string \<Rightarrow> string" where
  "mysql_qualified_table_name schema table =
     (case schema of
        Some schema_name \<Rightarrow> quoted_mysql_identifier schema_name @ ''.'' @ quoted_mysql_identifier table
      | None \<Rightarrow> quoted_mysql_identifier table)"

definition mysql_qualified_table_name_from_reference :: "string \<Rightarrow> string result" where
  "mysql_qualified_table_name_from_reference table =
     (case split_table_reference table of
        Inl e \<Rightarrow> Inl e
      | Inr (schema, name) \<Rightarrow> Inr (mysql_qualified_table_name schema name))"

text \<open>
  The target of a TRUNCATE statement. \<open>upper\<close> is \<open>str::to_uppercase\<close>; the offsets the code takes from
  the upper-cased text are those of the statement when upper-casing keeps its length, as it does on
  ASCII text.
\<close>

definition parse_truncate_target :: "(string \<Rightarrow> string) \<Rightarrow> string \<Rightarrow> (string option \<times> string) option" where
  "parse_truncate_target upper statement =
     (let trimmed = trim_start statement; up = upper trimmed
      in if \<not> prefix ''TRUNCATE'' up then None
         else
           let after_kw = drop 8 up;
               kw_end = length trimmed - length after_kw;
               after_kw_orig = drop kw_end trimmed;
               spaces_after_kw = length after_kw - length (trim_start after_kw);
               trimmed_after_kw = drop spaces_after_kw after_kw_orig;
               table_ref = (if prefix ''TABLE'' (upper trimmed_after_kw) then trim_start (drop 5 trimmed_after_kw)
                            else trimmed_after_kw);
               cleaned = trim (rev (dropWhile (\<lambda>c. c = CHR '';'') (rev (trim table_ref))))
           in if cleaned = [] then None else ok (split_table_reference cleaned))"

section \<open>Binlog file names\<close>

definition is_ascii_digit :: "char \<Rightarrow> bool" where
  "is_ascii_digit c \<longleftrightarrow> 48 \<le> (of_char c :: nat) \<and> (of_char c :: nat) \<le> 57"

definition sanitize_binlog_file_name :: "string \<Rightarrow> string result" where
  "sanitize_binlog_file_name raw =
     (case rsplit_once (CHR ''.'') raw of
        None \<Rightarrow> Inl (SourceError ''mysql rotate event carried an unusable binlog file name: expected <base>.<sequence>'')
      | Some (base, sfx) \<Rightarrow>
          let digits = takeWhile is_ascii_digit sfx
          in if digits = []
             then Inl (SourceError ''mysql rotate event carried an unusable binlog file name: the sequence suffix is not numeric'')
             else if base = [] \<or> has_control base \<or> list_ex (\<lambda>c. 128 \<le> (of_char c :: nat)) base
             then Inl (SourceError ''mysql rotate event carried an unusable binlog file name: the base name is empty or contains bytes a binlog file name cannot hold'')
             else Inr (base @ ''.'' @ digits))"

section \<open>GTID sets\<close>

definition lenient_interval :: "string \<Rightarrow> interval list" where
  "lenient_interval part =
     (case split_once (CHR ''-'') part of
        Some (start, stop) \<Rightarrow>
          (case (parse_u64 (trim start), parse_u64 (trim stop)) of
             (Some a, Some b) \<Rightarrow> [(a, max b a)]
           | _ \<Rightarrow> [])
      | None \<Rightarrow> (case parse_u64 part of Some v \<Rightarrow> [(v, v)] | None \<Rightarrow> []))"

text \<open>One entry between commas: its source and its intervals, unreadable ones skipped.\<close>

definition lenient_entry :: "string \<Rightarrow> (string \<times> interval list) option" where
  "lenient_entry raw =
     (let uuid_set = trim raw
      in if uuid_set = [] then None
         else case map trim (split_on (CHR '':'') uuid_set) of
                [] \<Rightarrow> None
              | uuid # parts \<Rightarrow>
                  if uuid = [] then None
                  else Some (to_ascii_lowercase uuid, concat (map lenient_interval (filter (\<lambda>p. p \<noteq> []) parts))))"

definition parse_gtid_set_intervals :: "string \<Rightarrow> gtid_set" where
  "parse_gtid_set_intervals raw = fold extend_source (List.map_filter lenient_entry (split_on (CHR '','') raw)) []"

definition render_interval :: "interval \<Rightarrow> string" where
  "render_interval i = (if fst i = snd i then show_nat (fst i) else show_nat (fst i) @ ''-'' @ show_nat (snd i))"

definition render_gtid_set :: "gtid_set \<Rightarrow> string" where
  "render_gtid_set parsed =
     join '','' (map (\<lambda>(uuid, is). uuid @ '':'' @ join '':'' (map render_interval (coalesce is)))
       (filter (\<lambda>(_, is). is \<noteq> []) parsed))"

definition merge_gtid_into_set :: "string \<Rightarrow> string \<Rightarrow> string" where
  "merge_gtid_into_set raw gtid =
     render_gtid_set (fold extend_source (parse_gtid_set_intervals gtid) (parse_gtid_set_intervals raw))"

definition format_gtid :: "nat list \<Rightarrow> nat \<Rightarrow> string" where
  "format_gtid sid gno =
     (let hex = (\<lambda>i j. concat (map (\<lambda>b. to_ascii_lowercase (pad_left 2 (show_radix 16 b))) (take (j - i) (drop i sid))))
      in hex 0 4 @ ''-'' @ hex 4 6 @ ''-'' @ hex 6 8 @ ''-'' @ hex 8 10 @ ''-'' @ hex 10 16 @ '':'' @ show_nat gno)"

section \<open>Overlap events\<close>

definition mysql_event_pk_fingerprint :: "(json \<Rightarrow> string) \<Rightarrow> event \<Rightarrow> string option" where
  "mysql_event_pk_fingerprint render e =
     (case ev_primary_key e of
        None \<Rightarrow> None
      | Some pk \<Rightarrow>
          if pk = [] then None
          else (case (case ev_after e of Some v \<Rightarrow> Some v | None \<Rightarrow> ev_before e) of
                  None \<Rightarrow> None
                | Some v \<Rightarrow>
                    (case as_object v of
                       None \<Rightarrow> None
                     | Some row \<Rightarrow> map_option (\<lambda>r. ev_table e @ r) (fingerprint_columns render row pk))))"

definition mysql_dedup_overlap_events_by_pk :: "(json \<Rightarrow> string) \<Rightarrow> event list \<Rightarrow> event list \<times> nat" where
  "mysql_dedup_overlap_events_by_pk render events =
     overlap_loop (mysql_event_pk_fingerprint render) [] Map.empty 0 events"

section \<open>Names and offsets are read back\<close>

interpretation mysql_names: quoted_names "CHR 0x60" "CHR 0x60" finalize_mysql_identifier_segment backtick_loop
  by unfold_locales
    (auto simp: graphic_def finalize_mysql_identifier_segment_def split: list.split)

lemma quoted_mysql_identifier_quoted: "quoted_mysql_identifier s = quote_with (CHR 0x60) (CHR 0x60) s"
  by (simp add: quoted_mysql_identifier_def quote_with_def)

text \<open>
  The name a reference is rewritten to for SQL refers to the same table: quoting the parts and
  parsing the result gives the parts back, with and without a schema.
\<close>

theorem mysql_name_round_trip:
  assumes "table \<noteq> []" "\<not> has_control table"
    and "pred_option (\<lambda>s. s \<noteq> [] \<and> \<not> has_control s) schema"
  shows "split_table_reference (mysql_qualified_table_name schema table) = Inr (schema, table)"
proof (cases schema)
  case None
  then show ?thesis
    using mysql_names.quoted_single [OF assms(1,2)] mysql_names.trim_single [of table]
    by (simp add: split_table_reference_def parse_mysql_identifier_path_def mysql_qualified_table_name_def
        quoted_mysql_identifier_quoted quote_with_def)
next
  case (Some s)
  with assms have "s \<noteq> []" "\<not> has_control s" by auto
  then show ?thesis
    using mysql_names.quoted_pair [of s table] mysql_names.trim_pair [of s table] assms Some
    by (simp add: split_table_reference_def parse_mysql_identifier_path_def mysql_qualified_table_name_def
        quoted_mysql_identifier_quoted quote_with_def)
qed

theorem mysql_name_round_trip_witness:
  "split_table_reference (mysql_qualified_table_name (Some ''my.db'') ''line items'') = Inr (Some ''my.db'', ''line items'')"
  by (rule mysql_name_round_trip) (simp_all add: Let_def)

lemma split_once_str_none: "hd sep \<notin> set s \<Longrightarrow> sep \<noteq> [] \<Longrightarrow> split_once_str sep s = None"
  by (induction s) (auto simp: prefix_def neq_Nil_conv)

lemma split_once_str_first:
  assumes "hd sep \<notin> set s" "sep \<noteq> []"
  shows "split_once_str sep (s @ sep @ t) = Some (s, t)"
  using assms
proof (induction s)
  case Nil
  then show ?case by (cases sep) auto
next
  case (Cons c s)
  then have "\<not> prefix sep (c # s @ sep @ t)" by (auto simp: prefix_def neq_Nil_conv)
  with Cons show ?case by simp
qed

lemma show_nat_no_hash: "CHR ''#'' \<notin> set (show_nat n)"
  using show_radix_chars [of 10 "CHR ''#''" n] by (auto simp: digit_value_def Let_def)

text \<open>
  The coordinate in an event's offset survives the GTID that follows it, whatever that GTID is, as
  long as the file name has no colon.
\<close>

theorem mysql_offset_round_trip:
  assumes "CHR '':'' \<notin> set file" "pos \<le> u32_max"
  shows "parse_mysql_source_offset (format_mysql_source_offset file pos gtid) = Some (file, pos)"
proof -
  have p: "parse_u32 (show_nat pos) = Some pos" using assms(2) by (simp add: parse_u32_def from_str_radix_show)
  have n: "split_once_str ''#gtid='' (show_nat pos) = None"
    using show_nat_no_hash [of pos] by (intro split_once_str_none) auto
  have s: "split_once_str ''#gtid='' (show_nat pos @ ''#gtid='' @ gtid) = Some (show_nat pos, gtid)"
    using show_nat_no_hash [of pos] by (intro split_once_str_first) auto
  show ?thesis
    using split_once_append [OF assms(1)] p n s
    by (simp add: parse_mysql_source_offset_def format_mysql_source_offset_def)
qed

theorem mysql_offset_round_trip_witness:
  "parse_mysql_source_offset (format_mysql_source_offset ''binlog.000042'' 4 ''3e11fa47:23'') = Some (''binlog.000042'', 4)"
  by (rule mysql_offset_round_trip) (simp_all add: u32_max_def)

section \<open>The order of coordinates\<close>

lemma decimal_digit: "digit_value c = Some v \<Longrightarrow> v < 10 \<Longrightarrow> (of_char c :: nat) = 48 + v"
  by (auto simp: digit_value_def Let_def split: if_splits)

lemma digits_order:
  "length d = length e \<Longrightarrow> digits_value 10 a d = Some m \<Longrightarrow> digits_value 10 b e = Some n \<Longrightarrow>
     (a < b \<longrightarrow> m < n) \<and> (b < a \<longrightarrow> n < m) \<and> (a = b \<longrightarrow> (m < n \<longleftrightarrow> d < e) \<and> (m = n \<longleftrightarrow> d = e))"
proof (induction d arbitrary: e a b)
  case Nil
  then show ?case by auto
next
  case (Cons c d)
  then obtain c' e' where e: "e = c' # e'" "length d = length e'" by (cases e) auto
  from Cons.prems(2) obtain v where v: "digit_value c = Some v" "v < 10" "digits_value 10 (a * 10 + v) d = Some m"
    by (auto split: option.splits if_splits)
  from Cons.prems(3) e obtain w where w: "digit_value c' = Some w" "w < 10" "digits_value 10 (b * 10 + w) e' = Some n"
    by (auto split: option.splits if_splits)
  have eq: "c = c' \<longleftrightarrow> (of_char c :: nat) = of_char c'" by (simp only: of_char_eq_iff)
  have c: "c < c' \<longleftrightarrow> v < w" "c = c' \<longleftrightarrow> v = w"
    unfolding eq less_char_def decimal_digit [OF v(1,2)] decimal_digit [OF w(1,2)] by simp_all
  note ih = Cons.IH [OF e(2) v(3) w(3)]
  show ?case
    using ih c e(1) v(2) w(2) by (cases v w rule: linorder_cases) auto
qed

lemma prefix_less_iff: "(b @ d :: string) < b @ e \<longleftrightarrow> d < e"
  by (induction b) auto

text \<open>
  Coordinates are compared in log order as long as the sequence numbers of the file names have the
  same number of digits.
\<close>

theorem binlog_order_numeric:
  assumes "length d = length e" "digits_value 10 0 d = Some m" "digits_value 10 0 e = Some n"
  shows "compare_binlog_position (base @ ''.'' @ d) p (base @ ''.'' @ e) q
    = (if m = n then compare_of p q else compare_of m n)"
  using digits_order [OF assms] prefix_less_iff [of "base @ ''.''" d e]
  by (auto simp: compare_binlog_position_def compare_of_def)

theorem binlog_order_numeric_witness:
  "compare_binlog_position (''binlog'' @ ''.'' @ ''000009'') 999 (''binlog'' @ ''.'' @ ''000010'') 4 = Less"
  using binlog_order_numeric [of "''000009''" "''000010''" 9 10 "''binlog''" 999 4]
  by (simp add: digit_value_def Let_def compare_of_def)

text \<open>
  They are not when the number gains a digit: the millionth file sorts before the one it follows. The
  handoff then takes a stream that starts one file after the snapshot for one without a gap.
\<close>

theorem handoff_guard_misses_rollover:
  "compare_binlog_position ''binlog.1000000'' p ''binlog.999999'' q = Less
   \<and> has_no_gap \<lparr>mh_snapshot_binlog_file = ''binlog.999999'', mh_snapshot_binlog_pos = q, mh_snapshot_gtid = g,
                 mh_stream_start_binlog_file = ''binlog.1000000'', mh_stream_start_binlog_pos = p, mh_stream_start_gtid = h\<rparr>"
  by (simp add: has_no_gap_def compare_binlog_position_def compare_of_def less_char_def)

section \<open>TRUNCATE statements\<close>

definition ascii_upper :: "char \<Rightarrow> char" where
  "ascii_upper c = (let n = (of_char c :: nat) in if 97 \<le> n \<and> n \<le> 122 then char_of (n - 32) else c)"

text \<open>
  The optional keyword TABLE is not required to end where it stands: truncating a table whose name
  starts with it is reported as truncating another table.
\<close>

theorem truncate_target_cut:
  "parse_truncate_target (map ascii_upper) ''TRUNCATE tables_archive'' = Some (None, ''s_archive'')
   \<and> parse_truncate_target (map ascii_upper) ''TRUNCATE TABLE tables_archive'' = Some (None, ''tables_archive'')"
  by code_simp

section \<open>The union of GTID sets\<close>

lemma lenient_interval_bounded: "well_bounded (lenient_interval p)"
  by (auto simp: lenient_interval_def well_bounded_def max_def dest: parse_u64_bound parse_u64_bound [OF sym] split: option.splits)

lemma lenient_entry_bounded: "lenient_entry raw = Some (u, is) \<Longrightarrow> well_bounded is"
  using lenient_interval_bounded
  by (fastforce simp: lenient_entry_def well_bounded_def Let_def split: if_splits list.splits)

lemma split_on_part: "p \<in> set (split_on sep s) \<Longrightarrow> sep \<notin> set p \<and> set p \<subseteq> set s"
proof (induction s arbitrary: p)
  case (Cons c s)
  obtain q qs where q: "split_on sep s = q # qs" by (cases "split_on sep s") auto
  with Cons.IH have "sep \<notin> set q \<and> set q \<subseteq> set s" "\<And>p. p \<in> set qs \<Longrightarrow> sep \<notin> set p \<and> set p \<subseteq> set s" by auto
  with Cons.prems q show ?case by (fastforce split: if_splits)
qed simp

lemma set_trim_start: "set (trim_start s) \<subseteq> set s"
proof (induction s rule: trim_start.induct)
  case (1 s)
  show ?case
  proof (cases "ws_len s = 0 \<or> s = []")
    case False
    then have "trim_start s = trim_start (drop (ws_len s) s)" by (subst trim_start.simps) simp
    with 1 [OF False] show ?thesis using set_drop_subset [of "ws_len s" s] by auto
  qed (subst trim_start.simps, simp)
qed

lemma set_trim_end: "set (trim_end s) \<subseteq> set s"
proof (induction s rule: trim_end.induct)
  case (1 s)
  show ?case
  proof (cases "ws_len_end s = 0 \<or> s = []")
    case False
    then have "trim_end s = trim_end (take (length s - ws_len_end s) s)" by (subst trim_end.simps) simp
    with 1 [OF False] show ?thesis using set_take_subset [of "length s - ws_len_end s" s] by auto
  qed (subst trim_end.simps, simp)
qed

lemma set_trim: "set (trim s) \<subseteq> set s"
  using set_trim_start [of s] set_trim_end [of "trim_start s"] by (simp add: trim_def)

lemma ascii_lower_fixed: "ascii_lower c = d \<Longrightarrow> (of_char d :: nat) < 97 \<Longrightarrow> c = d"
  by (auto simp: ascii_lower_def Let_def split: if_splits)

text \<open>A source as it stands in a parsed set: lower case, and without the separators.\<close>

definition source_text :: "string \<Rightarrow> bool" where
  "source_text u \<longleftrightarrow> u \<noteq> [] \<and> to_ascii_lowercase u = u \<and> CHR '','' \<notin> set u \<and> CHR '':'' \<notin> set u"

lemma lenient_entry_source:
  assumes "lenient_entry raw = Some (u, is)" "CHR '','' \<notin> set raw"
  shows "source_text u"
proof -
  from assms(1) obtain w where w: "w \<in> set (split_on (CHR '':'') (trim raw))" "trim w \<noteq> []" "u = to_ascii_lowercase (trim w)"
    by (cases "split_on (CHR '':'') (trim raw)") (auto simp: lenient_entry_def Let_def split: if_splits)
  have sub: "set (trim w) \<subseteq> set w" "set w \<subseteq> set raw" "CHR '':'' \<notin> set w"
    using set_trim [of w] split_on_part [OF w(1)] set_trim [of raw] by auto
  have "c \<in> set (trim w)" if "c \<in> set u" "(of_char c :: nat) < 97" for c
  proof -
    from that w(3) obtain x where "x \<in> set (trim w)" "ascii_lower x = c" by (auto simp: to_ascii_lowercase_def)
    with ascii_lower_fixed [OF this(2) that(2)] show ?thesis by simp
  qed
  from this [of "CHR '',''"] this [of "CHR '':''"] sub assms(2) w show ?thesis
    by (auto simp: source_text_def to_ascii_lowercase_def)
qed

definition set_ok :: "gtid_set \<Rightarrow> bool" where
  "set_ok m \<longleftrightarrow> bt_wf m \<and> (\<forall>(u, is) \<in> set m. source_text u \<and> well_bounded is)"

lemma extend_source_ok:
  assumes "set_ok m" "source_text (fst e)" "well_bounded (snd e)"
  shows "set_ok (extend_source e m)"
    and "denoted_entries (extend_source e m) = denoted_entries [e] \<union> denoted_entries m"
proof -
  have wf: "bt_wf m" "bt_wf (extend_source e m)" using assms(1) by (auto simp: set_ok_def extend_source_def bt_entry_wf)
  have mo: "map_of (extend_source e m) u =
      (if u = fst e then Some ((case map_of m u of None \<Rightarrow> [] | Some is \<Rightarrow> is) @ snd e) else map_of m u)" for u
    using wf(1) by (simp add: extend_source_def map_of_bt_entry)
  have mem: "(u, is) \<in> set m' \<longleftrightarrow> map_of m' u = Some is" if "bt_wf m'" for u "is" and m' :: gtid_set
    using that by (auto simp: bt_wf_def strict_sorted_iff intro!: map_of_is_SomeI dest: map_of_SomeD)
  show "set_ok (extend_source e m)"
    unfolding set_ok_def
  proof (intro conjI ballI wf(2))
    fix x assume in_x: "x \<in> set (extend_source e m)"
    obtain u "is" where x1: "x = (u, is)" by (cases x)
    with in_x mem [OF wf(2)] have x: "x = (u, is)" "map_of (extend_source e m) u = Some is" by blast+
    have old: "source_text v \<and> well_bounded js" if "map_of m v = Some js" for v js
      using assms(1) map_of_SomeD [OF that] by (auto simp: set_ok_def)
    have "source_text u \<and> well_bounded is"
    proof (cases "u = fst e")
      case True
      with x(2) mo have "is = (case map_of m u of None \<Rightarrow> [] | Some js \<Rightarrow> js) @ snd e" by auto
      with True assms(2,3) old [of u] show ?thesis by (cases "map_of m u") (auto simp: well_bounded_def)
    next
      case False
      with x(2) mo old show ?thesis by auto
    qed
    with x(1) show "case x of (u, is) \<Rightarrow> source_text u \<and> well_bounded is" by simp
  qed
  have den: "(u, n) \<in> denoted_entries m' \<longleftrightarrow> (\<exists>is. map_of m' u = Some is \<and> n \<in> members is)" if "bt_wf m'" for u n m'
    using mem [OF that] by (auto simp: denoted_entries_def)
  have one: "(u, n) \<in> denoted_entries [e] \<longleftrightarrow> u = fst e \<and> n \<in> members (snd e)" for u n
    by (cases e) (auto simp: denoted_entries_def)
  have "(u, n) \<in> denoted_entries (extend_source e m) \<longleftrightarrow> (u, n) \<in> denoted_entries [e] \<or> (u, n) \<in> denoted_entries m" for u n
    unfolding den [OF wf(1)] den [OF wf(2)] one mo by (cases "map_of m u") auto
  then show "denoted_entries (extend_source e m) = denoted_entries [e] \<union> denoted_entries m" by auto
qed

lemma fold_extend_ok:
  assumes "set_ok m" "\<forall>e \<in> set es. source_text (fst e) \<and> well_bounded (snd e)"
  shows "set_ok (fold extend_source es m)"
    and "denoted_entries (fold extend_source es m) = denoted_entries es \<union> denoted_entries m"
proof -
  have "set_ok (fold extend_source es m)
      \<and> denoted_entries (fold extend_source es m) = denoted_entries es \<union> denoted_entries m"
    using assms
  proof (induction es arbitrary: m)
    case Nil
    then show ?case by (simp add: denoted_entries_def)
  next
    case (Cons e es)
    from extend_source_ok [OF Cons.prems(1), of e] Cons.prems(2)
    have "set_ok (extend_source e m)" "denoted_entries (extend_source e m) = denoted_entries [e] \<union> denoted_entries m"
      by auto
    with Cons.IH [OF this(1)] Cons.prems(2) show ?case by (auto simp: denoted_entries_def)
  qed
  then show "set_ok (fold extend_source es m)"
    "denoted_entries (fold extend_source es m) = denoted_entries es \<union> denoted_entries m" by auto
qed

lemma parse_gtid_set_intervals_ok: "set_ok (parse_gtid_set_intervals raw)"
  unfolding parse_gtid_set_intervals_def
proof (rule fold_extend_ok(1))
  show "set_ok []" by (simp add: set_ok_def)
  show "\<forall>e \<in> set (List.map_filter lenient_entry (split_on (CHR '','') raw)). source_text (fst e) \<and> well_bounded (snd e)"
    using lenient_entry_source split_on_part by (fastforce simp: List.map_filter_def dest: lenient_entry_bounded)
qed

lemma split_on_join:
  "xs \<noteq> [] \<Longrightarrow> \<forall>x \<in> set xs. sep \<notin> set x \<Longrightarrow> split_on sep (join [sep] xs) = xs"
proof (induction "[sep]" xs rule: join.induct)
  case (2 s)
  then show ?case by (simp add: split_on_no_sep)
next
  case (3 s t r)
  then show ?case using split_on_append [of sep s "join [sep] (t # r)"] by simp
qed simp

lemma remove_ws_graphic: "list_all graphic s \<Longrightarrow> remove_ws s = s"
  by (induction s) (auto simp: ws_len_graphic)

lemma show_nat_chars: "c \<in> set (show_nat n) \<Longrightarrow> graphic c \<and> c \<noteq> CHR '','' \<and> c \<noteq> CHR '':'' \<and> c \<noteq> CHR ''-''"
  using show_radix_chars [of 10 c n]
  by (auto simp: digit_value_def graphic_def Let_def split: if_splits)

lemma render_interval_chars: "c \<in> set (render_interval i) \<Longrightarrow> graphic c \<and> c \<noteq> CHR '','' \<and> c \<noteq> CHR '':''"
  by (auto simp: render_interval_def graphic_def dest: show_nat_chars split: if_splits)

lemma parse_interval_render:
  assumes "a \<le> b" "b \<le> u64_max"
  shows "parse_interval (render_interval (a, b)) = Inr (a, b)"
proof -
  have dash: "CHR ''-'' \<notin> set (show_nat n)" for n using show_nat_chars by blast
  have "parse_bound (show_nat a) = Inr a" "parse_bound (show_nat b) = Inr b"
    using assms by (simp_all add: parse_bound_def parse_u64_def from_str_radix_show)
  then show ?thesis
    using assms split_once_append [OF dash, of a "show_nat b"] dash [of a] split_once_None_iff [of "CHR ''-''" "show_nat a"]
    by (auto simp: render_interval_def parse_interval_def)
qed

lemma parse_intervals_render:
  "\<forall>(a, b) \<in> set is. a \<le> b \<and> b \<le> u64_max \<Longrightarrow> parse_intervals (map render_interval is) = Inr is"
  by (induction "is") (auto simp: parse_interval_render)

lemma coalesce_bounded: "well_bounded is \<Longrightarrow> well_bounded (coalesce is)"
proof -
  have loop: "well_bounded m \<Longrightarrow> well_bounded r \<Longrightarrow> well_bounded (coalesce_loop m r)" for m r
    by (induction m r rule: coalesce_loop.induct) (auto simp: well_bounded_def max_def)
  show "well_bounded is \<Longrightarrow> well_bounded (coalesce is)"
    unfolding coalesce_def by (rule loop) (auto simp: well_bounded_def)
qed

lemma coalesce_nonempty: "well_bounded is \<Longrightarrow> is \<noteq> [] \<Longrightarrow> coalesce is \<noteq> []"
proof
  assume "well_bounded is" "is \<noteq> []" "coalesce is = []"
  then have "members is = {}" using coalesce_correct(1) [of "is"] by simp
  with \<open>well_bounded is\<close> \<open>is \<noteq> []\<close> show False
    by (cases "is") (auto simp: well_bounded_def)
qed

text \<open>A rendered entry is read back by the strict parser.\<close>

lemma parse_entry_render:
  assumes "source_text u" "list_all graphic u" "well_bounded is" "is \<noteq> []"
  shows "parse_entry (u @ '':'' @ join '':'' (map render_interval (coalesce is))) = Inr (Some (u, coalesce is))"
proof -
  let ?is = "map render_interval (coalesce is)" and ?t = "u @ '':'' @ join '':'' (map render_interval (coalesce is))"
  have "list_all graphic ?t"
    using assms(2) by (auto simp: list_all_iff graphic_def [of "CHR '':''"] dest!: join_chars dest: render_interval_chars)
  then have "remove_ws ?t = ?t" by (rule remove_ws_graphic)
  moreover have "split_on (CHR '':'') (join '':'' ?is) = ?is"
    using coalesce_nonempty [OF assms(3,4)] by (intro split_on_join) (auto dest: render_interval_chars)
  then have "split_on (CHR '':'') ?t = u # ?is"
    using split_on_append [of "CHR '':''" u "join '':'' ?is"] assms(1) by (simp add: source_text_def)
  moreover have "parse_intervals ?is = Inr (coalesce is)"
    using coalesce_bounded [OF assms(3)] by (intro parse_intervals_render) (auto simp: well_bounded_def)
  ultimately show ?thesis
    using assms coalesce_nonempty [OF assms(3,4)] by (simp add: parse_entry_def source_text_def)
qed

lemma parse_entries_render:
  "\<forall>(u, is) \<in> set m. source_text u \<and> list_all graphic u \<and> well_bounded is \<and> is \<noteq> [] \<Longrightarrow>
     parse_entries (map (\<lambda>(u, is). u @ '':'' @ join '':'' (map render_interval (coalesce is))) m)
       = Inr (map (\<lambda>(u, is). (u, coalesce is)) m)"
  by (induction m) (auto simp: parse_entry_render [simplified])

definition graphic_sources :: "gtid_set \<Rightarrow> bool" where
  "graphic_sources m \<longleftrightarrow> list_all (\<lambda>(u, _). list_all graphic u) m"

lemma render_denoted:
  assumes "set_ok m" "graphic_sources m"
  shows "\<exists>g. gtid_parse (render_gtid_set m) = Inr g" and "denoted (render_gtid_set m) = denoted_entries m"
proof -
  let ?L = "filter (\<lambda>(_, is). is \<noteq> []) m"
    and ?t = "\<lambda>(u, is). u @ '':'' @ join '':'' (map render_interval (coalesce is))"
  have ok: "\<forall>(u, is) \<in> set ?L. source_text u \<and> list_all graphic u \<and> well_bounded is \<and> is \<noteq> []"
    using assms by (auto simp: set_ok_def graphic_sources_def list_all_iff)
  have r: "render_gtid_set m = join '','' (map ?t ?L)" by (simp add: render_gtid_set_def)
  have es: "parse_entries (split_on (CHR '','') (render_gtid_set m)) = Inr (map (\<lambda>(u, is). (u, coalesce is)) ?L)"
  proof (cases "?L = []")
    case True
    then show ?thesis by (simp add: r parse_entry_def)
  next
    case False
    have "CHR '','' \<notin> set (?t (u, is))" if "(u, is) \<in> set ?L" for u "is"
      using ok that by (auto simp: source_text_def dest!: join_chars dest: render_interval_chars)
    then have "split_on (CHR '','') (render_gtid_set m) = map ?t ?L"
      unfolding r using False by (intro split_on_join) auto
    then show ?thesis using parse_entries_render [OF ok] by simp
  qed
  then show "\<exists>g. gtid_parse (render_gtid_set m) = Inr g" by (simp add: gtid_parse_def)
  have "denoted_entries (map (\<lambda>(u, is). (u, coalesce is)) ?L) = denoted_entries ?L"
    using ok coalesce_correct(1) by (fastforce simp: denoted_entries_def)
  also have "\<dots> = denoted_entries m" by (auto simp: denoted_entries_def)
  finally show "denoted (render_gtid_set m) = denoted_entries m" by (simp add: denoted_def es)
qed

lemma merge_denotes:
  assumes "graphic_sources (parse_gtid_set_intervals raw)" "graphic_sources (parse_gtid_set_intervals gtid)"
  shows "\<exists>g. gtid_parse (merge_gtid_into_set raw gtid) = Inr g
    \<and> (\<forall>u n. gtid_contains g u n \<longleftrightarrow>
          (to_ascii_lowercase u, n) \<in> denoted_entries (parse_gtid_set_intervals raw) \<union> denoted_entries (parse_gtid_set_intervals gtid))"
proof -
  let ?a = "parse_gtid_set_intervals raw" and ?b = "parse_gtid_set_intervals gtid"
  let ?m = "fold extend_source ?b ?a"
  have b: "\<forall>e \<in> set ?b. source_text (fst e) \<and> well_bounded (snd e)"
    using parse_gtid_set_intervals_ok [of gtid] by (auto simp: set_ok_def)
  note m = fold_extend_ok [OF parse_gtid_set_intervals_ok [of raw] b]
  have wf: "bt_wf ?a" using parse_gtid_set_intervals_ok [of raw] by (simp add: set_ok_def)
  have "fst ` set ?m \<subseteq> fst ` set ?a \<union> fst ` set ?b"
  proof
    fix u assume "u \<in> fst ` set ?m"
    then have "map_of ?m u \<noteq> None" by (simp add: map_of_eq_None_iff)
    with fold_extend [OF wf, of ?b u] show "u \<in> fst ` set ?a \<union> fst ` set ?b"
      by (cases "map_of ?a u") (auto split: if_splits dest!: map_of_SomeD intro: rev_image_eqI)
  qed
  with assms have "graphic_sources ?m" by (fastforce simp: graphic_sources_def list_all_iff)
  from render_denoted [OF m(1) this] m(2) show ?thesis
    using contains_denoted by (fastforce simp: merge_gtid_into_set_def)
qed



end
