(* ===== verification/Sqlserver_Parser.thy ===== *)
theory Sqlserver_Parser
  imports Overlap_Dedup Quoted_Names "HOL-Library.List_Lexorder" "HOL-Library.Char_ord"
begin

text \<open>
  The text layer of the SQL Server connector (\<open>source/sqlserver/parser.rs\<close>): log sequence numbers
  and their hexadecimal form, the cursor that marks a position inside a change window, table
  references, and the SQL that reads a table in key order. A log sequence number is the list of its
  ten bytes; array comparison is the lexicographic order of lists.
\<close>

section \<open>Log sequence numbers\<close>

type_synonym lsn = "nat list"

definition strip_0x :: "string \<Rightarrow> string" where
  "strip_0x s = (if prefix ''0x'' s \<or> prefix ''0X'' s then drop 2 s else s)"

text \<open>\<open>str::from_utf8\<close> on two bytes: two ASCII bytes, or one two-byte character.\<close>

definition utf8_pair :: "char \<Rightarrow> char \<Rightarrow> bool" where
  "utf8_pair a b \<longleftrightarrow>
     (let m = (of_char a :: nat); n = (of_char b :: nat)
      in (m < 128 \<and> n < 128) \<or> (194 \<le> m \<and> m \<le> 223 \<and> 128 \<le> n \<and> n \<le> 191))"

fun hex_pairs :: "string \<Rightarrow> lsn result" where
  "hex_pairs (a # b # s) =
     (if \<not> utf8_pair a b then Inl (CheckpointError ''invalid sqlserver LSN encoding'')
      else case from_str_radix 16 255 [a, b] of
             None \<Rightarrow> Inl (CheckpointError ''invalid sqlserver LSN hex byte'')
           | Some v \<Rightarrow> (case hex_pairs s of Inl e \<Rightarrow> Inl e | Inr vs \<Rightarrow> Inr (v # vs)))"
| "hex_pairs _ = Inr []"

definition lsn_hex_to_bytes :: "string \<Rightarrow> lsn result" where
  "lsn_hex_to_bytes lsn_hex =
     (let v = strip_0x lsn_hex
      in if length v \<noteq> 20 then Inl (CheckpointError ''invalid sqlserver LSN length: expected 20 hex chars'')
         else hex_pairs v)"

definition lsn_hex_to_bytes_opt :: "string \<Rightarrow> lsn option" where
  "lsn_hex_to_bytes_opt lsn_hex = ok (lsn_hex_to_bytes lsn_hex)"

definition byte_hex :: "nat \<Rightarrow> string" where
  "byte_hex b = to_ascii_lowercase (pad_left 2 (show_radix 16 b))"

definition lsn_bytes_to_hex :: "lsn \<Rightarrow> string" where
  "lsn_bytes_to_hex l = ''0x'' @ concat (map byte_hex l)"

definition compare_lsn :: "lsn \<Rightarrow> lsn \<Rightarrow> ordering" where
  "compare_lsn left right = compare_of left right"

definition lsn_from_source_offset :: "string \<Rightarrow> lsn option" where
  "lsn_from_source_offset off = ok (lsn_hex_to_bytes (hd (split_on (CHR '':'') off)))"

text \<open>The arrays the code calls LSNs: ten bytes.\<close>

definition lsn_wf :: "lsn \<Rightarrow> bool" where
  "lsn_wf l \<longleftrightarrow> length l = 10 \<and> list_all (\<lambda>b. b < 256) l"

section \<open>The cursor inside a window\<close>

record cdc_cursor =
  cc_lsn_hex :: string
  cc_seqval_hex :: string
  cc_operation :: int

definition i32_min :: int where "i32_min = - (2 ^ 31)"

definition i32_max :: int where "i32_max = 2 ^ 31 - 1"

definition show_int :: "int \<Rightarrow> string" where
  "show_int i = (if i < 0 then CHR ''-'' # show_nat (nat (- i)) else show_nat (nat i))"

definition parse_i32 :: "string \<Rightarrow> int option" where
  "parse_i32 s =
     (case s of
        c # r \<Rightarrow>
          if c = CHR ''-'' then
            (if r = [] then None
             else case digits_value 10 0 r of
                    None \<Rightarrow> None
                  | Some v \<Rightarrow> if int v \<le> 2 ^ 31 then Some (- int v) else None)
          else map_option int (from_str_radix 10 (2 ^ 31 - 1) s)
      | [] \<Rightarrow> None)"

definition cursor_encode :: "cdc_cursor \<Rightarrow> string" where
  "cursor_encode c = cc_lsn_hex c @ '':'' @ cc_seqval_hex c @ '':'' @ show_int (cc_operation c)"

definition cursor_decode :: "string \<Rightarrow> cdc_cursor option" where
  "cursor_decode off =
     (case split_on (CHR '':'') off of
        lsn_hex # seqval_hex # op_text # _ \<Rightarrow>
          (case parse_i32 op_text of
             None \<Rightarrow> None
           | Some operation \<Rightarrow>
               (case (ok (lsn_hex_to_bytes lsn_hex), ok (lsn_hex_to_bytes seqval_hex)) of
                  (Some _, Some _) \<Rightarrow>
                    Some \<lparr>cc_lsn_hex = lsn_hex, cc_seqval_hex = seqval_hex, cc_operation = operation\<rparr>
                | _ \<Rightarrow> None))
      | _ \<Rightarrow> None)"

definition cursor_ordering :: "cdc_cursor \<Rightarrow> cdc_cursor \<Rightarrow> ordering" where
  "cursor_ordering left right =
     then_with
       (then_with
          (case (lsn_hex_to_bytes_opt (cc_lsn_hex left), lsn_hex_to_bytes_opt (cc_lsn_hex right)) of
             (Some a, Some b) \<Rightarrow> compare_lsn a b
           | _ \<Rightarrow> compare_of (cc_lsn_hex left) (cc_lsn_hex right))
          (compare_of (cc_seqval_hex left) (cc_seqval_hex right)))
       (compare_of (cc_operation left) (cc_operation right))"

section \<open>Table references\<close>

definition validate_capture_instance_name :: "string \<Rightarrow> unit result" where
  "validate_capture_instance_name name =
     (if name = [] then Inl (SourceError ''sqlserver capture_instance name must not be empty'')
      else if \<not> list_all (\<lambda>c. is_ascii_alphanumeric c \<or> c = CHR ''_'') name
      then Inl (SourceError ''invalid sqlserver capture_instance name'')
      else Inr ())"

definition validate_sql_identifier :: "string \<Rightarrow> unit result" where
  "validate_sql_identifier name =
     (if name = [] then Inl (ConfigError ''sqlserver identifier must not be empty'')
      else if \<not> list_all (\<lambda>c. is_ascii_alphanumeric c \<or> c = CHR ''_'') name
      then Inl (ConfigError ''sqlserver identifier contains unsupported characters'')
      else Inr ())"

definition invalid_sqlserver_name :: error where
  "invalid_sqlserver_name = ConfigError ''sqlserver snapshot table name is invalid''"

definition finalize_sqlserver_identifier_segment :: "string \<Rightarrow> bool \<Rightarrow> string result" where
  "finalize_sqlserver_identifier_segment raw quoted =
     (let segment = (if quoted then raw else trim raw)
      in if segment = [] then Inl invalid_sqlserver_name
         else if quoted then (if has_control segment then Inl invalid_sqlserver_name else Inr segment)
         else (case validate_sql_identifier segment of Inl e \<Rightarrow> Inl e | Inr _ \<Rightarrow> Inr segment))"

fun bracket_loop :: "string list \<Rightarrow> string \<Rightarrow> bool \<Rightarrow> bool \<Rightarrow> string \<Rightarrow> string list result" where
  "bracket_loop parts current in_brackets segment_quoted [] =
     (if in_brackets then Inl invalid_sqlserver_name
      else case finalize_sqlserver_identifier_segment current segment_quoted of
             Inl e \<Rightarrow> Inl e
           | Inr segment \<Rightarrow> Inr (parts @ [segment]))"
| "bracket_loop parts current in_brackets segment_quoted (c # cs) =
     (if in_brackets then
        (if c = CHR '']'' then
           (case cs of
              [] \<Rightarrow> bracket_loop parts current False segment_quoted cs
            | d # ds \<Rightarrow>
                if d = CHR '']'' then bracket_loop parts (current @ '']'') True segment_quoted ds
                else bracket_loop parts current False segment_quoted cs)
         else bracket_loop parts (current @ [c]) True segment_quoted cs)
      else if c = CHR ''['' then
        (if \<not> blank current then Inl invalid_sqlserver_name
         else bracket_loop parts [] True True cs)
      else if c = CHR ''.'' then
        (case finalize_sqlserver_identifier_segment current segment_quoted of
           Inl e \<Rightarrow> Inl e
         | Inr segment \<Rightarrow> bracket_loop (parts @ [segment]) [] False False cs)
      else bracket_loop parts (current @ [c]) False segment_quoted cs)"

definition parse_sqlserver_identifier_path :: "string \<Rightarrow> string list result" where
  "parse_sqlserver_identifier_path input = bracket_loop [] [] False False input"

definition parse_schema_table :: "string \<Rightarrow> (string \<times> string) result" where
  "parse_schema_table name =
     (let trimmed = trim name
      in if trimmed = [] then Inl (ConfigError ''sqlserver snapshot table name must not be empty'')
         else case parse_sqlserver_identifier_path trimmed of
                Inl e \<Rightarrow> Inl e
              | Inr [table] \<Rightarrow> Inr (''dbo'', table)
              | Inr [schema, table] \<Rightarrow> Inr (schema, table)
              | Inr _ \<Rightarrow> Inl invalid_sqlserver_name)"

definition quoted_identifier :: "string \<Rightarrow> string" where
  "quoted_identifier identifier =
     ''['' @ concat (map (\<lambda>c. if c = CHR '']'' then '']]'' else [c]) identifier) @ '']''"

definition qualified_sqlserver_name :: "string \<Rightarrow> string \<Rightarrow> string" where
  "qualified_sqlserver_name schema table = quoted_identifier schema @ ''.'' @ quoted_identifier table"

section \<open>Reading a table in key order\<close>

definition build_prefixed_column_projection :: "string list \<Rightarrow> string \<Rightarrow> string" where
  "build_prefixed_column_projection columns alias =
     join '', '' (map (\<lambda>c. alias @ ''.'' @ quoted_identifier c) columns)"

definition seek_equality :: "nat \<Rightarrow> string \<Rightarrow> string" where
  "seek_equality prev previous_column = ''t.'' @ quoted_identifier previous_column @ '' = @P'' @ show_nat (prev + 1)"

definition seek_predicate :: "string list \<Rightarrow> nat \<Rightarrow> string \<Rightarrow> string" where
  "seek_predicate keys index column =
     (let prefix = map (\<lambda>(prev, c). seek_equality prev c) (take index (enumerate 0 keys));
          current = ''t.'' @ quoted_identifier column @ '' > @P'' @ show_nat (index + 1)
      in if prefix = [] then ''('' @ current @ '')''
         else ''('' @ join '' AND '' prefix @ '' AND '' @ current @ '')'')"

definition build_seek_where_clause :: "string list \<Rightarrow> string" where
  "build_seek_where_clause keys =
     ''WHERE '' @ join '' OR '' (map (\<lambda>(index, column). seek_predicate keys index column) (enumerate 0 keys))"

definition fetch_where_clause :: "string list \<Rightarrow> bool \<Rightarrow> string option \<Rightarrow> string" where
  "fetch_where_clause keys include_seek condition =
     (case (include_seek, condition) of
        (True, Some c) \<Rightarrow> build_seek_where_clause keys @ '' AND ('' @ c @ '')''
      | (True, None) \<Rightarrow> build_seek_where_clause keys
      | (False, Some c) \<Rightarrow> ''WHERE ('' @ c @ '')''
      | (False, None) \<Rightarrow> [])"

definition build_snapshot_fetch_sql ::
    "string \<Rightarrow> string list \<Rightarrow> string list \<Rightarrow> nat \<Rightarrow> bool \<Rightarrow> string option \<Rightarrow> string" where
  "build_snapshot_fetch_sql table_ref keys columns limit_param_index include_seek condition =
     ''SELECT TOP (@P'' @ show_nat limit_param_index @ '') (SELECT '' @ build_prefixed_column_projection keys ''t''
     @ '' FOR JSON PATH, WITHOUT_ARRAY_WRAPPER) AS cursor_json, (SELECT '' @ build_prefixed_column_projection columns ''t''
     @ '' FOR JSON PATH, WITHOUT_ARRAY_WRAPPER) AS row_json FROM '' @ table_ref @ '' AS t ''
     @ fetch_where_clause keys include_seek condition @ '' ORDER BY '' @ join '', '' (map quoted_identifier keys)"

section \<open>Polling a change table\<close>

definition build_cdc_select_columns :: "string list \<Rightarrow> string" where
  "build_cdc_select_columns columns =
     join '', '' (map (\<lambda>c. ''c.'' @ quoted_identifier c @ '' AS '' @ quoted_identifier c) columns)"

text \<open>A binary(10) constant in the generated SQL; the quotes around the text are byte 39.\<close>

definition binary10 :: "string \<Rightarrow> string" where
  "binary10 hex = ''CONVERT(binary(10), '' @ [CHR 39] @ hex @ [CHR 39] @ '', 1)''"

definition cursor_clause :: "cdc_cursor option \<Rightarrow> string" where
  "cursor_clause cur =
     (case cur of
        None \<Rightarrow> []
      | Some c \<Rightarrow>
          '' WHERE c.__$start_lsn > '' @ binary10 (cc_lsn_hex c)
          @ '' OR (c.__$start_lsn = '' @ binary10 (cc_lsn_hex c)
          @ '' AND c.__$seqval > '' @ binary10 (cc_seqval_hex c)
          @ '') OR (c.__$start_lsn = '' @ binary10 (cc_lsn_hex c)
          @ '' AND c.__$seqval = '' @ binary10 (cc_seqval_hex c)
          @ '' AND c.__$operation > '' @ show_int (cc_operation c) @ '')'')"

definition build_cdc_poll_sql ::
    "string \<Rightarrow> string list \<Rightarrow> nat \<Rightarrow> string \<Rightarrow> string \<Rightarrow> cdc_cursor option \<Rightarrow> string" where
  "build_cdc_poll_sql capture_instance columns max_events_per_poll start_lsn_hex end_lsn_hex cur =
     ''SELECT TOP ('' @ show_nat max_events_per_poll
     @ '') sys.fn_varbintohexstr(c.__$start_lsn) AS start_lsn_hex, sys.fn_varbintohexstr(c.__$seqval) AS seqval_hex, ''
     @ ''c.__$operation AS operation, DATEDIFF_BIG(MILLISECOND, '' @ [CHR 39] @ ''1970-01-01T00:00:00'' @ [CHR 39]
     @ '', COALESCE(sys.fn_cdc_map_lsn_to_time(c.__$start_lsn), SYSUTCDATETIME())) AS ts_ms, (SELECT ''
     @ build_cdc_select_columns columns
     @ '' FOR JSON PATH, WITHOUT_ARRAY_WRAPPER) AS row_json FROM cdc.fn_cdc_get_all_changes_'' @ capture_instance
     @ ''('' @ binary10 start_lsn_hex @ '', '' @ binary10 end_lsn_hex @ '', '' @ [CHR 39] @ ''all update old'' @ [CHR 39]
     @ '') AS c'' @ cursor_clause cur @ '' ORDER BY c.__$start_lsn, c.__$seqval, c.__$operation''"

definition is_sqlserver_cdc_window_error :: "string \<Rightarrow> bool" where
  "is_sqlserver_cdc_window_error message =
     (let lower = to_ascii_lowercase message
      in contains_str lower ''fn_cdc_get_all_changes_''
         \<and> (contains_str lower ''insufficient number of arguments'' \<or> contains_str lower ''expects parameter''))"

section \<open>Overlap events\<close>

definition sqlserver_event_pk_fingerprint :: "(json \<Rightarrow> string) \<Rightarrow> event \<Rightarrow> string option" where
  "sqlserver_event_pk_fingerprint render e =
     (case ev_primary_key e of
        None \<Rightarrow> None
      | Some pk \<Rightarrow>
          if pk = [] then None
          else (case (case ev_after e of Some v \<Rightarrow> Some v | None \<Rightarrow> ev_before e) of
                  None \<Rightarrow> None
                | Some v \<Rightarrow>
                    (case as_object v of
                       None \<Rightarrow> None
                     | Some row \<Rightarrow> map_option (\<lambda>r. ev_table e @ r) (fingerprint_columns render row pk))))"

definition dedup_overlap_events_by_pk :: "(json \<Rightarrow> string) \<Rightarrow> event list \<Rightarrow> event list \<times> nat" where
  "dedup_overlap_events_by_pk render events = overlap_loop (sqlserver_event_pk_fingerprint render) [] Map.empty 0 events"

section \<open>Hexadecimal round trips\<close>

definition hexd :: "nat \<Rightarrow> char" where
  "hexd d = ascii_lower (digit_char d)"

lemma hexd_code: "d < 16 \<Longrightarrow> (of_char (hexd d) :: nat) = (if d < 10 then 48 + d else 87 + d)"
  by (auto simp: hexd_def digit_char_def ascii_lower_def)

lemma hexd_facts:
  assumes "d < 16"
  shows "digit_value (hexd d) = Some d" "(of_char (hexd d) :: nat) < 128"
  using assms by (auto simp: digit_value_def Let_def hexd_code)

lemma hexd_less_iff: "d < 16 \<Longrightarrow> e < 16 \<Longrightarrow> hexd d < hexd e \<longleftrightarrow> d < e"
  by (simp add: less_char_def hexd_code)

lemma hexd_eq_iff: "d < 16 \<Longrightarrow> e < 16 \<Longrightarrow> hexd d = hexd e \<longleftrightarrow> d = e"
  by (metis hexd_facts(1) option.inject)

lemma byte_hex_digits:
  assumes "b < 256"
  shows "byte_hex b = [hexd (b div 16), hexd (b mod 16)]"
proof (cases "b < 16")
  case True
  have "hexd 0 = CHR ''0''" "ascii_lower (CHR ''0'') = CHR ''0''" by code_simp+
  with True show ?thesis
    by (simp add: byte_hex_def show_radix.simps [of 16 b] pad_left_def to_ascii_lowercase_def hexd_def)
next
  case False
  have "b div 16 < 16" using assms by simp
  with False show ?thesis
    by (simp add: byte_hex_def show_radix.simps [of 16 b] show_radix.simps [of 16 "b div 16"] pad_left_def
        to_ascii_lowercase_def hexd_def)
qed

lemma byte_hex_read:
  assumes "b < 256"
  shows "from_str_radix 16 255 (byte_hex b) = Some b"
proof (rule from_str_radix_digits)
  have "b div 16 < 16" "b mod 16 < 16" using assms by auto
  then show "digits_value 16 0 (byte_hex b) = Some b"
    using assms by (simp add: byte_hex_digits hexd_facts)
  show "byte_hex b \<noteq> []" "b \<le> 255" using assms by (simp_all add: byte_hex_digits)
qed

lemma hex_pairs_bytes: "list_all (\<lambda>b. b < 256) l \<Longrightarrow> hex_pairs (concat (map byte_hex l)) = Inr l"
proof (induction l)
  case (Cons b l)
  then have b: "b < 256" "b div 16 < 16" "b mod 16 < 16" by auto
  have "from_str_radix 16 255 [hexd (b div 16), hexd (b mod 16)] = Some b"
    using byte_hex_read [OF b(1)] by (simp add: byte_hex_digits b)
  with Cons b show ?case
    by (simp add: byte_hex_digits utf8_pair_def hexd_facts Let_def)
qed simp

lemma concat_byte_hex_length: "list_all (\<lambda>b. b < 256) l \<Longrightarrow> length (concat (map byte_hex l)) = 2 * length l"
  by (induction l) (auto simp: byte_hex_digits)

lemma lsn_text_read: "lsn_wf l \<Longrightarrow> lsn_hex_to_bytes (lsn_bytes_to_hex l) = Inr l"
  by (simp add: lsn_hex_to_bytes_def lsn_bytes_to_hex_def strip_0x_def lsn_wf_def concat_byte_hex_length
      hex_pairs_bytes Let_def)

lemma hex_pairs_result: "hex_pairs s = Inr l \<Longrightarrow> list_all (\<lambda>b. b < 256) l \<and> length l = length s div 2"
proof (induction s arbitrary: l rule: hex_pairs.induct)
  case (1 a b s)
  from 1(2) obtain v vs where v: "from_str_radix 16 255 [a, b] = Some v" "hex_pairs s = Inr vs" "l = v # vs" "utf8_pair a b"
    by (auto split: if_splits option.splits sum.splits)
  have "v \<le> 255" using v(1) by (auto simp: from_str_radix_def Let_def split: if_splits option.splits)
  with 1(1) [OF _ v(1), of vs] v show ?case by simp
qed auto

lemma lsn_text_wf: "lsn_hex_to_bytes s = Inr l \<Longrightarrow> lsn_wf l"
  by (auto simp: lsn_hex_to_bytes_def lsn_wf_def Let_def dest: hex_pairs_result split: if_splits)

text \<open>
  The text of an LSN reads back as its ten bytes, whatever reads as an LSN is ten bytes, and the
  text the connector writes compares exactly as the bytes do. The window buffer is sorted by this
  text, and the position inside a window is compared on it.
\<close>

lemma two_digits_less:
  fixes h l h' l' :: nat
  assumes "l < 16" "l' < 16"
  shows "16 * h + l < 16 * h' + l' \<longleftrightarrow> h < h' \<or> (h = h' \<and> l < l')"
  using assms by (cases h h' rule: linorder_cases) auto

lemma hex_text_less_iff:
  "list_all (\<lambda>b. b < 256) a \<Longrightarrow> list_all (\<lambda>b. b < 256) b \<Longrightarrow> length a = length b \<Longrightarrow>
    concat (map byte_hex a) < concat (map byte_hex b) \<longleftrightarrow> a < b"
proof (induction a arbitrary: b)
  case (Cons x a)
  then obtain y c where b: "b = y # c" by (cases b) auto
  with Cons.prems have bounds: "x < 256" "y < 256" "x div 16 < 16" "x mod 16 < 16" "y div 16 < 16" "y mod 16 < 16"
    by auto
  have eq: "x = y \<longleftrightarrow> x div 16 = y div 16 \<and> x mod 16 = y mod 16"
    by (metis div_mult_mod_eq)
  have lt: "x < y \<longleftrightarrow> x div 16 < y div 16 \<or> (x div 16 = y div 16 \<and> x mod 16 < y mod 16)"
    using two_digits_less [of "x mod 16" "y mod 16" "x div 16" "y div 16"] by simp
  show ?case
    using Cons.IH [of c] Cons.prems b bounds
    by (auto simp: byte_hex_digits hexd_less_iff hexd_eq_iff eq lt)
qed simp

text \<open>
  Comparing the rendered texts of two log sequence numbers is comparing the numbers: a window buffer
  sorted by the offset text is in commit order.
\<close>

theorem lsn_text_order:
  assumes "lsn_wf a" "lsn_wf b"
  shows "lsn_bytes_to_hex a < lsn_bytes_to_hex b \<longleftrightarrow> compare_lsn a b = Less"
  using assms hex_text_less_iff [of a b]
  by (simp add: lsn_bytes_to_hex_def compare_lsn_def compare_of_def lsn_wf_def)

theorem lsn_text_order_witness:
  "lsn_bytes_to_hex (replicate 9 0 @ [9]) < lsn_bytes_to_hex (replicate 8 0 @ [1, 0])"
  using lsn_text_order [of "replicate 9 0 @ [9]" "replicate 8 0 @ [1, 0]"]
  by (simp add: lsn_wf_def compare_lsn_def compare_of_def numeral_eq_Suc)

section \<open>The cursor round trip\<close>

lemma parse_i32_show:
  assumes "i32_min \<le> i" "i \<le> i32_max"
  shows "parse_i32 (show_int i) = Some i"
proof (cases "i < 0")
  case True
  then have "digits_value 10 0 (show_nat (nat (- i))) = Some (nat (- i))" by (simp add: digits_value_show)
  with True assms show ?thesis by (simp add: parse_i32_def show_int_def i32_min_def)
next
  case False
  have "CHR ''-'' \<notin> set (show_nat (nat i))"
    using show_radix_chars [of 10 "CHR ''-''" "nat i"] by (auto simp: digit_value_def Let_def)
  then obtain c r where s: "show_nat (nat i) = c # r" "c \<noteq> CHR ''-''"
    by (cases "show_nat (nat i)") auto
  have "from_str_radix 10 (2 ^ 31 - 1) (show_nat (nat i)) = Some (nat i)"
    using False assms by (intro from_str_radix_show) (auto simp: i32_max_def)
  with s False show ?thesis by (simp add: parse_i32_def show_int_def)
qed

lemma parse_i32_range: "parse_i32 s = Some i \<Longrightarrow> i32_min \<le> i \<and> i \<le> i32_max"
  by (auto simp: parse_i32_def i32_min_def i32_max_def from_str_radix_def Let_def
      split: list.splits if_splits option.splits)

lemma hex_pairs_no_colon: "hex_pairs s = Inr l \<Longrightarrow> even (length s) \<Longrightarrow> CHR '':'' \<notin> set s"
proof (induction s arbitrary: l rule: hex_pairs.induct)
  case (1 a b s)
  then obtain v vs where v: "from_str_radix 16 255 [a, b] = Some v" "hex_pairs s = Inr vs" "utf8_pair a b"
    by (auto split: if_splits option.splits sum.splits)
  have "a \<noteq> CHR '':''" "b \<noteq> CHR '':''"
    using v(1) by (auto simp: from_str_radix_def digit_value_def Let_def split: if_splits option.splits)
  with 1 v show ?case by auto
qed auto

lemma lsn_text_no_colon:
  assumes "lsn_hex_to_bytes s = Inr l"
  shows "CHR '':'' \<notin> set s"
proof -
  have "hex_pairs (strip_0x s) = Inr l" "length (strip_0x s) = 20"
    using assms by (auto simp: lsn_hex_to_bytes_def Let_def split: if_splits)
  then have "CHR '':'' \<notin> set (strip_0x s)" by (simp add: hex_pairs_no_colon)
  then show ?thesis by (auto simp: strip_0x_def prefix_def split: if_splits)
qed

text \<open>
  A position inside a change window survives its textual form exactly when both LSNs can be read
  and the operation code is an \<open>i32\<close>, which is what a row of a change table has.
\<close>

theorem cursor_round_trip:
  "cursor_decode (cursor_encode c) = Some c \<longleftrightarrow>
     (\<exists>l s. lsn_hex_to_bytes (cc_lsn_hex c) = Inr l \<and> lsn_hex_to_bytes (cc_seqval_hex c) = Inr s)
     \<and> i32_min \<le> cc_operation c \<and> cc_operation c \<le> i32_max"
proof
  assume "cursor_decode (cursor_encode c) = Some c"
  then show "(\<exists>l s. lsn_hex_to_bytes (cc_lsn_hex c) = Inr l \<and> lsn_hex_to_bytes (cc_seqval_hex c) = Inr s)
     \<and> i32_min \<le> cc_operation c \<and> cc_operation c \<le> i32_max"
    by (auto simp: cursor_decode_def ok_eq_Some dest: parse_i32_range split: list.splits option.splits)
next
  assume *: "(\<exists>l s. lsn_hex_to_bytes (cc_lsn_hex c) = Inr l \<and> lsn_hex_to_bytes (cc_seqval_hex c) = Inr s)
     \<and> i32_min \<le> cc_operation c \<and> cc_operation c \<le> i32_max"
  then obtain l s where ls: "lsn_hex_to_bytes (cc_lsn_hex c) = Inr l" "lsn_hex_to_bytes (cc_seqval_hex c) = Inr s"
    by blast
  have "split_on (CHR '':'') (cursor_encode c)
      = cc_lsn_hex c # cc_seqval_hex c # split_on (CHR '':'') (show_int (cc_operation c))"
    using split_on_append [OF lsn_text_no_colon [OF ls(1)]] split_on_append [OF lsn_text_no_colon [OF ls(2)]]
    by (simp add: cursor_encode_def)
  moreover have "CHR '':'' \<notin> set (show_int (cc_operation c))"
    using show_radix_chars [of 10 "CHR '':''"] by (auto simp: show_int_def digit_value_def Let_def)
  ultimately have "split_on (CHR '':'') (cursor_encode c) = [cc_lsn_hex c, cc_seqval_hex c, show_int (cc_operation c)]"
    by (simp add: split_on_no_sep)
  then show "cursor_decode (cursor_encode c) = Some c"
    using * ls by (simp add: cursor_decode_def parse_i32_show)
qed

section \<open>Quoted names are read back\<close>

interpretation sqlserver_names: quoted_names "CHR ''[''" "CHR '']''" finalize_sqlserver_identifier_segment bracket_loop
  by unfold_locales
    (auto simp: graphic_def finalize_sqlserver_identifier_segment_def split: list.split)

lemma qualified_sqlserver_name_quoted:
  "qualified_sqlserver_name schema table
     = quote_with (CHR ''['') (CHR '']'') schema @ ''.'' @ quote_with (CHR ''['') (CHR '']'') table"
  by (simp add: qualified_sqlserver_name_def quoted_identifier_def quote_with_def)

text \<open>
  A name the connector quotes into SQL is read back as itself, whatever dots, blanks and brackets
  it contains.
\<close>

theorem sqlserver_name_round_trip:
  assumes "schema \<noteq> []" "table \<noteq> []" "\<not> has_control schema" "\<not> has_control table"
  shows "parse_schema_table (qualified_sqlserver_name schema table) = Inr (schema, table)"
  using sqlserver_names.quoted_pair [OF assms] sqlserver_names.trim_pair [of schema table]
  by (simp add: parse_schema_table_def parse_sqlserver_identifier_path_def qualified_sqlserver_name_quoted quote_with_def)

theorem sqlserver_name_round_trip_witness:
  "parse_schema_table (qualified_sqlserver_name ''my.schema'' ''a]b c'') = Inr (''my.schema'', ''a]b c'')"
  by (rule sqlserver_name_round_trip) (simp_all add: Let_def)

section \<open>What the seek predicate selects\<close>

text \<open>
  The shape of a WHERE condition, its text, and its truth for a row. The comparisons take the row's
  key columns and the bound parameters; the operator's filter is opaque. In SQL, AND binds tighter
  than OR: the text of a conjunction with a bare disjunction in it is read as another tree, so a
  tree that says what its text means satisfies \<open>respects_precedence\<close>.
\<close>

datatype sql_where =
    KeyIs string nat
  | KeyAfter string nat
  | Filter string
  | Paren sql_where
  | Conj "sql_where list"
  | Disj "sql_where list"

fun sql_text :: "sql_where \<Rightarrow> string" where
  "sql_text (KeyIs c n) = ''t.'' @ quoted_identifier c @ '' = @P'' @ show_nat n"
| "sql_text (KeyAfter c n) = ''t.'' @ quoted_identifier c @ '' > @P'' @ show_nat n"
| "sql_text (Filter f) = f"
| "sql_text (Paren t) = ''('' @ sql_text t @ '')''"
| "sql_text (Conj ts) = join '' AND '' (map sql_text ts)"
| "sql_text (Disj ts) = join '' OR '' (map sql_text ts)"

fun sql_holds :: "(string \<Rightarrow> 'v :: linorder) \<Rightarrow> (nat \<Rightarrow> 'v) \<Rightarrow> (string \<Rightarrow> bool) \<Rightarrow> sql_where \<Rightarrow> bool" where
  "sql_holds row params sat (KeyIs c n) \<longleftrightarrow> row c = params n"
| "sql_holds row params sat (KeyAfter c n) \<longleftrightarrow> params n < row c"
| "sql_holds row params sat (Filter f) \<longleftrightarrow> sat f"
| "sql_holds row params sat (Paren t) \<longleftrightarrow> sql_holds row params sat t"
| "sql_holds row params sat (Conj ts) \<longleftrightarrow> (\<forall>t \<in> set ts. sql_holds row params sat t)"
| "sql_holds row params sat (Disj ts) \<longleftrightarrow> (\<exists>t \<in> set ts. sql_holds row params sat t)"

fun is_disj :: "sql_where \<Rightarrow> bool" where
  "is_disj (Disj _) = True"
| "is_disj _ = False"

fun respects_precedence :: "sql_where \<Rightarrow> bool" where
  "respects_precedence (Paren t) = respects_precedence t"
| "respects_precedence (Conj ts) = list_all (\<lambda>t. \<not> is_disj t \<and> respects_precedence t) ts"
| "respects_precedence (Disj ts) = list_all respects_precedence ts"
| "respects_precedence _ = True"

definition seek_disjunct :: "string list \<Rightarrow> nat \<Rightarrow> sql_where" where
  "seek_disjunct keys i = Paren (Conj (map (\<lambda>j. KeyIs (keys ! j) (j + 1)) [0..<i] @ [KeyAfter (keys ! i) (i + 1)]))"

definition seek_disjuncts :: "string list \<Rightarrow> sql_where list" where
  "seek_disjuncts keys = map (seek_disjunct keys) [0..<length keys]"

definition filtered_seek :: "string list \<Rightarrow> string \<Rightarrow> sql_where" where
  "filtered_seek keys c =
     Disj (butlast (seek_disjuncts keys) @ [Conj [last (seek_disjuncts keys), Paren (Filter c)]])"

lemma join_snoc: "xs \<noteq> [] \<Longrightarrow> join sep (xs @ [x]) = join sep xs @ sep @ x"
  by (induction sep xs rule: join.induct) auto

lemma map_take_enumerate:
  "i \<le> length xs \<Longrightarrow> map (\<lambda>(j, x). f j x) (take i (enumerate 0 xs)) = map (\<lambda>j. f j (xs ! j)) [0..<i]"
  by (rule nth_equalityI) (auto simp: nth_enumerate_eq)

lemma map_enumerate: "map (\<lambda>(j, x). f j x) (enumerate 0 xs) = map (\<lambda>j. f j (xs ! j)) [0..<length xs]"
  using map_take_enumerate [of "length xs" xs f] by simp

lemma seek_predicate_text:
  assumes "i < length keys"
  shows "seek_predicate keys i (keys ! i) = sql_text (seek_disjunct keys i)"
  using assms
  by (cases "i = 0")
    (simp_all add: seek_predicate_def seek_disjunct_def map_take_enumerate seek_equality_def join_snoc comp_def)

lemma seek_clause_text: "build_seek_where_clause keys = ''WHERE '' @ sql_text (Disj (seek_disjuncts keys))"
  by (auto simp: build_seek_where_clause_def map_enumerate seek_disjuncts_def seek_predicate_text comp_def
      intro!: arg_cong [of _ _ "join '' OR ''"])

lemma join_extend_last:
  assumes "xs \<noteq> []"
  shows "join sep xs @ y = join sep (butlast xs @ [last xs @ y])"
  using assms by (cases "butlast xs = []"; cases xs rule: rev_cases) (simp_all add: join_snoc)

lemma filtered_seek_text:
  assumes "keys \<noteq> []"
  shows "fetch_where_clause keys True (Some c) = ''WHERE '' @ sql_text (filtered_seek keys c)"
proof -
  let ?ds = "map sql_text (seek_disjuncts keys)"
  have ne: "seek_disjuncts keys \<noteq> []" using assms by (simp add: seek_disjuncts_def)
  have "join '' OR '' ?ds @ '' AND ('' @ c @ '')'' = join '' OR '' (butlast ?ds @ [last ?ds @ '' AND ('' @ c @ '')''])"
    using ne by (intro join_extend_last) simp
  then show ?thesis
    using ne by (simp add: fetch_where_clause_def seek_clause_text filtered_seek_def map_butlast last_map)
qed

lemma lex_less_iff:
  fixes xs ys :: "'v :: linorder list"
  shows "length xs = length ys \<Longrightarrow>
    xs < ys \<longleftrightarrow> (\<exists>i < length xs. (\<forall>j < i. ys ! j = xs ! j) \<and> xs ! i < ys ! i)"
proof (induction xs arbitrary: ys)
  case (Cons x xs)
  then obtain y zs where ys: "ys = y # zs" "length xs = length zs" by (cases ys) auto
  show ?case
    using Cons.IH [OF ys(2)] ys(1)
    by (auto simp: Ex_less_Suc2 All_less_Suc2)
qed simp

lemma seek_disjunct_holds:
  "i < length keys \<Longrightarrow> sql_holds row params sat (seek_disjunct keys i) \<longleftrightarrow>
     (\<forall>j < i. row (keys ! j) = params (j + 1)) \<and> params (i + 1) < row (keys ! i)"
  by (auto simp: seek_disjunct_def)

lemma seek_prefix_holds:
  assumes "m \<le> length keys"
  shows "(\<exists>t \<in> set (take m (seek_disjuncts keys)). sql_holds row params sat t)
    \<longleftrightarrow> map params [1..<m + 1] < map row (take m keys)"
proof -
  have "(\<exists>t \<in> set (take m (seek_disjuncts keys)). sql_holds row params sat t)
      \<longleftrightarrow> (\<exists>i < m. sql_holds row params sat (seek_disjunct keys i))"
    using assms by (auto simp: seek_disjuncts_def take_map)
  also have "\<dots> \<longleftrightarrow> map params [1..<m + 1] < map row (take m keys)"
    using assms by (subst lex_less_iff) (auto simp: seek_disjunct_holds simp del: upt_Suc)
  finally show ?thesis .
qed

text \<open>
  C22. Without a filter the seek predicate is the strict key order: it holds for a row exactly when the
  row's key tuple is lexicographically after the bound cursor, so paging by it neither repeats nor
  skips a row.
\<close>

theorem seek_is_key_order:
  "build_seek_where_clause keys = ''WHERE '' @ sql_text (Disj (seek_disjuncts keys))
   \<and> respects_precedence (Disj (seek_disjuncts keys))
   \<and> (sql_holds row params sat (Disj (seek_disjuncts keys))
        \<longleftrightarrow> map params [1..<length keys + 1] < map row keys)"
  using seek_prefix_holds [of "length keys" keys row params sat]
  by (auto simp: seek_clause_text seek_disjuncts_def seek_disjunct_def list_all_iff simp del: upt_Suc)

text \<open>
  C33. With a filter it is not: the generated text conjoins the operator's condition with the last
  disjunct only. On a composite key a row whose leading key columns are already past the cursor is
  selected whether or not it satisfies the condition; only for a single-column key does the
  condition restrict every row.
\<close>

theorem filter_guards_last_key_only:
  assumes "keys \<noteq> []"
  shows "fetch_where_clause keys True (Some c) = ''WHERE '' @ sql_text (filtered_seek keys c)
    \<and> respects_precedence (filtered_seek keys c)
    \<and> (sql_holds row params sat (filtered_seek keys c) \<longleftrightarrow>
        map params [1..<length keys] < map row (butlast keys)
        \<or> (map row (butlast keys) = map params [1..<length keys]
            \<and> params (length keys) < row (last keys) \<and> sat c))"
proof -
  let ?n = "length keys - 1"
  have n: "length keys = Suc ?n" using assms by simp
  have last: "last (seek_disjuncts keys) = seek_disjunct keys ?n"
    using assms by (simp add: seek_disjuncts_def last_map)
  have but: "butlast (seek_disjuncts keys) = take ?n (seek_disjuncts keys)"
    by (simp add: butlast_conv_take seek_disjuncts_def)
  have prec: "respects_precedence (filtered_seek keys c)"
  proof -
    have "respects_precedence (seek_disjunct keys i)" "\<not> is_disj (seek_disjunct keys i)" for i
      by (simp_all add: seek_disjunct_def list_all_iff)
    moreover from this have "respects_precedence t" if "t \<in> set (seek_disjuncts keys)" for t
      using that by (auto simp: seek_disjuncts_def)
    ultimately show ?thesis by (auto simp: filtered_seek_def last list_all_iff dest: in_set_butlastD)
  qed
  have "(\<forall>j < ?n. row (keys ! j) = params (j + 1)) \<longleftrightarrow> map row (butlast keys) = map params [1..<length keys]"
    by (auto simp: list_eq_iff_nth_eq nth_butlast)
  then have "sql_holds row params sat (seek_disjunct keys ?n) \<longleftrightarrow>
      map row (butlast keys) = map params [1..<length keys] \<and> params (length keys) < row (last keys)"
    using assms by (simp add: seek_disjunct_holds last_conv_nth)
  moreover have "(\<exists>t \<in> set (take ?n (seek_disjuncts keys)). sql_holds row params sat t) \<longleftrightarrow>
      map params [1..<length keys] < map row (butlast keys)"
    using seek_prefix_holds [of ?n keys row params sat] assms by (simp add: butlast_conv_take del: upt_Suc)
  ultimately show ?thesis
    using filtered_seek_text [OF assms, of c] prec by (auto simp: filtered_seek_def last but)
qed

theorem filter_guards_last_key_only_witness:
  "sql_holds (\<lambda>c. if c = ''tenant'' then (2 :: nat) else 0) (\<lambda>_. 1) (\<lambda>_. False) (filtered_seek [''tenant'', ''id''] ''active = 1'')"
  using filter_guards_last_key_only [of "[''tenant'', ''id'']" "''active = 1''"
      "\<lambda>c. if c = ''tenant'' then (2 :: nat) else 0" "\<lambda>_. 1" "\<lambda>_. False"]
  by simp

section \<open>Collapsing the overlap\<close>

text \<open>
  The overlap between a snapshot and its stream is collapsed to one event for each key: the key's
  last event, in the slot of its first. Events without a key stay, and the number of events dropped
  is reported exactly.
\<close>

theorem dedup_is_last_writer_wins:
  assumes "length events \<le> u64_max"
  shows "dedup_overlap_events_by_pk render events =
    (let fp = sqlserver_event_pk_fingerprint render
     in (map (latest fp events) (firsts fp {} events), length events - length (firsts fp {} events)))"
  using overlap_loop_spec [of _ "[]" Map.empty "[]" 0 events] assms
  by (simp add: dedup_overlap_events_by_pk_def indexed_Nil Let_def)

theorem dedup_is_last_writer_wins_witness:
  "snd (dedup_overlap_events_by_pk (\<lambda>_. []) [example_toast_update, default_event, example_toast_update]) = 1"
  using dedup_is_last_writer_wins [of "[example_toast_update, default_event, example_toast_update]" "\<lambda>_. []"]
  by (simp add: u64_max_def sqlserver_event_pk_fingerprint_def example_toast_update_def default_event_def obj_get_def Let_def)

text \<open>
  The key carries the table name but not the schema: an event of a table in one schema is dropped
  for an event of the table of the same name in another.
\<close>

theorem dedup_merges_schemas:
  assumes "sqlserver_event_pk_fingerprint render e = Some k"
  shows "dedup_overlap_events_by_pk render [e, e\<lparr>ev_schema := s\<rparr>] = ([e\<lparr>ev_schema := s\<rparr>], 1)"
proof -
  have proj: "ev_primary_key (e\<lparr>ev_schema := s\<rparr>) = ev_primary_key e" "ev_after (e\<lparr>ev_schema := s\<rparr>) = ev_after e"
    "ev_before (e\<lparr>ev_schema := s\<rparr>) = ev_before e" "ev_table (e\<lparr>ev_schema := s\<rparr>) = ev_table e"
    by simp_all
  have "sqlserver_event_pk_fingerprint render (e\<lparr>ev_schema := s\<rparr>) = Some k"
    using assms unfolding sqlserver_event_pk_fingerprint_def proj .
  with assms show ?thesis by (simp add: dedup_overlap_events_by_pk_def sat_add64_def u64_max_def)
qed

theorem dedup_merges_schemas_witness:
  "dedup_overlap_events_by_pk (\<lambda>_. ''1'') [example_toast_update, example_toast_update\<lparr>ev_schema := Some ''other''\<rparr>]
   = ([example_toast_update\<lparr>ev_schema := Some ''other''\<rparr>], 1)"
  by (rule dedup_merges_schemas)
    (simp add: sqlserver_event_pk_fingerprint_def example_toast_update_def default_event_def obj_get_def)

end
