(* ===== verification/Snapshot_Backends.thy ===== *)
theory Snapshot_Backends
  imports Snapshot_Runs Stream_Offset Mysql_Parser Sqlserver_Parser
begin

text \<open>
  The three backends of the incremental snapshot, as far as they decide what a chunk read may have
  missed: the PostgreSQL watermark with its visibility fence
  (\<open>source/postgres/incremental_snapshot.rs\<close>), the binlog coordinate with its executed GTID set
  (\<open>source/mysql/incremental_snapshot.rs\<close>) and the CDC log sequence number
  (\<open>source/sqlserver/incremental_snapshot.rs\<close>). A backend is the driver's environment with the
  position operations replaced by these; its queries stay parameters.
\<close>

section \<open>PostgreSQL\<close>

record pg_fence =
  pf_xmax :: nat
  pf_xip :: "nat set"
  pf_present :: bool

definition default_fence :: pg_fence where
  "default_fence = \<lparr>pf_xmax = 0, pf_xip = {}, pf_present = False\<rparr>"

definition reduce_xid :: "string \<Rightarrow> nat result" where
  "reduce_xid v =
     (case parse_u64 (trim v) of
        None \<Rightarrow> Inl (SourceError ''could not parse xid in pg_current_snapshot()'')
      | Some xid \<Rightarrow> Inr (xid mod 2 ^ 32))"

fun reduce_xids :: "string list \<Rightarrow> nat set \<Rightarrow> nat set result" where
  "reduce_xids [] xip = Inr xip"
| "reduce_xids (entry # rest) xip =
     (if trim entry = [] then reduce_xids rest xip
      else case reduce_xid entry of
             Inl e \<Rightarrow> Inl e
           | Inr xid \<Rightarrow> reduce_xids rest (insert xid xip))"

definition parse_fence :: "string \<Rightarrow> pg_fence result" where
  "parse_fence raw =
     (case split_on (CHR '':'') (trim raw) of
        _ # xmax_raw # parts \<Rightarrow>
          (case reduce_xid xmax_raw of
             Inl e \<Rightarrow> Inl e
           | Inr xmax \<Rightarrow>
               (case reduce_xids (concat (map (split_on (CHR '','')) parts)) {} of
                  Inl e \<Rightarrow> Inl e
                | Inr xip \<Rightarrow> Inr \<lparr>pf_xmax = xmax, pf_xip = xip, pf_present = True\<rparr>))
      | _ \<Rightarrow> Inl (SourceError ''could not parse pg_current_snapshot(): expected xmin:xmax:xip''))"

definition was_invisible :: "pg_fence \<Rightarrow> nat \<Rightarrow> bool" where
  "was_invisible f xid \<longleftrightarrow> pf_present f \<and> (pf_xmax f \<le> xid \<or> xid \<in> pf_xip f)"

record pg_watermark =
  pw_lsn :: "64 word"
  pw_snapshot :: pg_fence

definition pg_less :: "pg_watermark \<Rightarrow> pg_watermark \<Rightarrow> bool" where
  "pg_less p q \<longleftrightarrow> pw_lsn p < pw_lsn q"

definition pg_event_in_bracket :: "event \<Rightarrow> pg_watermark \<Rightarrow> pg_watermark \<Rightarrow> pg_watermark \<Rightarrow> bracket_position" where
  "pg_event_in_bracket e position low high =
     (if pw_lsn high < pw_lsn position then After
      else if pw_lsn low < pw_lsn position
              \<or> (case ev_transaction e of None \<Rightarrow> False | Some tx \<Rightarrow> was_invisible (pw_snapshot low) (tx_id tx))
      then Inside
      else Before)"

definition pg_position_of_event :: "event \<Rightarrow> pg_watermark option" where
  "pg_position_of_event e =
     map_option (\<lambda>lsn. \<lparr>pw_lsn = lsn, pw_snapshot = default_fence\<rparr>) (ok (parse_pg_lsn (source_offset (ev_source e))))"

definition decode_cursor_value :: "(jnum \<Rightarrow> string) \<Rightarrow> json \<Rightarrow> string result" where
  "decode_cursor_value show_number v =
     (case v of
        JString text \<Rightarrow> Inr text
      | JNumber n \<Rightarrow> Inr (show_number n)
      | JBool b \<Rightarrow> Inr (if b then ''true'' else ''false'')
      | _ \<Rightarrow> Inl (CheckpointError ''incremental snapshot: persisted keyset cursor contains a non-scalar value''))"

fun decode_cursor_values :: "(jnum \<Rightarrow> string) \<Rightarrow> json list \<Rightarrow> string list result" where
  "decode_cursor_values show_number [] = Inr []"
| "decode_cursor_values show_number (v # vs) =
     (case decode_cursor_value show_number v of
        Inl e \<Rightarrow> Inl e
      | Inr s \<Rightarrow> (case decode_cursor_values show_number vs of Inl e \<Rightarrow> Inl e | Inr ss \<Rightarrow> Inr (s # ss)))"

definition decode_pk_cursor :: "(jnum \<Rightarrow> string) \<Rightarrow> json list \<Rightarrow> nat \<Rightarrow> string list result" where
  "decode_pk_cursor show_number cursor expected_columns =
     (if length cursor \<noteq> expected_columns
      then Inl (CheckpointError ''incremental snapshot: the primary key changed since the checkpoint was written'')
      else decode_cursor_values show_number cursor)"

text \<open>A row filter in SQL, with the text that leads it in; the same in the PostgreSQL and MySQL backends.\<close>

definition condition_clause :: "snapshot_table \<Rightarrow> string \<Rightarrow> string" where
  "condition_clause table lead_in =
     (case st_condition table of None \<Rightarrow> [] | Some c \<Rightarrow> lead_in @ ''('' @ c @ '')'')"

definition pg_env :: "('w, pg_watermark) snapshot_env \<Rightarrow> ('w, pg_watermark) snapshot_env" where
  "pg_env io = io\<lparr>bk_position_of_event := pg_position_of_event, bk_less := pg_less,
                  bk_event_in_bracket := pg_event_in_bracket\<rparr>"

section \<open>MySQL\<close>

record binlog_pos =
  bp_file :: string
  bp_position :: nat
  bp_executed_gtids :: gtid_set

definition binlog_less :: "binlog_pos \<Rightarrow> binlog_pos \<Rightarrow> bool" where
  "binlog_less p q \<longleftrightarrow> compare_binlog_position (bp_file p) (bp_position p) (bp_file q) (bp_position q) = Less"

definition event_gtid :: "event \<Rightarrow> string option" where
  "event_gtid e =
     (case split_once_str ''#gtid='' (source_offset (ev_source e)) of
        None \<Rightarrow> None
      | Some (_, gtid) \<Rightarrow> (let g = trim gtid in if g = [] then None else Some g))"

definition default_bracket :: "event \<Rightarrow> binlog_pos \<Rightarrow> binlog_pos \<Rightarrow> binlog_pos \<Rightarrow> bracket_position" where
  "default_bracket e position low high =
     (if binlog_less high position then After else if binlog_less low position then Inside else Before)"

definition mysql_event_in_bracket :: "event \<Rightarrow> binlog_pos \<Rightarrow> binlog_pos \<Rightarrow> binlog_pos \<Rightarrow> bracket_position" where
  "mysql_event_in_bracket e position low high =
     (if gtid_is_empty (bp_executed_gtids low) \<and> gtid_is_empty (bp_executed_gtids high)
      then default_bracket e position low high
      else case event_gtid e of
             None \<Rightarrow> default_bracket e position low high
           | Some gtid \<Rightarrow>
               if \<not> contains_gtid (bp_executed_gtids high) gtid then After
               else if contains_gtid (bp_executed_gtids low) gtid then Before
               else Inside)"

definition mysql_position_of_event :: "event \<Rightarrow> binlog_pos option" where
  "mysql_position_of_event e =
     map_option (\<lambda>(file, position). \<lparr>bp_file = file, bp_position = position, bp_executed_gtids = []\<rparr>)
       (parse_mysql_source_offset (source_offset (ev_source e)))"

definition mysql_env :: "('w, binlog_pos) snapshot_env \<Rightarrow> ('w, binlog_pos) snapshot_env" where
  "mysql_env io = io\<lparr>bk_position_of_event := mysql_position_of_event, bk_less := binlog_less,
                     bk_event_in_bracket := mysql_event_in_bracket\<rparr>"

text \<open>The backend on a server without GTIDs, where every bracket is the ordinal one.\<close>

definition mysql_ordinal_env :: "('w, binlog_pos) snapshot_env \<Rightarrow> ('w, binlog_pos) snapshot_env" where
  "mysql_ordinal_env io = io\<lparr>bk_position_of_event := mysql_position_of_event, bk_less := binlog_less,
                             bk_event_in_bracket := default_bracket\<rparr>"

section \<open>SQL Server\<close>

definition sqlserver_position_of_event :: "event \<Rightarrow> lsn option" where
  "sqlserver_position_of_event e = lsn_from_source_offset (source_offset (ev_source e))"

definition cdc_less :: "lsn \<Rightarrow> lsn \<Rightarrow> bool" where
  "cdc_less a b \<longleftrightarrow> compare_lsn a b = Less"

datatype cursor_param = ParamBool bool | ParamInt int | ParamFloat nat | ParamText string

text \<open>\<open>Number::as_i64\<close>, then \<open>as_f64\<close>; \<open>to_float\<close> is the float a number too large for \<open>i64\<close> becomes.\<close>

definition json_value_to_cursor_param :: "(nat \<Rightarrow> nat) \<Rightarrow> json \<Rightarrow> cursor_param result" where
  "json_value_to_cursor_param to_float v =
     (case v of
        JNull \<Rightarrow> Inl (CheckpointError ''sqlserver incremental snapshot cursor does not support NULL pk values'')
      | JBool b \<Rightarrow> Inr (ParamBool b)
      | JNumber (PosInt n) \<Rightarrow> if int n \<le> i64_max then Inr (ParamInt (int n)) else Inr (ParamFloat (to_float n))
      | JNumber (NegInt i) \<Rightarrow> Inr (ParamInt i)
      | JNumber (Float f) \<Rightarrow> Inr (ParamFloat f)
      | JString s \<Rightarrow> Inr (ParamText s)
      | _ \<Rightarrow> Inl (CheckpointError ''sqlserver incremental snapshot: only scalar pk values are supported''))"

definition sqlserver_env :: "('w, lsn) snapshot_env \<Rightarrow> ('w, lsn) snapshot_env" where
  "sqlserver_env io = io\<lparr>bk_position_of_event := sqlserver_position_of_event, bk_less := cdc_less,
                         bk_event_in_bracket := default_event_in_bracket cdc_less\<rparr>"

section \<open>The backends order their brackets\<close>

interpretation pg: ordered_brackets "pg_env io" for io :: "('w, pg_watermark) snapshot_env"
  by unfold_locales (auto simp: pg_env_def pg_less_def pg_event_in_bracket_def split: if_splits)

lemma binlog_less_iff:
  "binlog_less p q \<longleftrightarrow> bp_file p < bp_file q \<or> (bp_file p = bp_file q \<and> bp_position p < bp_position q)"
  by (auto simp: binlog_less_def compare_binlog_position_def compare_of_def)

interpretation mysql: ordered_brackets "mysql_ordinal_env io" for io :: "('w, binlog_pos) snapshot_env"
  by unfold_locales (auto simp: mysql_ordinal_env_def binlog_less_iff default_bracket_def split: if_splits)

interpretation sqlserver: ordered_brackets "sqlserver_env io" for io :: "('w, lsn) snapshot_env"
  by unfold_locales
    (auto simp: sqlserver_env_def cdc_less_def compare_lsn_def compare_of_def default_event_in_bracket_def split: if_splits)

section \<open>What the fence decides\<close>

definition fence_text :: "nat \<Rightarrow> nat \<Rightarrow> nat list \<Rightarrow> string" where
  "fence_text xmin xmax xip = show_nat xmin @ '':'' @ show_nat xmax @ '':'' @ join '','' (map show_nat xip)"

lemma trim_show_nat [simp]: "trim (show_nat n) = show_nat n"
  using show_nat_chars [of _ n] by (intro trim_graphic) (auto simp: last_in_set)

lemma reduce_xid_show: "n \<le> u64_max \<Longrightarrow> reduce_xid (show_nat n) = Inr (n mod 2 ^ 32)"
  by (simp add: reduce_xid_def parse_u64_def from_str_radix_show)

lemma reduce_xids_show:
  "list_all (\<lambda>x. x \<le> u64_max) xs \<Longrightarrow> reduce_xids (map show_nat xs) acc = Inr ((\<lambda>x. x mod 2 ^ 32) ` set xs \<union> acc)"
  by (induction xs arbitrary: acc) (auto simp: reduce_xid_show)

lemma parse_fence_text:
  assumes "xmax \<le> u64_max" "list_all (\<lambda>x. x \<le> u64_max) xip"
  shows "parse_fence (fence_text xmin xmax xip)
    = Inr \<lparr>pf_xmax = xmax mod 2 ^ 32, pf_xip = (\<lambda>x. x mod 2 ^ 32) ` set xip, pf_present = True\<rparr>"
proof -
  have colon: "CHR '':'' \<notin> set (show_nat n)" "CHR '','' \<notin> set (show_nat n)" for n using show_nat_chars by blast+
  have sep: "c \<in> set (join '','' (map show_nat xs)) \<Longrightarrow> graphic c \<and> c \<noteq> CHR '':''" for c xs
    by (auto simp: graphic_def [of "CHR '',''"] dest!: join_chars dest: show_nat_chars)
  have "trim (fence_text xmin xmax xip) = fence_text xmin xmax xip"
  proof (rule trim_graphic)
    show "graphic (hd (fence_text xmin xmax xip))" using show_nat_chars [of "hd (show_nat xmin)" xmin] by (simp add: fence_text_def)
    show "graphic (last (fence_text xmin xmax xip))"
      using sep [of "last (join '','' (map show_nat xip))" xip]
      by (cases "join '','' (map show_nat xip) = []") (auto simp: fence_text_def graphic_def)
  qed (simp add: fence_text_def)
  moreover have "split_on (CHR '':'') (fence_text xmin xmax xip) = [show_nat xmin, show_nat xmax, join '','' (map show_nat xip)]"
    using split_on_append [OF colon(1)] split_on_no_sep [of "CHR '':''" "join '','' (map show_nat xip)"] sep
    by (auto simp: fence_text_def)
  moreover have "reduce_xids (split_on (CHR '','') (join '','' (map show_nat xip))) {} = Inr ((\<lambda>x. x mod 2 ^ 32) ` set xip)"
  proof (cases "xip = []")
    case True
    then show ?thesis by (simp add: trim_def trim_start.simps [of "[]"] trim_end.simps [of "[]"])
  next
    case False
    then have "split_on (CHR '','') (join '','' (map show_nat xip)) = map show_nat xip"
      using colon(2) by (intro split_on_join) auto
    then show ?thesis using reduce_xids_show [OF assms(2), of "{}"] by simp
  qed
  ultimately show ?thesis using assms(1) by (simp add: parse_fence_def reduce_xid_show)
qed

text \<open>
  The fence answers the server's own question from the text the server prints: within one epoch of
  transaction ids, a transaction counts as invisible to the chunk read exactly when its id is at or
  above \<open>xmax\<close> or listed in progress.
\<close>

theorem fence_decides_visibility:
  assumes "xmax \<le> u64_max" "list_all (\<lambda>x. x \<le> u64_max \<and> x div 2 ^ 32 = xid div 2 ^ 32) xip"
    and "xmax div 2 ^ 32 = xid div 2 ^ 32"
  shows "\<exists>f. parse_fence (fence_text xmin xmax xip) = Inr f
    \<and> (was_invisible f (xid mod 2 ^ 32) \<longleftrightarrow> xmax \<le> xid \<or> xid \<in> set xip)"
proof -
  have eq: "a = b \<longleftrightarrow> a mod 2 ^ 32 = b mod 2 ^ 32" "a \<le> b \<longleftrightarrow> a mod 2 ^ 32 \<le> b mod 2 ^ 32"
    if "a div 2 ^ 32 = b div 2 ^ 32" for a b :: nat
  proof -
    have "a = 2 ^ 32 * (a div 2 ^ 32) + a mod 2 ^ 32" "b = 2 ^ 32 * (b div 2 ^ 32) + b mod 2 ^ 32"
      by (simp_all only: mult_div_mod_eq)
    with that show "a = b \<longleftrightarrow> a mod 2 ^ 32 = b mod 2 ^ 32" "a \<le> b \<longleftrightarrow> a mod 2 ^ 32 \<le> b mod 2 ^ 32"
      by (metis, metis add_le_cancel_left)
  qed
  have "list_all (\<lambda>x. x \<le> u64_max) xip" using assms(2) by (auto simp: list_all_iff)
  note p = parse_fence_text [OF assms(1) this, of xmin]
  have "xid mod 2 ^ 32 \<in> (\<lambda>x. x mod 2 ^ 32) ` set xip \<longleftrightarrow> xid \<in> set xip"
  proof
    assume "xid mod 2 ^ 32 \<in> (\<lambda>x. x mod 2 ^ 32) ` set xip"
    then obtain x where x: "x \<in> set xip" "xid mod 2 ^ 32 = x mod 2 ^ 32" by blast
    then have "x div 2 ^ 32 = xid div 2 ^ 32" using assms(2) unfolding list_all_iff by blast
    from eq(1) [OF this] x show "xid \<in> set xip" by simp
  qed blast
  moreover have "xmax mod 2 ^ 32 \<le> xid mod 2 ^ 32 \<longleftrightarrow> xmax \<le> xid" using eq(2) [OF assms(3)] by simp
  ultimately show ?thesis using p by (auto simp: was_invisible_def)
qed

theorem fence_decides_visibility_witness:
  "\<exists>f. parse_fence (fence_text 733 740 [735]) = Inr f \<and> was_invisible f (735 mod 2 ^ 32)"
  using fence_decides_visibility [of 740 735 "[735]" 733] by (auto simp: u64_max_def)

text \<open>
  Across an epoch boundary it does not: the ids are cut to 32 bits and compared as numbers, so a
  transaction of the next epoch, which the chunk read cannot have seen, counts as visible.
\<close>

theorem fence_misses_next_epoch:
  assumes "k < 2 ^ 32 - 1"
  shows "\<exists>f. parse_fence (fence_text xmin (2 ^ 32 - 1) []) = Inr f \<and> \<not> was_invisible f ((2 ^ 32 + k) mod 2 ^ 32)"
  using parse_fence_text [of "2 ^ 32 - 1" "[]" xmin] assms by (auto simp: was_invisible_def u64_max_def)

theorem fence_misses_next_epoch_witness:
  "\<exists>f. parse_fence (fence_text 7 (2 ^ 32 - 1) []) = Inr f \<and> \<not> was_invisible f ((2 ^ 32 + 3) mod 2 ^ 32)"
  by (rule fence_misses_next_epoch) simp

end
