(* ===== verification/Snapshot_Guarantees.thy ===== *)
theory Snapshot_Guarantees
  imports Snapshot_Backends
begin

text \<open>
  What the incremental snapshot guarantees on the PostgreSQL backend, from the locale of
  \<open>Snapshot_Runs\<close> through its interpretation; the bound on a call; and two ways in which the delivered
  order or content departs from the database.
\<close>

section \<open>A small server\<close>

text \<open>
  One table of two rows. The world counts the calls: position queries return ten times the count, and
  the live stream yields one batch, at the count \<open>n\<close> and one at the count \<open>n + 3\<close>.
\<close>

definition example_pg_event :: "64 word \<Rightarrow> string \<Rightarrow> event" where
  "example_pg_event lsn key =
     default_event\<lparr>ev_op := Update, ev_source := \<lparr>source_name = ''pg'', source_offset = format_pg_lsn lsn, source_timestamp = 0\<rparr>,
       ev_schema := Some ''public'', ev_table := ''t'', ev_primary_key := Some [''id''],
       ev_after := Some (JObject [(''id'', JString key)])\<rparr>"

definition example_row :: "string \<Rightarrow> chunk_row" where
  "example_row key = \<lparr>cr_cursor = [JString key], cr_row = JObject [(''id'', JString key)]\<rparr>"

definition example_table :: snapshot_table where
  "example_table = \<lparr>st_schema = ''public'', st_name = ''t'', st_qualified = ''public.t'', st_pk_columns = [''id''],
     st_pk_types = [''text''], st_columns = [''id''], st_condition = None\<rparr>"

definition example_mark :: "64 word \<Rightarrow> pg_watermark" where
  "example_mark lsn = \<lparr>pw_lsn = lsn, pw_snapshot = default_fence\<rparr>"

definition example_io :: "event list \<Rightarrow> event list \<Rightarrow> (nat, pg_watermark) snapshot_env" where
  "example_io first second =
     \<lparr>bk_describe_table = (\<lambda>_ w. (w, Inr example_table)),
      bk_current_position = (\<lambda>w. (Suc w, Inr (example_mark (word_of_nat (10 * w))))),
      bk_fetch_chunk = (\<lambda>_ cursor _ w. (w, Inr (if cursor = None then [example_row ''1'', example_row ''2''] else [example_row ''3'']))),
      bk_position_of_event = (\<lambda>_. None), bk_less = pg_less, bk_event_in_bracket = pg_event_in_bracket,
      bk_render_values = (\<lambda>vs. concat (map (\<lambda>v. case v of JString s \<Rightarrow> s | _ \<Rightarrow> []) vs)),
      bk_hash_order = (\<lambda>kvs. kvs), bk_now = (\<lambda>w. (w, 0)),
      in_next_events = (\<lambda>_ w. (Suc w, Inr (if w = 3 then first else if w = 6 then second else [])))\<rparr>"

definition example_driver :: "nat \<Rightarrow> pg_watermark snapshot_driver" where
  "example_driver n =
     \<lparr>sd_tables = [\<lparr>tp_spec = example_table, tp_pk_cursor = None, tp_is_complete = False, tp_chunks_emitted = 0, tp_rows_emitted = 0\<rparr>],
      sd_phase = ChunkPrepare 0, sd_chunk_size = n, sd_table_conditions = [], sd_source_name = ''pg'', sd_snapshot_id = ''s'',
      sd_events_emitted = 0, sd_paused = False, sd_generation = 0, sd_stopped = False, sd_deferred = []\<rparr>"

fun snap_example :: "(nat, pg_watermark) snapshot_env \<Rightarrow> nat \<Rightarrow> nat \<Rightarrow> (nat, pg_watermark) snap_run" where
  "snap_example io n 0 = snap_start (example_driver n) 1"
| "snap_example io n (Suc k) = observe (pg_env io) 0 (snap_example io n k)"

lemma snap_example_reach: "snap_reach (pg_env io) (example_driver n) 1 (snap_example io n k)"
  by (induction k) (auto intro: reach_start reach_iterate)

lemma example_boundary: "at_boundary (example_driver n)"
  by (simp add: at_boundary_def example_driver_def)

text \<open>The example's pieces, kept folded while a run is evaluated.\<close>

definition example_row_event :: "nat \<Rightarrow> string \<Rightarrow> event" where
  "example_row_event n key =
     build_snapshot_event (example_driver n) example_table 0 (''t|'' @ key) (cr_row (example_row key)) 0"

definition example_chunk :: "nat \<Rightarrow> (string \<times> event) list" where
  "example_chunk n = [(''t|1'', example_row_event n ''1''), (''t|2'', example_row_event n ''2'')]"

lemma example_event_facts [simp]:
  "pg_position_of_event (example_pg_event lsn key) = Some (example_mark lsn)"
  "event_fingerprint (pg_env (example_io a b)) (example_pg_event lsn key) = Some (''t|'' @ key)"
  "same_table example_table (example_pg_event lsn key)"
  "ev_transaction (example_pg_event lsn key) = None"
  "ev_unavailable_columns (example_pg_event lsn key) = []" "ev_before_unavailable_columns (example_pg_event lsn key) = []"
  "ev_before (example_pg_event lsn key) = None"
  "ev_after (example_pg_event lsn key) = Some (JObject [(''id'', JString key)])"
  by (simp_all add: example_pg_event_def example_mark_def pg_position_of_event_def event_fingerprint_def fingerprint_from_payload_def
      pk_fingerprint_def json_get_def obj_get_def pg_env_def example_io_def same_table_def example_table_def default_event_def)

lemma example_env_facts [simp]:
  "bk_position_of_event (pg_env io) = pg_position_of_event" "bk_less (pg_env io) = pg_less"
  "bk_event_in_bracket (pg_env io) = pg_event_in_bracket"
  "bk_current_position (pg_env (example_io a b)) w = (Suc w, Inr (example_mark (word_of_nat (10 * w))))"
  "bk_fetch_chunk (pg_env (example_io a b)) spec cursor k w
     = (w, Inr (if cursor = None then [example_row ''1'', example_row ''2''] else [example_row ''3'']))"
  "in_next_events (pg_env (example_io a b)) t w = (Suc w, Inr (if w = 3 then a else if w = 6 then b else []))"
  "bk_now (pg_env (example_io a b)) w = (w, 0)" "bk_render_values (pg_env (example_io a b)) [JString key] = key"
  by (simp_all add: pg_env_def example_io_def)

lemma example_prepare:
  "drive_iteration (pg_env (example_io a b)) 0 (example_driver n) 1
     = Inr ((example_driver n)\<lparr>sd_phase := ChunkCollect 0 (example_mark 10) (example_mark 20) (example_chunk n) [] [JString ''2'']\<rparr>, 3)"
  by (simp add: drive_iteration_def drive_chunk_prepare_def prepare_index_def example_driver_def Let_def
      fingerprint_from_payload_def pk_fingerprint_def json_get_def obj_get_def example_chunk_def example_row_event_def
      example_row_def example_table_def)

abbreviation example_collecting :: "nat \<Rightarrow> pg_watermark snapshot_driver" where
  "example_collecting n \<equiv>
     (example_driver n)\<lparr>sd_phase := ChunkCollect 0 (example_mark 10) (example_mark 20) (example_chunk n) [] [JString ''2'']\<rparr>"

lemma example_driver_facts [simp]:
  "sd_phase (example_driver n) = ChunkPrepare 0" "sd_deferred (example_driver n) = []" "sd_chunk_size (example_driver n) = n"
  "sd_paused (example_driver n) = False" "tp_spec (sd_tables (example_driver n) ! 0) = example_table"
  by (simp_all add: example_driver_def)

lemma example_bracket [simp]:
  "pw_lsn (example_mark lsn) = lsn"
  "membership (pg_env io) (example_mark low) (example_mark high) (example_pg_event lsn key)
     = Some (if high < lsn then After else if low < lsn then Inside else Before)"
  by (simp_all add: membership_def pg_event_in_bracket_def example_mark_def)

lemma example_superseding [simp]:
  "superseding (pg_env (example_io a b)) example_table (example_mark low) (example_mark high) (example_pg_event lsn key)
     = (if \<not> high < lsn \<and> low < lsn then Some (''t|'' @ key) else None)"
  by (simp add: superseding_def)

lemma example_row_event_after [simp]: "ev_after (example_row_event n key) = Some (JObject [(''id'', JString key)])"
  by (simp add: example_row_event_def build_snapshot_event_def example_row_def)

lemma example_event_same [simp]:
  "(example_pg_event lsn key)\<lparr>ev_before := None, ev_after := Some (JObject [(''id'', JString key)]),
      ev_unavailable_columns := [], ev_before_unavailable_columns := []\<rparr> = example_pg_event lsn key"
  by (simp add: example_pg_event_def default_event_def)

lemmas collect_eval =
  drive_iteration_def collect_arm_def Let_def COLLECT_POLL_CEILING_MS_def example_chunk_def repair_partial_payload_def
  row_index_def fill_columns_def watermark_passed_def pg_less_def before_split_def finalize_collect_def merged_rows_def

lemma example_collect:
  "drive_iteration (pg_env (example_io [example_pg_event 15 ''1'', example_pg_event 25 ''2''] b)) 0 (example_collecting 2) 3
     = Inl ((example_driver 2)\<lparr>sd_phase := ChunkEmit 0 [example_row_event 2 ''2''] [JString ''2''] 1,
                               sd_deferred := [example_pg_event 25 ''2'']\<rparr>, 4, Inr [example_pg_event 15 ''1''])"
  by (simp add: collect_eval)

abbreviation example_batch :: "event list" where
  "example_batch \<equiv> [example_pg_event 15 ''1'', example_pg_event 25 ''2'']"

lemma snap_example_1:
  "snap_example (example_io a b) n 1 =
     (snap_start (example_collecting n) 3)\<lparr>sr_chunk := Some (example_table, example_mark 10, example_mark 20, example_chunk n, [JString ''2''])\<rparr>"
  using example_prepare [of a b n]
  by (simp add: observe_def snap_start_def outcome_def batch_read_def Let_def)

lemma snap_example_2:
  "snap_example (example_io example_batch b) 2 2 =
     \<lparr>sr_driver = (example_driver 2)\<lparr>sd_phase := ChunkEmit 0 [example_row_event 2 ''2''] [JString ''2''] 1,
                                    sd_deferred := [example_pg_event 25 ''2'']\<rparr>,
      sr_world = 4, sr_read = example_batch, sr_stream = [example_pg_event 15 ''1''],
      sr_chunk = Some (example_table, example_mark 10, example_mark 20, example_chunk 2, [JString ''2'']),
      sr_window = example_batch, sr_head = [example_pg_event 15 ''1''], sr_rows = []\<rparr>"
proof -
  have "snap_example (example_io example_batch b) 2 2 =
      observe (pg_env (example_io example_batch b)) 0 (snap_example (example_io example_batch b) 2 1)"
    by (simp add: numeral_2_eq_2)
  then show ?thesis
    unfolding snap_example_1
    by (simp add: observe_def snap_start_def outcome_def batch_read_def Let_def example_collect before_split_def)
qed

lemma example_bounded: "length a \<le> 2 \<Longrightarrow> length b \<le> 2 \<Longrightarrow> bounded_batches (pg_env (example_io a b)) (emit_batch_size (example_driver 2))"
  by (simp add: bounded_batches_def emit_batch_size_def)

section \<open>The live stream\<close>



section \<open>The rows of a chunk\<close>




lemma example_emit_2:
  "drive_iteration (pg_env io) 0 ((example_driver 2)\<lparr>sd_phase := ChunkEmit 0 [example_row_event 2 ''2''] [JString ''2''] 1,
      sd_deferred := [example_pg_event 25 ''2'']\<rparr>) w
   = Inl ((example_driver 2)\<lparr>sd_phase := ChunkEmit 0 [] [JString ''2''] 1, sd_deferred := [example_pg_event 25 ''2'']\<rparr>, w,
          Inr [example_row_event 2 ''2''])"
  by (simp add: drive_iteration_def Let_def emit_batch_size_def)

lemma snap_example_3:
  "snap_example (example_io example_batch b) 2 3 =
     (snap_example (example_io example_batch b) 2 2)\<lparr>
        sr_driver := (example_driver 2)\<lparr>sd_phase := ChunkEmit 0 [] [JString ''2''] 1, sd_deferred := [example_pg_event 25 ''2'']\<rparr>,
        sr_rows := [example_row_event 2 ''2'']\<rparr>"
proof -
  have "snap_example (example_io example_batch b) 2 3 =
      observe (pg_env (example_io example_batch b)) 0 (snap_example (example_io example_batch b) 2 2)"
    by (simp add: numeral_2_eq_2 numeral_3_eq_3)
  then show ?thesis
    unfolding snap_example_2
    by (simp add: observe_def outcome_def batch_read_def Let_def example_emit_2 [simplified])
qed


section \<open>A call is bounded\<close>

fun drive_rounds ::
    "('w, 'p) snapshot_env \<Rightarrow> nat \<Rightarrow> nat \<Rightarrow> 'p snapshot_driver \<Rightarrow> 'w \<Rightarrow> ('p snapshot_driver \<times> 'w \<times> event list result) option" where
  "drive_rounds env timeout 0 d w = None"
| "drive_rounds env timeout (Suc k) d w =
     (case drive_iteration env timeout d w of
        Inl r \<Rightarrow> Some r
      | Inr (d', w') \<Rightarrow> drive_rounds env timeout k d' w')"

text \<open>
  A poll of the snapshot returns whatever the server answers, and soon: its loop makes at most six
  rounds more than there are unfinished tables, and the result is the loop's.
\<close>

theorem drive_returns_within:
  "drive_rounds env timeout (incomplete d + 6) d w = Some (drive env timeout d w)"
proof -
  have "rank d < k \<Longrightarrow> drive_rounds env timeout k d w = Some (drive env timeout d w)" for k d w
  proof (induction k arbitrary: d w)
    case (Suc k)
    show ?case
    proof (cases "drive_iteration env timeout d w")
      case (Inl x)
      then show ?thesis by (simp add: drive.simps [of env timeout d w])
    next
      case (Inr x)
      obtain d' w' where x: "x = (d', w')" by (cases x)
      with Inr rank_iteration Suc.prems have "rank d' < k" by fastforce
      with Suc.IH Inr x show ?thesis by (simp add: drive.simps [of env timeout d w])
    qed
  qed simp
  moreover have "rank d < incomplete d + 6" by (auto simp: rank_def split: snapshot_phase.split)
  ultimately show ?thesis by blast
qed

section \<open>Truncation inside a window\<close>

text \<open>
  TRUNCATE supersedes nothing: it names no key, so every row of a chunk whose window holds only
  truncations of its table is delivered, after the truncation that removed it.
\<close>

theorem truncated_rows_delivered:
  assumes "snap_reach (pg_env io) d0 w0 r" "at_boundary d0" "bounded_batches (pg_env io) (emit_batch_size d0)"
    and "sd_phase (sr_driver r) = ChunkEmit i events cursor n"
    and "list_all (\<lambda>e. ev_op e = Truncate \<and> ev_primary_key e = None) (sr_window r)"
  shows "\<exists>spec low high chunk. sr_chunk r = Some (spec, low, high, chunk, cursor) \<and> sr_rows r @ events = map snd chunk"
proof -
  have "superseded_keys env spec low high (sr_window r) = {}" for env :: "('a, pg_watermark) snapshot_env" and spec low high
    using assms(5) by (auto simp: superseded_keys_def superseding_def event_fingerprint_def list_all_iff)
  with pg.chunk_merged [OF assms(1-4)] show ?thesis by auto
qed

definition example_truncate :: event where
  "example_truncate = (example_pg_event 15 [])\<lparr>ev_op := Truncate, ev_primary_key := None, ev_after := None\<rparr>"

lemma example_truncate_facts [simp]:
  "pg_position_of_event example_truncate = Some (example_mark 15)" "ev_primary_key example_truncate = None"
  "ev_op example_truncate = Truncate" "superseding env spec low high example_truncate = None"
  "membership (pg_env io) (example_mark 10) (example_mark 20) example_truncate = Some Inside"
  by (simp_all add: example_truncate_def pg_position_of_event_def example_pg_event_def example_mark_def superseding_def
      event_fingerprint_def membership_def pg_event_in_bracket_def)

lemma example_truncated_run:
  "snap_example (example_io [example_truncate] []) 2 3 =
     \<lparr>sr_driver = (example_driver 2)\<lparr>sd_phase := ChunkEmit 0 [example_row_event 2 ''1'', example_row_event 2 ''2''] [JString ''2''] 2\<rparr>,
      sr_world = 6, sr_read = [example_truncate], sr_stream = [example_truncate],
      sr_chunk = Some (example_table, example_mark 10, example_mark 20, example_chunk 2, [JString ''2'']),
      sr_window = [example_truncate], sr_head = [example_truncate], sr_rows = []\<rparr>"
proof -
  let ?env = "pg_env (example_io [example_truncate] [])"
  have one: "drive_iteration ?env 0 (example_collecting 2) 3 = Inl (example_collecting 2, 4, Inr [example_truncate])"
    by (simp add: collect_eval)
  have two: "drive_iteration ?env 0 (example_collecting 2) 4 =
      Inr ((example_driver 2)\<lparr>sd_phase := ChunkEmit 0 [example_row_event 2 ''1'', example_row_event 2 ''2''] [JString ''2''] 2\<rparr>, 6)"
    by (simp add: collect_eval)
  have "snap_example (example_io [example_truncate] []) 2 3 = observe ?env 0 (observe ?env 0 (snap_example (example_io [example_truncate] []) 2 1))"
    by (simp add: numeral_3_eq_3)
  then show ?thesis
    unfolding snap_example_1
    by (simp add: observe_def snap_start_def outcome_def batch_read_def Let_def one two before_split_def)
qed

theorem truncated_rows_delivered_witness:
  "\<exists>r i events cursor n. snap_reach (pg_env (example_io [example_truncate] [])) (example_driver 2) 1 r
     \<and> sd_phase (sr_driver r) = ChunkEmit i events cursor n \<and> sr_stream r = [example_truncate] \<and> length (sr_rows r @ events) = 2"
proof -
  let ?io = "example_io [example_truncate] []"
  let ?r = "snap_example ?io 2 3"
  have ph: "sd_phase (sr_driver ?r) = ChunkEmit 0 [example_row_event 2 ''1'', example_row_event 2 ''2''] [JString ''2''] 2"
    by (simp add: example_truncated_run)
  have b: "bounded_batches (pg_env ?io) (emit_batch_size (example_driver 2))" by (rule example_bounded) simp_all
  have "list_all (\<lambda>e. ev_op e = Truncate \<and> ev_primary_key e = None) (sr_window ?r)" by (simp add: example_truncated_run)
  from truncated_rows_delivered [OF snap_example_reach example_boundary b ph this]
  obtain spec low high chunk where c: "sr_chunk ?r = Some (spec, low, high, chunk, [JString ''2''])"
      "sr_rows ?r @ [example_row_event 2 ''1'', example_row_event 2 ''2''] = map snd chunk" by blast
  have "chunk = example_chunk 2" using c(1) by (simp add: example_truncated_run)
  then have "length (sr_rows ?r @ [example_row_event 2 ''1'', example_row_event 2 ''2'']) = 2"
    unfolding c(2) by (simp add: example_chunk_def)
  moreover have "sr_stream ?r = [example_truncate]" by (simp add: example_truncated_run)
  ultimately show ?thesis using ph snap_example_reach [of ?io 2 3] by blast
qed

section \<open>Batches larger than a delivery\<close>

text \<open>
  Without the bound on the stream's batches the order is lost. Two events held back behind a chunk of
  a driver that delivers one event at a time: one is delivered, the next chunk is opened, and an event
  of its window is delivered before the second.
\<close>

definition example_large :: "(nat, pg_watermark) snapshot_env" where
  "example_large = example_io [example_pg_event 25 ''1'', example_pg_event 35 ''2''] [example_pg_event 45 ''9'']"

abbreviation example_held :: "event list" where
  "example_held \<equiv> [example_pg_event 25 ''1'', example_pg_event 35 ''2'']"

lemma example_large_collect:
  "drive_iteration (pg_env example_large) 0 (example_collecting 1) 3
     = Inr ((example_driver 1)\<lparr>sd_phase := ChunkEmit 0 [example_row_event 1 ''1'', example_row_event 1 ''2''] [JString ''2''] 2,
                               sd_deferred := example_held\<rparr>, 4)"
  by (simp add: example_large_def collect_eval)

lemma example_large_emit:
  "drive_iteration (pg_env io) 0 ((example_driver 1)\<lparr>sd_phase := ChunkEmit 0 (e # es) [JString ''2''] 2, sd_deferred := example_held\<rparr>) w
     = Inl ((example_driver 1)\<lparr>sd_phase := ChunkEmit 0 es [JString ''2''] 2, sd_deferred := example_held\<rparr>, w, Inr [e])"
  by (simp add: drive_iteration_def Let_def emit_batch_size_def)

definition example_progress :: table_progress where
  "example_progress = \<lparr>tp_spec = example_table, tp_pk_cursor = Some [JString ''2''], tp_is_complete = False,
     tp_chunks_emitted = 1, tp_rows_emitted = 2\<rparr>"

lemma example_large_commit:
  "drive_iteration (pg_env io) 0 ((example_driver 1)\<lparr>sd_phase := ChunkEmit 0 [] [JString ''2''] 2, sd_deferred := example_held\<rparr>) w
     = Inl ((example_driver 1)\<lparr>sd_tables := [example_progress], sd_phase := ChunkPrepare 0, sd_deferred := [example_pg_event 35 ''2'']\<rparr>,
            w, Inr [example_pg_event 25 ''1''])"
  by (simp add: drive_iteration_def Let_def commit_chunk_progress_def drain_deferred_def emit_batch_size_def
      example_driver_def example_progress_def sat_inc32_def sat_add64_def u32_max_def u64_max_def)

lemma example_large_reopen:
  "\<exists>chunk. drive_iteration (pg_env example_large) 0
      ((example_driver 1)\<lparr>sd_tables := [example_progress], sd_phase := ChunkPrepare 0, sd_deferred := [example_pg_event 35 ''2'']\<rparr>) 4
    = Inr ((example_driver 1)\<lparr>sd_tables := [example_progress], sd_phase := ChunkCollect 0 (example_mark 40) (example_mark 50) [(''t|3'', chunk)] [] [JString ''3''],
             sd_deferred := [example_pg_event 35 ''2'']\<rparr>, 6)"
  by (simp add: drive_iteration_def drive_chunk_prepare_def prepare_index_def example_progress_def example_large_def Let_def
      fingerprint_from_payload_def pk_fingerprint_def json_get_def obj_get_def example_row_def example_table_def example_driver_def)

lemma example_large_window:
  "\<exists>d. drive_iteration (pg_env example_large) 0
      ((example_driver 1)\<lparr>sd_tables := [example_progress], sd_phase := ChunkCollect 0 (example_mark 40) (example_mark 50) [(''t|3'', chunk)] [] [JString ''3''],
         sd_deferred := [example_pg_event 35 ''2'']\<rparr>) 6
    = Inl (d, 7, Inr [example_pg_event 45 ''9''])"
  by (simp add: collect_eval example_large_def example_progress_def)

text \<open>The part of a run the order is about, and how an iteration changes it.\<close>

definition run_view :: "('w, 'p) snap_run \<Rightarrow> 'p snapshot_driver \<times> 'w \<times> event list \<times> event list" where
  "run_view r = (sr_driver r, sr_world r, sr_read r, sr_stream r)"

definition view_step ::
    "('w, 'p) snapshot_env \<Rightarrow> nat \<Rightarrow> 'p snapshot_driver \<times> 'w \<times> event list \<times> event list
     \<Rightarrow> 'p snapshot_driver \<times> 'w \<times> event list \<times> event list" where
  "view_step env timeout v =
     (case v of (d, w, rd, st) \<Rightarrow>
        (case outcome (drive_iteration env timeout d w) of
           (d', w', out) \<Rightarrow>
             (d', w', rd @ batch_read env timeout d w,
              st @ (case sd_phase d of ChunkEmit i (e # es) cursor n \<Rightarrow> [] | _ \<Rightarrow> out))))"

lemma view_observe: "run_view (observe env timeout r) = view_step env timeout (run_view r)"
  by (auto simp: run_view_def view_step_def observe_def Let_def split: prod.split snapshot_phase.split list.split)

text \<open>
  The order of the log is lost when a batch of the stream is longer than one delivery of the driver:
  three events are read in order, and the third is delivered before the second.
\<close>

theorem held_back_overtaken:
  "\<exists>r. snap_reach (pg_env example_large) (example_driver 1) 1 r \<and> at_boundary (example_driver 1)
     \<and> sr_read r = [example_pg_event 25 ''1'', example_pg_event 35 ''2'', example_pg_event 45 ''9'']
     \<and> sr_stream r = [example_pg_event 25 ''1'', example_pg_event 45 ''9'']"
proof -
  let ?env = "pg_env example_large"
  let ?v = "\<lambda>k. run_view (snap_example example_large 1 k)"
  have step: "?v (Suc k) = view_step ?env 0 (?v k)" for k by (simp add: view_observe)
  have nexts: "in_next_events ?env t 3 = (4, Inr example_held)" "in_next_events ?env t 6 = (7, Inr [example_pg_event 45 ''9''])" for t
    by (simp_all add: example_large_def)
  note ev = view_step_def outcome_def batch_read_def Let_def nexts
  have v1: "?v 1 = (example_collecting 1, 3, [], [])"
    unfolding example_large_def snap_example_1 by (simp add: run_view_def snap_start_def)
  have v2: "?v 2 = ((example_driver 1)\<lparr>sd_phase := ChunkEmit 0 [example_row_event 1 ''1'', example_row_event 1 ''2''] [JString ''2''] 2,
      sd_deferred := example_held\<rparr>, 4, example_held, [])"
    using step [of 1] example_large_collect by (simp add: v1 [simplified] ev numeral_2_eq_2)
  have emit: "view_step ?env 0 ((example_driver 1)\<lparr>sd_phase := ChunkEmit 0 (e # es) [JString ''2''] 2, sd_deferred := example_held\<rparr>, 4, rd, st)
      = ((example_driver 1)\<lparr>sd_phase := ChunkEmit 0 es [JString ''2''] 2, sd_deferred := example_held\<rparr>, 4, rd, st)" for e es rd st
    unfolding view_step_def prod.case example_large_emit by (simp add: ev)
  have commit: "view_step ?env 0 ((example_driver 1)\<lparr>sd_phase := ChunkEmit 0 [] [JString ''2''] 2, sd_deferred := example_held\<rparr>, 4, example_held, [])
      = ((example_driver 1)\<lparr>sd_tables := [example_progress], sd_phase := ChunkPrepare 0, sd_deferred := [example_pg_event 35 ''2'']\<rparr>,
         4, example_held, [example_pg_event 25 ''1''])"
    unfolding view_step_def prod.case example_large_commit by (simp add: ev)
  obtain chunk where c: "drive_iteration ?env 0
      ((example_driver 1)\<lparr>sd_tables := [example_progress], sd_phase := ChunkPrepare 0, sd_deferred := [example_pg_event 35 ''2'']\<rparr>) 4
    = Inr ((example_driver 1)\<lparr>sd_tables := [example_progress],
             sd_phase := ChunkCollect 0 (example_mark 40) (example_mark 50) [(''t|3'', chunk)] [] [JString ''3''],
             sd_deferred := [example_pg_event 35 ''2'']\<rparr>, 6)" (is "_ = Inr (?d6, 6)")
    using example_large_reopen by blast
  have reopen: "view_step ?env 0 ((example_driver 1)\<lparr>sd_tables := [example_progress], sd_phase := ChunkPrepare 0, sd_deferred := [example_pg_event 35 ''2'']\<rparr>, 4, rd, st)
      = (?d6, 6, rd, st)" for rd st
    unfolding view_step_def prod.case c by (simp add: ev example_driver_def)
  obtain d where w: "drive_iteration ?env 0 ?d6 6 = Inl (d, 7, Inr [example_pg_event 45 ''9''])"
    using example_large_window by blast
  have last_step: "view_step ?env 0 (?d6, 6, rd, st) = (d, 7, rd @ [example_pg_event 45 ''9''], st @ [example_pg_event 45 ''9''])" for rd st
    unfolding view_step_def prod.case w by (simp add: ev)
  have "?v (Suc (Suc (Suc (Suc (Suc 2))))) = (d, 7, example_held @ [example_pg_event 45 ''9''], [example_pg_event 25 ''1''] @ [example_pg_event 45 ''9''])"
    unfolding step v2 emit commit reopen last_step ..
  then show ?thesis
    using snap_example_reach [of example_large 1 "Suc (Suc (Suc (Suc (Suc 2))))"] example_boundary [of 1]
    by (auto simp: run_view_def simp del: snap_example.simps)
qed

end
