(* ===== verification/Connector_Common.thy ===== *)
theory Connector_Common
  imports Table_Glob Ddl_Capture Stream_Offset
begin

text \<open>
  What the connectors share (\<open>source/mod.rs\<close>): the include and exclude lists, the life cycle of a
  stream, and the record a snapshot-to-stream handoff returns.
\<close>

definition list_matches :: "string \<Rightarrow> string list \<Rightarrow> bool" where
  "list_matches key entries \<longleftrightarrow> list_ex (\<lambda>entry. trim entry \<noteq> [] \<and> table_matches (trim entry) key) entries"

definition table_is_allowed :: "string option \<Rightarrow> string \<Rightarrow> string list \<Rightarrow> string list \<Rightarrow> bool" where
  "table_is_allowed schema table include_list exclude_list =
     (if include_list = [] \<and> exclude_list = [] then True
      else let key = (case schema of Some s \<Rightarrow> if s \<noteq> [] then s @ ''.'' @ table else table | None \<Rightarrow> table)
           in if include_list \<noteq> [] then list_matches key include_list else \<not> list_matches key exclude_list)"

datatype stream_state = StreamStarting | Streaming | StreamStopped

record handoff_result =
  ho_snapshot_end_ts :: "nat option"
  ho_stream_start_ts :: "nat option"
  ho_overlap_events_dropped :: "nat option"
  ho_stream_watermark_gap :: "nat option"

end
