(* ===== verification/Mysql_Stream.thy ===== *)
theory Mysql_Stream
  imports Connector_Common Mysql_Parser
begin

text \<open>
  The live stream of the MySQL connector: how binlog events become messages
  (\<open>LiveMysqlBinlogProvider\<close> of \<open>source/mysql.rs\<close>), how messages become events
  (\<open>source/mysql/stream_messages.rs\<close>), and the polling loop around both. The binlog client is the
  environment \<open>binlog_env\<close>: what a read within a timeout yields, the clock in milliseconds and a
  sleep. The cells of a row are decoded by the client's library, so a rows event arrives with its
  decoded changes, each possibly an error; the DDL text parser and \<open>str::to_uppercase\<close> are functions of
  the environment.
\<close>

section \<open>Messages\<close>

record mysql_row_change =
  rc_schema :: "string option"
  rc_table :: string
  rc_primary_key :: "string list option"
  rc_before :: "json option"
  rc_after :: "json option"

datatype mysql_message =
    MsgBegin nat nat
  | MsgWriteRows mysql_row_change
  | MsgUpdateRows mysql_row_change
  | MsgDeleteRows mysql_row_change
  | MsgXid nat nat string nat "string option"
  | MsgRotate string nat
  | MsgGtid string
  | MsgDdl captured_ddl nat string nat
  | MsgTruncate "string option" string nat string nat
  | MsgHeartbeat

datatype rows_kind = WriteRowsEvent | UpdateRowsEvent | DeleteRowsEvent

text \<open>A rows event carries \<open>None\<close> when its table map is unknown.\<close>

datatype binlog_event =
    QueryEvent string
  | RowsEvent rows_kind "mysql_row_change result list option"
  | XidEvent nat
  | RotateEvent string nat
  | GtidEvent "nat list" nat
  | HeartbeatEvent
  | OtherEvent

text \<open>The body of an event: a type the client knows, with its payload if it decodes, or a raw type and its bytes.\<close>

datatype binlog_body = Known "binlog_event option result" | Raw nat "nat list"

record binlog_item =
  bi_log_pos :: nat
  bi_timestamp :: nat
  bi_server_id :: nat
  bi_body :: binlog_body

datatype binlog_read = TimedOut | Closed | Failed | Arrived binlog_item

record 'w binlog_env =
  be_read :: "nat \<Rightarrow> 'w \<Rightarrow> 'w \<times> binlog_read"
  be_now :: "'w \<Rightarrow> nat"
  be_sleep :: "nat \<Rightarrow> 'w \<Rightarrow> 'w"
  be_upper :: "string \<Rightarrow> string"
  be_ddl :: "string \<Rightarrow> captured_ddl option"
  be_codec :: ddl_codec

section \<open>Decoding binlog events\<close>

record binlog_provider =
  bp_binlog_file :: string
  bp_next_pos :: nat
  bp_active_gtid :: "string option"
  bp_active_tx_id :: "nat option"
  bp_next_tx_id :: nat
  bp_poll_interval_ms :: nat

definition provider_new :: "string \<Rightarrow> nat \<Rightarrow> nat \<Rightarrow> binlog_provider" where
  "provider_new file pos interval =
     \<lparr>bp_binlog_file = file, bp_next_pos = pos, bp_active_gtid = None, bp_active_tx_id = None,
      bp_next_tx_id = 1, bp_poll_interval_ms = max interval 1\<rparr>"

definition advance_binlog_pos :: "nat \<Rightarrow> nat \<Rightarrow> nat" where
  "advance_binlog_pos current event_log_pos = (if event_log_pos > 0 then event_log_pos else current)"

definition binlog_read_timeout :: "nat \<Rightarrow> nat \<Rightarrow> nat \<Rightarrow> nat option" where
  "binlog_read_timeout collected remaining poll_interval_ms =
     (if collected = 0 then Some poll_interval_ms
      else if remaining = 0 then None
      else Some (min remaining poll_interval_ms))"

fun from_le_bytes :: "nat list \<Rightarrow> nat" where
  "from_le_bytes [] = 0"
| "from_le_bytes (b # bs) = b + 256 * from_le_bytes bs"

definition parse_mariadb_gtid_event :: "nat \<Rightarrow> nat list \<Rightarrow> string option" where
  "parse_mariadb_gtid_event server_id data =
     (if length data < 13 then None
      else let sequence = from_le_bytes (take 8 data); domain_id = from_le_bytes (take 4 (drop 8 data))
           in Some (show_nat domain_id @ ''-'' @ show_nat server_id @ ''-'' @ show_nat sequence))"

definition ensure_active_tx :: "binlog_provider \<Rightarrow> binlog_provider \<times> nat \<times> bool" where
  "ensure_active_tx p =
     (case bp_active_tx_id p of
        Some t \<Rightarrow> (p, t, False)
      | None \<Rightarrow>
          (p\<lparr>bp_next_tx_id := sat_add64 (bp_next_tx_id p) 1, bp_active_tx_id := Some (bp_next_tx_id p)\<rparr>,
           bp_next_tx_id p, True))"

definition decode_mariadb_event :: "nat \<Rightarrow> nat \<Rightarrow> nat list \<Rightarrow> binlog_provider \<Rightarrow> binlog_provider \<times> mysql_message list result" where
  "decode_mariadb_event raw_event_type server_id data p =
     (if raw_event_type = 162
      then (case parse_mariadb_gtid_event server_id data of
              None \<Rightarrow> (p, Inl (SourceError ''mariadb GTID event payload is shorter than the 13-byte minimum''))
            | Some gtid \<Rightarrow> (p\<lparr>bp_active_gtid := Some gtid\<rparr>, Inr [MsgGtid gtid]))
      else if raw_event_type = 164
      then (p, Inl (Unrecoverable ''mariadb binlog encryption is enabled (START_ENCRYPTION_EVENT)''))
      else (p, Inr []))"

definition row_message :: "rows_kind \<Rightarrow> mysql_row_change \<Rightarrow> mysql_message" where
  "row_message k c =
     (case k of WriteRowsEvent \<Rightarrow> MsgWriteRows c | UpdateRowsEvent \<Rightarrow> MsgUpdateRows c | DeleteRowsEvent \<Rightarrow> MsgDeleteRows c)"

fun row_messages :: "rows_kind \<Rightarrow> mysql_row_change result list \<Rightarrow> mysql_message list result" where
  "row_messages k [] = Inr []"
| "row_messages k (Inl e # rs) = Inl e"
| "row_messages k (Inr c # rs) =
     (case row_messages k rs of Inl e \<Rightarrow> Inl e | Inr ms \<Rightarrow> Inr (row_message k c # ms))"

definition decode_query ::
    "'w binlog_env \<Rightarrow> string \<Rightarrow> nat \<Rightarrow> binlog_provider \<Rightarrow> binlog_provider \<times> mysql_message list" where
  "decode_query env statement timestamp_ms p =
     (if eq_ignore_ascii_case (trim statement) ''BEGIN''
      then (case ensure_active_tx p of (p', t, _) \<Rightarrow> (p', [MsgBegin t timestamp_ms]))
      else case be_ddl env statement of
             Some captured \<Rightarrow>
               (p, [MsgDdl (captured\<lparr>cd_ts := timestamp_ms\<rparr>) timestamp_ms (bp_binlog_file p) (bp_next_pos p)])
           | None \<Rightarrow>
               (case parse_truncate_target (be_upper env) statement of
                  None \<Rightarrow> (p, [])
                | Some (schema, table) \<Rightarrow>
                    (let msg = MsgTruncate schema table timestamp_ms (bp_binlog_file p) (bp_next_pos p)
                     in case bp_active_tx_id p of
                          None \<Rightarrow> (p, [msg])
                        | Some t \<Rightarrow>
                            (p\<lparr>bp_active_tx_id := None, bp_active_gtid := None\<rparr>,
                             [MsgXid t timestamp_ms (bp_binlog_file p) (bp_next_pos p) (bp_active_gtid p), msg]))))"

definition xid_tx :: "nat \<Rightarrow> binlog_provider \<Rightarrow> binlog_provider \<times> nat" where
  "xid_tx xid p =
     (case bp_active_tx_id p of
        Some t \<Rightarrow> (p\<lparr>bp_active_tx_id := None\<rparr>, t)
      | None \<Rightarrow>
          if xid = 0 then (p\<lparr>bp_next_tx_id := sat_add64 (bp_next_tx_id p) 1\<rparr>, bp_next_tx_id p)
          else (p, xid))"

definition decode_event_data ::
    "'w binlog_env \<Rightarrow> binlog_event \<Rightarrow> nat \<Rightarrow> binlog_provider \<Rightarrow> binlog_provider \<times> mysql_message list result" where
  "decode_event_data env data timestamp_ms p =
     (case data of
        QueryEvent statement \<Rightarrow> (case decode_query env statement timestamp_ms p of (p', ms) \<Rightarrow> (p', Inr ms))
      | RowsEvent k rows \<Rightarrow>
          (case ensure_active_tx p of
             (p', t, opened_here) \<Rightarrow>
               (p',
                case rows of
                  None \<Rightarrow> Inl (SourceError ''mysql rows event missing table map metadata'')
                | Some rs \<Rightarrow>
                    (case row_messages k rs of
                       Inl e \<Rightarrow> Inl e
                     | Inr ms \<Rightarrow> Inr ((if opened_here then [MsgBegin t timestamp_ms] else []) @ ms))))
      | XidEvent xid \<Rightarrow>
          (case xid_tx xid p of
             (p', t) \<Rightarrow>
               (p'\<lparr>bp_active_gtid := None\<rparr>,
                Inr [MsgXid t timestamp_ms (bp_binlog_file p) (bp_next_pos p) (bp_active_gtid p)]))
      | RotateEvent name position \<Rightarrow>
          (case sanitize_binlog_file_name name of
             Inl e \<Rightarrow> (p, Inl e)
           | Inr file \<Rightarrow>
               if position > u32_max
               then (p\<lparr>bp_binlog_file := file\<rparr>, Inl (SourceError ''mysql rotate position exceeds u32''))
               else (p\<lparr>bp_binlog_file := file, bp_next_pos := position\<rparr>, Inr [MsgRotate file position]))
      | GtidEvent sid gno \<Rightarrow>
          (p\<lparr>bp_active_gtid := Some (format_gtid sid gno)\<rparr>, Inr [MsgGtid (format_gtid sid gno)])
      | HeartbeatEvent \<Rightarrow> (p, Inr [MsgHeartbeat])
      | OtherEvent \<Rightarrow> (p, Inr []))"

text \<open>One event off the wire, header first.\<close>

definition decode_item :: "'w binlog_env \<Rightarrow> binlog_item \<Rightarrow> binlog_provider \<Rightarrow> binlog_provider \<times> mysql_message list result" where
  "decode_item env it p =
     (let p1 = p\<lparr>bp_next_pos := advance_binlog_pos (bp_next_pos p) (bi_log_pos it)\<rparr>
      in case bi_body it of
           Raw t data \<Rightarrow> decode_mariadb_event t (bi_server_id it) data p1
         | Known (Inl e) \<Rightarrow> (p1, Inl e)
         | Known (Inr None) \<Rightarrow> (p1, Inr [])
         | Known (Inr (Some ev)) \<Rightarrow> decode_event_data env ev (bi_timestamp it * 1000) p1)"

text \<open>An iteration of the read loop ends the poll on the left and goes round again on the right.\<close>

definition poll_iteration ::
    "'w binlog_env \<Rightarrow> nat \<Rightarrow> nat \<Rightarrow> mysql_message list \<Rightarrow> binlog_provider \<Rightarrow> 'w
     \<Rightarrow> (binlog_provider \<times> 'w \<times> mysql_message list result) + (mysql_message list \<times> binlog_provider \<times> 'w)" where
  "poll_iteration env max_events deadline out p w =
     (if length out < max_events
      then (case binlog_read_timeout (length out) (deadline - be_now env w) (bp_poll_interval_ms p) of
              None \<Rightarrow> Inl (p, w, Inr out)
            | Some t \<Rightarrow>
                (case be_read env t w of
                   (w1, TimedOut) \<Rightarrow> Inl (p, w1, Inr out)
                 | (w1, Closed) \<Rightarrow> Inl (p, w1, Inl (SourceError ''mysql replication stream closed unexpectedly''))
                 | (w1, Failed) \<Rightarrow> Inl (p, w1, Inl (SourceError ''mysql replication stream yielded error''))
                 | (w1, Arrived it) \<Rightarrow>
                     (case decode_item env it p of
                        (p1, Inl e) \<Rightarrow> Inl (p1, w1, Inl e)
                      | (p1, Inr ms) \<Rightarrow> Inr (out @ ms, p1, w1))))
      else Inl (p, w, Inr out))"

partial_function (option) poll_loop ::
    "'w binlog_env \<Rightarrow> nat \<Rightarrow> nat \<Rightarrow> mysql_message list \<Rightarrow> binlog_provider \<Rightarrow> 'w
     \<Rightarrow> (binlog_provider \<times> 'w \<times> mysql_message list result) option" where
  "poll_loop env max_events deadline out p w =
     (case poll_iteration env max_events deadline out p w of
        Inl r \<Rightarrow> Some r
      | Inr (out', p', w') \<Rightarrow> poll_loop env max_events deadline out' p' w')"

definition poll_events ::
    "'w binlog_env \<Rightarrow> nat \<Rightarrow> nat \<Rightarrow> binlog_provider \<Rightarrow> 'w \<Rightarrow> (binlog_provider \<times> 'w \<times> mysql_message list result) option" where
  "poll_events env max_events deadline p w =
     (if max_events = 0 then Some (p, w, Inr []) else poll_loop env max_events deadline [] p w)"

section \<open>The stream handle\<close>

record mysql_stream =
  mst_binlog_file :: string
  mst_binlog_pos :: nat
  mst_gtid :: string
  mst_state :: stream_state

record mysql_handle =
  mh_source_name :: string
  mh_stream :: mysql_stream
  mh_current_tx_id :: "nat option"
  mh_current_commit_ts :: nat
  mh_partial :: "event list"
  mh_requeued :: "event list"
  mh_events_polled :: nat
  mh_max_events_per_poll :: nat
  mh_poll_interval_ms :: nat
  mh_include :: "string list"
  mh_exclude :: "string list"

definition handle_new :: "string \<Rightarrow> mysql_stream \<Rightarrow> nat \<Rightarrow> nat \<Rightarrow> string list \<Rightarrow> string list \<Rightarrow> mysql_handle" where
  "handle_new name stream max_events interval include_list exclude_list =
     \<lparr>mh_source_name = name, mh_stream = stream, mh_current_tx_id = None, mh_current_commit_ts = 0,
      mh_partial = [], mh_requeued = [], mh_events_polled = 0, mh_max_events_per_poll = max max_events 1,
      mh_poll_interval_ms = max interval 1, mh_include = include_list, mh_exclude = exclude_list\<rparr>"

definition tx_meta :: "mysql_handle \<Rightarrow> transaction_metadata option" where
  "tx_meta h = map_option (\<lambda>t. \<lparr>tx_id = t, total_events = None, event_index = length (mh_partial h) mod 2 ^ 32\<rparr>) (mh_current_tx_id h)"

definition source_meta :: "mysql_handle \<Rightarrow> source_metadata" where
  "source_meta h =
     \<lparr>source_name = mh_source_name h,
      source_offset = mst_binlog_file (mh_stream h) @ '':'' @ show_nat (mst_binlog_pos (mh_stream h)),
      source_timestamp = mh_current_commit_ts h\<rparr>"

definition source_meta_at :: "mysql_handle \<Rightarrow> string \<Rightarrow> nat \<Rightarrow> nat \<Rightarrow> source_metadata" where
  "source_meta_at h file pos timestamp_ms =
     \<lparr>source_name = mh_source_name h, source_offset = format_mysql_source_offset file pos (mst_gtid (mh_stream h)),
      source_timestamp = timestamp_ms\<rparr>"

definition build_event :: "mysql_handle \<Rightarrow> operation \<Rightarrow> mysql_row_change \<Rightarrow> event" where
  "build_event h op change =
     \<lparr>ev_before = rc_before change, ev_after = rc_after change, ev_op = op, ev_source = source_meta h,
      ev_ts = mh_current_commit_ts h, ev_schema = rc_schema change, ev_table = rc_table change,
      ev_primary_key = rc_primary_key change, ev_snapshot = None, ev_transaction = tx_meta h,
      ev_envelope_version = envelope_version_const, ev_before_is_key_only = False,
      ev_unavailable_columns = [], ev_before_unavailable_columns = []\<rparr>"

text \<open>The loop over the held events of a transaction at its commit.\<close>

fun stamp :: "nat \<Rightarrow> nat \<Rightarrow> string \<Rightarrow> nat \<Rightarrow> event list \<Rightarrow> event list" where
  "stamp total_count timestamp_ms off i [] = []"
| "stamp total_count timestamp_ms off i (e # es) =
     e\<lparr>ev_transaction := map_option (\<lambda>t. t\<lparr>total_events := Some total_count, event_index := i mod 2 ^ 32\<rparr>) (ev_transaction e),
       ev_ts := timestamp_ms,
       ev_source := (ev_source e)\<lparr>source_timestamp := timestamp_ms, source_offset := off\<rparr>\<rparr>
     # stamp total_count timestamp_ms off (Suc i) es"

definition commit_current_transaction ::
    "nat \<Rightarrow> nat \<Rightarrow> string \<Rightarrow> nat \<Rightarrow> string option \<Rightarrow> mysql_handle \<Rightarrow> mysql_handle \<times> event list" where
  "commit_current_transaction t timestamp_ms file pos gtid h =
     (let effective_gtid = (case gtid of Some g \<Rightarrow> g | None \<Rightarrow> mst_gtid (mh_stream h));
          total_count = length (mh_partial h) mod 2 ^ 32
      in (h\<lparr>mh_stream := (mh_stream h)\<lparr>mst_binlog_file := file, mst_binlog_pos := pos, mst_gtid := effective_gtid\<rparr>,
            mh_events_polled := sat_add64 (mh_events_polled h) total_count,
            mh_current_tx_id := None, mh_current_commit_ts := 0, mh_partial := []\<rparr>,
          stamp total_count timestamp_ms (format_mysql_source_offset file pos effective_gtid) 0 (mh_partial h)))"

definition allowed :: "mysql_handle \<Rightarrow> string option \<Rightarrow> string \<Rightarrow> bool" where
  "allowed h schema table = table_is_allowed schema table (mh_include h) (mh_exclude h)"

definition hold_row :: "operation \<Rightarrow> mysql_row_change \<Rightarrow> mysql_handle \<Rightarrow> mysql_handle" where
  "hold_row op change h =
     (if allowed h (rc_schema change) (rc_table change) then h\<lparr>mh_partial := mh_partial h @ [build_event h op change]\<rparr> else h)"

text \<open>A statement that commits implicitly ends the transaction before it.\<close>

definition implicit_commit :: "nat \<Rightarrow> string \<Rightarrow> nat \<Rightarrow> mysql_handle \<Rightarrow> mysql_handle \<times> event list" where
  "implicit_commit timestamp_ms file pos h =
     (if mh_partial h = [] then (h, [])
      else case mh_current_tx_id h of
             Some t \<Rightarrow> commit_current_transaction t timestamp_ms file pos None h
           | None \<Rightarrow> (h\<lparr>mh_partial := []\<rparr>, []))"

definition set_position :: "string \<Rightarrow> nat \<Rightarrow> mysql_handle \<Rightarrow> mysql_handle" where
  "set_position file pos h = h\<lparr>mh_stream := (mh_stream h)\<lparr>mst_binlog_file := file, mst_binlog_pos := pos\<rparr>\<rparr>"

definition count_event :: "mysql_handle \<Rightarrow> mysql_handle" where
  "count_event h = h\<lparr>mh_events_polled := sat_add64 (mh_events_polled h) 1\<rparr>"

definition truncate_event :: "mysql_handle \<Rightarrow> string option \<Rightarrow> string \<Rightarrow> nat \<Rightarrow> string \<Rightarrow> nat \<Rightarrow> event" where
  "truncate_event h schema table timestamp_ms file pos =
     \<lparr>ev_before = None, ev_after = None, ev_op = Truncate, ev_source = source_meta_at h file pos timestamp_ms,
      ev_ts = timestamp_ms, ev_schema = schema, ev_table = table, ev_primary_key = None, ev_snapshot = None,
      ev_transaction = None, ev_envelope_version = envelope_version_const, ev_before_is_key_only = False,
      ev_unavailable_columns = [], ev_before_unavailable_columns = []\<rparr>"

definition process_message :: "ddl_codec \<Rightarrow> mysql_message \<Rightarrow> mysql_handle \<Rightarrow> mysql_handle \<times> event list" where
  "process_message codec m h =
     (case m of
        MsgBegin t timestamp_ms \<Rightarrow>
          (h\<lparr>mh_current_tx_id := Some t, mh_current_commit_ts := timestamp_ms, mh_partial := []\<rparr>, [])
      | MsgWriteRows c \<Rightarrow> (hold_row Insert c h, [])
      | MsgUpdateRows c \<Rightarrow> (hold_row Update c h, [])
      | MsgDeleteRows c \<Rightarrow> (hold_row Delete c h, [])
      | MsgXid t timestamp_ms file pos gtid \<Rightarrow> commit_current_transaction t timestamp_ms file pos gtid h
      | MsgRotate file pos \<Rightarrow> (set_position file pos h, [])
      | MsgGtid gtid \<Rightarrow>
          (h\<lparr>mh_stream := (mh_stream h)\<lparr>mst_gtid := merge_gtid_into_set (mst_gtid (mh_stream h)) gtid\<rparr>\<rparr>, [])
      | MsgDdl captured timestamp_ms file pos \<Rightarrow>
          (case implicit_commit timestamp_ms file pos h of
             (h1, es) \<Rightarrow>
               (let h2 = set_position file pos h1
                in if allowed h2 (Some (cd_schema captured)) (cd_table captured)
                   then (count_event h2,
                         es @ [to_event codec captured (mh_source_name h2)
                                 (format_mysql_source_offset file pos (mst_gtid (mh_stream h2))) timestamp_ms])
                   else (h2, es)))
      | MsgTruncate schema table timestamp_ms file pos \<Rightarrow>
          (case implicit_commit timestamp_ms file pos h of
             (h1, es) \<Rightarrow>
               (let h2 = set_position file pos h1
                in if allowed h2 schema table
                   then (count_event h2, es @ [truncate_event h2 schema table timestamp_ms file pos])
                   else (h2, es)))
      | MsgHeartbeat \<Rightarrow> (h, []))"

fun process_messages :: "ddl_codec \<Rightarrow> mysql_message list \<Rightarrow> mysql_handle \<Rightarrow> mysql_handle \<times> event list" where
  "process_messages codec [] h = (h, [])"
| "process_messages codec (m # ms) h =
     (case process_message codec m h of
        (h1, es) \<Rightarrow> (case process_messages codec ms h1 of (h2, es') \<Rightarrow> (h2, es @ es')))"

definition mysql_next_iteration ::
    "'w binlog_env \<Rightarrow> nat \<Rightarrow> nat \<Rightarrow> nat \<Rightarrow> binlog_provider \<Rightarrow> mysql_handle \<Rightarrow> 'w
     \<Rightarrow> ((binlog_provider \<times> mysql_handle \<times> 'w \<times> event list result) + (binlog_provider \<times> mysql_handle \<times> 'w)) option" where
  "mysql_next_iteration env timeout_ms started deadline p h w =
     (case poll_events env (mh_max_events_per_poll h) deadline p w of
        None \<Rightarrow> None
      | Some (p1, w1, Inl e) \<Rightarrow> Some (Inl (p1, h, w1, Inl e))
      | Some (p1, w1, Inr ms) \<Rightarrow>
          (case process_messages (be_codec env) ms h of
             (h1, es) \<Rightarrow>
               if es \<noteq> [] then Some (Inl (p1, h1, w1, Inr es))
               else if timeout_ms = 0 \<or> timeout_ms \<le> be_now env w1 - started then Some (Inl (p1, h1, w1, Inr []))
               else Some (Inr (p1, h1,
                      be_sleep env (min (mh_poll_interval_ms h1) (timeout_ms - (be_now env w1 - started))) w1))))"

partial_function (option) mysql_next_loop ::
    "'w binlog_env \<Rightarrow> nat \<Rightarrow> nat \<Rightarrow> nat \<Rightarrow> binlog_provider \<Rightarrow> mysql_handle \<Rightarrow> 'w
     \<Rightarrow> (binlog_provider \<times> mysql_handle \<times> 'w \<times> event list result) option" where
  "mysql_next_loop env timeout_ms started deadline p h w =
     (case mysql_next_iteration env timeout_ms started deadline p h w of
        None \<Rightarrow> None
      | Some (Inl r) \<Rightarrow> Some r
      | Some (Inr (p', h', w')) \<Rightarrow> mysql_next_loop env timeout_ms started deadline p' h' w')"

definition mysql_next_events ::
    "'w binlog_env \<Rightarrow> nat \<Rightarrow> binlog_provider \<Rightarrow> mysql_handle \<Rightarrow> 'w
     \<Rightarrow> (binlog_provider \<times> mysql_handle \<times> 'w \<times> event list result) option" where
  "mysql_next_events env timeout_ms p h w =
     (if mst_state (mh_stream h) \<noteq> Streaming
      then Some (p, h, w, Inl (StateError ''mysql stream polling requested while stream is not running''))
      else if mh_requeued h \<noteq> [] then Some (p, h\<lparr>mh_requeued := []\<rparr>, w, Inr (mh_requeued h))
      else mysql_next_loop env timeout_ms (be_now env w)
             (be_now env w + (if timeout_ms = 0 then mh_poll_interval_ms h else timeout_ms)) p h w)"

definition mysql_position_offset :: "mysql_handle \<Rightarrow> offset" where
  "mysql_position_offset h =
     mysql_offset (mh_source_name h) (mst_binlog_file (mh_stream h)) (mst_binlog_pos (mh_stream h)) (mst_gtid (mh_stream h)) None"

definition mysql_save_position :: "(offset \<Rightarrow> nat \<Rightarrow> 'c \<Rightarrow> 'c \<times> unit result) \<Rightarrow> mysql_handle \<Rightarrow> 'c \<Rightarrow> 'c \<times> unit result" where
  "mysql_save_position save h c = save (mysql_position_offset h) (mh_events_polled h) c"

definition mysql_requeue_events :: "event list \<Rightarrow> mysql_handle \<Rightarrow> mysql_handle" where
  "mysql_requeue_events events h = h\<lparr>mh_requeued := mh_requeued h @ events\<rparr>"

section \<open>Batching does not matter\<close>

text \<open>What a poll reads off the wire: the items that arrived between two states of the client.\<close>

inductive wire :: "'w binlog_env \<Rightarrow> 'w \<Rightarrow> binlog_item list \<Rightarrow> 'w \<Rightarrow> bool" for env where
  wire_refl: "wire env w [] w"
| wire_item: "be_read env t w = (w1, Arrived it) \<Longrightarrow> wire env w1 its w2 \<Longrightarrow> wire env w (it # its) w2"
| wire_quiet: "be_read env t w = (w1, TimedOut) \<Longrightarrow> wire env w1 its w2 \<Longrightarrow> wire env w its w2"
| wire_sleep: "wire env (be_sleep env n w) its w2 \<Longrightarrow> wire env w its w2"

fun decode_items :: "'w binlog_env \<Rightarrow> binlog_item list \<Rightarrow> binlog_provider \<Rightarrow> binlog_provider \<times> mysql_message list result" where
  "decode_items env [] p = (p, Inr [])"
| "decode_items env (it # its) p =
     (case decode_item env it p of
        (p1, Inl e) \<Rightarrow> (p1, Inl e)
      | (p1, Inr ms) \<Rightarrow>
          (case decode_items env its p1 of
             (p2, Inl e) \<Rightarrow> (p2, Inl e)
           | (p2, Inr ms') \<Rightarrow> (p2, Inr (ms @ ms'))))"

lemma wire_trans: "wire env w its w1 \<Longrightarrow> wire env w1 its' w2 \<Longrightarrow> wire env w (its @ its') w2"
  by (induction rule: wire.induct) (auto intro: wire.intros)

lemma decode_items_append:
  "decode_items env its p = (p1, Inr ms) \<Longrightarrow> decode_items env its' p1 = (p2, Inr ms') \<Longrightarrow>
     decode_items env (its @ its') p = (p2, Inr (ms @ ms'))"
  by (induction its arbitrary: p ms) (auto split: prod.splits sum.splits)

lemma process_messages_append:
  "process_messages codec (ms @ ms') h =
     (case process_messages codec ms h of
        (h1, es) \<Rightarrow> (case process_messages codec ms' h1 of (h2, es') \<Rightarrow> (h2, es @ es')))"
  by (induction ms arbitrary: h) (auto split: prod.splits)

lemma poll_iteration_done:
  "poll_iteration env max_events deadline out p w = Inl (p', w', Inr ms) \<Longrightarrow> ms = out \<and> p' = p \<and> wire env w [] w'"
  by (auto simp: poll_iteration_def split: if_splits option.splits prod.splits binlog_read.splits sum.splits
      intro: wire.intros)

lemma poll_iteration_read:
  "poll_iteration env max_events deadline out p w = Inr (out', p', w') \<Longrightarrow>
     \<exists>t it ms. be_read env t w = (w', Arrived it) \<and> decode_item env it p = (p', Inr ms) \<and> out' = out @ ms"
  by (auto simp: poll_iteration_def split: if_splits option.splits prod.splits binlog_read.splits sum.splits)

lemma poll_iteration_again:
  assumes "poll_iteration env max_events deadline out p w = Inr (out', p', w')"
  shows "\<exists>it ms. wire env w [it] w' \<and> decode_items env [it] p = (p', Inr ms) \<and> out' = out @ ms"
proof -
  from poll_iteration_read [OF assms] obtain t it ms where
    "be_read env t w = (w', Arrived it)" "decode_item env it p = (p', Inr ms)" "out' = out @ ms" by blast
  then show ?thesis by (intro exI [of _ it] exI [of _ ms]) (auto intro: wire.intros)
qed

lemma poll_loop_wire:
  assumes "poll_loop env max_events deadline out p w = Some y"
  shows "\<forall>p' w' ms. y = (p', w', Inr ms) \<longrightarrow>
     (\<exists>its ms'. wire env w its w' \<and> decode_items env its p = (p', Inr ms') \<and> ms = out @ ms')"
proof (rule poll_loop.raw_induct [OF _ assms, where P = "\<lambda>env max_events deadline out p w y. \<forall>p' w' ms. y = (p', w', Inr ms) \<longrightarrow>
     (\<exists>its ms'. wire env w its w' \<and> decode_items env its p = (p', Inr ms') \<and> ms = out @ ms')"])
  fix loop :: "'w binlog_env \<Rightarrow> nat \<Rightarrow> nat \<Rightarrow> mysql_message list \<Rightarrow> binlog_provider \<Rightarrow> 'w
     \<Rightarrow> (binlog_provider \<times> 'w \<times> mysql_message list result) option"
  fix env max_events deadline out p w y
  assume ih: "\<And>env max_events deadline out p w y. loop env max_events deadline out p w = Some y \<Longrightarrow>
      \<forall>p' w' ms. y = (p', w', Inr ms) \<longrightarrow> (\<exists>its ms'. wire env w its w' \<and> decode_items env its p = (p', Inr ms') \<and> ms = out @ ms')"
    and body: "(case poll_iteration env max_events deadline out p w of
        Inl r \<Rightarrow> Some r | Inr (out', p', w') \<Rightarrow> loop env max_events deadline out' p' w') = Some y"
  show "\<forall>p' w' ms. y = (p', w', Inr ms) \<longrightarrow> (\<exists>its ms'. wire env w its w' \<and> decode_items env its p = (p', Inr ms') \<and> ms = out @ ms')"
  proof (intro allI impI)
    fix p' w' ms assume y: "y = (p', w', Inr ms)"
    show "\<exists>its ms'. wire env w its w' \<and> decode_items env its p = (p', Inr ms') \<and> ms = out @ ms'"
    proof (cases "poll_iteration env max_events deadline out p w")
      case (Inl r)
      with body y have "poll_iteration env max_events deadline out p w = Inl (p', w', Inr ms)" by simp
      from poll_iteration_done [OF this] show ?thesis by (intro exI [of _ "[]"]) auto
    next
      case (Inr r)
      obtain out1 p1 w1 where r: "r = (out1, p1, w1)" by (cases r)
      from poll_iteration_again [OF Inr [unfolded r]] obtain it ms1 where
        one: "wire env w [it] w1" "decode_items env [it] p = (p1, Inr ms1)" "out1 = out @ ms1" by blast
      have "loop env max_events deadline out1 p1 w1 = Some y" using body Inr r by simp
      from ih [OF this] y obtain its ms2 where
        two: "wire env w1 its w'" "decode_items env its p1 = (p', Inr ms2)" "ms = out1 @ ms2" by blast
      from wire_trans [OF one(1) two(1)] decode_items_append [OF one(2) two(2)] one(3) two(3)
      show ?thesis by (metis append.assoc)
    qed
  qed
qed

lemma poll_events_wire:
  assumes "poll_events env max_events deadline p w = Some (p', w', Inr ms)"
  shows "\<exists>its. wire env w its w' \<and> decode_items env its p = (p', Inr ms)"
proof (cases "max_events = 0")
  case True
  with assms show ?thesis by (auto simp: poll_events_def intro!: exI [of _ "[]"] wire_refl)
next
  case False
  with assms poll_loop_wire [of env max_events deadline "[]" p w] show ?thesis by (auto simp: poll_events_def)
qed

definition next_ok :: "'w binlog_env \<Rightarrow> binlog_provider \<Rightarrow> mysql_handle \<Rightarrow> 'w \<Rightarrow> binlog_provider \<times> mysql_handle \<times> 'w \<times> event list \<Rightarrow> bool" where
  "next_ok env p h w = (\<lambda>(p', h', w', es).
     \<exists>its ms. wire env w its w' \<and> decode_items env its p = (p', Inr ms) \<and> process_messages (be_codec env) ms h = (h', es))"

lemma next_ok_trans:
  assumes "next_ok env p h w (p1, h1, w1, es)" "next_ok env p1 h1 w1 (p2, h2, w2, es')"
  shows "next_ok env p h w (p2, h2, w2, es @ es')"
  using assms unfolding next_ok_def
  by (fastforce simp: process_messages_append intro: wire_trans decode_items_append)

lemma mysql_next_iteration_ok:
  assumes "mysql_next_iteration env timeout_ms started deadline p h w = Some r"
  shows "case r of
      Inl (p', h', w', Inr es) \<Rightarrow> next_ok env p h w (p', h', w', es)
    | Inl (p', h', w', Inl e) \<Rightarrow> True
    | Inr (p', h', w') \<Rightarrow> next_ok env p h w (p', h', w', [])"
proof -
  obtain p1 w1 q where poll: "poll_events env (mh_max_events_per_poll h) deadline p w = Some (p1, w1, q)"
    using assms by (cases "poll_events env (mh_max_events_per_poll h) deadline p w") (auto simp: mysql_next_iteration_def)
  show ?thesis
  proof (cases q)
    case (Inl e)
    with assms poll show ?thesis by (auto simp: mysql_next_iteration_def)
  next
    case (Inr ms)
    with poll_events_wire [of env "mh_max_events_per_poll h" deadline p w p1 w1 ms] poll obtain its where its: "wire env w its w1" "decode_items env its p = (p1, Inr ms)" by auto
    moreover have "wire env w its (be_sleep env n w1)" for n
      using wire_trans [OF its(1) wire_sleep [OF wire_refl]] by simp
    ultimately show ?thesis
      using assms poll Inr by (auto simp: mysql_next_iteration_def next_ok_def split: prod.splits if_splits) blast+
  qed
qed

lemma mysql_next_loop_ok:
  assumes "mysql_next_loop env timeout_ms started deadline p h w = Some y"
  shows "\<forall>p' h' w' es. y = (p', h', w', Inr es) \<longrightarrow> next_ok env p h w (p', h', w', es)"
proof (rule mysql_next_loop.raw_induct [OF _ assms, where P = "\<lambda>env timeout_ms started deadline p h w y.
    \<forall>p' h' w' es. y = (p', h', w', Inr es) \<longrightarrow> next_ok env p h w (p', h', w', es)"])
  fix loop :: "'w binlog_env \<Rightarrow> nat \<Rightarrow> nat \<Rightarrow> nat \<Rightarrow> binlog_provider \<Rightarrow> mysql_handle \<Rightarrow> 'w
     \<Rightarrow> (binlog_provider \<times> mysql_handle \<times> 'w \<times> event list result) option"
  fix env timeout_ms started deadline p h w y
  assume ih: "\<And>env timeout_ms started deadline p h w y. loop env timeout_ms started deadline p h w = Some y \<Longrightarrow>
      \<forall>p' h' w' es. y = (p', h', w', Inr es) \<longrightarrow> next_ok env p h w (p', h', w', es)"
    and body: "(case mysql_next_iteration env timeout_ms started deadline p h w of
        None \<Rightarrow> None | Some (Inl r) \<Rightarrow> Some r
      | Some (Inr (p', h', w')) \<Rightarrow> loop env timeout_ms started deadline p' h' w') = Some y"
  obtain r where r: "mysql_next_iteration env timeout_ms started deadline p h w = Some r"
    using body by (cases "mysql_next_iteration env timeout_ms started deadline p h w") auto
  show "\<forall>p' h' w' es. y = (p', h', w', Inr es) \<longrightarrow> next_ok env p h w (p', h', w', es)"
  proof (cases r)
    case (Inl x)
    with mysql_next_iteration_ok [OF r] body r show ?thesis by auto
  next
    case (Inr x)
    obtain p1 h1 w1 where x: "x = (p1, h1, w1)" by (cases x)
    with mysql_next_iteration_ok [OF r] Inr have "next_ok env p h w (p1, h1, w1, [])" by simp
    moreover have "loop env timeout_ms started deadline p1 h1 w1 = Some y" using body r Inr x by simp
    note ih [OF this]
    ultimately show ?thesis using next_ok_trans [of env p h w p1 h1 w1 "[]"] by fastforce
  qed
qed

text \<open>A run of successful polls, and the events they returned.\<close>

inductive mysql_polls :: "'w binlog_env \<Rightarrow> binlog_provider \<times> mysql_handle \<times> 'w \<Rightarrow> event list \<Rightarrow> binlog_provider \<times> mysql_handle \<times> 'w \<Rightarrow> bool"
  for env where
  polls_none: "mysql_polls env s [] s"
| polls_more: "mysql_next_events env t p h w = Some (p1, h1, w1, Inr es) \<Longrightarrow> mysql_polls env (p1, h1, w1) es' s \<Longrightarrow>
    mysql_polls env (p, h, w) (es @ es') s"

definition same_config :: "mysql_handle \<Rightarrow> mysql_handle \<Rightarrow> bool" where
  "same_config h h' \<longleftrightarrow> mh_source_name h' = mh_source_name h \<and> mh_requeued h' = mh_requeued h
     \<and> mh_include h' = mh_include h \<and> mh_exclude h' = mh_exclude h"

lemma process_message_config: "process_message codec m h = (h', es) \<Longrightarrow> same_config h h'"
  by (auto simp: process_message_def same_config_def hold_row_def commit_current_transaction_def implicit_commit_def
      set_position_def count_event_def Let_def split: mysql_message.splits if_splits option.splits prod.splits)

lemma process_messages_config: "process_messages codec ms h = (h', es) \<Longrightarrow> same_config h h'"
  by (induction ms arbitrary: h h' es)
    (auto simp: same_config_def split: prod.splits dest!: process_message_config)

lemma polls_ok:
  assumes "mysql_polls env s es s'" "s = (p, h, w)" "mh_requeued h = []"
  shows "case s' of (p', h', w') \<Rightarrow> next_ok env p h w (p', h', w', es)"
  using assms
proof (induction arbitrary: p h w rule: mysql_polls.induct)
  case (polls_none s)
  then show ?case by (auto simp: next_ok_def intro!: exI [of _ "[]"] wire_refl)
next
  case (polls_more t p0 h0 w0 p1 h1 w1 es es' s)
  then have s: "p0 = p" "h0 = h" "w0 = w" and q: "mh_requeued h = []" by auto
  from polls_more.hyps(1) q have "mysql_next_loop env t (be_now env w)
      (be_now env w + (if t = 0 then mh_poll_interval_ms h else t)) p h w = Some (p1, h1, w1, Inr es)"
    unfolding s by (auto simp: mysql_next_events_def split: if_splits)
  from mysql_next_loop_ok [OF this] have one: "next_ok env p h w (p1, h1, w1, es)" by simp
  then have "mh_requeued h1 = []" using q by (auto simp: next_ok_def same_config_def dest!: process_messages_config)
  from polls_more.IH [OF refl this] one show ?case by (auto intro: next_ok_trans)
qed

end
