(* ===== verification/Mysql_Delivery.thy ===== *)
theory Mysql_Delivery
  imports Mysql_Stream
begin

text \<open>
  What the MySQL stream delivers for a log the server writes: every transaction whole, in commit
  order, at its commit position, however the polls cut the log. Then the cases in which it does not:
  positions that are ahead of delivery or forget history, and transactions without a commit event.
\<close>

section \<open>Transactions\<close>

text \<open>
  A log as the server writes it: transactions, each an optional GTID event, a BEGIN statement, rows
  events and a commit event, with events of no interest in between, and rotations to a new file.
\<close>

definition noise :: "binlog_item \<Rightarrow> bool" where
  "noise it \<longleftrightarrow>
     (case bi_body it of
        Known (Inr None) \<Rightarrow> True
      | Known (Inr (Some OtherEvent)) \<Rightarrow> True
      | Known (Inr (Some HeartbeatEvent)) \<Rightarrow> True
      | Raw t _ \<Rightarrow> t \<noteq> 162 \<and> t \<noteq> 164
      | _ \<Rightarrow> False)"

definition rows_op :: "rows_kind \<Rightarrow> operation" where
  "rows_op k = (case k of WriteRowsEvent \<Rightarrow> Insert | UpdateRowsEvent \<Rightarrow> Update | DeleteRowsEvent \<Rightarrow> Delete)"

definition item_rows :: "binlog_item \<Rightarrow> (operation \<times> mysql_row_change) list" where
  "item_rows it =
     (case bi_body it of
        Known (Inr (Some (RowsEvent k (Some rs)))) \<Rightarrow> map (\<lambda>r. (rows_op k, projr r)) rs
      | _ \<Rightarrow> [])"

definition rows_item :: "binlog_item \<Rightarrow> bool" where
  "rows_item it \<longleftrightarrow>
     (case bi_body it of
        Known (Inr (Some (RowsEvent k (Some rs)))) \<Rightarrow> list_all (\<lambda>r. \<not> isl r) rs
      | _ \<Rightarrow> False)"

record log_tx =
  lt_before :: "binlog_item list"
  lt_gtid :: "binlog_item option"
  lt_begin :: binlog_item
  lt_body :: "binlog_item list"
  lt_commit :: binlog_item

datatype log_unit = LogTx log_tx | LogRotate binlog_item

definition gtid_of :: "binlog_item \<Rightarrow> string option" where
  "gtid_of it = (case bi_body it of Known (Inr (Some (GtidEvent sid gno))) \<Rightarrow> Some (format_gtid sid gno) | _ \<Rightarrow> None)"

definition is_begin :: "binlog_item \<Rightarrow> bool" where
  "is_begin it \<longleftrightarrow> (case bi_body it of Known (Inr (Some (QueryEvent q))) \<Rightarrow> eq_ignore_ascii_case (trim q) ''BEGIN'' | _ \<Rightarrow> False)"

definition is_commit :: "binlog_item \<Rightarrow> bool" where
  "is_commit it \<longleftrightarrow> (case bi_body it of Known (Inr (Some (XidEvent x))) \<Rightarrow> True | _ \<Rightarrow> False)"

definition rotation_of :: "binlog_item \<Rightarrow> (string \<times> nat) option" where
  "rotation_of it =
     (case bi_body it of
        Known (Inr (Some (RotateEvent name pos))) \<Rightarrow>
          (case sanitize_binlog_file_name name of
             Inr file \<Rightarrow> if pos \<le> u32_max then Some (file, pos) else None
           | Inl _ \<Rightarrow> None)
      | _ \<Rightarrow> None)"

definition opened :: "log_tx \<Rightarrow> binlog_item list" where
  "opened t = lt_before t @ (case lt_gtid t of Some g \<Rightarrow> [g] | None \<Rightarrow> []) @ [lt_begin t] @ lt_body t"

definition unit_items :: "log_unit \<Rightarrow> binlog_item list" where
  "unit_items u = (case u of LogTx t \<Rightarrow> opened t @ [lt_commit t] | LogRotate it \<Rightarrow> [it])"

definition tx_wf :: "log_tx \<Rightarrow> bool" where
  "tx_wf t \<longleftrightarrow> list_all noise (lt_before t) \<and> pred_option (\<lambda>g. gtid_of g \<noteq> None) (lt_gtid t) \<and> is_begin (lt_begin t)
     \<and> list_all (\<lambda>it. noise it \<or> rows_item it) (lt_body t) \<and> is_commit (lt_commit t)"

definition unit_wf :: "log_unit \<Rightarrow> bool" where
  "unit_wf u \<longleftrightarrow> (case u of LogTx t \<Rightarrow> tx_wf t | LogRotate it \<Rightarrow> rotation_of it \<noteq> None)"

text \<open>What a consumer is promised for a log: the rows of each transaction it may see, at the commit.\<close>

record log_state =
  ls_file :: string
  ls_pos :: nat
  ls_next_tx :: nat
  ls_gtid :: string

definition row_event :: "string \<Rightarrow> string \<Rightarrow> nat \<Rightarrow> nat \<Rightarrow> nat option \<Rightarrow> nat \<Rightarrow> operation \<Rightarrow> mysql_row_change \<Rightarrow> event" where
  "row_event name off ts t n i op c =
     \<lparr>ev_before = rc_before c, ev_after = rc_after c, ev_op = op,
      ev_source = \<lparr>source_name = name, source_offset = off, source_timestamp = ts\<rparr>,
      ev_ts = ts, ev_schema = rc_schema c, ev_table = rc_table c, ev_primary_key = rc_primary_key c,
      ev_snapshot = None, ev_transaction = Some \<lparr>tx_id = t, total_events = n, event_index = i\<rparr>,
      ev_envelope_version = envelope_version_const, ev_before_is_key_only = False,
      ev_unavailable_columns = [], ev_before_unavailable_columns = []\<rparr>"

definition tx_rows :: "mysql_handle \<Rightarrow> binlog_item list \<Rightarrow> (operation \<times> mysql_row_change) list" where
  "tx_rows cfg its = filter (\<lambda>(_, c). allowed cfg (rc_schema c) (rc_table c)) (concat (map item_rows its))"

definition end_pos :: "nat \<Rightarrow> binlog_item list \<Rightarrow> nat" where
  "end_pos pos its = foldl (\<lambda>c it. advance_binlog_pos c (bi_log_pos it)) pos its"

definition unit_gtid :: "string \<Rightarrow> log_tx \<Rightarrow> string" where
  "unit_gtid before t = (case Option.bind (lt_gtid t) gtid_of of Some g \<Rightarrow> g | None \<Rightarrow> before)"

definition tx_events :: "mysql_handle \<Rightarrow> string \<Rightarrow> nat \<Rightarrow> string \<Rightarrow> nat \<Rightarrow> log_tx \<Rightarrow> event list" where
  "tx_events cfg file pos gtid n t =
     (let rows = tx_rows cfg (lt_body t)
      in map (\<lambda>(i, (op, c)).
                row_event (mh_source_name cfg) (format_mysql_source_offset file pos gtid)
                  (bi_timestamp (lt_commit t) * 1000) n (Some (length rows mod 2 ^ 32)) (i mod 2 ^ 32) op c)
           (enumerate 0 rows))"

definition deliver_unit :: "mysql_handle \<Rightarrow> log_state \<Rightarrow> log_unit \<Rightarrow> log_state \<times> event list" where
  "deliver_unit cfg st u =
     (case u of
        LogRotate it \<Rightarrow> (case rotation_of it of Some (file, pos) \<Rightarrow> (st\<lparr>ls_file := file, ls_pos := pos\<rparr>, []) | None \<Rightarrow> (st, []))
      | LogTx t \<Rightarrow>
          (let pos = end_pos (ls_pos st) (unit_items u); gtid = unit_gtid (ls_gtid st) t
           in (st\<lparr>ls_pos := pos, ls_next_tx := sat_add64 (ls_next_tx st) 1, ls_gtid := gtid\<rparr>,
               tx_events cfg (ls_file st) pos gtid (ls_next_tx st) t)))"

fun deliver_log :: "mysql_handle \<Rightarrow> log_state \<Rightarrow> log_unit list \<Rightarrow> log_state \<times> event list" where
  "deliver_log cfg st [] = (st, [])"
| "deliver_log cfg st (u # us) =
     (case deliver_unit cfg st u of
        (st1, es) \<Rightarrow> (case deliver_log cfg st1 us of (st2, es') \<Rightarrow> (st2, es @ es')))"

section \<open>Items and the two machines\<close>

text \<open>The provider and the handle driven by items of the log.\<close>

definition drive_items ::
    "'w binlog_env \<Rightarrow> binlog_item list \<Rightarrow> binlog_provider \<times> mysql_handle \<Rightarrow> (binlog_provider \<times> mysql_handle \<times> event list) option" where
  "drive_items env its s =
     (case decode_items env its (fst s) of
        (p, Inl e) \<Rightarrow> None
      | (p, Inr ms) \<Rightarrow> (case process_messages (be_codec env) ms (snd s) of (h, es) \<Rightarrow> Some (p, h, es)))"

lemma drive_items_append:
  assumes "drive_items env its (p, h) = Some (p1, h1, es)" "drive_items env its' (p1, h1) = Some (p2, h2, es')"
  shows "drive_items env (its @ its') (p, h) = Some (p2, h2, es @ es')"
proof -
  obtain ms where a: "decode_items env its p = (p1, Inr ms)" "process_messages (be_codec env) ms h = (h1, es)"
    using assms(1) by (auto simp: drive_items_def split: prod.splits sum.splits)
  obtain ms' where b: "decode_items env its' p1 = (p2, Inr ms')" "process_messages (be_codec env) ms' h1 = (h2, es')"
    using assms(2) by (auto simp: drive_items_def split: prod.splits sum.splits)
  show ?thesis
    using decode_items_append [OF a(1) b(1)] by (simp add: drive_items_def process_messages_append a(2) b(2))
qed

lemma drive_items_Nil [simp]: "drive_items env [] (p, h) = Some (p, h, [])"
  by (simp add: drive_items_def)

lemma drive_items_Cons:
  "drive_items env [it] (p, h) = Some (p1, h1, es) \<Longrightarrow> drive_items env its (p1, h1) = Some (p2, h2, es') \<Longrightarrow>
     drive_items env (it # its) (p, h) = Some (p2, h2, es @ es')"
  using drive_items_append [of env "[it]" p h p1 h1 es its p2 h2 es'] by simp

lemma next_ok_drive:
  "next_ok env p h w (p', h', w', es) \<Longrightarrow> \<exists>its. wire env w its w' \<and> drive_items env its (p, h) = Some (p', h', es)"
  by (force simp: next_ok_def drive_items_def)

abbreviation moved :: "binlog_item \<Rightarrow> binlog_provider \<Rightarrow> binlog_provider" where
  "moved it p \<equiv> p\<lparr>bp_next_pos := advance_binlog_pos (bp_next_pos p) (bi_log_pos it)\<rparr>"

lemma drive_noise: "noise it \<Longrightarrow> drive_items env [it] (p, h) = Some (moved it p, h, [])"
  by (auto simp: drive_items_def noise_def decode_item_def decode_event_data_def decode_mariadb_event_def process_message_def
      split: binlog_body.splits sum.splits option.splits binlog_event.splits)

lemma end_pos_simps [simp]:
  "end_pos pos [] = pos" "end_pos pos (it # its) = end_pos (advance_binlog_pos pos (bi_log_pos it)) its"
  "end_pos pos (its @ its') = end_pos (end_pos pos its) its'"
  by (simp_all add: end_pos_def)

lemma drive_noises:
  "list_all noise its \<Longrightarrow> drive_items env its (p, h) = Some (p\<lparr>bp_next_pos := end_pos (bp_next_pos p) its\<rparr>, h, [])"
proof (induction its arbitrary: p)
  case (Cons it its)
  then show ?case using drive_items_Cons [OF drive_noise] by fastforce
qed simp

lemma drive_gtid:
  "gtid_of it = Some g \<Longrightarrow> drive_items env [it] (p, h) =
     Some ((moved it p)\<lparr>bp_active_gtid := Some g\<rparr>,
       h\<lparr>mh_stream := (mh_stream h)\<lparr>mst_gtid := merge_gtid_into_set (mst_gtid (mh_stream h)) g\<rparr>\<rparr>, [])"
  by (auto simp: drive_items_def gtid_of_def decode_item_def decode_event_data_def process_message_def
      split: binlog_body.splits sum.splits option.splits binlog_event.splits)

text \<open>A BEGIN opens a transaction with the next identifier, or keeps the one that is open.\<close>

definition tx_ids :: "binlog_provider \<Rightarrow> nat \<times> nat" where
  "tx_ids p =
     (case bp_active_tx_id p of
        None \<Rightarrow> (bp_next_tx_id p, sat_add64 (bp_next_tx_id p) 1)
      | Some n \<Rightarrow> (n, bp_next_tx_id p))"

lemma tx_ids_frame [simp]:
  "tx_ids (p\<lparr>bp_next_pos := pos\<rparr>) = tx_ids p" "tx_ids (p\<lparr>bp_active_gtid := g\<rparr>) = tx_ids p"
  by (simp_all add: tx_ids_def split: option.split)

lemma drive_begin:
  "is_begin it \<Longrightarrow> drive_items env [it] (p, h) =
     Some ((moved it p)\<lparr>bp_next_tx_id := snd (tx_ids p), bp_active_tx_id := Some (fst (tx_ids p))\<rparr>,
       h\<lparr>mh_current_tx_id := Some (fst (tx_ids p)), mh_current_commit_ts := bi_timestamp it * 1000, mh_partial := []\<rparr>, [])"
  by (auto simp: drive_items_def is_begin_def decode_item_def decode_event_data_def decode_query_def ensure_active_tx_def tx_ids_def
      process_message_def split: binlog_body.splits sum.splits option.splits binlog_event.splits)

lemma drive_commit:
  "is_commit it \<Longrightarrow> bp_active_tx_id p = Some t \<Longrightarrow> drive_items env [it] (p, h) =
     (case commit_current_transaction t (bi_timestamp it * 1000) (bp_binlog_file p)
             (advance_binlog_pos (bp_next_pos p) (bi_log_pos it)) (bp_active_gtid p) h of
        (h', es) \<Rightarrow> Some ((moved it p)\<lparr>bp_active_tx_id := None, bp_active_gtid := None\<rparr>, h', es))"
  by (auto simp: drive_items_def is_commit_def decode_item_def decode_event_data_def xid_tx_def process_message_def
      split: binlog_body.splits sum.splits option.splits binlog_event.splits prod.splits)

lemma drive_rotate:
  "rotation_of it = Some (file, pos) \<Longrightarrow> drive_items env [it] (p, h) =
     Some (p\<lparr>bp_binlog_file := file, bp_next_pos := pos\<rparr>, set_position file pos h, [])"
  by (auto simp: drive_items_def rotation_of_def decode_item_def decode_event_data_def process_message_def
      split: binlog_body.splits sum.splits option.splits binlog_event.splits if_splits)

section \<open>Rows of an open transaction\<close>

definition held :: "string \<Rightarrow> nat \<Rightarrow> (operation \<times> mysql_row_change) list \<Rightarrow> event list \<Rightarrow> bool" where
  "held name t rows es \<longleftrightarrow> list_all2 (\<lambda>(op, c) e. \<exists>off ts i. e = row_event name off ts t None i op c) rows es"

lemma stamp_held:
  "held name t rows es \<Longrightarrow> stamp n ts off i es =
     map (\<lambda>(i, (op, c)). row_event name off ts t (Some n) (i mod 2 ^ 32) op c) (enumerate i rows)"
  unfolding held_def
proof (induction arbitrary: i rule: list_all2_induct)
  case (Cons x xs y ys)
  then show ?case by (cases x) (auto simp: row_event_def)
qed simp

definition row_handle :: "mysql_handle \<Rightarrow> nat \<Rightarrow> (operation \<times> mysql_row_change) list \<Rightarrow> mysql_handle \<Rightarrow> bool" where
  "row_handle h0 t rows h \<longleftrightarrow>
     (\<exists>es. h = h0\<lparr>mh_partial := es\<rparr> \<and> held (mh_source_name h0) t (filter (\<lambda>(_, c). allowed h0 (rc_schema c) (rc_table c)) rows) es)"

lemma hold_row_handle:
  assumes "row_handle h0 t rows h" "mh_current_tx_id h0 = Some t"
  shows "row_handle h0 t (rows @ [(op, c)]) (hold_row op c h)"
proof -
  from assms(1) obtain es where h: "h = h0\<lparr>mh_partial := es\<rparr>"
    and es: "held (mh_source_name h0) t (filter (\<lambda>(_, c). allowed h0 (rc_schema c) (rc_table c)) rows) es"
    by (auto simp: row_handle_def)
  have a: "allowed h = allowed h0" by (auto simp: h allowed_def fun_eq_iff)
  have "\<exists>off ts i. build_event h op c = row_event (mh_source_name h0) off ts t None i op c"
    using assms(2) by (auto simp: h build_event_def row_event_def source_meta_def tx_meta_def)
  then have more: "held (mh_source_name h0) t (rs @ [(op, c)]) (es @ [build_event h op c])"
    if "held (mh_source_name h0) t rs es" for rs
    using that unfolding held_def by (intro list_all2_appendI) auto
  show ?thesis
  proof (cases "allowed h0 (rc_schema c) (rc_table c)")
    case True
    with more [OF es] show ?thesis
      unfolding row_handle_def hold_row_def a by (intro exI [of _ "es @ [build_event h op c]"]) (auto simp: h)
  next
    case False
    with es show ?thesis unfolding row_handle_def hold_row_def a by (intro exI [of _ es]) (auto simp: h)
  qed
qed

lemma process_row_messages:
  "row_messages k rs = Inr ms \<Longrightarrow> row_handle h0 t rows h \<Longrightarrow> mh_current_tx_id h0 = Some t \<Longrightarrow>
     \<exists>h'. process_messages codec ms h = (h', []) \<and> row_handle h0 t (rows @ map (\<lambda>r. (rows_op k, projr r)) rs) h'"
proof (induction rs arbitrary: ms rows h)
  case (Cons r rs)
  from Cons.prems(1) obtain c ms' where r: "r = Inr c" "row_messages k rs = Inr ms'" "ms = row_message k c # ms'"
    by (cases r) (auto split: sum.splits)
  have one: "process_message codec (row_message k c) h = (hold_row (rows_op k) c h, [])"
    by (cases k) (simp_all add: row_message_def process_message_def rows_op_def)
  from Cons.IH [OF r(2) hold_row_handle [OF Cons.prems(2,3)] Cons.prems(3)] obtain h'
    where "process_messages codec ms' (hold_row (rows_op k) c h) = (h', [])"
      "row_handle h0 t ((rows @ [(rows_op k, c)]) @ map (\<lambda>r. (rows_op k, projr r)) rs) h'" by blast
  with one r show ?case by (intro exI [of _ h']) simp
qed auto

lemma row_messages_ok: "list_all (\<lambda>r. \<not> isl r) rs \<Longrightarrow> \<exists>ms. row_messages k rs = Inr ms"
proof (induction rs)
  case (Cons r rs)
  then show ?case by (cases r) auto
qed simp

lemma drive_rows:
  assumes "rows_item it" "bp_active_tx_id p = Some t" "row_handle h0 t rows h" "mh_current_tx_id h0 = Some t"
  shows "\<exists>h'. drive_items env [it] (p, h) = Some (moved it p, h', []) \<and> row_handle h0 t (rows @ item_rows it) h'"
proof -
  obtain k rs where it: "bi_body it = Known (Inr (Some (RowsEvent k (Some rs))))" "list_all (\<lambda>r. \<not> isl r) rs"
    using assms(1) by (auto simp: rows_item_def split: binlog_body.splits sum.splits option.splits binlog_event.splits)
  obtain ms where ms: "row_messages k rs = Inr ms" using row_messages_ok [OF it(2)] by blast
  have "decode_items env [it] p = (moved it p, Inr ms)"
    using assms(2) ms by (simp add: decode_item_def it(1) decode_event_data_def ensure_active_tx_def)
  moreover from process_row_messages [OF ms assms(3,4)] obtain h' where
    "process_messages (be_codec env) ms h = (h', [])" "row_handle h0 t (rows @ map (\<lambda>r. (rows_op k, projr r)) rs) h'" by blast
  ultimately show ?thesis by (intro exI [of _ h']) (simp add: drive_items_def item_rows_def it(1))
qed

lemma noise_no_rows: "noise it \<Longrightarrow> item_rows it = []"
  by (auto simp: noise_def item_rows_def split: binlog_body.splits sum.splits option.splits binlog_event.splits)

lemma drive_body:
  "list_all (\<lambda>it. noise it \<or> rows_item it) its \<Longrightarrow> bp_active_tx_id p = Some t \<Longrightarrow> row_handle h0 t rows h \<Longrightarrow> mh_current_tx_id h0 = Some t \<Longrightarrow>
     \<exists>h'. drive_items env its (p, h) = Some (p\<lparr>bp_next_pos := end_pos (bp_next_pos p) its\<rparr>, h', [])
       \<and> row_handle h0 t (rows @ concat (map item_rows its)) h'"
proof (induction its arbitrary: p rows h)
  case (Cons it its)
  have "\<exists>h1. drive_items env [it] (p, h) = Some (moved it p, h1, []) \<and> row_handle h0 t (rows @ item_rows it) h1"
  proof (cases "noise it")
    case True
    with drive_noise [of it env p h] Cons.prems(3) noise_no_rows [of it] show ?thesis by auto
  next
    case False
    with Cons.prems show ?thesis by (intro drive_rows) auto
  qed
  then obtain h1 where one: "drive_items env [it] (p, h) = Some (moved it p, h1, [])" "row_handle h0 t (rows @ item_rows it) h1" by blast
  from Cons.IH [OF _ _ one(2) Cons.prems(4), of "moved it p"] Cons.prems(1,2) obtain h2 where
    "drive_items env its (moved it p, h1) = Some (p\<lparr>bp_next_pos := end_pos (bp_next_pos (moved it p)) its\<rparr>, h2, [])"
    "row_handle h0 t ((rows @ item_rows it) @ concat (map item_rows its)) h2" by auto
  with drive_items_Cons [OF one(1)] show ?case by (intro exI [of _ h2]) fastforce
qed auto

section \<open>A transaction and a log\<close>

definition merged :: "log_tx \<Rightarrow> mysql_handle \<Rightarrow> mysql_handle" where
  "merged t h =
     (case Option.bind (lt_gtid t) gtid_of of
        None \<Rightarrow> h
      | Some g \<Rightarrow> h\<lparr>mh_stream := (mh_stream h)\<lparr>mst_gtid := merge_gtid_into_set (mst_gtid (mh_stream h)) g\<rparr>\<rparr>)"

definition begun :: "log_tx \<Rightarrow> nat \<Rightarrow> mysql_handle \<Rightarrow> mysql_handle" where
  "begun t n h = (merged t h)\<lparr>mh_current_tx_id := Some n, mh_current_commit_ts := bi_timestamp (lt_begin t) * 1000, mh_partial := []\<rparr>"

definition gtid_now :: "log_tx \<Rightarrow> string option \<Rightarrow> string option" where
  "gtid_now t active = (case Option.bind (lt_gtid t) gtid_of of None \<Rightarrow> active | Some g \<Rightarrow> Some g)"

definition opened_provider :: "log_tx \<Rightarrow> binlog_provider \<Rightarrow> binlog_provider" where
  "opened_provider t p =
     p\<lparr>bp_next_pos := end_pos (bp_next_pos p) (opened t), bp_active_gtid := gtid_now t (bp_active_gtid p),
       bp_next_tx_id := snd (tx_ids p), bp_active_tx_id := Some (fst (tx_ids p))\<rparr>"

lemma merged_simps [simp]:
  "mh_source_name (merged t h) = mh_source_name h" "mh_include (merged t h) = mh_include h"
  "mh_exclude (merged t h) = mh_exclude h" "mst_binlog_file (mh_stream (merged t h)) = mst_binlog_file (mh_stream h)"
  "mst_binlog_pos (mh_stream (merged t h)) = mst_binlog_pos (mh_stream h)" "mst_state (mh_stream (merged t h)) = mst_state (mh_stream h)"
  by (simp_all add: merged_def split: option.split)

lemma drive_opened:
  assumes "tx_wf t"
  shows "\<exists>es. drive_items env (opened t) (p, h) = Some (opened_provider t p, (begun t (fst (tx_ids p)) h)\<lparr>mh_partial := es\<rparr>, [])
    \<and> held (mh_source_name h) (fst (tx_ids p)) (tx_rows h (lt_body t)) es"
proof -
  let ?gs = "case lt_gtid t of Some g \<Rightarrow> [g] | None \<Rightarrow> []" and ?n = "fst (tx_ids p)"
  let ?p1 = "p\<lparr>bp_next_pos := end_pos (bp_next_pos p) (lt_before t)\<rparr>"
  let ?p2 = "p\<lparr>bp_next_pos := end_pos (bp_next_pos p) (lt_before t @ ?gs), bp_active_gtid := gtid_now t (bp_active_gtid p)\<rparr>"
  let ?p3 = "p\<lparr>bp_next_pos := end_pos (bp_next_pos p) (lt_before t @ ?gs @ [lt_begin t]), bp_active_gtid := gtid_now t (bp_active_gtid p),
       bp_next_tx_id := snd (tx_ids p), bp_active_tx_id := Some ?n\<rparr>"
  have one: "drive_items env (lt_before t) (p, h) = Some (?p1, h, [])"
    using drive_noises [of "lt_before t" env p h] assms by (simp add: tx_wf_def)
  have two: "drive_items env ?gs (?p1, h) = Some (?p2, merged t h, [])"
    using assms by (auto simp: tx_wf_def merged_def gtid_now_def drive_gtid split: option.split)
  have three: "drive_items env [lt_begin t] (?p2, merged t h) = Some (?p3, begun t ?n h, [])"
    using drive_begin [of "lt_begin t" env ?p2 "merged t h"] assms by (simp add: tx_wf_def begun_def)
  have "row_handle (begun t ?n h) ?n [] (begun t ?n h)"
    unfolding row_handle_def by (intro exI [of _ "[]"]) (simp add: begun_def held_def)
  then obtain h' where four: "drive_items env (lt_body t) (?p3, begun t ?n h) =
      Some (?p3\<lparr>bp_next_pos := end_pos (bp_next_pos ?p3) (lt_body t)\<rparr>, h', [])"
    and rows: "row_handle (begun t ?n h) ?n (concat (map item_rows (lt_body t))) h'"
    using drive_body [of "lt_body t" ?p3 ?n "begun t ?n h" "[]" "begun t ?n h" env] assms
    by (auto simp: tx_wf_def begun_def)
  have "drive_items env (opened t) (p, h) = Some (opened_provider t p, h', [])"
    using drive_items_append [OF one drive_items_append [OF two drive_items_append [OF three four]]]
    by (simp add: opened_def opened_provider_def)
  with rows show ?thesis by (auto simp: row_handle_def tx_rows_def begun_def allowed_def)
qed

lemma drive_tx:
  assumes "tx_wf t"
  shows "\<exists>h'. drive_items env (opened t @ [lt_commit t]) (p, h) =
      Some ((moved (lt_commit t) (opened_provider t p))\<lparr>bp_active_tx_id := None, bp_active_gtid := None\<rparr>, h',
            tx_events h (bp_binlog_file p) (end_pos (bp_next_pos p) (opened t @ [lt_commit t])) (mst_gtid (mh_stream h')) (fst (tx_ids p)) t)
    \<and> mst_binlog_file (mh_stream h') = bp_binlog_file p
    \<and> mst_binlog_pos (mh_stream h') = end_pos (bp_next_pos p) (opened t @ [lt_commit t])
    \<and> mst_gtid (mh_stream h') = (case gtid_now t (bp_active_gtid p) of Some g \<Rightarrow> g | None \<Rightarrow> mst_gtid (mh_stream h))
    \<and> mh_partial h' = [] \<and> mh_source_name h' = mh_source_name h \<and> mh_include h' = mh_include h \<and> mh_exclude h' = mh_exclude h"
proof -
  let ?n = "fst (tx_ids p)" and ?g = "gtid_now t (bp_active_gtid p)" and ?p1 = "opened_provider t p"
    and ?pos = "end_pos (bp_next_pos p) (opened t @ [lt_commit t])"
  from drive_opened [OF assms] obtain xs where
    open1: "drive_items env (opened t) (p, h) = Some (?p1, (begun t ?n h)\<lparr>mh_partial := xs\<rparr>, [])"
    and xs: "held (mh_source_name h) ?n (tx_rows h (lt_body t)) xs" by blast
  define h1 where "h1 = (begun t ?n h)\<lparr>mh_partial := xs\<rparr>"
  define h2 where "h2 = fst (commit_current_transaction ?n (bi_timestamp (lt_commit t) * 1000) (bp_binlog_file p) ?pos ?g h1)"
  have len: "length xs = length (tx_rows h (lt_body t))" using xs by (simp add: held_def list_all2_lengthD)
  have gtid: "(case ?g of Some x \<Rightarrow> x | None \<Rightarrow> mst_gtid (mh_stream h1)) = (case ?g of Some g \<Rightarrow> g | None \<Rightarrow> mst_gtid (mh_stream h))"
    by (simp add: h1_def gtid_now_def begun_def merged_def split: option.split)
  have h2: "mst_binlog_file (mh_stream h2) = bp_binlog_file p" "mst_binlog_pos (mh_stream h2) = ?pos"
    "mst_gtid (mh_stream h2) = (case ?g of Some g \<Rightarrow> g | None \<Rightarrow> mst_gtid (mh_stream h))"
    "mh_partial h2 = []" "mh_source_name h2 = mh_source_name h" "mh_include h2 = mh_include h" "mh_exclude h2 = mh_exclude h"
    unfolding h2_def commit_current_transaction_def Let_def gtid by (simp_all add: h1_def begun_def)
  have es: "snd (commit_current_transaction ?n (bi_timestamp (lt_commit t) * 1000) (bp_binlog_file p) ?pos ?g h1)
      = tx_events h (bp_binlog_file p) ?pos (mst_gtid (mh_stream h2)) ?n t"
    unfolding h2(3) commit_current_transaction_def Let_def gtid
    by (simp add: h1_def stamp_held [OF xs] len tx_events_def Let_def)
  then have c: "commit_current_transaction ?n (bi_timestamp (lt_commit t) * 1000) (bp_binlog_file p) ?pos ?g h1
      = (h2, tx_events h (bp_binlog_file p) ?pos (mst_gtid (mh_stream h2)) ?n t)"
    unfolding h2_def by (metis prod.collapse)
  have "is_commit (lt_commit t)" using assms by (simp add: tx_wf_def)
  from drive_commit [OF this, of ?p1 ?n env h1] have "drive_items env [lt_commit t] (?p1, h1) =
      Some ((moved (lt_commit t) ?p1)\<lparr>bp_active_tx_id := None, bp_active_gtid := None\<rparr>, h2,
        tx_events h (bp_binlog_file p) ?pos (mst_gtid (mh_stream h2)) ?n t)"
    using c by (simp add: opened_provider_def)
  from drive_items_append [OF open1 [folded h1_def] this] h2 show ?thesis by (intro exI [of _ h2]) simp
qed

definition agree :: "mysql_handle \<Rightarrow> log_state \<Rightarrow> binlog_provider \<times> mysql_handle \<Rightarrow> bool" where
  "agree cfg st = (\<lambda>(p, h).
     bp_binlog_file p = ls_file st \<and> bp_next_pos p = ls_pos st \<and> bp_next_tx_id p = ls_next_tx st
     \<and> bp_active_tx_id p = None \<and> bp_active_gtid p = None
     \<and> mst_binlog_file (mh_stream h) = ls_file st \<and> mst_binlog_pos (mh_stream h) = ls_pos st \<and> mst_gtid (mh_stream h) = ls_gtid st
     \<and> mh_partial h = [] \<and> mh_source_name h = mh_source_name cfg \<and> mh_include h = mh_include cfg \<and> mh_exclude h = mh_exclude cfg)"

lemma tx_events_config:
  "mh_source_name h = mh_source_name cfg \<Longrightarrow> mh_include h = mh_include cfg \<Longrightarrow> mh_exclude h = mh_exclude cfg \<Longrightarrow>
     tx_events h = tx_events cfg"
  by (auto simp: tx_events_def tx_rows_def allowed_def fun_eq_iff)

lemma drive_unit:
  assumes "agree cfg st (p, h)" "unit_wf u" "deliver_unit cfg st u = (st', es)"
  shows "\<exists>p' h'. drive_items env (unit_items u) (p, h) = Some (p', h', es) \<and> agree cfg st' (p', h')"
proof (cases u)
  case (LogRotate it)
  then obtain fl pos where "rotation_of it = Some (fl, pos)" using assms(2) by (auto simp: unit_wf_def)
  with LogRotate assms drive_rotate [of it fl pos env p h] show ?thesis
    by (auto simp: unit_items_def deliver_unit_def agree_def set_position_def)
next
  case (LogTx t)
  note a = assms(1)[unfolded agree_def prod.case]
  have ids: "tx_ids p = (ls_next_tx st, sat_add64 (ls_next_tx st) 1)" using a by (simp add: tx_ids_def)
  have g: "(case gtid_now t None of Some g \<Rightarrow> g | None \<Rightarrow> mst_gtid (mh_stream h)) = unit_gtid (ls_gtid st) t"
    using a by (simp add: gtid_now_def unit_gtid_def split: option.split)
  have cfg: "tx_events h = tx_events cfg" using a by (intro tx_events_config) auto
  from drive_tx [of t env p h] assms(2) LogTx obtain h' where
    run: "drive_items env (unit_items u) (p, h) =
      Some ((moved (lt_commit t) (opened_provider t p))\<lparr>bp_active_tx_id := None, bp_active_gtid := None\<rparr>, h',
            tx_events cfg (ls_file st) (end_pos (ls_pos st) (unit_items u)) (unit_gtid (ls_gtid st) t) (ls_next_tx st) t)"
    and h': "mst_binlog_file (mh_stream h') = ls_file st" "mst_binlog_pos (mh_stream h') = end_pos (ls_pos st) (unit_items u)"
      "mst_gtid (mh_stream h') = unit_gtid (ls_gtid st) t" "mh_partial h' = []"
      "mh_source_name h' = mh_source_name h" "mh_include h' = mh_include h" "mh_exclude h' = mh_exclude h"
    using a by (auto simp: unit_wf_def unit_items_def g cfg ids)
  have st': "st' = st\<lparr>ls_pos := end_pos (ls_pos st) (unit_items u), ls_next_tx := sat_add64 (ls_next_tx st) 1, ls_gtid := unit_gtid (ls_gtid st) t\<rparr>"
    and es: "es = tx_events cfg (ls_file st) (end_pos (ls_pos st) (unit_items u)) (unit_gtid (ls_gtid st) t) (ls_next_tx st) t"
    using assms(3) by (simp_all add: LogTx deliver_unit_def Let_def)
  have "agree cfg st' ((moved (lt_commit t) (opened_provider t p))\<lparr>bp_active_tx_id := None, bp_active_gtid := None\<rparr>, h')"
    unfolding st' using a h' by (simp add: agree_def opened_provider_def ids unit_items_def LogTx)
  with run es show ?thesis by blast
qed

lemma drive_log:
  "agree cfg st (p, h) \<Longrightarrow> list_all unit_wf us \<Longrightarrow> deliver_log cfg st us = (st', es) \<Longrightarrow>
     \<exists>p' h'. drive_items env (concat (map unit_items us)) (p, h) = Some (p', h', es) \<and> agree cfg st' (p', h')"
proof (induction us arbitrary: st p h es)
  case (Cons u us)
  obtain st1 e1 where one: "deliver_unit cfg st u = (st1, e1)" by fastforce
  obtain e2 where two: "deliver_log cfg st1 us = (st', e2)" "es = e1 @ e2"
    using Cons.prems(3) one by (auto split: prod.splits)
  from drive_unit [OF Cons.prems(1) _ one, of env] Cons.prems(2) obtain p1 h1 where
    u: "drive_items env (unit_items u) (p, h) = Some (p1, h1, e1)" "agree cfg st1 (p1, h1)" by auto
  from Cons.IH [OF u(2) _ two(1)] Cons.prems(2) obtain p2 h2 where
    us: "drive_items env (concat (map unit_items us)) (p1, h1) = Some (p2, h2, e2)" "agree cfg st' (p2, h2)" by auto
  from drive_items_append [OF u(1) us(1)] us(2) two(2) show ?case by auto
qed simp

section \<open>Delivery however the polls cut the log\<close>

definition quiet_item :: "binlog_item \<Rightarrow> bool" where
  "quiet_item it \<longleftrightarrow> noise it \<or> gtid_of it \<noteq> None \<or> is_begin it \<or> rows_item it"

lemma process_rows_quiet: "row_messages k rs = Inr ms \<Longrightarrow> \<exists>h'. process_messages codec ms h = (h', [])"
proof (induction rs arbitrary: ms h)
  case (Cons r rs)
  from Cons.prems obtain c ms' where "r = Inr c" "row_messages k rs = Inr ms'" and ms: "ms = row_message k c # ms'"
    by (cases r) (auto split: sum.splits)
  then show ?case
    using Cons.IH [of ms' "hold_row (rows_op k) c h"]
    by (cases k) (auto simp: ms row_message_def process_message_def rows_op_def)
qed simp

lemma drive_rows_quiet:
  assumes "rows_item it"
  shows "\<exists>p' h'. drive_items env [it] (p, h) = Some (p', h', [])"
proof -
  obtain k rs where it: "bi_body it = Known (Inr (Some (RowsEvent k (Some rs))))" "list_all (\<lambda>r. \<not> isl r) rs"
    using assms by (auto simp: rows_item_def split: binlog_body.splits sum.splits option.splits binlog_event.splits)
  obtain ms where ms: "row_messages k rs = Inr ms" using row_messages_ok [OF it(2)] by blast
  obtain p' n b where e: "ensure_active_tx (moved it p) = (p', n, b)" by (cases "ensure_active_tx (moved it p)")
  have "decode_items env [it] p = (p', Inr ((if b then [MsgBegin n (bi_timestamp it * 1000)] else []) @ ms))"
    by (simp add: decode_item_def it(1) decode_event_data_def e ms Let_def)
  moreover have "\<exists>h'. process_messages (be_codec env) ((if b then [MsgBegin n (bi_timestamp it * 1000)] else []) @ ms) h = (h', [])"
    using process_rows_quiet [OF ms] by (auto simp: process_message_def)
  ultimately show ?thesis by (auto simp: drive_items_def)
qed

lemma drive_quiet: "quiet_item it \<Longrightarrow> \<exists>p' h'. drive_items env [it] (p, h) = Some (p', h', [])"
  unfolding quiet_item_def using drive_noise drive_gtid drive_begin drive_rows_quiet by blast

lemma drive_quiets: "list_all quiet_item its \<Longrightarrow> \<exists>p' h'. drive_items env its (p, h) = Some (p', h', [])"
proof (induction its arbitrary: p h)
  case (Cons it its)
  from drive_quiet [of it env p h] Cons.prems obtain p1 h1 where one: "drive_items env [it] (p, h) = Some (p1, h1, [])" by auto
  from Cons.IH [of p1 h1] Cons.prems drive_items_Cons [OF one] show ?case by fastforce
qed simp

lemma opened_quiet: "tx_wf t \<Longrightarrow> list_all quiet_item (opened t)"
  by (cases "lt_gtid t") (auto simp: tx_wf_def opened_def quiet_item_def list_all_iff)

lemma unit_prefix_quiet:
  assumes "unit_wf u" "strict_prefix its (unit_items u)"
  shows "list_all quiet_item its"
proof (cases u)
  case (LogTx t)
  then have "prefix its (opened t)" using assms(2) by (auto simp: unit_items_def strict_prefix_def prefix_snoc)
  with opened_quiet [of t] assms(1) LogTx show ?thesis
    by (auto simp: unit_wf_def list_all_iff dest: set_mono_prefix)
next
  case (LogRotate it)
  with assms(2) show ?thesis by (auto simp: unit_items_def strict_prefix_def prefix_Cons)
qed

lemma prefix_concat_units:
  "prefix its (concat (map f us)) \<Longrightarrow>
     \<exists>n rest. n \<le> length us \<and> its = concat (map f (take n us)) @ rest
       \<and> (n = length us \<and> rest = [] \<or> n < length us \<and> strict_prefix rest (f (us ! n)))"
proof (induction us arbitrary: its)
  case (Cons u us)
  show ?case
  proof (cases "prefix (f u) its")
    case True
    then obtain its' where its: "its = f u @ its'" by (auto simp: prefix_def)
    with Cons.prems have "prefix its' (concat (map f us))" by simp
    from Cons.IH [OF this] obtain n rest where "n \<le> length us" "its' = concat (map f (take n us)) @ rest"
      "n = length us \<and> rest = [] \<or> n < length us \<and> strict_prefix rest (f (us ! n))" by blast
    then show ?thesis using its by (intro exI [of _ "Suc n"] exI [of _ rest]) auto
  next
    case False
    then have "strict_prefix its (f u)"
      using Cons.prems by (auto simp: strict_prefix_def prefix_append)
    then show ?thesis by (intro exI [of _ 0] exI [of _ its]) auto
  qed
qed simp

text \<open>The log of the server: everything a client can read from here on is a part of it.\<close>

definition server_log :: "'w binlog_env \<Rightarrow> 'w \<Rightarrow> log_unit list \<Rightarrow> bool" where
  "server_log env w us \<longleftrightarrow> list_all unit_wf us \<and> (\<forall>its w'. wire env w its w' \<longrightarrow> prefix its (concat (map unit_items us)))"

text \<open>
  C17. Transactions are delivered whole and in commit order. After any number of polls, however they cut
  the log, the events delivered are exactly the rows of the transactions whose commit has been read,
  each with its position in the transaction, the size of the transaction and the commit position;
  nothing of a transaction still open is delivered.
\<close>

theorem mysql_transactions_whole:
  assumes "mysql_polls env (p, h, w) es (p', h', w')" "agree h st (p, h)" "mh_requeued h = []" "server_log env w us"
  shows "\<exists>its n. wire env w its w' \<and> n \<le> length us \<and> prefix (concat (map unit_items (take n us))) its
    \<and> (n = length us \<or> strict_prefix its (concat (map unit_items (take (Suc n) us))))
    \<and> es = snd (deliver_log h st (take n us))"
proof -
  from polls_ok [OF assms(1) refl assms(3)] have "next_ok env p h w (p', h', w', es)" by simp
  from next_ok_drive [OF this] obtain its where its: "wire env w its w'" "drive_items env its (p, h) = Some (p', h', es)" by blast
  with assms(4) have "prefix its (concat (map unit_items us))" by (auto simp: server_log_def)
  from prefix_concat_units [OF this] obtain n rest where n: "n \<le> length us"
    and split: "its = concat (map unit_items (take n us)) @ rest"
    and rest: "n = length us \<and> rest = [] \<or> n < length us \<and> strict_prefix rest (unit_items (us ! n))" by blast
  have wf: "list_all unit_wf us" using assms(4) by (simp add: server_log_def)
  then have "list_all unit_wf (take n us)" by (auto simp: list_all_iff dest: in_set_takeD)
  from drive_log [OF assms(2) this, of "fst (deliver_log h st (take n us))" "snd (deliver_log h st (take n us))" env]
  obtain p1 h1 where log: "drive_items env (concat (map unit_items (take n us))) (p, h) = Some (p1, h1, snd (deliver_log h st (take n us)))"
    by auto
  have "list_all quiet_item rest"
    using rest wf unit_prefix_quiet [of "us ! n" rest] by (auto simp: list_all_length)
  from drive_quiets [OF this] obtain p2 h2 where "drive_items env rest (p1, h1) = Some (p2, h2, [])" by blast
  from drive_items_append [OF log this] its(2) split have es: "es = snd (deliver_log h st (take n us))" by simp
  have "n = length us \<or> strict_prefix its (concat (map unit_items (take (Suc n) us)))"
  proof (cases "n = length us")
    case False
    with n rest have "n < length us" "strict_prefix rest (unit_items (us ! n))" by auto
    then show ?thesis by (simp add: split take_Suc_conv_app_nth strict_prefix_def)
  qed simp
  with n es its(1) show ?thesis by (intro exI [of _ its] exI [of _ n]) (simp add: split)
qed

text \<open>A small server for the witnesses: a list of events to come, and a clock that stands still.\<close>

definition script_env :: "binlog_item list binlog_env" where
  "script_env =
     \<lparr>be_read = (\<lambda>t w. case w of [] \<Rightarrow> ([], TimedOut) | it # its \<Rightarrow> (its, Arrived it)),
      be_now = (\<lambda>_. 0), be_sleep = (\<lambda>_ w. w), be_upper = (\<lambda>s. s), be_ddl = (\<lambda>_. None), be_codec = example_codec\<rparr>"

definition item :: "nat \<Rightarrow> binlog_event \<Rightarrow> binlog_item" where
  "item pos ev = \<lparr>bi_log_pos = pos, bi_timestamp = 7, bi_server_id = 1, bi_body = Known (Inr (Some ev))\<rparr>"

definition example_change :: "string \<Rightarrow> mysql_row_change" where
  "example_change v =
     \<lparr>rc_schema = Some ''app'', rc_table = ''t'', rc_primary_key = None, rc_before = None, rc_after = Some (JString v)\<rparr>"

definition example_tx :: "string \<Rightarrow> log_tx" where
  "example_tx v =
     \<lparr>lt_before = [], lt_gtid = None, lt_begin = item 10 (QueryEvent ''BEGIN''),
      lt_body = [item 20 OtherEvent, item 30 (RowsEvent WriteRowsEvent (Some [Inr (example_change v)]))],
      lt_commit = item 40 (XidEvent 9)\<rparr>"

definition example_handle :: mysql_handle where
  "example_handle =
     handle_new ''mysql'' \<lparr>mst_binlog_file = ''b.1'', mst_binlog_pos = 4, mst_gtid = [], mst_state = Streaming\<rparr> 100 50 [] []"

definition example_start :: log_state where
  "example_start = \<lparr>ls_file = ''b.1'', ls_pos = 4, ls_next_tx = 1, ls_gtid = []\<rparr>"

lemma example_tx_wf [simp]: "tx_wf (example_tx v)"
  by (simp add: tx_wf_def example_tx_def noise_def rows_item_def is_begin_def is_commit_def item_def trim_graphic graphic_def
      eq_ignore_ascii_case_def)

lemma example_agree: "agree example_handle example_start (provider_new ''b.1'' 4 50, example_handle)"
  by (simp add: agree_def example_handle_def example_start_def provider_new_def handle_new_def)

lemma script_wire: "wire env w its w' \<Longrightarrow> env = script_env \<Longrightarrow> w = its @ w'"
  by (induction rule: wire.induct) (auto simp: script_env_def split: list.splits)

lemma example_poll:
  "\<exists>p' h' es. mysql_next_events script_env 0 (provider_new ''b.1'' 4 50) example_handle (unit_items (LogTx (example_tx ''v'')))
     = Some (p', h', [], Inr es)"
  by (simp add: mysql_next_events_def mysql_next_loop.simps mysql_next_iteration_def poll_events_def poll_loop.simps poll_iteration_def
      script_env_def example_handle_def handle_new_def provider_new_def unit_items_def opened_def example_tx_def item_def
      binlog_read_timeout_def decode_item_def decode_event_data_def decode_query_def ensure_active_tx_def xid_tx_def
      trim_graphic graphic_def eq_ignore_ascii_case_def row_message_def process_message_def hold_row_def allowed_def
      table_is_allowed_def commit_current_transaction_def Let_def)

theorem mysql_transactions_whole_witness:
  "\<exists>p' h' es. mysql_polls script_env (provider_new ''b.1'' 4 50, example_handle, unit_items (LogTx (example_tx ''v''))) es (p', h', [])
     \<and> map ev_after es = [Some (JString ''v'')]"
proof -
  let ?w = "unit_items (LogTx (example_tx ''v''))"
  from example_poll obtain p' h' es where
    "mysql_next_events script_env 0 (provider_new ''b.1'' 4 50) example_handle ?w = Some (p', h', [], Inr es)" by blast
  from polls_more [OF this polls_none] have polls: "mysql_polls script_env (provider_new ''b.1'' 4 50, example_handle, ?w) es (p', h', [])"
    by simp
  have "server_log script_env ?w [LogTx (example_tx ''v'')]"
    using script_wire by (fastforce simp: server_log_def unit_wf_def)
  from mysql_transactions_whole [OF polls example_agree _ this] obtain its n where
    "wire script_env ?w its []" "n \<le> 1" "n = 1 \<or> strict_prefix its (concat (map unit_items (take (Suc n) [LogTx (example_tx ''v'')])))"
    and es: "es = snd (deliver_log example_handle example_start (take n [LogTx (example_tx ''v'')]))"
    by (auto simp: example_handle_def handle_new_def)
  with script_wire [of script_env ?w its "[]"] have "n = 1" by (cases n) auto
  then have "map ev_after es = [Some (JString ''v'')]"
    unfolding es by (simp add: deliver_unit_def Let_def tx_events_def tx_rows_def example_tx_def item_rows_def item_def
        allowed_def table_is_allowed_def example_handle_def handle_new_def row_event_def example_change_def)
  with polls show ?thesis by (intro exI [of _ p'] exI [of _ h'] exI [of _ es]) simp
qed

section \<open>Polls return\<close>

definition silent :: "'w binlog_env \<Rightarrow> binlog_item \<Rightarrow> binlog_provider \<Rightarrow> bool" where
  "silent env it p \<longleftrightarrow> snd (decode_item env it p) = Inr []"

definition clock_ok :: "'w binlog_env \<Rightarrow> bool" where
  "clock_ok env \<longleftrightarrow> (\<forall>t w. be_now env w \<le> be_now env (fst (be_read env t w)))
     \<and> (\<forall>n w. be_now env w + n \<le> be_now env (be_sleep env n w))"

definition chatter_ends :: "'w binlog_env \<Rightarrow> ('w \<Rightarrow> nat) \<Rightarrow> bool" where
  "chatter_ends env chatter \<longleftrightarrow>
     (\<forall>t w w' it p. be_read env t w = (w', Arrived it) \<and> silent env it p \<longrightarrow> chatter w' < chatter w)"

lemma poll_iteration_progress:
  assumes "poll_iteration env max_events deadline out p w = Inr (out', p', w')" "chatter_ends env chatter"
  shows "length out < max_events \<and> (length out < length out' \<or> length out' = length out \<and> chatter w' < chatter w)"
proof -
  from poll_iteration_read [OF assms(1)] obtain t it ms where
    "be_read env t w = (w', Arrived it)" "decode_item env it p = (p', Inr ms)" "out' = out @ ms" by blast
  moreover have "length out < max_events" using assms(1) by (auto simp: poll_iteration_def split: if_splits)
  ultimately show ?thesis using assms(2) unfolding chatter_ends_def silent_def by (cases ms) (simp, metis snd_conv, simp)
qed

lemma poll_iteration_clock:
  assumes "clock_ok env"
  shows "poll_iteration env max_events deadline out p w = Inl (p', w', r) \<Longrightarrow> be_now env w \<le> be_now env w'"
    and "poll_iteration env max_events deadline out p w = Inr (out', p', w') \<Longrightarrow> be_now env w \<le> be_now env w'"
proof -
  have "be_now env w \<le> be_now env w1" if "be_read env t w = (w1, x)" for t w1 x
    using assms that by (metis clock_ok_def fst_conv)
  then show "poll_iteration env max_events deadline out p w = Inl (p', w', r) \<Longrightarrow> be_now env w \<le> be_now env w'"
    "poll_iteration env max_events deadline out p w = Inr (out', p', w') \<Longrightarrow> be_now env w \<le> be_now env w'"
    by (auto simp: poll_iteration_def split: if_splits option.splits prod.splits binlog_read.splits sum.splits)
qed

lemma poll_loop_returns:
  assumes "chatter_ends env chatter" "clock_ok env"
  shows "\<exists>p' w' r. poll_loop env max_events deadline out p w = Some (p', w', r) \<and> be_now env w \<le> be_now env w'"
proof -
  let ?R = "inv_image (less_than <*lex*> less_than) (\<lambda>(out :: mysql_message list, p :: binlog_provider, w). (max_events - length out, chatter w))"
  have "wf ?R" by (intro wf_inv_image wf_lex_prod wf_less_than)
  then show ?thesis
  proof (induction "(out, p, w)" arbitrary: out p w rule: wf_induct_rule)
    case less
    show ?case
    proof (cases "poll_iteration env max_events deadline out p w")
      case (Inl y)
      obtain p' w' r where "y = (p', w', r)" by (cases y)
      with Inl poll_iteration_clock(1) [OF assms(2)] show ?thesis by (simp add: poll_loop.simps [of env max_events deadline out])
    next
      case (Inr y)
      obtain out1 p1 w1 where y: "y = (out1, p1, w1)" by (cases y)
      have "((out1, p1, w1), (out, p, w)) \<in> ?R" using poll_iteration_progress [OF Inr [unfolded y] assms(1)] by auto
      from less [OF this] poll_iteration_clock(2) [OF assms(2) Inr [unfolded y]] Inr y show ?thesis
        by (auto simp: poll_loop.simps [of env max_events deadline out] intro: order.trans)
    qed
  qed
qed

lemma poll_events_returns:
  assumes "chatter_ends env chatter" "clock_ok env"
  shows "\<exists>p' w' r. poll_events env max_events deadline p w = Some (p', w', r) \<and> be_now env w \<le> be_now env w'"
  using poll_loop_returns [OF assms] by (auto simp: poll_events_def)

lemma process_message_interval: "process_message codec m h = (h', es) \<Longrightarrow> mh_poll_interval_ms h' = mh_poll_interval_ms h"
  by (auto simp: process_message_def hold_row_def commit_current_transaction_def implicit_commit_def
      set_position_def count_event_def Let_def split: mysql_message.splits if_splits option.splits prod.splits)

lemma process_messages_interval: "process_messages codec ms h = (h', es) \<Longrightarrow> mh_poll_interval_ms h' = mh_poll_interval_ms h"
  by (induction ms arbitrary: h h' es) (auto split: prod.splits dest!: process_message_interval)

lemma next_iteration_progress:
  assumes "chatter_ends env chatter" "clock_ok env" "0 < mh_poll_interval_ms h"
  shows "\<exists>r. mysql_next_iteration env timeout_ms started deadline p h w = Some r
    \<and> (\<forall>p' h' w'. r = Inr (p', h', w') \<longrightarrow> mh_poll_interval_ms h' = mh_poll_interval_ms h
         \<and> be_now env w < be_now env w' \<and> be_now env w - started < timeout_ms)"
proof -
  from poll_events_returns [OF assms(1,2)] obtain p1 w1 q where
    poll: "poll_events env (mh_max_events_per_poll h) deadline p w = Some (p1, w1, q)" "be_now env w \<le> be_now env w1" by blast
  show ?thesis
  proof (cases q)
    case (Inl e)
    with poll show ?thesis by (simp add: mysql_next_iteration_def)
  next
    case (Inr ms)
    obtain h1 es where m: "process_messages (be_codec env) ms h = (h1, es)" by fastforce
    then have i: "mh_poll_interval_ms h1 = mh_poll_interval_ms h" by (rule process_messages_interval)
    have later: "be_now env w1 + n \<le> be_now env (be_sleep env n w1)" for n using assms(2) by (simp add: clock_ok_def)
    let ?n = "min (mh_poll_interval_ms h) (timeout_ms - (be_now env w1 - started))"
    have "be_now env w < be_now env (be_sleep env ?n w1)" if "\<not> timeout_ms \<le> be_now env w1 - started"
    proof -
      have "0 < ?n" using that assms(3) by simp
      with later [of ?n] poll(2) show ?thesis by linarith
    qed
    with poll Inr m i show ?thesis by (auto simp: mysql_next_iteration_def)
  qed
qed

text \<open>
  C18. A poll returns. If the client's clock does not run backwards, a sleep takes its time, and the server
  does not send events without a message for ever, then a poll comes back with events, with nothing or
  with an error, whatever the log holds.
\<close>

theorem mysql_poll_returns:
  assumes "chatter_ends env chatter" "clock_ok env" "0 < mh_poll_interval_ms h"
  shows "\<exists>p' h' w' r. mysql_next_events env timeout_ms p h w = Some (p', h', w', r)"
proof -
  have "mysql_next_loop env timeout_ms started deadline p h w \<noteq> None"
    if "0 < mh_poll_interval_ms h" for started deadline p h w
    using that
  proof (induction "started + timeout_ms - be_now env w" arbitrary: p h w rule: less_induct)
    case less
    from next_iteration_progress [OF assms(1,2) less.prems] obtain r where
      r: "mysql_next_iteration env timeout_ms started deadline p h w = Some r"
      "\<forall>p' h' w'. r = Inr (p', h', w') \<longrightarrow> mh_poll_interval_ms h' = mh_poll_interval_ms h
         \<and> be_now env w < be_now env w' \<and> be_now env w - started < timeout_ms" by blast
    show ?case
    proof (cases r)
      case (Inl y)
      with r(1) show ?thesis by (simp add: mysql_next_loop.simps [of env timeout_ms started deadline p h w])
    next
      case (Inr y)
      obtain p1 h1 w1 where y: "y = (p1, h1, w1)" by (cases y)
      with r(2) Inr have "started + timeout_ms - be_now env w1 < started + timeout_ms - be_now env w" "0 < mh_poll_interval_ms h1"
        using less.prems by auto
      from less.hyps [OF this] r(1) Inr y show ?thesis
        by (simp add: mysql_next_loop.simps [of env timeout_ms started deadline p h w])
    qed
  qed
  from this [OF assms(3)] have "mysql_next_events env timeout_ms p h w \<noteq> None" by (simp add: mysql_next_events_def)
  then obtain y where "mysql_next_events env timeout_ms p h w = Some y" by blast
  then show ?thesis by (cases y) blast
qed

definition clock_env :: "nat binlog_env" where
  "clock_env =
     \<lparr>be_read = (\<lambda>t w. (w + t, TimedOut)), be_now = (\<lambda>w. w), be_sleep = (\<lambda>n w. w + n),
      be_upper = (\<lambda>s. s), be_ddl = (\<lambda>_. None), be_codec = example_codec\<rparr>"

theorem mysql_poll_returns_witness:
  "\<exists>p' h' w' r. mysql_next_events clock_env 100 (provider_new ''b.1'' 4 50) example_handle 0 = Some (p', h', w', r)"
  by (rule mysql_poll_returns [where chatter = "\<lambda>w. 0"])
    (simp_all add: chatter_ends_def clock_ok_def clock_env_def example_handle_def handle_new_def)

section \<open>Positions that do not match what was delivered\<close>

text \<open>
  C37. A transaction's GTID is merged into the executed set when its GTID event is read, before its rows
  are. While the transaction is open its rows are held back and nothing has been delivered, yet the
  position a checkpoint would save already counts it as executed: a stream resumed there skips it.
\<close>

theorem mysql_position_ahead_of_delivery:
  assumes "agree h st (p, h)" "tx_wf t" "Option.bind (lt_gtid t) gtid_of = Some g"
    and "graphic_sources (parse_gtid_set_intervals (ls_gtid st))" "graphic_sources (parse_gtid_set_intervals g)"
    and "(to_ascii_lowercase u, n) \<in> denoted_entries (parse_gtid_set_intervals g)"
  shows "\<exists>p' h' g'. drive_items env (opened t) (p, h) = Some (p', h', [])
    \<and> length (mh_partial h') = length (tx_rows h (lt_body t))
    \<and> mysql_position_offset h' = mysql_offset (mh_source_name h) (ls_file st) (ls_pos st) (mst_gtid (mh_stream h')) None
    \<and> gtid_parse (mst_gtid (mh_stream h')) = Inr g' \<and> gtid_contains g' u n"
proof -
  note a = assms(1)[unfolded agree_def prod.case]
  from drive_opened [OF assms(2), of env p h] obtain es where
    run: "drive_items env (opened t) (p, h) = Some (opened_provider t p, (begun t (fst (tx_ids p)) h)\<lparr>mh_partial := es\<rparr>, [])"
    and es: "held (mh_source_name h) (fst (tx_ids p)) (tx_rows h (lt_body t)) es" by blast
  let ?h = "(begun t (fst (tx_ids p)) h)\<lparr>mh_partial := es\<rparr>"
  have "mst_gtid (mh_stream ?h) = merge_gtid_into_set (ls_gtid st) g" using a assms(3) by (simp add: begun_def merged_def)
  moreover from merge_denotes [OF assms(4,5)] assms(6) obtain g' where
    "gtid_parse (merge_gtid_into_set (ls_gtid st) g) = Inr g'" "gtid_contains g' u n" by blast
  moreover have "length es = length (tx_rows h (lt_body t))" using es by (simp add: held_def list_all2_lengthD)
  moreover have "mysql_position_offset ?h = mysql_offset (mh_source_name h) (ls_file st) (ls_pos st) (mst_gtid (mh_stream ?h)) None"
    using a by (simp add: mysql_position_offset_def begun_def)
  ultimately show ?thesis using run by (intro exI [of _ "opened_provider t p"] exI [of _ ?h] exI [of _ g']) simp
qed

definition example_sid :: "nat list" where
  "example_sid = replicate 16 17"

definition example_gtid_tx :: log_tx where
  "example_gtid_tx = (example_tx ''v'')\<lparr>lt_gtid := Some (item 8 (GtidEvent example_sid 6))\<rparr>"

definition example_gtid :: string where
  "example_gtid = ''11111111-1111-1111-1111-111111111111''"

lemma example_gtid_facts:
  "tx_wf example_gtid_tx" "Option.bind (lt_gtid example_gtid_tx) gtid_of = Some (example_gtid @ '':6'')"
  "parse_gtid_set_intervals (example_gtid @ '':6'') = [(example_gtid, [(6, 6)])]"
  "parse_gtid_set_intervals [] = []" "graphic_sources [(example_gtid, [(6, 6)])]" "to_ascii_lowercase example_gtid = example_gtid"
proof -
  have f: "format_gtid example_sid 6 = example_gtid @ '':6''" by code_simp
  show "tx_wf example_gtid_tx" using example_tx_wf [of "''v''"]
    by (simp add: tx_wf_def example_gtid_tx_def gtid_of_def item_def)
  show "Option.bind (lt_gtid example_gtid_tx) gtid_of = Some (example_gtid @ '':6'')"
    by (simp add: example_gtid_tx_def gtid_of_def item_def f)
  have t: "trim [] = []" by code_simp
  show "parse_gtid_set_intervals (example_gtid @ '':6'') = [(example_gtid, [(6, 6)])]" "parse_gtid_set_intervals [] = []"
    by (simp_all add: parse_gtid_set_intervals_def lenient_entry_def lenient_interval_def trim_graphic graphic_def
        List.map_filter_def gtid_eval example_gtid_def t)
  show "graphic_sources [(example_gtid, [(6, 6)])]" "to_ascii_lowercase example_gtid = example_gtid" by code_simp+
qed

theorem mysql_position_ahead_of_delivery_witness:
  "\<exists>p' h' g'. drive_items script_env (opened example_gtid_tx) (provider_new ''b.1'' 4 50, example_handle) = Some (p', h', [])
     \<and> length (mh_partial h') = 1 \<and> gtid_parse (mst_gtid (mh_stream h')) = Inr g' \<and> gtid_contains g' example_gtid 6"
proof -
  have d: "(to_ascii_lowercase example_gtid, 6) \<in> denoted_entries (parse_gtid_set_intervals (example_gtid @ '':6''))"
    by (simp add: example_gtid_facts denoted_entries_def)
  have gs: "graphic_sources []" by (simp add: graphic_sources_def)
  have "length (tx_rows example_handle (lt_body example_gtid_tx)) = 1"
    by (simp add: tx_rows_def example_gtid_tx_def example_tx_def item_rows_def item_def allowed_def table_is_allowed_def
        example_handle_def handle_new_def)
  with mysql_position_ahead_of_delivery [OF example_agree example_gtid_facts(1,2) _ _ d, of script_env] show ?thesis
    by (auto simp: example_start_def example_gtid_facts gs)
qed

text \<open>
  C38. At the commit the executed set is replaced by the transaction's own GTID. The position saved after
  it names that one transaction, whatever had been executed before.
\<close>

theorem mysql_commit_forgets_history:
  assumes "agree h st (p, h)" "tx_wf t" "Option.bind (lt_gtid t) gtid_of = Some g"
  shows "\<exists>p' h' es. drive_items env (unit_items (LogTx t)) (p, h) = Some (p', h', es)
    \<and> mysql_position_offset h' = mysql_offset (mh_source_name h) (ls_file st) (end_pos (ls_pos st) (unit_items (LogTx t))) g None"
proof -
  note a = assms(1)[unfolded agree_def prod.case]
  from drive_tx [OF assms(2), of env p h] show ?thesis
    using a assms(3) by (auto simp: unit_items_def mysql_position_offset_def gtid_now_def)
qed

theorem mysql_commit_forgets_history_witness:
  "\<exists>p' h' es. drive_items script_env (unit_items (LogTx example_gtid_tx))
       (provider_new ''b.1'' 4 50, example_handle\<lparr>mh_stream := (mh_stream example_handle)\<lparr>mst_gtid := example_gtid @ '':1-5''\<rparr>\<rparr>) = Some (p', h', es)
     \<and> mysql_position_offset h' = mysql_offset ''mysql'' ''b.1'' 40 (example_gtid @ '':6'') None"
proof -
  let ?h = "example_handle\<lparr>mh_stream := (mh_stream example_handle)\<lparr>mst_gtid := example_gtid @ '':1-5''\<rparr>\<rparr>"
  have "agree ?h (example_start\<lparr>ls_gtid := example_gtid @ '':1-5''\<rparr>) (provider_new ''b.1'' 4 50, ?h)"
    by (simp add: agree_def example_handle_def example_start_def provider_new_def handle_new_def)
  from mysql_commit_forgets_history [OF this example_gtid_facts(1,2), of script_env] show ?thesis
    by (simp add: example_start_def example_handle_def handle_new_def unit_items_def opened_def example_gtid_tx_def example_tx_def
        item_def advance_binlog_pos_def)
qed

text \<open>
  C39. A transaction that ends in a COMMIT statement instead of a commit event, as one on tables without
  transactions does, is lost: the statement is skipped, and the BEGIN of the next transaction drops
  the rows held back. Only the next transaction is delivered, under the identifier of the lost one.
\<close>

theorem mysql_statement_commit_loses_rows:
  assumes "agree h st (p, h)" "tx_wf t" "tx_wf t2"
    and "bi_body q = Known (Inr (Some (QueryEvent ''COMMIT'')))" "be_ddl env ''COMMIT'' = None" "be_upper env ''COMMIT'' = ''COMMIT''"
  shows "\<exists>p' h' pos gtid. drive_items env (opened t @ [q] @ opened t2 @ [lt_commit t2]) (p, h) =
      Some (p', h', tx_events h (ls_file st) pos gtid (ls_next_tx st) t2)"
proof -
  note a = assms(1)[unfolded agree_def prod.case]
  let ?n = "ls_next_tx st"
  have ids: "fst (tx_ids p) = ?n" using a by (simp add: tx_ids_def)
  from drive_opened [OF assms(2), of env p h] obtain es where
    run: "drive_items env (opened t) (p, h) = Some (opened_provider t p, (begun t ?n h)\<lparr>mh_partial := es\<rparr>, [])"
    unfolding ids by blast
  let ?h = "(begun t ?n h)\<lparr>mh_partial := es\<rparr>" and ?p = "moved q (opened_provider t p)"
  have "\<not> eq_ignore_ascii_case (trim ''COMMIT'') ''BEGIN''" "trim_start ''COMMIT'' = ''COMMIT''"
    by code_simp+
  then have skip: "drive_items env [q] (opened_provider t p, ?h) = Some (?p, ?h, [])"
    using assms(4-6) by (simp add: drive_items_def decode_item_def decode_event_data_def decode_query_def parse_truncate_target_def Let_def)
  have ids2: "fst (tx_ids ?p) = ?n" "bp_binlog_file ?p = ls_file st"
    using a ids by (simp_all add: tx_ids_def opened_provider_def)
  have cfg: "tx_events ?h = tx_events h" by (rule tx_events_config) (simp_all add: begun_def)
  from drive_tx [OF assms(3), of env ?p ?h] obtain p2 h2 pos gtid where
    "drive_items env (opened t2 @ [lt_commit t2]) (?p, ?h) = Some (p2, h2, tx_events h (ls_file st) pos gtid ?n t2)"
    unfolding ids2 cfg by blast
  from drive_items_append [OF run drive_items_append [OF skip this]] show ?thesis by auto
qed

theorem mysql_statement_commit_loses_rows_witness:
  "\<exists>p' h' es. drive_items script_env (opened (example_tx ''lost'') @ [item 40 (QueryEvent ''COMMIT'')] @ unit_items (LogTx (example_tx ''kept'')))
       (provider_new ''b.1'' 4 50, example_handle) = Some (p', h', es)
     \<and> map ev_after es = [Some (JString ''kept'')]"
proof -
  have "bi_body (item 40 (QueryEvent ''COMMIT'')) = Known (Inr (Some (QueryEvent ''COMMIT'')))"
    "be_ddl script_env ''COMMIT'' = None" "be_upper script_env ''COMMIT'' = ''COMMIT''" by (simp_all add: item_def script_env_def)
  from mysql_statement_commit_loses_rows [OF example_agree example_tx_wf [of "''lost''"] example_tx_wf [of "''kept''"] this]
  show ?thesis
    by (auto simp: unit_items_def tx_events_def tx_rows_def example_tx_def item_rows_def item_def Let_def
        allowed_def table_is_allowed_def example_handle_def handle_new_def row_event_def example_change_def)
qed

end
