(* ===== verification/Sqlserver_Stream.thy ===== *)
theory Sqlserver_Stream
  imports Connector_Common Sqlserver_Parser
begin

text \<open>
  The live stream of the SQL Server connector (\<open>source/sqlserver.rs\<close>, \<open>source/sqlserver/stream_*.rs\<close>).
  The server keeps the changes of each captured table in a change table of its own; the stream reads
  all of them over one window of log positions, merges what it reads into commit order, hands it out
  in pages and moves to the next window. What the server answers to a statement is an environment.
\<close>

section \<open>Data\<close>

record capture_meta =
  cm_capture_instance :: string
  cm_schema :: string
  cm_table :: string
  cm_primary_key :: "string list"
  cm_captured_columns :: "string list"
  cm_capture_floor :: lsn

record raw_change =
  rw_start_lsn_hex :: string
  rw_seqval_hex :: string
  rw_operation :: int
  rw_ts_ms :: nat
  rw_row :: json

record raw_truncate =
  tr_id :: int
  tr_schema_name :: string
  tr_table_name :: string
  tr_lsn_hex :: string
  tr_ts_ms :: nat

record sqlserver_stream =
  ss_lsn_start :: lsn
  ss_lsn_end :: lsn
  ss_change_tables :: "string list"
  ss_poll_interval_ms :: nat
  ss_cursor :: "cdc_cursor option"
  ss_pending_cursor :: "cdc_cursor option"

text \<open>The fields of the configuration the stream reads.\<close>

record sqlserver_config =
  sc_include :: "string list"
  sc_exclude :: "string list"
  sc_cdc_schema :: string
  sc_capture_truncate_events :: bool

record sqlserver_handle =
  sq_config :: sqlserver_config
  sq_stream :: sqlserver_stream
  sq_metas :: "capture_meta list"
  sq_events_polled :: nat
  sq_requeued :: "event list"
  sq_max_events_per_poll :: nat
  sq_befores :: "string \<times> string \<rightharpoonup> json \<times> nat"
  sq_window_buffer :: "event list"

section \<open>What the server answers\<close>

text \<open>
  A row of a result set with its columns as the client library returns them, \<open>None\<close> where the column
  is NULL or of another type. \<open>poll_request\<close> holds the arguments of the statement
  \<open>build_cdc_poll_sql\<close> renders.
\<close>

record cdc_row =
  cr_start_lsn :: "string option"
  cr_seqval :: "string option"
  cr_operation :: "int option"
  cr_ts :: "int option"
  cr_json :: "string option"

record poll_request =
  pr_capture_instance :: string
  pr_columns :: "string list"
  pr_max :: nat
  pr_start_lsn_hex :: string
  pr_end_lsn_hex :: string
  pr_cursor :: "cdc_cursor option"

datatype cdc_read = ConnectFailed error | QueryFailed string | DecodeFailed string | Rows "cdc_row list"

datatype scalar_read = NoConnection error | NoAnswer error | Answer "string option"

record change_table_row =
  ct_capture_instance :: "string option"
  ct_schema :: "string option"
  ct_name :: "string option"
  ct_min_lsn :: "string option"

record truncate_row =
  te_id :: int
  te_schema_name :: string
  te_table_name :: string
  te_max_lsn :: "lsn option"
  te_ts_ms :: nat

text \<open>
  \<open>ce_iter\<close> is the order in which a hash map yields its values, \<open>ce_decode_row\<close> reads the JSON text of a
  row, \<open>ce_hash\<close> is the default hasher; \<open>ce_clock\<close> is the monotonic clock in milliseconds.
\<close>

record 'w cdc_env =
  ce_advance :: "lsn \<Rightarrow> 'w \<Rightarrow> 'w \<times> (string option \<times> string option) option result"
  ce_poll :: "poll_request \<Rightarrow> 'w \<Rightarrow> 'w \<times> cdc_read"
  ce_min_lsn :: "string \<Rightarrow> 'w \<Rightarrow> 'w \<times> scalar_read"
  ce_max_lsn :: "'w \<Rightarrow> 'w \<times> scalar_read"
  ce_change_tables :: "'w \<Rightarrow> 'w \<times> change_table_row list result"
  ce_columns :: "string \<Rightarrow> 'w \<Rightarrow> 'w \<times> string list result"
  ce_primary_key :: "string \<Rightarrow> 'w \<Rightarrow> 'w \<times> string list result"
  ce_truncates :: "string \<Rightarrow> string \<Rightarrow> 'w \<Rightarrow> 'w \<times> truncate_row list result"
  ce_mark :: "string \<Rightarrow> int list \<Rightarrow> 'w \<Rightarrow> 'w \<times> unit result"
  ce_cleanup :: "string \<Rightarrow> 'w \<Rightarrow> 'w"
  ce_setup :: "string \<Rightarrow> 'w \<Rightarrow> 'w \<times> unit result"
  ce_decode_row :: "string \<Rightarrow> json option"
  ce_hash :: "string \<Rightarrow> nat"
  ce_iter :: "capture_meta list \<Rightarrow> capture_meta list"
  ce_clock :: "'w \<Rightarrow> nat"
  ce_now :: "'w \<Rightarrow> nat"
  ce_sleep :: "nat \<Rightarrow> 'w \<Rightarrow> 'w"
  ce_codec :: ddl_codec

definition ZERO_LSN_HEX :: string where
  "ZERO_LSN_HEX = ''0x00000000000000000000''"

definition DEFAULT_STREAM_POLL_INTERVAL_MS :: nat where
  "DEFAULT_STREAM_POLL_INTERVAL_MS = 5000"

definition or_zero :: "string option \<Rightarrow> string" where
  "or_zero v = (case v of Some s \<Rightarrow> if s = [] then ZERO_LSN_HEX else s | None \<Rightarrow> ZERO_LSN_HEX)"

section \<open>Windows\<close>

definition next_window :: "lsn \<Rightarrow> lsn \<Rightarrow> lsn \<Rightarrow> lsn \<Rightarrow> lsn \<times> lsn" where
  "next_window current_start current_end incremented_end harvested_max =
     (if compare_lsn current_start current_end = Greater then (current_start, harvested_max)
      else (incremented_end, harvested_max))"

definition advance_window :: "'w cdc_env \<Rightarrow> sqlserver_handle \<Rightarrow> 'w \<Rightarrow> sqlserver_handle \<times> 'w \<times> unit result" where
  "advance_window env h w =
     (case ce_advance env (ss_lsn_end (sq_stream h)) w of
        (w1, Inl e) \<Rightarrow> (h, w1, Inl e)
      | (w1, Inr None) \<Rightarrow> (h, w1, Inl (SourceError ''sqlserver CDC window advance returned no row''))
      | (w1, Inr (Some (start_col, end_col))) \<Rightarrow>
          (case lsn_hex_to_bytes (or_zero start_col) of
             Inl e \<Rightarrow> (h, w1, Inl e)
           | Inr incremented \<Rightarrow>
               (case lsn_hex_to_bytes (or_zero end_col) of
                  Inl e \<Rightarrow> (h, w1, Inl e)
                | Inr harvested_max \<Rightarrow>
                    (case next_window (ss_lsn_start (sq_stream h)) (ss_lsn_end (sq_stream h)) incremented harvested_max of
                       (next_start, next_end) \<Rightarrow>
                         (h\<lparr>sq_stream := (sq_stream h)\<lparr>ss_lsn_start := next_start, ss_lsn_end := next_end,
                              ss_cursor := None, ss_pending_cursor := None\<rparr>\<rparr>, w1, Inr ())))))"

definition settle_drained_window :: "'w cdc_env \<Rightarrow> sqlserver_handle \<Rightarrow> 'w \<Rightarrow> sqlserver_handle \<times> 'w \<times> unit result" where
  "settle_drained_window env h w =
     (case ss_pending_cursor (sq_stream h) of
        Some c \<Rightarrow> (h\<lparr>sq_stream := (sq_stream h)\<lparr>ss_cursor := Some c, ss_pending_cursor := None\<rparr>\<rparr>, w, Inr ())
      | None \<Rightarrow> advance_window env h w)"

section \<open>Reading one change table\<close>

definition out_of_retention_error :: error where
  "out_of_retention_error = Unrecoverable ''sqlserver CDC change data for capture instance is no longer retained''"

definition classify_cdc_window_error ::
    "'w cdc_env \<Rightarrow> string \<Rightarrow> string \<Rightarrow> 'w \<Rightarrow> 'w \<times> raw_change list result" where
  "classify_cdc_window_error env capture_instance start_lsn_hex w =
     (case ce_min_lsn env capture_instance w of
        (w1, NoConnection e) \<Rightarrow> (w1, Inl e)
      | (w1, r) \<Rightarrow>
          (let min_lsn_hex = (case r of Answer (Some s) \<Rightarrow> s | _ \<Rightarrow> [])
           in case (lsn_hex_to_bytes start_lsn_hex, lsn_hex_to_bytes min_lsn_hex) of
                (Inr start, Inr min_lsn) \<Rightarrow>
                  if compare_lsn start min_lsn = Less then (w1, Inl out_of_retention_error) else (w1, Inr [])
              | _ \<Rightarrow> (w1, Inl out_of_retention_error)))"

definition fill_columns_null :: "string list \<Rightarrow> json \<Rightarrow> json" where
  "fill_columns_null columns parsed =
     JObject (fold (\<lambda>column obj. obj_insert column (case json_get parsed column of Some v \<Rightarrow> v | None \<Rightarrow> JNull) obj) columns [])"

definition decode_cdc_row :: "'w cdc_env \<Rightarrow> string list \<Rightarrow> cdc_row \<Rightarrow> raw_change result" where
  "decode_cdc_row env columns r =
     (case (cr_start_lsn r, cr_seqval r, cr_operation r) of
        (None, _) \<Rightarrow> Inl (SourceError ''sqlserver CDC row missing __$start_lsn'')
      | (_, None, _) \<Rightarrow> Inl (SourceError ''sqlserver CDC row missing __$seqval'')
      | (_, _, None) \<Rightarrow> Inl (SourceError ''sqlserver CDC row missing __$operation'')
      | (Some l, Some s, Some operation) \<Rightarrow>
          (case ce_decode_row env (case cr_json r of Some t \<Rightarrow> t | None \<Rightarrow> ''{}'') of
             None \<Rightarrow> Inl (SourceError ''sqlserver CDC row_json is not valid JSON'')
           | Some parsed \<Rightarrow>
               Inr \<lparr>rw_start_lsn_hex = l, rw_seqval_hex = s, rw_operation = operation,
                    rw_ts_ms = nat (case cr_ts r of Some t \<Rightarrow> t | None \<Rightarrow> 0),
                    rw_row = fill_columns_null columns parsed\<rparr>))"

fun decode_cdc_rows :: "'w cdc_env \<Rightarrow> string list \<Rightarrow> cdc_row list \<Rightarrow> raw_change list result" where
  "decode_cdc_rows env columns [] = Inr []"
| "decode_cdc_rows env columns (r # rs) =
     (case decode_cdc_row env columns r of
        Inl e \<Rightarrow> Inl e
      | Inr c \<Rightarrow> (case decode_cdc_rows env columns rs of Inl e \<Rightarrow> Inl e | Inr cs \<Rightarrow> Inr (c # cs)))"

definition poll_capture_instance :: "'w cdc_env \<Rightarrow> poll_request \<Rightarrow> 'w \<Rightarrow> 'w \<times> raw_change list result" where
  "poll_capture_instance env r w =
     (case ce_poll env r w of
        (w1, ConnectFailed e) \<Rightarrow> (w1, Inl e)
      | (w1, QueryFailed text) \<Rightarrow>
          if is_sqlserver_cdc_window_error text
          then classify_cdc_window_error env (pr_capture_instance r) (pr_start_lsn_hex r) w1
          else (w1, Inl (SourceError ''sqlserver CDC poll failed''))
      | (w1, DecodeFailed text) \<Rightarrow>
          if is_sqlserver_cdc_window_error text
          then classify_cdc_window_error env (pr_capture_instance r) (pr_start_lsn_hex r) w1
          else (w1, Inl (SourceError ''sqlserver CDC poll decode failed''))
      | (w1, Rows rows) \<Rightarrow> (w1, decode_cdc_rows env (pr_columns r) rows))"

definition fetch_changes_for_capture_instance ::
    "'w cdc_env \<Rightarrow> sqlserver_stream \<Rightarrow> nat \<Rightarrow> capture_meta \<Rightarrow> 'w \<Rightarrow> 'w \<times> raw_change list result" where
  "fetch_changes_for_capture_instance env st max_events_per_poll meta w =
     (if compare_lsn (ss_lsn_start st) (ss_lsn_end st) = Greater then (w, Inr [])
      else case validate_capture_instance_name (cm_capture_instance meta) of
             Inl e \<Rightarrow> (w, Inl e)
           | Inr _ \<Rightarrow>
               (if compare_lsn (cm_capture_floor meta) (ss_lsn_start st) = Greater
                   \<and> compare_lsn (cm_capture_floor meta) (ss_lsn_end st) = Greater then (w, Inr [])
                else poll_capture_instance env
                       \<lparr>pr_capture_instance = cm_capture_instance meta, pr_columns = cm_captured_columns meta,
                        pr_max = max_events_per_poll,
                        pr_start_lsn_hex = lsn_bytes_to_hex (if compare_lsn (cm_capture_floor meta) (ss_lsn_start st) = Greater
                                                             then cm_capture_floor meta else ss_lsn_start st),
                        pr_end_lsn_hex = lsn_bytes_to_hex (ss_lsn_end st), pr_cursor = ss_cursor st\<rparr> w))"

section \<open>Events\<close>

definition build_sqlserver_event ::
    "'w cdc_env \<Rightarrow> capture_meta \<Rightarrow> string \<Rightarrow> string \<Rightarrow> nat \<Rightarrow> operation \<Rightarrow> json option \<Rightarrow> json option \<Rightarrow> event" where
  "build_sqlserver_event env meta start_lsn_hex seqval_hex ts_ms op before after =
     \<lparr>ev_before = before, ev_after = after, ev_op = op,
      ev_source = \<lparr>source_name = ''sqlserver'', source_offset = start_lsn_hex, source_timestamp = ts_ms\<rparr>,
      ev_ts = ts_ms, ev_schema = Some (cm_schema meta), ev_table = cm_table meta,
      ev_primary_key = (if cm_primary_key meta = [] then None else Some (cm_primary_key meta)),
      ev_snapshot = None,
      ev_transaction = Some \<lparr>tx_id = ce_hash env seqval_hex, total_events = Some 1, event_index = 0\<rparr>,
      ev_envelope_version = envelope_version_const, ev_before_is_key_only = False,
      ev_unavailable_columns = [], ev_before_unavailable_columns = []\<rparr>"

definition selected :: "sqlserver_config \<Rightarrow> string \<Rightarrow> string \<Rightarrow> bool" where
  "selected cfg schema table = table_is_allowed (Some schema) table (sc_include cfg) (sc_exclude cfg)"

text \<open>One change; the first image of an update is held until the second arrives.\<close>

definition map_change ::
    "'w cdc_env \<Rightarrow> sqlserver_config \<Rightarrow> capture_meta \<Rightarrow> raw_change \<Rightarrow> (string \<times> string \<rightharpoonup> json \<times> nat)
     \<Rightarrow> (string \<times> string \<rightharpoonup> json \<times> nat) \<times> event list result" where
  "map_change env cfg meta c befores =
     (let key = (rw_start_lsn_hex c, rw_seqval_hex c);
          emit = (\<lambda>ts op before after.
            if selected cfg (cm_schema meta) (cm_table meta)
            then [build_sqlserver_event env meta (rw_start_lsn_hex c) (rw_seqval_hex c) ts op before after] else [])
      in if rw_operation c = 1 then (befores, Inr (emit (rw_ts_ms c) Delete (Some (rw_row c)) None))
         else if rw_operation c = 2 then (befores, Inr (emit (rw_ts_ms c) Insert None (Some (rw_row c))))
         else if rw_operation c = 3 then (befores(key \<mapsto> (rw_row c, rw_ts_ms c)), Inr [])
         else if rw_operation c = 4 then
           (befores(key := None),
            Inr (case befores key of
                   Some (row, ts) \<Rightarrow> emit ts Update (Some row) (Some (rw_row c))
                 | None \<Rightarrow> emit (rw_ts_ms c) Update None (Some (rw_row c))))
         else (befores, Inl (SourceError ''unsupported sqlserver CDC __$operation value'')))"

fun map_changes_to_events ::
    "'w cdc_env \<Rightarrow> capture_meta \<Rightarrow> raw_change list \<Rightarrow> sqlserver_handle \<Rightarrow> sqlserver_handle \<times> event list result" where
  "map_changes_to_events env meta [] h = (h, Inr [])"
| "map_changes_to_events env meta (c # cs) h =
     (case map_change env (sq_config h) meta c (sq_befores h) of
        (b, Inl e) \<Rightarrow> (h\<lparr>sq_befores := b\<rparr>, Inl e)
      | (b, Inr es) \<Rightarrow>
          (case map_changes_to_events env meta cs (h\<lparr>sq_befores := b\<rparr>) of
             (h2, Inl e) \<Rightarrow> (h2, Inl e)
           | (h2, Inr es') \<Rightarrow> (h2, Inr (es @ es'))))"

definition build_truncate_event :: "raw_truncate \<Rightarrow> event" where
  "build_truncate_event raw =
     \<lparr>ev_before = None, ev_after = None, ev_op = Truncate,
      ev_source = \<lparr>source_name = ''sqlserver'', source_offset = tr_lsn_hex raw, source_timestamp = tr_ts_ms raw\<rparr>,
      ev_ts = tr_ts_ms raw, ev_schema = Some (tr_schema_name raw), ev_table = tr_table_name raw,
      ev_primary_key = None, ev_snapshot = None, ev_transaction = None,
      ev_envelope_version = envelope_version_const, ev_before_is_key_only = False,
      ev_unavailable_columns = [], ev_before_unavailable_columns = []\<rparr>"

definition truncate_of_row :: "string \<Rightarrow> nat \<Rightarrow> truncate_row \<Rightarrow> raw_truncate" where
  "truncate_of_row lsn_end_hex ts_now r =
     \<lparr>tr_id = te_id r, tr_schema_name = te_schema_name r, tr_table_name = te_table_name r,
      tr_lsn_hex = (case te_max_lsn r of Some l \<Rightarrow> lsn_bytes_to_hex l | None \<Rightarrow> lsn_end_hex),
      tr_ts_ms = (if te_ts_ms r > 0 then te_ts_ms r else ts_now)\<rparr>"

definition fetch_and_emit_truncate_events :: "'w cdc_env \<Rightarrow> sqlserver_handle \<Rightarrow> 'w \<Rightarrow> 'w \<times> event list result" where
  "fetch_and_emit_truncate_events env h w =
     (if \<not> sc_capture_truncate_events (sq_config h) then (w, Inr [])
      else let lsn_end_hex = lsn_bytes_to_hex (ss_lsn_end (sq_stream h)); cdc_schema = sc_cdc_schema (sq_config h)
           in case ce_truncates env cdc_schema lsn_end_hex w of
                (w1, Inl e) \<Rightarrow> (w1, Inl e)
              | (w1, Inr rows) \<Rightarrow>
                  (if rows = [] then (w1, Inr [])
                   else let kept = filter (\<lambda>r. selected (sq_config h) (te_schema_name r) (te_table_name r)) rows;
                            events = map (\<lambda>r. build_truncate_event (truncate_of_row lsn_end_hex (ce_now env w1) r)) kept
                        in case ce_mark env cdc_schema (map te_id rows) w1 of
                             (w2, Inl e) \<Rightarrow> (w2, Inl e)
                           | (w2, Inr _) \<Rightarrow> (ce_cleanup env cdc_schema w2, Inr events)))"

section \<open>Schema events\<close>

definition capture_instance_is_selected :: "sqlserver_config \<Rightarrow> string \<Rightarrow> string \<Rightarrow> bool" where
  "capture_instance_is_selected cfg schema table = table_is_allowed (Some schema) table (sc_include cfg) (sc_exclude cfg)"

text \<open>One row of the list of change tables; \<open>None\<close> for a table the lists leave out.\<close>

definition load_capture_meta ::
    "'w cdc_env \<Rightarrow> sqlserver_config \<Rightarrow> bool \<Rightarrow> change_table_row \<Rightarrow> 'w \<Rightarrow> 'w \<times> capture_meta option result" where
  "load_capture_meta env cfg require_non_empty_columns r w =
     (case ct_capture_instance r of
        None \<Rightarrow> (w, Inl (SourceError ''metadata missing capture_instance''))
      | Some ci \<Rightarrow>
          (case validate_capture_instance_name ci of
             Inl e \<Rightarrow> (w, Inl e)
           | Inr _ \<Rightarrow>
               (case (ct_schema r, ct_name r) of
                  (None, _) \<Rightarrow> (w, Inl (SourceError ''metadata missing source_schema''))
                | (_, None) \<Rightarrow> (w, Inl (SourceError ''metadata missing source_name''))
                | (Some schema, Some table) \<Rightarrow>
                    if \<not> capture_instance_is_selected cfg schema table then (w, Inr None)
                    else (case ce_columns env ci w of
                            (w1, Inl e) \<Rightarrow> (w1, Inl e)
                          | (w1, Inr columns) \<Rightarrow>
                              if require_non_empty_columns \<and> columns = []
                              then (w1, Inl (SourceError ''sqlserver capture instance has no captured columns''))
                              else (case ce_primary_key env ci w1 of
                                      (w2, Inl e) \<Rightarrow> (w2, Inl e)
                                    | (w2, Inr key) \<Rightarrow>
                                        (case (case ct_min_lsn r of
                                                 Some s \<Rightarrow> if s = [] then Inr (replicate 10 0) else lsn_hex_to_bytes s
                                               | None \<Rightarrow> Inr (replicate 10 0)) of
                                           Inl e \<Rightarrow> (w2, Inl e)
                                         | Inr capture_floor \<Rightarrow>
                                             (w2, Inr (Some \<lparr>cm_capture_instance = ci, cm_schema = schema, cm_table = table,
                                                cm_primary_key = key, cm_captured_columns = columns,
                                                cm_capture_floor = capture_floor\<rparr>))))))))"

fun load_capture_rows ::
    "'w cdc_env \<Rightarrow> sqlserver_config \<Rightarrow> bool \<Rightarrow> change_table_row list \<Rightarrow> 'w \<Rightarrow> 'w \<times> capture_meta list result" where
  "load_capture_rows env cfg require_columns [] w = (w, Inr [])"
| "load_capture_rows env cfg require_columns (r # rs) w =
     (case load_capture_meta env cfg require_columns r w of
        (w1, Inl e) \<Rightarrow> (w1, Inl e)
      | (w1, Inr m) \<Rightarrow>
          (case load_capture_rows env cfg require_columns rs w1 of
             (w2, Inl e) \<Rightarrow> (w2, Inl e)
           | (w2, Inr ms) \<Rightarrow> (w2, Inr (case m of Some x \<Rightarrow> x # ms | None \<Rightarrow> ms))))"

definition load_capture_metas_for_config ::
    "'w cdc_env \<Rightarrow> sqlserver_config \<Rightarrow> bool \<Rightarrow> bool \<Rightarrow> 'w \<Rightarrow> 'w \<times> capture_meta list result" where
  "load_capture_metas_for_config env cfg require_non_empty_metas require_non_empty_columns w =
     (case ce_change_tables env w of
        (w1, Inl e) \<Rightarrow> (w1, Inl e)
      | (w1, Inr rows) \<Rightarrow>
          (case load_capture_rows env cfg require_non_empty_columns rows w1 of
             (w2, Inl e) \<Rightarrow> (w2, Inl e)
           | (w2, Inr metas) \<Rightarrow>
               if require_non_empty_metas \<and> metas = []
               then (w2, Inl (SourceError (if sc_include cfg \<noteq> [] \<or> sc_exclude cfg \<noteq> []
                                           then ''sqlserver CDC has no capture instance matching the configured table filters''
                                           else ''sqlserver CDC has no capture instances; enable CDC on at least one table'')))
               else (w2, Inr metas)))"

definition table_schema_from_meta :: "capture_meta \<Rightarrow> table_schema" where
  "table_schema_from_meta m =
     \<lparr>ts_schema = cm_schema m, ts_table = cm_table m,
      ts_columns = map (\<lambda>name. \<lparr>col_name = name, col_data_type = ''sqlserver_captured'',
        col_nullable = (name \<notin> set (cm_primary_key m)),
        col_constraints = (if name \<in> set (cm_primary_key m) then [''primary_key''] else [])\<rparr>) (cm_captured_columns m),
      ts_primary_keys = cm_primary_key m, ts_version = 0\<rparr>"

definition build_schema_event_for_meta :: "'w cdc_env \<Rightarrow> 'w \<Rightarrow> lsn \<Rightarrow> string \<Rightarrow> capture_meta \<Rightarrow> string \<Rightarrow> event" where
  "build_schema_event_for_meta env w lsn_end ddl_type m statement =
     to_event (ce_codec env)
       \<lparr>cd_ddl_type = ddl_type, cd_schema = cm_schema m, cd_table = cm_table m, cd_statement = statement,
        cd_result_schema = (if ddl_type = ''DROP_TABLE'' then None else Some (table_schema_from_meta m)),
        cd_schema_diff = None, cd_ts = ce_now env w\<rparr>
       ''sqlserver'' (lsn_bytes_to_hex lsn_end) (ce_now env w)"

definition schema_statement :: "string \<Rightarrow> capture_meta \<Rightarrow> string \<Rightarrow> string" where
  "schema_statement verb m what =
     verb @ '' TABLE '' @ cm_schema m @ ''.'' @ cm_table m @ '' /* capture instance '' @ [CHR 39] @ cm_capture_instance m
     @ [CHR 39] @ '' '' @ what @ '' */''"

text \<open>Collecting into a hash map: the last entry of a key wins, and the map yields its entries in some order.\<close>

fun hash_entries :: "capture_meta list \<Rightarrow> capture_meta list" where
  "hash_entries [] = []"
| "hash_entries (m # ms) =
     (if list_ex (\<lambda>x. cm_capture_instance x = cm_capture_instance m) ms then hash_entries ms else m # hash_entries ms)"

definition find_meta :: "capture_meta list \<Rightarrow> string \<Rightarrow> capture_meta option" where
  "find_meta ms ci = find (\<lambda>m. cm_capture_instance m = ci) ms"

definition compute_schema_events_for_meta_refresh ::
    "'w cdc_env \<Rightarrow> sqlserver_handle \<Rightarrow> capture_meta list \<Rightarrow> 'w \<Rightarrow> event list" where
  "compute_schema_events_for_meta_refresh env h refreshed w =
     (let current = hash_entries (sq_metas h); nxt = hash_entries refreshed;
          event_for = build_schema_event_for_meta env w (ss_lsn_end (sq_stream h))
      in concat (map (\<lambda>old. if find_meta nxt (cm_capture_instance old) = None
                            then [event_for ''DROP_TABLE'' old (schema_statement ''DROP'' old ''removed'')] else [])
                   (ce_iter env current))
         @ concat (map (\<lambda>new. case find_meta current (cm_capture_instance new) of
                                 None \<Rightarrow> [event_for ''CREATE_TABLE'' new (schema_statement ''CREATE'' new ''discovered'')]
                               | Some old \<Rightarrow>
                                   if cm_schema old \<noteq> cm_schema new \<or> cm_table old \<noteq> cm_table new
                                      \<or> cm_primary_key old \<noteq> cm_primary_key new
                                      \<or> cm_captured_columns old \<noteq> cm_captured_columns new
                                   then [event_for ''ALTER_TABLE'' new (schema_statement ''ALTER'' new ''metadata updated'')]
                                   else [])
                   (ce_iter env nxt)))"

definition retain_known_capture_floors :: "capture_meta list \<Rightarrow> capture_meta list \<Rightarrow> capture_meta list" where
  "retain_known_capture_floors known refreshed =
     map (\<lambda>m. case find_meta known (cm_capture_instance m) of
                Some existing \<Rightarrow> m\<lparr>cm_capture_floor := cm_capture_floor existing\<rparr>
              | None \<Rightarrow> m) refreshed"

definition refresh_metas_and_collect_schema_events ::
    "'w cdc_env \<Rightarrow> sqlserver_handle \<Rightarrow> 'w \<Rightarrow> sqlserver_handle \<times> 'w \<times> event list result" where
  "refresh_metas_and_collect_schema_events env h w =
     (case load_capture_metas_for_config env (sq_config h) False False w of
        (w1, Inl e) \<Rightarrow> (h, w1, Inl e)
      | (w1, Inr loaded) \<Rightarrow>
          (let refreshed = retain_known_capture_floors (sq_metas h) loaded
           in (h\<lparr>sq_metas := refreshed\<rparr>, w1, Inr (compute_schema_events_for_meta_refresh env h refreshed w1))))"

section \<open>Polling\<close>

definition cursor_of :: "raw_change \<Rightarrow> cdc_cursor" where
  "cursor_of c = \<lparr>cc_lsn_hex = rw_start_lsn_hex c, cc_seqval_hex = rw_seqval_hex c, cc_operation = rw_operation c\<rparr>"

definition tighten :: "nat \<Rightarrow> raw_change list \<Rightarrow> cdc_cursor option \<Rightarrow> cdc_cursor option" where
  "tighten max_events_per_poll changes cur =
     (if length changes \<ge> max_events_per_poll \<and> changes \<noteq> []
      then let candidate = cursor_of (last changes)
           in case cur of
                Some existing \<Rightarrow> if cursor_ordering existing candidate \<noteq> Greater then Some existing else Some candidate
              | None \<Rightarrow> Some candidate
      else cur)"

text \<open>Every change table is read with its own limit.\<close>

fun fetch_all ::
    "'w cdc_env \<Rightarrow> sqlserver_handle \<Rightarrow> capture_meta list \<Rightarrow> (capture_meta \<times> raw_change) list \<Rightarrow> cdc_cursor option \<Rightarrow> 'w
     \<Rightarrow> 'w \<times> ((capture_meta \<times> raw_change) list \<times> cdc_cursor option) result" where
  "fetch_all env h [] flat cur w = (w, Inr (flat, cur))"
| "fetch_all env h (m # ms) flat cur w =
     (case fetch_changes_for_capture_instance env (sq_stream h) (sq_max_events_per_poll h) m w of
        (w1, Inl e) \<Rightarrow> (w1, Inl e)
      | (w1, Inr changes) \<Rightarrow>
          fetch_all env h ms (flat @ map (Pair m) changes) (tighten (sq_max_events_per_poll h) changes cur) w1)"

definition change_order :: "raw_change \<Rightarrow> raw_change \<Rightarrow> ordering" where
  "change_order a b =
     then_with
       (then_with
          (case (lsn_hex_to_bytes_opt (rw_start_lsn_hex a), lsn_hex_to_bytes_opt (rw_start_lsn_hex b)) of
             (Some la, Some lb) \<Rightarrow> compare_lsn la lb
           | _ \<Rightarrow> Equal)
          (compare_of (rw_seqval_hex a) (rw_seqval_hex b)))
       (compare_of (rw_operation a) (rw_operation b))"

text \<open>\<open>slice::sort_by\<close>, which is stable.\<close>

fun insert_by :: "('a \<Rightarrow> 'a \<Rightarrow> ordering) \<Rightarrow> 'a \<Rightarrow> 'a list \<Rightarrow> 'a list" where
  "insert_by cmp x [] = [x]"
| "insert_by cmp x (y # ys) = (if cmp x y \<noteq> Greater then x # y # ys else y # insert_by cmp x ys)"

definition sort_by :: "('a \<Rightarrow> 'a \<Rightarrow> ordering) \<Rightarrow> 'a list \<Rightarrow> 'a list" where
  "sort_by cmp xs = foldr (insert_by cmp) xs []"

definition merge_changes :: "cdc_cursor option \<Rightarrow> (capture_meta \<times> raw_change) list \<Rightarrow> (capture_meta \<times> raw_change) list" where
  "merge_changes cur flat =
     (let merged = sort_by (\<lambda>a b. change_order (snd a) (snd b)) flat
      in case cur of
           Some c \<Rightarrow> filter (\<lambda>x. cursor_ordering (cursor_of (snd x)) c \<noteq> Greater) merged
         | None \<Rightarrow> merged)"

fun buffer_changes :: "'w cdc_env \<Rightarrow> (capture_meta \<times> raw_change) list \<Rightarrow> sqlserver_handle \<Rightarrow> sqlserver_handle \<times> unit result" where
  "buffer_changes env [] h = (h, Inr ())"
| "buffer_changes env ((m, c) # xs) h =
     (case map_changes_to_events env m [c] h of
        (h1, Inl e) \<Rightarrow> (h1, Inl e)
      | (h1, Inr es) \<Rightarrow> buffer_changes env xs (h1\<lparr>sq_window_buffer := sq_window_buffer h1 @ es\<rparr>))"

text \<open>Hand out one page of the buffer and settle the window once the buffer is empty.\<close>

definition deliver_page :: "'w cdc_env \<Rightarrow> sqlserver_handle \<Rightarrow> 'w \<Rightarrow> sqlserver_handle \<times> 'w \<times> event list result" where
  "deliver_page env h w =
     (let count = min (sq_max_events_per_poll h) (length (sq_window_buffer h));
          batch = take count (sq_window_buffer h);
          h1 = h\<lparr>sq_window_buffer := drop count (sq_window_buffer h)\<rparr>
      in if sq_window_buffer h1 = []
         then (case settle_drained_window env h1 w of
                 (h2, w1, Inl e) \<Rightarrow> (h2, w1, Inl e)
               | (h2, w1, Inr _) \<Rightarrow> (h2, w1, Inr batch))
         else (h1, w, Inr batch))"

definition merge_truncates :: "event list \<Rightarrow> sqlserver_handle \<Rightarrow> sqlserver_handle" where
  "merge_truncates ts h =
     (if ts = [] then h
      else h\<lparr>sq_window_buffer :=
               sort_by (\<lambda>a b. compare_of (source_offset (ev_source a)) (source_offset (ev_source b))) (sq_window_buffer h @ ts)\<rparr>)"

definition fill_window ::
    "'w cdc_env \<Rightarrow> (capture_meta \<times> raw_change) list \<Rightarrow> cdc_cursor option \<Rightarrow> sqlserver_handle \<Rightarrow> 'w
     \<Rightarrow> sqlserver_handle \<times> 'w \<times> event list result" where
  "fill_window env flat cur h w =
     (case buffer_changes env (merge_changes cur flat) h of
        (h1, Inl e) \<Rightarrow> (h1, w, Inl e)
      | (h1, Inr _) \<Rightarrow>
          (case fetch_and_emit_truncate_events env h1 w of
             (w1, Inl e) \<Rightarrow> (h1, w1, Inl e)
           | (w1, Inr ts) \<Rightarrow>
               (let h2 = merge_truncates ts h1
                in deliver_page env
                     (h2\<lparr>sq_events_polled := sat_add64 (sq_events_polled h2) (length (sq_window_buffer h2)),
                         sq_stream := (sq_stream h2)\<lparr>ss_pending_cursor := cur\<rparr>\<rparr>) w1)))"

definition fill_iteration ::
    "'w cdc_env \<Rightarrow> nat \<Rightarrow> nat \<Rightarrow> sqlserver_handle \<Rightarrow> 'w
     \<Rightarrow> (sqlserver_handle \<times> 'w \<times> event list result) + (sqlserver_handle \<times> 'w)" where
  "fill_iteration env timeout_ms deadline h w =
     (case fetch_all env h (sq_metas h) [] None w of
        (w1, Inl e) \<Rightarrow> Inl (h, w1, Inl e)
      | (w1, Inr (flat, cur)) \<Rightarrow>
          if flat \<noteq> [] then Inl (fill_window env flat cur h w1)
          else (case fetch_and_emit_truncate_events env h w1 of
                  (w2, Inl e) \<Rightarrow> Inl (h, w2, Inl e)
                | (w2, Inr ts) \<Rightarrow>
                    (let h1 = (if ts = [] then h else h\<lparr>sq_events_polled := sat_add64 (sq_events_polled h) (length ts)\<rparr>)
                     in case advance_window env h1 w2 of
                          (h2, w3, Inl e) \<Rightarrow> Inl (h2, w3, Inl e)
                        | (h2, w3, Inr _) \<Rightarrow>
                            if ts \<noteq> [] then Inl (h2, w3, Inr ts)
                            else if ce_clock env w3 \<ge> deadline then Inl (h2, w3, Inr [])
                            else Inr (h2, ce_sleep env (min (min (ss_poll_interval_ms (sq_stream h2)) (max timeout_ms 1))
                                                          DEFAULT_STREAM_POLL_INTERVAL_MS) w3))))"

partial_function (option) fill_loop ::
    "'w cdc_env \<Rightarrow> nat \<Rightarrow> nat \<Rightarrow> sqlserver_handle \<Rightarrow> 'w \<Rightarrow> (sqlserver_handle \<times> 'w \<times> event list result) option" where
  "fill_loop env timeout_ms deadline h w =
     (case fill_iteration env timeout_ms deadline h w of
        Inl r \<Rightarrow> Some r
      | Inr (h1, w1) \<Rightarrow> fill_loop env timeout_ms deadline h1 w1)"

definition sqlserver_next_events ::
    "'w cdc_env \<Rightarrow> nat \<Rightarrow> sqlserver_handle \<Rightarrow> 'w \<Rightarrow> (sqlserver_handle \<times> 'w \<times> event list result) option" where
  "sqlserver_next_events env timeout_ms h w =
     (if sq_requeued h \<noteq> [] then Some (h\<lparr>sq_requeued := []\<rparr>, w, Inr (sq_requeued h))
      else case refresh_metas_and_collect_schema_events env h w of
             (h1, w1, Inl e) \<Rightarrow> Some (h1, w1, Inl e)
           | (h1, w1, Inr schema_events) \<Rightarrow>
               if schema_events \<noteq> []
               then Some (h1\<lparr>sq_events_polled := sat_add64 (sq_events_polled h1) (length schema_events)\<rparr>, w1,
                          Inr (take (sq_max_events_per_poll h1) schema_events))
               else if sq_window_buffer h1 \<noteq> [] then Some (deliver_page env h1 w1)
               else fill_loop env timeout_ms (ce_clock env w1 + timeout_ms) h1 w1)"

section \<open>Positions\<close>

definition sqlserver_position :: "sqlserver_stream \<Rightarrow> string" where
  "sqlserver_position st =
     (case ss_cursor st of Some c \<Rightarrow> cursor_encode c | None \<Rightarrow> lsn_bytes_to_hex (ss_lsn_start st))"

text \<open>The saved offset is the JSON string of the position.\<close>

definition sqlserver_save_position :: "(offset \<Rightarrow> nat \<Rightarrow> 'c \<Rightarrow> 'c \<times> unit result) \<Rightarrow> sqlserver_handle \<Rightarrow> 'c \<Rightarrow> 'c \<times> unit result" where
  "sqlserver_save_position save h c =
     save (''sqlserver'', Some (JString (sqlserver_position (sq_stream h)))) (sq_events_polled h) c"

definition sqlserver_requeue_events :: "event list \<Rightarrow> sqlserver_handle \<Rightarrow> sqlserver_handle" where
  "sqlserver_requeue_events events h = (if events = [] then h else h\<lparr>sq_requeued := events @ sq_requeued h\<rparr>)"

definition query_max_lsn_hex :: "'w cdc_env \<Rightarrow> 'w \<Rightarrow> 'w \<times> string result" where
  "query_max_lsn_hex env w =
     (case ce_max_lsn env w of
        (w1, NoConnection e) \<Rightarrow> (w1, Inl e) | (w1, NoAnswer e) \<Rightarrow> (w1, Inl e) | (w1, Answer v) \<Rightarrow> (w1, Inr (or_zero v)))"

definition query_min_lsn_hex :: "'w cdc_env \<Rightarrow> string \<Rightarrow> 'w \<Rightarrow> 'w \<times> string result" where
  "query_min_lsn_hex env capture_instance w =
     (case ce_min_lsn env capture_instance w of
        (w1, NoConnection e) \<Rightarrow> (w1, Inl e) | (w1, NoAnswer e) \<Rightarrow> (w1, Inl e) | (w1, Answer v) \<Rightarrow> (w1, Inr (or_zero v)))"

fun least_min_lsn :: "'w cdc_env \<Rightarrow> capture_meta list \<Rightarrow> lsn option \<Rightarrow> 'w \<Rightarrow> 'w \<times> lsn option result" where
  "least_min_lsn env [] cur w = (w, Inr cur)"
| "least_min_lsn env (m # ms) cur w =
     (case query_min_lsn_hex env (cm_capture_instance m) w of
        (w1, Inl e) \<Rightarrow> (w1, Inl e)
      | (w1, Inr s) \<Rightarrow>
          (case lsn_hex_to_bytes s of
             Inl e \<Rightarrow> (w1, Inl e)
           | Inr l \<Rightarrow>
               least_min_lsn env ms
                 (case cur of Some current \<Rightarrow> if compare_lsn l current = Less then Some l else cur | None \<Rightarrow> Some l) w1))"

text \<open>
  Where a stream starts. \<open>resume\<close> is the source type of the checkpoint and the position text read from
  its bytes.
\<close>

definition resume_point :: "lsn \<Rightarrow> (string \<times> string result) option \<Rightarrow> (lsn \<times> cdc_cursor option) result" where
  "resume_point min_lsn resume =
     (case resume of
        None \<Rightarrow> Inr (min_lsn, None)
      | Some (source_type, cursor_text) \<Rightarrow>
          if source_type \<noteq> ''sqlserver'' then Inl (CheckpointError ''cannot resume sqlserver stream from source type'')
          else (case cursor_text of
                  Inl e \<Rightarrow> Inl e
                | Inr t \<Rightarrow>
                    (case lsn_from_source_offset t of
                       None \<Rightarrow> Inl (CheckpointError ''invalid sqlserver checkpoint offset'')
                     | Some l \<Rightarrow>
                         if compare_lsn l min_lsn = Less
                         then Inl (CheckpointError ''sqlserver checkpoint LSN is older than CDC minimum; CDC cleanup removed required rows'')
                         else Inr (l, cursor_decode t))))"

record sqlserver_connection =
  scn_connected :: bool
  scn_config :: sqlserver_config
  scn_poll_interval_ms :: nat
  scn_max_events_per_poll :: nat
  scn_stream_lsn_start :: "lsn option"

definition initial_handle :: "sqlserver_connection \<Rightarrow> capture_meta list \<Rightarrow> lsn \<Rightarrow> lsn \<Rightarrow> cdc_cursor option \<Rightarrow> sqlserver_handle" where
  "initial_handle conn metas start_lsn max_lsn cur =
     \<lparr>sq_config = scn_config conn,
      sq_stream = \<lparr>ss_lsn_start = start_lsn, ss_lsn_end = max_lsn, ss_change_tables = map cm_capture_instance metas,
        ss_poll_interval_ms = scn_poll_interval_ms conn, ss_cursor = cur, ss_pending_cursor = None\<rparr>,
      sq_metas = metas, sq_events_polled = 0, sq_requeued = [],
      sq_max_events_per_poll = scn_max_events_per_poll conn, sq_befores = Map.empty, sq_window_buffer = []\<rparr>"

definition start_sqlserver_stream ::
    "'w cdc_env \<Rightarrow> (string \<times> string result) option \<Rightarrow> sqlserver_connection \<Rightarrow> 'w
     \<Rightarrow> sqlserver_connection \<times> 'w \<times> sqlserver_handle result" where
  "start_sqlserver_stream env resume conn w =
     (if \<not> scn_connected conn
      then (conn, w, Inl (StateError ''sqlserver connection must be established before starting stream''))
      else case load_capture_metas_for_config env (scn_config conn) True True w of
             (w1, Inl e) \<Rightarrow> (conn, w1, Inl e)
           | (w1, Inr metas) \<Rightarrow>
               (case least_min_lsn env metas None w1 of
                  (w2, Inl e) \<Rightarrow> (conn, w2, Inl e)
                | (w2, Inr None) \<Rightarrow> (conn, w2, Inl (SourceError ''sqlserver could not determine CDC minimum LSN''))
                | (w2, Inr (Some min_lsn)) \<Rightarrow>
                    (case query_max_lsn_hex env w2 of
                       (w3, Inl e) \<Rightarrow> (conn, w3, Inl e)
                     | (w3, Inr max_hex) \<Rightarrow>
                         (case lsn_hex_to_bytes max_hex of
                            Inl e \<Rightarrow> (conn, w3, Inl e)
                          | Inr max_read \<Rightarrow>
                              (case resume_point min_lsn resume of
                                 Inl e \<Rightarrow> (conn, w3, Inl e)
                               | Inr (start_lsn, cur) \<Rightarrow>
                                   (let max_lsn = (if compare_lsn max_read start_lsn = Less then start_lsn else max_read)
                                    in case (if sc_capture_truncate_events (scn_config conn)
                                             then ce_setup env (sc_cdc_schema (scn_config conn)) w3 else (w3, Inr ())) of
                                         (w4, Inl e) \<Rightarrow> (conn, w4, Inl e)
                                       | (w4, Inr _) \<Rightarrow>
                                           (conn\<lparr>scn_stream_lsn_start := Some start_lsn\<rparr>, w4,
                                            Inr (initial_handle conn metas start_lsn max_lsn cur))))))))"

end
