(* ===== verification/Sqlserver_Delivery.thy ===== *)
theory Sqlserver_Delivery
  imports Sqlserver_Stream "HOL-Library.Product_Lexorder"
begin

text \<open>
  The SQL Server stream against a log of change tables: what a server promises, the invariant of the
  runs of the stream, and how a position is resumed.
\<close>

section \<open>The order of changes\<close>

definition lsn_of_text :: "string \<Rightarrow> lsn" where
  "lsn_of_text s = (case lsn_hex_to_bytes_opt s of Some l \<Rightarrow> l | None \<Rightarrow> [])"

definition lsn_of :: "raw_change \<Rightarrow> lsn" where
  "lsn_of c = lsn_of_text (rw_start_lsn_hex c)"

type_synonym change_key = "lsn \<times> string \<times> int"

definition cursor_key :: "cdc_cursor \<Rightarrow> change_key" where
  "cursor_key k = (lsn_of_text (cc_lsn_hex k), cc_seqval_hex k, cc_operation k)"

definition change_key :: "raw_change \<Rightarrow> change_key" where
  "change_key c = (lsn_of c, rw_seqval_hex c, rw_operation c)"

definition cursor_wf :: "cdc_cursor \<Rightarrow> bool" where
  "cursor_wf k \<longleftrightarrow> lsn_hex_to_bytes_opt (cc_lsn_hex k) \<noteq> None \<and> lsn_hex_to_bytes_opt (cc_seqval_hex k) \<noteq> None
     \<and> i32_min \<le> cc_operation k \<and> cc_operation k \<le> i32_max"

definition change_wf :: "raw_change \<Rightarrow> bool" where
  "change_wf c \<longleftrightarrow> cursor_wf (cursor_of c)"

lemma compare_of_pair:
  "compare_of (a, b, c) (a', b', c') = then_with (then_with (compare_of a a') (compare_of b b')) (compare_of c c')"
  by (auto simp: compare_of_def then_with_def less_prod_def' split: if_splits)

lemma compare_of_Greater [simp]: "compare_of a b = Greater \<longleftrightarrow> b < a" "Greater = compare_of a b \<longleftrightarrow> b < a"
  by (auto simp: compare_of_def)

lemma compare_of_Less [simp]: "compare_of a b = Less \<longleftrightarrow> a < b"
  by (auto simp: compare_of_def)

lemma cursor_of_key [simp]: "cursor_key (cursor_of c) = change_key c"
  by (simp add: cursor_key_def cursor_of_def change_key_def lsn_of_def)

lemma cursor_of_wf [simp]: "cursor_wf (cursor_of c) = change_wf c"
  by (simp add: change_wf_def)

lemma cursor_ordering_key:
  "cursor_wf a \<Longrightarrow> cursor_wf b \<Longrightarrow> cursor_ordering a b = compare_of (cursor_key a) (cursor_key b)"
  by (auto simp: cursor_ordering_def cursor_key_def cursor_wf_def compare_of_pair lsn_of_text_def compare_lsn_def)

lemma change_order_key:
  "change_wf a \<Longrightarrow> change_wf b \<Longrightarrow> change_order a b = compare_of (change_key a) (change_key b)"
  by (auto simp: change_order_def change_key_def change_wf_def cursor_wf_def cursor_of_def compare_of_pair lsn_of_def lsn_of_text_def compare_lsn_def)

lemma insert_by_key:
  "(\<And>y. y \<in> set ys \<Longrightarrow> cmp x y = compare_of (f x) (f y)) \<Longrightarrow> insert_by cmp x ys = insort_key f x ys"
  by (induction ys) (auto simp: not_less)

lemma sort_by_key:
  "(\<And>x y. x \<in> set xs \<Longrightarrow> y \<in> set xs \<Longrightarrow> cmp x y = compare_of (f x) (f y)) \<Longrightarrow> sort_by cmp xs = sort_key f xs"
proof (induction xs)
  case (Cons x xs)
  then have "sort_by cmp xs = sort_key f xs" by simp
  moreover have "insert_by cmp x (sort_key f xs) = insort_key f x (sort_key f xs)"
    using Cons.prems by (intro insert_by_key) simp
  ultimately show ?case by (simp add: sort_by_def)
qed (simp add: sort_by_def)

lemma filter_split_sorted:
  assumes "sorted (map f xs)" and down: "\<And>x y. f x \<le> f y \<Longrightarrow> P y \<Longrightarrow> x \<in> set xs \<Longrightarrow> y \<in> set xs \<Longrightarrow> P x"
  shows "filter P xs @ filter (\<lambda>x. \<not> P x) xs = xs"
  using assms(1) down
proof (induction xs)
  case (Cons x xs)
  have IH: "filter P xs @ filter (\<lambda>x. \<not> P x) xs = xs"
    by (rule Cons.IH) (use Cons.prems(1) in simp, erule (1) Cons.prems(2), simp_all)
  show ?case
  proof (cases "P x")
    case True
    with IH show ?thesis by simp
  next
    case False
    have "\<not> P y" if "y \<in> set xs" for y
      using Cons.prems(2) [of x y] Cons.prems(1) that False by auto
    then have "filter P xs = []" "filter (\<lambda>x. \<not> P x) xs = xs" by (auto simp: filter_empty_conv filter_id_conv)
    with False show ?thesis by simp
  qed
qed simp

section \<open>The log and the server\<close>

definition past :: "cdc_cursor option \<Rightarrow> raw_change \<Rightarrow> bool" where
  "past cur c = (case cur of Some k \<Rightarrow> cursor_key k < change_key c | None \<Rightarrow> True)"

definition in_window :: "sqlserver_stream \<Rightarrow> raw_change \<Rightarrow> bool" where
  "in_window st c \<longleftrightarrow> ss_lsn_start st \<le> lsn_of c \<and> lsn_of c \<le> ss_lsn_end st \<and> past (ss_cursor st) c"

definition unread :: "sqlserver_stream \<Rightarrow> raw_change \<Rightarrow> bool" where
  "unread st c \<longleftrightarrow> ss_lsn_start st \<le> lsn_of c \<and> past (ss_cursor st) c"

type_synonym change_log = "string \<Rightarrow> raw_change list"

text \<open>All changes of the tables in commit order.\<close>

definition commit_order :: "change_log \<Rightarrow> capture_meta list \<Rightarrow> (capture_meta \<times> raw_change) list" where
  "commit_order tbl metas =
     sort_key (change_key \<circ> snd) (concat (map (\<lambda>m. map (Pair m) (tbl (cm_capture_instance m))) metas))"

definition remaining :: "change_log \<Rightarrow> capture_meta list \<Rightarrow> sqlserver_stream \<Rightarrow> (capture_meta \<times> raw_change) list" where
  "remaining tbl metas st = filter (\<lambda>x. unread st (snd x)) (commit_order tbl metas)"

definition log_wf :: "change_log \<Rightarrow> capture_meta list \<Rightarrow> bool" where
  "log_wf tbl metas \<longleftrightarrow>
     list_all (\<lambda>m. sorted_wrt (<) (map change_key (tbl (cm_capture_instance m)))
       \<and> list_all (\<lambda>c. change_wf c \<and> cm_capture_floor m \<le> lsn_of c) (tbl (cm_capture_instance m))
       \<and> lsn_wf (cm_capture_floor m) \<and> validate_capture_instance_name (cm_capture_instance m) = Inr ()) metas"

definition answer :: "change_log \<Rightarrow> string \<Rightarrow> lsn \<Rightarrow> lsn \<Rightarrow> cdc_cursor option \<Rightarrow> nat \<Rightarrow> raw_change list" where
  "answer tbl ci s e cur n = take n (filter (\<lambda>c. s \<le> lsn_of c \<and> lsn_of c \<le> e \<and> past cur c) (tbl ci))"

text \<open>
  What the server promises. A read of a change table over a harvested window returns its first rows
  after the cursor in order, if it does not fail; the window error is not raised inside the retained
  range. The harvested maximum never goes back, and no change lies between a position and its increment.
\<close>

definition poll_served :: "'w cdc_env \<Rightarrow> change_log \<Rightarrow> capture_meta list \<Rightarrow> ('w \<Rightarrow> lsn) \<Rightarrow> bool" where
  "poll_served env tbl metas harvested \<longleftrightarrow>
     (\<forall>m n s e cur w. m \<in> set metas \<longrightarrow> lsn_wf s \<longrightarrow> lsn_wf e \<longrightarrow> e \<le> harvested w \<longrightarrow>
        (case ce_poll env \<lparr>pr_capture_instance = cm_capture_instance m, pr_columns = cm_captured_columns m, pr_max = n, pr_start_lsn_hex = lsn_bytes_to_hex s,
                pr_end_lsn_hex = lsn_bytes_to_hex e, pr_cursor = cur\<rparr> w of
           (w1, rd) \<Rightarrow> harvested w \<le> harvested w1
             \<and> (case rd of
                  Rows rows \<Rightarrow> decode_cdc_rows env (cm_captured_columns m) rows = Inr (answer tbl (cm_capture_instance m) s e cur n)
                | QueryFailed t \<Rightarrow> \<not> is_sqlserver_cdc_window_error t
                | DecodeFailed t \<Rightarrow> \<not> is_sqlserver_cdc_window_error t
                | ConnectFailed _ \<Rightarrow> True)))"

definition advance_served :: "'w cdc_env \<Rightarrow> ('w \<Rightarrow> lsn) \<Rightarrow> (lsn \<Rightarrow> lsn) \<Rightarrow> bool" where
  "advance_served env harvested inc \<longleftrightarrow>
     (\<forall>l w. lsn_wf l \<longrightarrow>
        (case ce_advance env l w of
           (w1, r) \<Rightarrow> harvested w \<le> harvested w1
             \<and> (case r of
                  Inr (Some (a, b)) \<Rightarrow>
                    lsn_hex_to_bytes (or_zero a) = Inr (inc l) \<and> lsn_hex_to_bytes (or_zero b) = Inr (harvested w1)
                | _ \<Rightarrow> True)))"

definition steady_tables :: "'w cdc_env \<Rightarrow> sqlserver_config \<Rightarrow> capture_meta list \<Rightarrow> ('w \<Rightarrow> lsn) \<Rightarrow> bool" where
  "steady_tables env cfg metas harvested \<longleftrightarrow>
     (\<forall>w. case load_capture_metas_for_config env cfg False False w of
            (w1, r) \<Rightarrow> harvested w \<le> harvested w1
              \<and> (case r of Inr ms \<Rightarrow> retain_known_capture_floors metas ms = metas | Inl _ \<Rightarrow> True))
     \<and> (\<forall>n w. harvested w \<le> harvested (ce_sleep env n w))
     \<and> (\<forall>xs. set (ce_iter env xs) = set xs)"

definition no_change_between :: "change_log \<Rightarrow> capture_meta list \<Rightarrow> (lsn \<Rightarrow> lsn) \<Rightarrow> bool" where
  "no_change_between tbl metas inc \<longleftrightarrow>
     (\<forall>l. lsn_wf l \<longrightarrow> (\<forall>x \<in> set (commit_order tbl metas). inc l \<le> lsn_of (snd x) \<longleftrightarrow> l < lsn_of (snd x)))"

section \<open>One reading of all tables\<close>

lemma commit_order_mem:
  "x \<in> set (commit_order tbl metas) \<longleftrightarrow> fst x \<in> set metas \<and> snd x \<in> set (tbl (cm_capture_instance (fst x)))"
  by (cases x) (auto simp: commit_order_def)

lemma log_wf_change: "log_wf tbl metas \<Longrightarrow> m \<in> set metas \<Longrightarrow> c \<in> set (tbl (cm_capture_instance m)) \<Longrightarrow> change_wf c"
  by (auto simp: log_wf_def list_all_iff)

lemma log_wf_floor:
  "log_wf tbl metas \<Longrightarrow> m \<in> set metas \<Longrightarrow> c \<in> set (tbl (cm_capture_instance m)) \<Longrightarrow> cm_capture_floor m \<le> lsn_of c"
  by (auto simp: log_wf_def list_all_iff)

lemma answer_clamped:
  assumes "log_wf tbl metas" "m \<in> set metas"
  shows "answer tbl (cm_capture_instance m) (if s < cm_capture_floor m then cm_capture_floor m else s) e cur n
     = answer tbl (cm_capture_instance m) s e cur n"
  unfolding answer_def
proof (intro arg_cong [where f = "take n"] filter_cong refl)
  fix c
  assume "c \<in> set (tbl (cm_capture_instance m))"
  from log_wf_floor [OF assms this] show "((if s < cm_capture_floor m then cm_capture_floor m else s) \<le> lsn_of c \<and> lsn_of c \<le> e \<and> past cur c)
      = (s \<le> lsn_of c \<and> lsn_of c \<le> e \<and> past cur c)"
    by (cases "s < cm_capture_floor m") (auto simp: not_less intro: less_imp_le less_le_trans)
qed

lemma answer_empty:
  "log_wf tbl metas \<Longrightarrow> m \<in> set metas \<Longrightarrow> e < s \<or> e < cm_capture_floor m
   \<Longrightarrow> answer tbl (cm_capture_instance m) s e cur n = []"
  by (fastforce simp: answer_def filter_empty_conv log_wf_def list_all_iff)

lemma fetch_served:
  assumes wf: "log_wf tbl metas" "m \<in> set metas" and served: "poll_served env tbl metas harvested"
    and bounds: "lsn_wf (ss_lsn_start st)" "lsn_wf (ss_lsn_end st)" "ss_lsn_end st \<le> harvested w"
    and run: "fetch_changes_for_capture_instance env st n m w = (w1, Inr cs)"
  shows "harvested w \<le> harvested w1
    \<and> cs = answer tbl (cm_capture_instance m) (ss_lsn_start st) (ss_lsn_end st) (ss_cursor st) n"
proof (cases "ss_lsn_end st < ss_lsn_start st \<or> (ss_lsn_start st < cm_capture_floor m \<and> ss_lsn_end st < cm_capture_floor m)")
  case True
  with run have "w1 = w \<and> cs = []"
    by (auto simp: fetch_changes_for_capture_instance_def compare_lsn_def split: sum.splits if_splits)
  with True answer_empty [OF wf, of "ss_lsn_end st" "ss_lsn_start st"] show ?thesis by auto
next
  case False
  define s where "s = (if ss_lsn_start st < cm_capture_floor m then cm_capture_floor m else ss_lsn_start st)"
  have "lsn_wf s" using wf bounds by (auto simp: s_def log_wf_def list_all_iff)
  note served = served [unfolded poll_served_def, rule_format, OF wf(2) this bounds(2,3), where n = n and cur = "ss_cursor st"]
  from False run wf have "poll_capture_instance env
      \<lparr>pr_capture_instance = cm_capture_instance m, pr_columns = cm_captured_columns m, pr_max = n,
       pr_start_lsn_hex = lsn_bytes_to_hex s, pr_end_lsn_hex = lsn_bytes_to_hex (ss_lsn_end st), pr_cursor = ss_cursor st\<rparr> w
      = (w1, Inr cs)"
    by (auto simp: fetch_changes_for_capture_instance_def compare_lsn_def s_def log_wf_def list_all_iff)
  with served have "harvested w \<le> harvested w1 \<and> cs = answer tbl (cm_capture_instance m) s (ss_lsn_end st) (ss_cursor st) n"
    by (auto simp: poll_capture_instance_def split: prod.splits cdc_read.splits)
  then show ?thesis using answer_clamped [OF wf] by (simp add: s_def)
qed

lemma fetch_all_served:
  assumes "log_wf tbl metas" "poll_served env tbl metas harvested"
    and "lsn_wf (ss_lsn_start (sq_stream h))" "lsn_wf (ss_lsn_end (sq_stream h))"
    and ans: "\<And>m. ans m = answer tbl (cm_capture_instance m) (ss_lsn_start (sq_stream h)) (ss_lsn_end (sq_stream h))
                        (ss_cursor (sq_stream h)) (sq_max_events_per_poll h)"
  shows "set ms \<subseteq> set metas \<Longrightarrow> ss_lsn_end (sq_stream h) \<le> harvested w
    \<Longrightarrow> fetch_all env h ms flat cur w = (w1, Inr (flat', cur'))
    \<Longrightarrow> harvested w \<le> harvested w1 \<and> flat' = flat @ concat (map (\<lambda>m. map (Pair m) (ans m)) ms)
      \<and> cur' = fold (tighten (sq_max_events_per_poll h)) (map ans ms) cur"
proof (induction ms arbitrary: flat cur w)
  case (Cons m ms)
  obtain w2 cs where f: "fetch_changes_for_capture_instance env (sq_stream h) (sq_max_events_per_poll h) m w = (w2, Inr cs)"
    and r: "fetch_all env h ms (flat @ map (Pair m) cs) (tighten (sq_max_events_per_poll h) cs cur) w2 = (w1, Inr (flat', cur'))"
    using Cons.prems(3) by (auto split: prod.splits sum.splits)
  from Cons.prems(1) have "m \<in> set metas" by simp
  from fetch_served [OF assms(1) this assms(2-4) Cons.prems(2) f] have "harvested w \<le> harvested w2" "cs = ans m"
    by (simp_all add: ans)
  moreover have "ss_lsn_end (sq_stream h) \<le> harvested w2" using Cons.prems(2) calculation(1) by (rule order_trans)
  ultimately show ?case using Cons.IH [OF _ _ r] Cons.prems(1) by auto
qed simp

definition is_full :: "nat \<Rightarrow> raw_change list \<Rightarrow> bool" where
  "is_full n cs \<longleftrightarrow> n \<le> length cs \<and> cs \<noteq> []"

lemma tighten_wf:
  "list_all change_wf cs \<Longrightarrow> pred_option cursor_wf cur \<Longrightarrow> pred_option cursor_wf (tighten n cs cur)"
  by (auto simp: tighten_def Let_def list_all_iff split: option.splits)

lemma tighten_cases:
  assumes "list_all change_wf cs" "pred_option cursor_wf cur"
  shows "tighten n cs cur = (if is_full n cs
           then (case cur of Some k \<Rightarrow> if cursor_key k \<le> change_key (last cs) then Some k else Some (cursor_of (last cs))
                 | None \<Rightarrow> Some (cursor_of (last cs)))
           else cur)"
  using assms by (auto simp: tighten_def is_full_def Let_def list_all_iff cursor_ordering_key not_less split: option.splits)

lemma tighten_fold:
  assumes "list_all (list_all change_wf) css" "pred_option cursor_wf cur"
  shows "case fold (tighten n) css cur of
      None \<Rightarrow> cur = None \<and> list_all (\<lambda>cs. \<not> is_full n cs) css
    | Some k \<Rightarrow> (cur = Some k \<or> (\<exists>cs \<in> set css. is_full n cs \<and> k = cursor_of (last cs)))
        \<and> (\<forall>cs \<in> set css. is_full n cs \<longrightarrow> cursor_key k \<le> change_key (last cs))
        \<and> (\<forall>k0. cur = Some k0 \<longrightarrow> cursor_key k \<le> cursor_key k0)"
  using assms
proof (induction css arbitrary: cur)
  case Nil
  then show ?case by (simp split: option.splits)
next
  case (Cons cs css)
  have "pred_option cursor_wf (tighten n cs cur)" using Cons.prems by (intro tighten_wf) simp_all
  with Cons.IH [of "tighten n cs cur"] Cons.prems(1) have IH: "case fold (tighten n) css (tighten n cs cur) of
      None \<Rightarrow> tighten n cs cur = None \<and> list_all (\<lambda>cs. \<not> is_full n cs) css
    | Some k \<Rightarrow> (tighten n cs cur = Some k \<or> (\<exists>cs \<in> set css. is_full n cs \<and> k = cursor_of (last cs)))
        \<and> (\<forall>cs \<in> set css. is_full n cs \<longrightarrow> cursor_key k \<le> change_key (last cs))
        \<and> (\<forall>k0. tighten n cs cur = Some k0 \<longrightarrow> cursor_key k \<le> cursor_key k0)"
    by simp
  note t = tighten_cases [OF _ Cons.prems(2), of cs n]
  show ?case
  proof (cases "fold (tighten n) css (tighten n cs cur)")
    case None
    with IH t Cons.prems(1) show ?thesis by (auto split: if_splits option.splits)
  next
    case (Some k)
    with IH t Cons.prems(1) show ?thesis
      by (auto split: if_splits option.splits)
  qed
qed

definition taken :: "sqlserver_stream \<Rightarrow> cdc_cursor option \<Rightarrow> raw_change \<Rightarrow> bool" where
  "taken st cur c = (case cur of Some k \<Rightarrow> change_key c \<le> cursor_key k | None \<Rightarrow> lsn_of c \<le> ss_lsn_end st)"

lemma filter_take_sorted:
  assumes "sorted_wrt (<) (map f xs)" "take n xs \<noteq> []" "k \<le> f (last (take n xs))"
  shows "filter (\<lambda>x. f x \<le> k) (take n xs) = filter (\<lambda>x. f x \<le> (k :: 'k :: linorder)) xs"
proof -
  have "sorted_wrt (<) (map f (take n xs) @ map f (drop n xs))" using assms(1) by (simp flip: map_append)
  then have "f x < f y" if "x \<in> set (take n xs)" "y \<in> set (drop n xs)" for x y
    using that by (auto simp: sorted_wrt_append)
  from this [of "last (take n xs)"] assms(2,3) have "k < f y" if "y \<in> set (drop n xs)" for y
    using that by (meson last_in_set le_less_trans)
  then have "filter (\<lambda>x. f x \<le> k) (drop n xs) = []" by (auto simp: filter_empty_conv not_le)
  then have "filter (\<lambda>x. f x \<le> k) (take n xs @ drop n xs) = filter (\<lambda>x. f x \<le> k) (take n xs)"
    unfolding filter_append by simp
  then show ?thesis by simp
qed

lemma window_table:
  assumes wf: "log_wf tbl metas" "m \<in> set metas" and n: "0 < n"
    and ans: "ans = take n (filter (in_window st) (tbl (cm_capture_instance m)))"
    and cut: "case cur of None \<Rightarrow> \<not> is_full n ans | Some k \<Rightarrow> is_full n ans \<longrightarrow> cursor_key k \<le> change_key (last ans)"
  shows "filter (\<lambda>c. case cur of Some k \<Rightarrow> change_key c \<le> cursor_key k | None \<Rightarrow> True) ans
    = filter (\<lambda>c. case cur of Some k \<Rightarrow> change_key c \<le> cursor_key k | None \<Rightarrow> True) (filter (in_window st) (tbl (cm_capture_instance m)))"
proof (cases "is_full n ans")
  case True
  with cut obtain k where "cur = Some k" "cursor_key k \<le> change_key (last ans)" by (auto split: option.splits)
  moreover have "sorted_wrt (<) (map change_key (filter (in_window st) (tbl (cm_capture_instance m))))"
    using wf by (auto simp: log_wf_def list_all_iff sorted_wrt_map intro: sorted_wrt_filter)
  ultimately show ?thesis using filter_take_sorted [of change_key _ n] True by (simp add: ans is_full_def)
next
  case False
  with n have "length ans < n" by (auto simp: is_full_def)
  then show ?thesis by (simp add: ans)
qed

lemma in_window_unread: "in_window st c \<longleftrightarrow> unread st c \<and> lsn_of c \<le> ss_lsn_end st"
  by (auto simp: in_window_def unread_def)

lemma change_key_lsn: "change_key a \<le> change_key b \<Longrightarrow> lsn_of a \<le> lsn_of b"
  by (auto simp: change_key_def less_eq_prod_def)

lemma filter_concat_pairs:
  "filter (\<lambda>x. P (snd x)) (concat (map (\<lambda>m. map (Pair m) (f m)) ms)) = concat (map (\<lambda>m. map (Pair m) (filter P (f m))) ms)"
  by (induction ms) (simp_all add: filter_map comp_def)

lemma remaining_window:
  "filter (\<lambda>x. lsn_of (snd x) \<le> ss_lsn_end st) (remaining tbl metas st)
     = sort_key (change_key \<circ> snd) (concat (map (\<lambda>m. map (Pair m) (filter (in_window st) (tbl (cm_capture_instance m)))) metas))"
  by (simp add: remaining_def commit_order_def filter_sort in_window_unread conj_commute flip: filter_concat_pairs)

text \<open>
  The page a reading puts into the buffer is exactly the part of the remaining log up to the cut: no
  table has an unread change at or before it.
\<close>

lemma window_page:
  assumes wf: "log_wf tbl metas" and n: "0 < n"
    and ans: "\<And>m. ans m = take n (filter (in_window st) (tbl (cm_capture_instance m)))"
    and cur: "cur = fold (tighten n) (map ans metas) None"
  shows "merge_changes cur (concat (map (\<lambda>m. map (Pair m) (ans m)) metas)) = filter (\<lambda>x. taken st cur (snd x)) (remaining tbl metas st)"
    (is "?page = _")
    and "cur = Some k \<Longrightarrow> \<exists>x \<in> set (remaining tbl metas st). in_window st (snd x) \<and> k = cursor_of (snd x)"
proof -
  let ?flat = "concat (map (\<lambda>m. map (Pair m) (ans m)) metas)"
  let ?P = "\<lambda>c. case cur of Some k \<Rightarrow> change_key c \<le> cursor_key k | None \<Rightarrow> True"
  have chg: "change_wf c \<and> in_window st c \<and> c \<in> set (tbl (cm_capture_instance m))" if "m \<in> set metas" "c \<in> set (ans m)" for m c
    using log_wf_change [OF wf that(1), of c] that(2) by (auto simp: ans dest: in_set_takeD)
  have "list_all (list_all change_wf) (map ans metas)" using chg by (auto simp: list_all_iff)
  from tighten_fold [OF this, of None n] have fold: "case cur of
      None \<Rightarrow> list_all (\<lambda>cs. \<not> is_full n cs) (map ans metas)
    | Some k \<Rightarrow> (\<exists>m \<in> set metas. is_full n (ans m) \<and> k = cursor_of (last (ans m)))
        \<and> (\<forall>m \<in> set metas. is_full n (ans m) \<longrightarrow> cursor_key k \<le> change_key (last (ans m)))"
    by (auto simp: cur split: option.splits)
  show last: "\<exists>x \<in> set (remaining tbl metas st). in_window st (snd x) \<and> k = cursor_of (snd x)" if c: "cur = Some k" for k
  proof -
    from fold c obtain m where m: "m \<in> set metas" "is_full n (ans m)" "k = cursor_of (last (ans m))" by auto
    from m(2) have "last (ans m) \<in> set (ans m)" by (simp add: is_full_def)
    from chg [OF m(1) this] m show ?thesis
      by (intro bexI [of _ "(m, last (ans m))"]) (auto simp: remaining_def commit_order_mem in_window_unread)
  qed
  have "sort_by (\<lambda>a b. change_order (snd a) (snd b)) ?flat = sort_key (change_key \<circ> snd) ?flat"
    using chg by (intro sort_by_key) (auto simp: change_order_key)
  then have "?page = filter (\<lambda>x. ?P (snd x)) (sort_key (change_key \<circ> snd) ?flat)"
  proof (cases cur)
    case (Some k)
    have "cursor_ordering (cursor_of (snd x)) k \<noteq> Greater \<longleftrightarrow> change_key (snd x) \<le> cursor_key k" if "x \<in> set ?flat" for x
      using that chg last [OF Some] log_wf_change [OF wf]
      by (auto simp: cursor_ordering_key remaining_def commit_order_mem not_less)
    then have "filter (\<lambda>x. cursor_ordering (cursor_of (snd x)) k \<noteq> Greater) (sort_key (change_key \<circ> snd) ?flat)
        = filter (\<lambda>x. change_key (snd x) \<le> cursor_key k) (sort_key (change_key \<circ> snd) ?flat)"
      by (intro filter_cong refl) simp
    with Some \<open>sort_by _ ?flat = _\<close> show ?thesis by (simp add: merge_changes_def)
  qed (simp add: merge_changes_def)
  also have "\<dots> = sort_key (change_key \<circ> snd) (concat (map (\<lambda>m. map (Pair m) (filter ?P (ans m))) metas))"
    by (simp only: filter_sort filter_concat_pairs [of ?P])
  also have "map (\<lambda>m. map (Pair m) (filter ?P (ans m))) metas
      = map (\<lambda>m. map (Pair m) (filter ?P (filter (in_window st) (tbl (cm_capture_instance m))))) metas"
  proof (intro map_cong refl arg_cong2 [where f = map])
    fix m
    assume m: "m \<in> set metas"
    have "case cur of None \<Rightarrow> \<not> is_full n (ans m) | Some k \<Rightarrow> is_full n (ans m) \<longrightarrow> cursor_key k \<le> change_key (last (ans m))"
      using fold m by (auto simp: list_all_iff split: option.splits)
    from window_table [OF wf m n ans this]
    show "filter ?P (ans m) = filter ?P (filter (in_window st) (tbl (cm_capture_instance m)))" .
  qed
  also have "sort_key (change_key \<circ> snd) (concat (map (\<lambda>m. map (Pair m) (filter ?P (filter (in_window st) (tbl (cm_capture_instance m))))) metas))
      = filter (\<lambda>x. ?P (snd x)) (filter (\<lambda>x. lsn_of (snd x) \<le> ss_lsn_end st) (remaining tbl metas st))"
    by (simp only: remaining_window filter_sort filter_concat_pairs [of ?P])
  also have "\<dots> = filter (\<lambda>x. taken st cur (snd x)) (remaining tbl metas st)"
  proof (cases cur)
    case None
    then show ?thesis by (simp add: taken_def)
  next
    case (Some k)
    from last [OF this] have "lsn_of c \<le> ss_lsn_end st" if "change_key c \<le> cursor_key k" for c
      using that by (auto simp: in_window_def intro: order_trans [OF change_key_lsn])
    with Some show ?thesis by (auto simp: taken_def intro: filter_cong)
  qed
  finally show "?page = filter (\<lambda>x. taken st cur (snd x)) (remaining tbl metas st)" .
qed

section \<open>Settling a window\<close>

lemma remaining_pending [simp]: "remaining tbl metas (st\<lparr>ss_pending_cursor := c\<rparr>) = remaining tbl metas st"
  by (simp add: remaining_def unread_def)

lemma remaining_sorted: "sorted (map (change_key \<circ> snd) (remaining tbl metas st))"
  unfolding remaining_def by (intro sorted_filter) (simp add: commit_order_def)

lemma remaining_split:
  "filter (\<lambda>x. taken st cur (snd x)) (remaining tbl metas st) @ filter (\<lambda>x. \<not> taken st cur (snd x)) (remaining tbl metas st)
     = remaining tbl metas st"
proof (rule filter_split_sorted [OF remaining_sorted])
  fix x y :: "capture_meta \<times> raw_change"
  assume "(change_key \<circ> snd) x \<le> (change_key \<circ> snd) y" "taken st cur (snd y)"
  then show "taken st cur (snd x)"
    by (auto simp: taken_def dest: change_key_lsn split: option.splits intro: order_trans)
qed

lemma remaining_resumed:
  assumes "x \<in> set (remaining tbl metas st)" "k = cursor_of (snd x)"
  shows "remaining tbl metas (st\<lparr>ss_cursor := Some k, ss_pending_cursor := None\<rparr>)
    = filter (\<lambda>x. \<not> taken st (Some k) (snd x)) (remaining tbl metas st)"
proof -
  from assms have "past (ss_cursor st) (snd x)" by (simp add: remaining_def unread_def)
  then show ?thesis using assms(2)
    by (auto simp: remaining_def taken_def past_def unread_def not_le intro!: filter_cong split: option.splits)
qed

lemma remaining_advanced:
  assumes "no_change_between tbl metas inc" "ss_lsn_start st \<le> ss_lsn_end st" "lsn_wf (ss_lsn_end st)"
    and "\<And>k. ss_cursor st = Some k \<Longrightarrow> lsn_of_text (cc_lsn_hex k) \<le> ss_lsn_end st"
  shows "remaining tbl metas (st\<lparr>ss_lsn_start := inc (ss_lsn_end st), ss_lsn_end := e, ss_cursor := None, ss_pending_cursor := None\<rparr>)
    = filter (\<lambda>x. \<not> taken st None (snd x)) (remaining tbl metas st)"
proof -
  have "past (ss_cursor st) c \<and> ss_lsn_start st \<le> lsn_of c" if "ss_lsn_end st < lsn_of c" for c
    using that assms(2,4)
    by (auto simp: past_def cursor_key_def change_key_def less_prod_def split: option.splits intro: le_less_trans order_trans less_imp_le)
  then show ?thesis using assms(1,3)
    by (auto simp: remaining_def taken_def unread_def past_def no_change_between_def not_le intro!: filter_cong)
qed

fun scan ::
    "'w cdc_env \<Rightarrow> sqlserver_config \<Rightarrow> (string \<times> string \<rightharpoonup> json \<times> nat) \<Rightarrow> (capture_meta \<times> raw_change) list
     \<Rightarrow> ((string \<times> string \<rightharpoonup> json \<times> nat) \<times> event list) result" where
  "scan env cfg b [] = Inr (b, [])"
| "scan env cfg b (x # xs) =
     (case map_change env cfg (fst x) (snd x) b of
        (b1, Inl e) \<Rightarrow> Inl e
      | (b1, Inr es) \<Rightarrow> (case scan env cfg b1 xs of Inl e \<Rightarrow> Inl e | Inr (b2, es') \<Rightarrow> Inr (b2, es @ es')))"

lemma scan_append:
  "scan env cfg b xs = Inr (b1, es) \<Longrightarrow> scan env cfg b1 ys = Inr (b2, es') \<Longrightarrow> scan env cfg b (xs @ ys) = Inr (b2, es @ es')"
  by (induction env cfg b xs arbitrary: es rule: scan.induct) (fastforce split: prod.splits sum.splits)+

lemma buffer_changes_scan:
  "buffer_changes env xs h = (h', Inr ()) \<Longrightarrow>
   \<exists>b es. scan env (sq_config h) (sq_befores h) xs = Inr (b, es)
     \<and> h' = h\<lparr>sq_befores := b, sq_window_buffer := sq_window_buffer h @ es\<rparr>"
proof (induction env xs h rule: buffer_changes.induct)
  case (2 env m c xs h)
  obtain b1 es1 where m: "map_change env (sq_config h) m c (sq_befores h) = (b1, Inr es1)"
    and r: "buffer_changes env xs (h\<lparr>sq_befores := b1, sq_window_buffer := sq_window_buffer h @ es1\<rparr>) = (h', Inr ())"
    using "2.prems" by (auto split: prod.splits sum.splits)
  have e: "map_changes_to_events env m [c] h = (h\<lparr>sq_befores := b1\<rparr>, Inr es1)" using m by simp
  from "2.IH" [OF e [symmetric] refl] r m show ?case by auto
qed simp

definition stream_ok :: "lsn \<Rightarrow> sqlserver_stream \<Rightarrow> bool" where
  "stream_ok highest st \<longleftrightarrow> lsn_wf (ss_lsn_start st) \<and> lsn_wf (ss_lsn_end st) \<and> ss_lsn_end st \<le> highest
     \<and> (\<forall>k. ss_cursor st = Some k \<longrightarrow> 
        ss_lsn_start st \<le> lsn_of_text (cc_lsn_hex k) \<and> lsn_of_text (cc_lsn_hex k) \<le> ss_lsn_end st \<and> cursor_wf k)"

lemma advance_served_window:
  assumes served: "advance_served env harvested inc" and ok: "stream_ok (harvested w) (sq_stream h)"
    and run: "advance_window env h w = (h', w', Inr ())"
  shows "harvested w \<le> harvested w' \<and> stream_ok (harvested w') (sq_stream h')
    \<and> h' = h\<lparr>sq_stream := (sq_stream h)\<lparr>
         ss_lsn_start := (if ss_lsn_end (sq_stream h) < ss_lsn_start (sq_stream h) then ss_lsn_start (sq_stream h)
                          else inc (ss_lsn_end (sq_stream h))),
         ss_lsn_end := harvested w', ss_cursor := None, ss_pending_cursor := None\<rparr>\<rparr>"
proof -
  have "lsn_wf (ss_lsn_end (sq_stream h))" using ok by (simp add: stream_ok_def)
  from served [unfolded advance_served_def, rule_format, OF this, of w] run ok lsn_text_wf
  show ?thesis
    by (auto simp: advance_window_def next_window_def compare_lsn_def stream_ok_def
        split: prod.splits sum.splits option.splits if_splits)
qed

section \<open>Runs of the stream\<close>

definition page :: "change_log \<Rightarrow> capture_meta list \<Rightarrow> sqlserver_stream \<Rightarrow> (capture_meta \<times> raw_change) list" where
  "page tbl metas st = filter (\<lambda>x. taken st (ss_pending_cursor st) (snd x)) (remaining tbl metas st)"

definition cut_ok :: "change_log \<Rightarrow> capture_meta list \<Rightarrow> sqlserver_stream \<Rightarrow> bool" where
  "cut_ok tbl metas st \<longleftrightarrow> ss_lsn_start st \<le> ss_lsn_end st
     \<and> (\<forall>k. ss_pending_cursor st = Some k \<longrightarrow> (\<exists>x \<in> set (remaining tbl metas st). in_window st (snd x) \<and> k = cursor_of (snd x)))"

definition in_step ::
    "'w cdc_env \<Rightarrow> change_log \<Rightarrow> (capture_meta \<times> raw_change) list \<Rightarrow> sqlserver_handle \<Rightarrow> event list \<Rightarrow> bool" where
  "in_step env tbl log0 h es \<longleftrightarrow>
     (\<exists>read. log0 = read @ remaining tbl (sq_metas h) (sq_stream h)
        \<and> scan env (sq_config h) Map.empty (read @ (if sq_window_buffer h = [] then [] else page tbl (sq_metas h) (sq_stream h)))
            = Inr (sq_befores h, es @ sq_window_buffer h)
        \<and> (\<exists>b es1. scan env (sq_config h) Map.empty read = Inr (b, es1) \<and> prefix es1 es))
     \<and> (sq_window_buffer h \<noteq> [] \<longrightarrow> cut_ok tbl (sq_metas h) (sq_stream h))"

lemma settle_served:
  assumes served: "advance_served env harvested inc" "no_change_between tbl metas inc" "log_wf tbl metas"
    and ok: "stream_ok (harvested w) (sq_stream h)" "cut_ok tbl metas (sq_stream h)"
    and run: "settle_drained_window env h w = (h', w', Inr ())"
  shows "harvested w \<le> harvested w'" "stream_ok (harvested w') (sq_stream h')" "h' = h\<lparr>sq_stream := sq_stream h'\<rparr>"
    and "remaining tbl metas (sq_stream h)
      = page tbl metas (sq_stream h) @ remaining tbl metas (sq_stream h')"
proof -
  let ?st = "sq_stream h"
  have "harvested w \<le> harvested w' \<and> stream_ok (harvested w') (sq_stream h') \<and> h' = h\<lparr>sq_stream := sq_stream h'\<rparr>
    \<and> remaining tbl metas (sq_stream h') = filter (\<lambda>x. \<not> taken ?st (ss_pending_cursor ?st) (snd x)) (remaining tbl metas ?st)"
  proof (cases "ss_pending_cursor ?st")
    case None
    from None run have "advance_window env h w = (h', w', Inr ())" by (simp add: settle_drained_window_def)
    from advance_served_window [OF served(1) ok(1) this] ok None remaining_advanced [OF served(2), of ?st]
    show ?thesis by (auto simp: cut_ok_def stream_ok_def)
  next
    case (Some k)
    from ok(2) Some obtain x where x: "x \<in> set (remaining tbl metas ?st)" "in_window ?st (snd x)" "k = cursor_of (snd x)"
      by (auto simp: cut_ok_def)
    from run Some have h': "h' = h\<lparr>sq_stream := ?st\<lparr>ss_cursor := Some k, ss_pending_cursor := None\<rparr>\<rparr>" "w' = w"
      by (auto simp: settle_drained_window_def)
    have "ss_lsn_start ?st \<le> lsn_of_text (cc_lsn_hex k)" "lsn_of_text (cc_lsn_hex k) \<le> ss_lsn_end ?st"
      using x(2,3) by (simp_all add: in_window_def cursor_of_def lsn_of_def)
    moreover have "cursor_wf k" using x(1,3) log_wf_change [OF served(3), of "fst x" "snd x"] by (simp add: remaining_def commit_order_mem)
    ultimately show ?thesis using ok remaining_resumed [OF x(1,3)] Some
      by (simp add: h' stream_ok_def cut_ok_def)
  qed
  then show "harvested w \<le> harvested w'" "stream_ok (harvested w') (sq_stream h')" "h' = h\<lparr>sq_stream := sq_stream h'\<rparr>"
    "remaining tbl metas ?st = page tbl metas ?st @ remaining tbl metas (sq_stream h')"
    using remaining_split [of ?st "ss_pending_cursor ?st" tbl metas] by (simp_all add: page_def)
qed

lemma deliver_page_in_step:
  assumes served: "advance_served env harvested inc" "no_change_between tbl (sq_metas h) inc" "log_wf tbl (sq_metas h)"
    and ok: "stream_ok (harvested w) (sq_stream h)" "cut_ok tbl (sq_metas h) (sq_stream h)"
    and log: "log0 = read @ remaining tbl (sq_metas h) (sq_stream h)"
    and now: "scan env (sq_config h) Map.empty (read @ page tbl (sq_metas h) (sq_stream h)) = Inr (sq_befores h, es @ sq_window_buffer h)"
    and before: "scan env (sq_config h) Map.empty read = Inr (b, es1)" "prefix es1 es"
    and run: "deliver_page env h w = (h', w', Inr batch)"
  shows "harvested w \<le> harvested w' \<and> stream_ok (harvested w') (sq_stream h') \<and> in_step env tbl log0 h' (es @ batch)
    \<and> h' = h\<lparr>sq_stream := sq_stream h', sq_window_buffer := sq_window_buffer h'\<rparr>"
proof -
  define n where "n = min (sq_max_events_per_poll h) (length (sq_window_buffer h))"
  let ?h1 = "h\<lparr>sq_window_buffer := drop n (sq_window_buffer h)\<rparr>"
  show ?thesis
  proof (cases "drop n (sq_window_buffer h) = []")
    case True
    then have batch: "take n (sq_window_buffer h) = sq_window_buffer h" by simp
    from run True obtain h2 where s: "settle_drained_window env ?h1 w = (h', w', Inr ())" and "batch = sq_window_buffer h"
      by (auto simp: deliver_page_def Let_def n_def [symmetric] batch split: prod.splits sum.splits)
    with settle_served [OF served(1) _ _ _ _ s, of tbl "sq_metas h"] served(2,3) ok
    have st: "harvested w \<le> harvested w'" "stream_ok (harvested w') (sq_stream h')" "h' = ?h1\<lparr>sq_stream := sq_stream h'\<rparr>"
      "remaining tbl (sq_metas h) (sq_stream h) = page tbl (sq_metas h) (sq_stream h) @ remaining tbl (sq_metas h) (sq_stream h')"
      by simp_all
    have fields: "sq_metas h' = sq_metas h" "sq_config h' = sq_config h" "sq_befores h' = sq_befores h" "sq_window_buffer h' = []"
      using True by (subst st(3), simp)+
    have "in_step env tbl log0 h' (es @ batch)"
      unfolding in_step_def using log now st(4) \<open>batch = sq_window_buffer h\<close>
      by (intro conjI exI [of _ "read @ page tbl (sq_metas h) (sq_stream h)"]) (auto simp: fields)
    moreover have "h' = h\<lparr>sq_stream := sq_stream h', sq_window_buffer := sq_window_buffer h'\<rparr>"
      using True by (subst st(3)) (simp add: fields)
    ultimately show ?thesis using st by simp
  next
    case False
    with run have "h' = ?h1" "w' = w" "batch = take n (sq_window_buffer h)"
      by (auto simp: deliver_page_def Let_def n_def)
    moreover have "in_step env tbl log0 ?h1 (es @ take n (sq_window_buffer h))"
      unfolding in_step_def using log now before ok(2) False
      by (intro conjI exI [of _ read]) (auto simp: prefix_def)
    ultimately show ?thesis using ok(1) by simp
  qed
qed

text \<open>The server serves the log, and the handle is one it can serve.\<close>

definition serves ::
    "'w cdc_env \<Rightarrow> change_log \<Rightarrow> capture_meta list \<Rightarrow> sqlserver_config \<Rightarrow> ('w \<Rightarrow> lsn) \<Rightarrow> (lsn \<Rightarrow> lsn) \<Rightarrow> bool" where
  "serves env tbl metas cfg harvested inc \<longleftrightarrow>
     log_wf tbl metas \<and> poll_served env tbl metas harvested \<and> advance_served env harvested inc
     \<and> no_change_between tbl metas inc \<and> steady_tables env cfg metas harvested"

definition handle_ok :: "lsn \<Rightarrow> sqlserver_handle \<Rightarrow> bool" where
  "handle_ok highest h \<longleftrightarrow> sq_requeued h = [] \<and> 0 < sq_max_events_per_poll h
     \<and> \<not> sc_capture_truncate_events (sq_config h) \<and> stream_ok highest (sq_stream h)"

definition kept :: "('w \<Rightarrow> lsn) \<Rightarrow> sqlserver_handle \<Rightarrow> sqlserver_handle \<Rightarrow> 'w \<Rightarrow> bool" where
  "kept harvested h h' w' \<longleftrightarrow>
     sq_metas h' = sq_metas h \<and> sq_config h' = sq_config h \<and> handle_ok (harvested w') h'"

lemma stream_ok_mono: "stream_ok a st \<Longrightarrow> a \<le> b \<Longrightarrow> stream_ok b st"
  by (auto simp: stream_ok_def)

lemma no_truncates: "\<not> sc_capture_truncate_events (sq_config h) \<Longrightarrow> fetch_and_emit_truncate_events env h w = (w, Inr [])"
  by (simp add: fetch_and_emit_truncate_events_def)

lemma answer_in_window:
  "answer tbl ci (ss_lsn_start st) (ss_lsn_end st) (ss_cursor st) n = take n (filter (in_window st) (tbl ci))"
  by (simp add: answer_def in_window_def [abs_def])

lemma fill_window_delivers:
  assumes "\<not> sc_capture_truncate_events (sq_config h)" "sq_window_buffer h = []" "fill_window env flat cur h w = (h', w', Inr batch)"
  shows "\<exists>bf bs n. scan env (sq_config h) (sq_befores h) (merge_changes cur flat) = Inr (bf, bs)
    \<and> deliver_page env (h\<lparr>sq_befores := bf, sq_window_buffer := bs, sq_events_polled := n, sq_stream := (sq_stream h)\<lparr>ss_pending_cursor := cur\<rparr>\<rparr>) w
        = (h', w', Inr batch)"
proof -
  obtain h1 where b: "buffer_changes env (merge_changes cur flat) h = (h1, Inr ())"
    using assms(3) by (auto simp: fill_window_def split: prod.splits sum.splits)
  from buffer_changes_scan [OF b] assms(2) obtain bf bs where
    "scan env (sq_config h) (sq_befores h) (merge_changes cur flat) = Inr (bf, bs)" "h1 = h\<lparr>sq_befores := bf, sq_window_buffer := bs\<rparr>" by auto
  with b assms show ?thesis
    by (intro exI [of _ bf] exI [of _ bs] exI [of _ "sat_add64 (sq_events_polled h) (length bs)"])
      (simp add: fill_window_def no_truncates merge_truncates_def)
qed

lemma fill_window_in_step:
  assumes served: "serves env tbl (sq_metas h) (sq_config h) harvested inc" and ok: "handle_ok (harvested w) h"
    and empty: "sq_window_buffer h = []" and step: "in_step env tbl log0 h es"
    and cut: "ss_lsn_start (sq_stream h) \<le> ss_lsn_end (sq_stream h)"
    and merged: "merge_changes cur flat = filter (\<lambda>x. taken (sq_stream h) cur (snd x)) (remaining tbl (sq_metas h) (sq_stream h))"
    and last: "\<And>k. cur = Some k \<Longrightarrow> \<exists>x \<in> set (remaining tbl (sq_metas h) (sq_stream h)). in_window (sq_stream h) (snd x) \<and> k = cursor_of (snd x)"
    and run: "fill_window env flat cur h w = (h', w', Inr batch)"
  shows "kept harvested h h' w' \<and> in_step env tbl log0 h' (es @ batch)"
proof -
  let ?st = "(sq_stream h)\<lparr>ss_pending_cursor := cur\<rparr>"
  from fill_window_delivers [OF _ empty run] ok obtain bf bs n where
    sc: "scan env (sq_config h) (sq_befores h) (merge_changes cur flat) = Inr (bf, bs)"
    and run2: "deliver_page env (h\<lparr>sq_befores := bf, sq_window_buffer := bs, sq_events_polled := n, sq_stream := ?st\<rparr>) w = (h', w', Inr batch)"
    by (auto simp: handle_ok_def)
  let ?h2 = "h\<lparr>sq_befores := bf, sq_window_buffer := bs, sq_events_polled := n, sq_stream := ?st\<rparr>"
  have rem: "remaining tbl (sq_metas h) ?st = remaining tbl (sq_metas h) (sq_stream h)"
    by simp
  have pg: "page tbl (sq_metas h) ?st = merge_changes cur flat"
    unfolding page_def rem merged by (intro filter_cong refl) (simp add: taken_def split: option.splits)
  from step empty obtain read where read: "log0 = read @ remaining tbl (sq_metas h) (sq_stream h)"
    "scan env (sq_config h) Map.empty read = Inr (sq_befores h, es)" by (auto simp: in_step_def)
  have "stream_ok (harvested w) (sq_stream ?h2)" using ok by (simp add: handle_ok_def stream_ok_def)
  moreover have "cut_ok tbl (sq_metas ?h2) (sq_stream ?h2)"
    using cut last by (simp add: cut_ok_def rem in_window_def)
  moreover have "scan env (sq_config ?h2) Map.empty (read @ page tbl (sq_metas ?h2) (sq_stream ?h2)) = Inr (sq_befores ?h2, es @ sq_window_buffer ?h2)"
    using scan_append [OF read(2) sc] by (simp add: pg)
  ultimately have "stream_ok (harvested w') (sq_stream h') \<and> in_step env tbl log0 h' (es @ batch)
      \<and> h' = ?h2\<lparr>sq_stream := sq_stream h', sq_window_buffer := sq_window_buffer h'\<rparr>"
    using deliver_page_in_step [OF _ _ _ _ _ _ _ _ _ run2, of harvested inc tbl log0 read es "sq_befores h" es] served read
    by (simp add: serves_def rem)
  then have st: "stream_ok (harvested w') (sq_stream h')" "in_step env tbl log0 h' (es @ batch)"
    and h': "h' = ?h2\<lparr>sq_stream := sq_stream h', sq_window_buffer := sq_window_buffer h'\<rparr>" by simp_all
  have "sq_metas h' = sq_metas h" "sq_config h' = sq_config h" "sq_requeued h' = sq_requeued h"
    "sq_max_events_per_poll h' = sq_max_events_per_poll h"
    by (subst h', simp)+
  with st ok show ?thesis by (simp add: kept_def handle_ok_def)
qed

lemma fetch_all_window:
  assumes served: "serves env tbl (sq_metas h) (sq_config h) harvested inc" and ok: "handle_ok (harvested w) h"
    and ans: "\<And>m :: capture_meta. ans m = take (sq_max_events_per_poll h) (filter (in_window (sq_stream h)) (tbl (cm_capture_instance m)))"
    and run: "fetch_all env h (sq_metas h) [] None w = (w1, Inr (flat, cur))"
  shows "handle_ok (harvested w1) h" "flat = concat (map (\<lambda>m. map (Pair m) (ans m)) (sq_metas h))"
    "cur = fold (tighten (sq_max_events_per_poll h)) (map ans (sq_metas h)) None"
proof -
  let ?st = "sq_stream h"
  have "lsn_wf (ss_lsn_start ?st)" "lsn_wf (ss_lsn_end ?st)" "ss_lsn_end ?st \<le> harvested w" "log_wf tbl (sq_metas h)" "poll_served env tbl (sq_metas h) harvested"
    using ok served by (simp_all add: handle_ok_def stream_ok_def serves_def)
  with fetch_all_served [where ans = ans and ms = "sq_metas h", OF _ _ _ _ _ _ _ run, of tbl "sq_metas h" harvested]
  have "harvested w \<le> harvested w1 \<and> flat = concat (map (\<lambda>m. map (Pair m) (ans m)) (sq_metas h))
      \<and> cur = fold (tighten (sq_max_events_per_poll h)) (map ans (sq_metas h)) None"
    by (simp add: ans answer_in_window)
  then show "handle_ok (harvested w1) h" "flat = concat (map (\<lambda>m. map (Pair m) (ans m)) (sq_metas h))"
    "cur = fold (tighten (sq_max_events_per_poll h)) (map ans (sq_metas h)) None"
    using ok by (auto simp: handle_ok_def intro: stream_ok_mono)
qed

lemma filled_in_step:
  assumes served: "serves env tbl (sq_metas h) (sq_config h) harvested inc" and ok: "handle_ok (harvested w) h"
    and empty: "sq_window_buffer h = []" and step: "in_step env tbl log0 h es"
    and f: "fetch_all env h (sq_metas h) [] None w = (w1, Inr (flat, cur))" and ne: "flat \<noteq> []"
    and r: "fill_window env flat cur h w1 = (h', w', Inr batch)"
  shows "kept harvested h h' w' \<and> in_step env tbl log0 h' (es @ batch)"
proof -
  let ?st = "sq_stream h"
  define ans where "ans m = take (sq_max_events_per_poll h) (filter (in_window ?st) (tbl (cm_capture_instance m)))" for m :: capture_meta
  note f' = fetch_all_window [OF served ok ans_def f]
  have wf: "log_wf tbl (sq_metas h)" "0 < sq_max_events_per_poll h" using served ok by (simp_all add: serves_def handle_ok_def)
  note wp = window_page [OF wf ans_def f'(3)]
  have "ss_lsn_start ?st \<le> ss_lsn_end ?st"
  proof (rule ccontr)
    assume "\<not> ss_lsn_start ?st \<le> ss_lsn_end ?st"
    then have "ans m = []" for m by (auto simp: ans_def in_window_def filter_empty_conv)
    with f' ne show False by simp
  qed
  with fill_window_in_step [OF served f'(1) empty step _ _ _ r] wp f'(2) show ?thesis by simp
qed

lemma advanced_in_step:
  assumes served: "serves env tbl (sq_metas h) (sq_config h) harvested inc" and ok: "handle_ok (harvested w) h"
    and empty: "sq_window_buffer h = []" and step: "in_step env tbl log0 h es"
    and f: "fetch_all env h (sq_metas h) [] None w = (w1, Inr ([], cur))" and r: "advance_window env h w1 = (h', w', Inr ())"
  shows "kept harvested h h' w' \<and> sq_window_buffer h' = [] \<and> in_step env tbl log0 h' es"
proof -
  let ?st = "sq_stream h"
  define ans where "ans m = take (sq_max_events_per_poll h) (filter (in_window ?st) (tbl (cm_capture_instance m)))" for m :: capture_meta
  note f' = fetch_all_window [OF served ok ans_def f]
  have ok1: "stream_ok (harvested w1) ?st" using f'(1) by (simp add: handle_ok_def)
  have wf: "advance_served env harvested inc" "no_change_between tbl (sq_metas h) inc" using served by (simp_all add: serves_def)
  from advance_served_window [OF wf(1) ok1 r] have adv: "stream_ok (harvested w') (sq_stream h')"
    and h': "h' = h\<lparr>sq_stream := ?st\<lparr>
       ss_lsn_start := (if ss_lsn_end ?st < ss_lsn_start ?st then ss_lsn_start ?st else inc (ss_lsn_end ?st)),
       ss_lsn_end := harvested w', ss_cursor := None, ss_pending_cursor := None\<rparr>\<rparr>" by blast+
  have "ans m = []" if "m \<in> set (sq_metas h)" for m using f'(2) that by auto
  then have none: "filter (in_window ?st) (tbl (cm_capture_instance m)) = []" if "m \<in> set (sq_metas h)" for m
    using ok that by (simp add: ans_def handle_ok_def)
  have "remaining tbl (sq_metas h) (sq_stream h') = remaining tbl (sq_metas h) ?st"
  proof (cases "ss_lsn_end ?st < ss_lsn_start ?st")
    case True
    with ok1 have "ss_cursor ?st = None" by (cases "ss_cursor ?st") (force simp: stream_ok_def)+
    with True show ?thesis by (simp add: h' remaining_def unread_def)
  next
    case False
    have "filter (\<lambda>x. taken ?st None (snd x)) (remaining tbl (sq_metas h) ?st) = []"
      using none by (auto simp: taken_def remaining_def commit_order_mem filter_empty_conv in_window_unread)
    with remaining_split [of ?st None tbl "sq_metas h"]
    have "filter (\<lambda>x. \<not> taken ?st None (snd x)) (remaining tbl (sq_metas h) ?st) = remaining tbl (sq_metas h) ?st" by simp
    with False remaining_advanced [OF wf(2), of ?st] ok1 show ?thesis by (auto simp: h' not_less stream_ok_def dest: leD)
  qed
  with step empty adv ok show ?thesis by (simp add: kept_def handle_ok_def in_step_def) (simp add: h')
qed

lemma fill_iteration_in_step:
  assumes served: "serves env tbl (sq_metas h) (sq_config h) harvested inc" and ok: "handle_ok (harvested w) h"
    and empty: "sq_window_buffer h = []" and step: "in_step env tbl log0 h es"
  shows "fill_iteration env t d h w = Inl (h', w', Inr batch) \<Longrightarrow> kept harvested h h' w' \<and> in_step env tbl log0 h' (es @ batch)"
    and "fill_iteration env t d h w = Inr (h', w') \<Longrightarrow>
      kept harvested h h' w' \<and> sq_window_buffer h' = [] \<and> in_step env tbl log0 h' es"
proof -
  have off: "\<not> sc_capture_truncate_events (sq_config h)" using ok by (simp add: handle_ok_def)
  show "kept harvested h h' w' \<and> in_step env tbl log0 h' (es @ batch)" if "fill_iteration env t d h w = Inl (h', w', Inr batch)"
    using that off filled_in_step [OF served ok empty step] advanced_in_step [OF served ok empty step]
    by (auto simp: fill_iteration_def no_truncates split: prod.splits sum.splits if_splits)
  show "kept harvested h h' w' \<and> sq_window_buffer h' = [] \<and> in_step env tbl log0 h' es" if run: "fill_iteration env t d h w = Inr (h', w')"
  proof -
    obtain w1 r where f: "fetch_all env h (sq_metas h) [] None w = (w1, r)" by (cases "fetch_all env h (sq_metas h) [] None w")
    from run f obtain cur where r: "r = Inr ([], cur)"
      by (cases r) (auto simp: fill_iteration_def split: if_splits)
    obtain h2 w3 u where a: "advance_window env h w1 = (h2, w3, u)" by (cases "advance_window env h w1")
    from run f r a off have u: "u = Inr ()" "h' = h2"
      "w' = ce_sleep env (min (min (ss_poll_interval_ms (sq_stream h2)) (max t 1)) DEFAULT_STREAM_POLL_INTERVAL_MS) w3"
      by (cases u; simp add: fill_iteration_def no_truncates split: if_splits)+
    have "fetch_all env h (sq_metas h) [] None w = (w1, Inr ([], cur))" "advance_window env h w1 = (h', w3, Inr ())"
      using f r a u by simp_all
    note adv = advanced_in_step [OF served ok empty step this]
    have "harvested w3 \<le> harvested w'" using served by (simp add: serves_def steady_tables_def u(3))
    with adv show ?thesis by (auto simp: kept_def handle_ok_def intro: stream_ok_mono)
  qed
qed

lemma fill_loop_in_step:
  assumes "fill_loop env t d h w = Some r"
    and "serves env tbl (sq_metas h) (sq_config h) harvested inc" "handle_ok (harvested w) h" "sq_window_buffer h = []"
    "in_step env tbl log0 h es" "r = (h', w', Inr batch)"
  shows "kept harvested h h' w' \<and> in_step env tbl log0 h' (es @ batch)"
proof -
  define goal :: "'a cdc_env \<Rightarrow> nat \<Rightarrow> nat \<Rightarrow> sqlserver_handle \<Rightarrow> 'a \<Rightarrow> sqlserver_handle \<times> 'a \<times> event list result \<Rightarrow> bool"
    where "goal env t d h w r \<longleftrightarrow>
      (serves env tbl (sq_metas h) (sq_config h) harvested inc \<longrightarrow> handle_ok (harvested w) h \<longrightarrow> sq_window_buffer h = []
       \<longrightarrow> in_step env tbl log0 h es \<longrightarrow> r = (h', w', Inr batch)
       \<longrightarrow> kept harvested h h' w' \<and> in_step env tbl log0 h' (es @ batch))" for env t d h w r
  have "goal env t d h w r"
  proof (rule fill_loop.raw_induct [OF _ assms(1), where P = goal])
    fix loop :: "'a cdc_env \<Rightarrow> nat \<Rightarrow> nat \<Rightarrow> sqlserver_handle \<Rightarrow> 'a \<Rightarrow> (sqlserver_handle \<times> 'a \<times> event list result) option"
    fix env t d h w r
    assume ih: "\<And>env t d h w r. loop env t d h w = Some r \<Longrightarrow> goal env t d h w r"
      and body: "(case fill_iteration env t d h w of Inl r \<Rightarrow> Some r | Inr (h1, w1) \<Rightarrow> loop env t d h1 w1) = Some r"
    show "goal env t d h w r"
      unfolding goal_def
    proof (intro impI)
      assume a: "serves env tbl (sq_metas h) (sq_config h) harvested inc" "handle_ok (harvested w) h" "sq_window_buffer h = []"
        "in_step env tbl log0 h es" "r = (h', w', Inr batch)"
      show "kept harvested h h' w' \<and> in_step env tbl log0 h' (es @ batch)"
      proof (cases "fill_iteration env t d h w")
        case (Inl x)
        with body a(5) have "fill_iteration env t d h w = Inl (h', w', Inr batch)" by simp
        from fill_iteration_in_step(1) [OF a(1-4) this] show ?thesis .
      next
        case (Inr x)
        obtain h1 w1 where x: "x = (h1, w1)" by (cases x)
        note next_ok = fill_iteration_in_step(2) [OF a(1-4) Inr [unfolded x]]
        have "loop env t d h1 w1 = Some r" using body Inr x by simp
        from ih [OF this] next_ok a(1,5) show ?thesis by (simp add: goal_def kept_def)
      qed
    qed
  qed
  with assms(2-) show ?thesis by (simp add: goal_def)
qed

section \<open>A refresh that finds nothing new\<close>

lemma hash_entries_sub: "m \<in> set (hash_entries ms) \<Longrightarrow> m \<in> set ms"
  by (induction ms) (auto split: if_splits)

lemma find_hash_entry: "m \<in> set (hash_entries ms) \<Longrightarrow> find_meta (hash_entries ms) (cm_capture_instance m) = Some m"
proof (induction ms)
  case (Cons x ms)
  show ?case
  proof (cases "list_ex (\<lambda>y. cm_capture_instance y = cm_capture_instance x) ms")
    case False
    with Cons show ?thesis by (auto simp: find_meta_def list_ex_iff dest: hash_entries_sub)
  qed (use Cons in simp)
qed simp

lemma steady_no_schema_events:
  "\<forall>xs. set (ce_iter env xs) = set xs \<Longrightarrow> compute_schema_events_for_meta_refresh env h (sq_metas h) w = []"
  by (auto simp: compute_schema_events_for_meta_refresh_def Let_def concat_eq_Nil_conv find_hash_entry)

lemma refresh_steady:
  assumes "steady_tables env (sq_config h) (sq_metas h) harvested" "refresh_metas_and_collect_schema_events env h w = (h1, w1, Inr ev)"
  shows "h1 = h \<and> ev = [] \<and> harvested w \<le> harvested w1"
  using assms steady_no_schema_events [of env h w1]
  by (auto simp: refresh_metas_and_collect_schema_events_def steady_tables_def Let_def split: prod.splits sum.splits)

lemma next_events_in_step:
  assumes served: "serves env tbl (sq_metas h) (sq_config h) harvested inc" and ok: "handle_ok (harvested w) h"
    and step: "in_step env tbl log0 h es" and run: "sqlserver_next_events env t h w = Some (h', w', Inr batch)"
  shows "kept harvested h h' w' \<and> in_step env tbl log0 h' (es @ batch)"
proof -
  obtain h1 w1 r where ref: "refresh_metas_and_collect_schema_events env h w = (h1, w1, r)"
    by (cases "refresh_metas_and_collect_schema_events env h w")
  from run ok ref obtain ev where r: "r = Inr ev" by (cases r) (auto simp: sqlserver_next_events_def handle_ok_def)
  from refresh_steady [OF _ ref [unfolded r]] served have same: "h1 = h" "ev = []" and up: "harvested w \<le> harvested w1"
    by (auto simp: serves_def)
  have ok1: "handle_ok (harvested w1) h" using ok up by (auto simp: handle_ok_def intro: stream_ok_mono)
  show ?thesis
  proof (cases "sq_window_buffer h = []")
    case True
    with run ok ref r same have "fill_loop env t (ce_clock env w1 + t) h w1 = Some (h', w', Inr batch)"
      by (simp add: sqlserver_next_events_def handle_ok_def)
    from fill_loop_in_step [OF this served ok1 True step refl] show ?thesis .
  next
    case False
    with run ok ref r same have d: "deliver_page env h w1 = (h', w', Inr batch)"
      by (simp add: sqlserver_next_events_def handle_ok_def)
    from step False obtain read b es1 where s: "cut_ok tbl (sq_metas h) (sq_stream h)" "log0 = read @ remaining tbl (sq_metas h) (sq_stream h)"
      "scan env (sq_config h) Map.empty (read @ page tbl (sq_metas h) (sq_stream h)) = Inr (sq_befores h, es @ sq_window_buffer h)"
      "scan env (sq_config h) Map.empty read = Inr (b, es1)" "prefix es1 es"
      by (auto simp: in_step_def)
    have "stream_ok (harvested w') (sq_stream h') \<and> in_step env tbl log0 h' (es @ batch)
        \<and> h' = h\<lparr>sq_stream := sq_stream h', sq_window_buffer := sq_window_buffer h'\<rparr>"
      using deliver_page_in_step [OF _ _ _ _ s d, where harvested = harvested and inc = inc] served ok1 by (simp add: serves_def handle_ok_def)
    then have st: "stream_ok (harvested w') (sq_stream h')" "in_step env tbl log0 h' (es @ batch)"
      and h': "h' = h\<lparr>sq_stream := sq_stream h', sq_window_buffer := sq_window_buffer h'\<rparr>" by blast+
    have "sq_metas h' = sq_metas h" "sq_config h' = sq_config h" "sq_requeued h' = sq_requeued h"
      "sq_max_events_per_poll h' = sq_max_events_per_poll h"
      by (subst h', simp)+
    with st ok show ?thesis by (simp add: kept_def handle_ok_def)
  qed
qed

text \<open>A run of successful polls and the events it handed out.\<close>

inductive sqlserver_polls ::
    "'w cdc_env \<Rightarrow> sqlserver_handle \<Rightarrow> 'w \<Rightarrow> event list \<Rightarrow> sqlserver_handle \<Rightarrow> 'w \<Rightarrow> bool" for env where
  polls_done: "sqlserver_polls env h w [] h w"
| polls_next: "sqlserver_polls env h w es h1 w1 \<Longrightarrow> sqlserver_next_events env t h1 w1 = Some (h2, w2, Inr batch)
    \<Longrightarrow> sqlserver_polls env h w (es @ batch) h2 w2"

lemma polls_in_step:
  assumes "sqlserver_polls env h w es h' w'"
    and "serves env tbl (sq_metas h) (sq_config h) harvested inc" "handle_ok (harvested w) h" "in_step env tbl log0 h []"
  shows "kept harvested h h' w' \<and> in_step env tbl log0 h' es"
  using assms
proof (induction rule: sqlserver_polls.induct)
  case (polls_next h w es h1 w1 t h2 w2 batch)
  from polls_next.IH [OF polls_next.prems] polls_next.prems(1) next_events_in_step [OF _ _ _ polls_next.hyps(2), of tbl harvested inc log0 es]
  show ?case by (simp add: kept_def)
qed (simp add: kept_def)

section \<open>Resuming at the saved position\<close>

lemma resume_at_cursor:
  assumes "cursor_wf k" "resume_point m (Some (''sqlserver'', Inr (cursor_encode k))) = Inr (l, cur)"
  shows "cur = Some k \<and> l = lsn_of_text (cc_lsn_hex k)"
proof -
  from assms(1) have d: "cursor_decode (cursor_encode k) = Some k"
    unfolding cursor_round_trip by (auto simp: cursor_wf_def lsn_hex_to_bytes_opt_def ok_eq_Some)
  from assms(1) obtain b where b: "lsn_hex_to_bytes (cc_lsn_hex k) = Inr b"
    by (auto simp: cursor_wf_def lsn_hex_to_bytes_opt_def ok_eq_Some)
  have "lsn_from_source_offset (cursor_encode k) = Some b"
    using split_on_append [OF lsn_text_no_colon [OF b]] b by (simp add: lsn_from_source_offset_def cursor_encode_def)
  with assms(2) d b show ?thesis
    by (auto simp: resume_point_def lsn_of_text_def lsn_hex_to_bytes_opt_def split: if_splits)
qed

lemma resume_at_start:
  assumes "lsn_wf s" "resume_point m (Some (''sqlserver'', Inr (lsn_bytes_to_hex s))) = Inr (l, cur)"
  shows "cur = None \<and> l = s"
proof -
  have r: "lsn_hex_to_bytes (lsn_bytes_to_hex s) = Inr s" by (rule lsn_text_read [OF assms(1)])
  then have "split_on (CHR '':'') (lsn_bytes_to_hex s) = [lsn_bytes_to_hex s]"
    by (intro split_on_no_sep lsn_text_no_colon)
  with r assms(2) show ?thesis
    by (auto simp: resume_point_def lsn_from_source_offset_def cursor_decode_def split: if_splits)
qed

lemma remaining_after_resume:
  assumes ok: "stream_ok highest st" and resume: "resume_point m (Some (''sqlserver'', Inr (sqlserver_position st))) = Inr (l, cur)"
  shows "remaining tbl metas (sq_stream (initial_handle conn ms l e cur)) = remaining tbl metas st"
proof (cases "ss_cursor st")
  case None
  with ok resume resume_at_start [of "ss_lsn_start st" m l cur] have "cur = None \<and> l = ss_lsn_start st"
    by (simp add: stream_ok_def sqlserver_position_def)
  with None show ?thesis by (simp add: remaining_def unread_def initial_handle_def)
next
  case (Some k)
  with ok have k: "cursor_wf k" "ss_lsn_start st \<le> lsn_of_text (cc_lsn_hex k)" by (auto simp: stream_ok_def)
  from resume_at_cursor [OF k(1), of m l cur] resume Some have "cur = Some k \<and> l = lsn_of_text (cc_lsn_hex k)"
    by (simp add: sqlserver_position_def)
  moreover have "lsn_of_text (cc_lsn_hex k) \<le> lsn_of c" if "cursor_key k < change_key c" for c
    using that by (auto simp: cursor_key_def change_key_def less_prod_def)
  ultimately show ?thesis using Some k(2)
    by (auto simp: remaining_def unread_def past_def initial_handle_def intro!: filter_cong intro: order_trans)
qed

section \<open>Progress\<close>

definition moved_on :: "change_log \<Rightarrow> capture_meta list \<Rightarrow> sqlserver_stream \<Rightarrow> sqlserver_handle \<Rightarrow> event list \<Rightarrow> bool" where
  "moved_on tbl metas st h' batch \<longleftrightarrow>
     length (remaining tbl metas (sq_stream h')) < length (remaining tbl metas st) \<or> (batch \<noteq> [] \<and> sq_window_buffer h' \<noteq> [])"

lemma deliver_page_progress:
  assumes served: "advance_served env harvested inc" "no_change_between tbl metas inc" "log_wf tbl metas"
    and ok: "stream_ok (harvested w) (sq_stream h)" "cut_ok tbl metas (sq_stream h)" "0 < sq_max_events_per_poll h"
    and ne: "page tbl metas (sq_stream h) \<noteq> []" and run: "deliver_page env h w = (h', w', Inr batch)"
  shows "moved_on tbl metas (sq_stream h) h' batch"
proof -
  define n where "n = min (sq_max_events_per_poll h) (length (sq_window_buffer h))"
  let ?h1 = "h\<lparr>sq_window_buffer := drop n (sq_window_buffer h)\<rparr>"
  show ?thesis
  proof (cases "drop n (sq_window_buffer h) = []")
    case True
    with run have "settle_drained_window env ?h1 w = (h', w', Inr ())"
      by (auto simp: deliver_page_def Let_def n_def [symmetric] split: prod.splits sum.splits)
    from settle_served(4) [OF served _ _ this] ok
    have "remaining tbl metas (sq_stream h) = page tbl metas (sq_stream h) @ remaining tbl metas (sq_stream h')" by simp
    with ne show ?thesis by (simp add: moved_on_def)
  next
    case False
    with run have "h' = ?h1" "batch = take n (sq_window_buffer h)" by (auto simp: deliver_page_def Let_def n_def)
    moreover have "0 < n" using False ok(3) by (auto simp: n_def)
    ultimately show ?thesis using False by (auto simp: moved_on_def)
  qed
qed

lemma fill_iteration_progress:
  assumes served: "serves env tbl (sq_metas h) (sq_config h) harvested inc" and ok: "handle_ok (harvested w) h"
    and empty: "sq_window_buffer h = []"
    and x: "x \<in> set (remaining tbl (sq_metas h) (sq_stream h))" "in_window (sq_stream h) (snd x)"
  shows "case fill_iteration env t d h w of
      Inl (h', w', Inr batch) \<Rightarrow> moved_on tbl (sq_metas h) (sq_stream h) h' batch | Inl (h', w', Inl e) \<Rightarrow> True | Inr _ \<Rightarrow> False"
proof -
  let ?st = "sq_stream h"
  define ans where "ans m = take (sq_max_events_per_poll h) (filter (in_window ?st) (tbl (cm_capture_instance m)))" for m :: capture_meta
  have wf: "log_wf tbl (sq_metas h)" "0 < sq_max_events_per_poll h" "advance_served env harvested inc" "no_change_between tbl (sq_metas h) inc"
    using served ok by (simp_all add: serves_def handle_ok_def)
  obtain w1 r where f: "fetch_all env h (sq_metas h) [] None w = (w1, r)" by (cases "fetch_all env h (sq_metas h) [] None w")
  show ?thesis
  proof (cases r)
    case (Inl e)
    with f show ?thesis by (simp add: fill_iteration_def)
  next
    case (Inr p)
    obtain flat cur where p: "p = (flat, cur)" by (cases p)
    note f' = fetch_all_window [OF served ok ans_def f [unfolded Inr p]]
    note wp = window_page [OF wf(1,2) ans_def f'(3)]
    have m: "fst x \<in> set (sq_metas h)" "snd x \<in> set (tbl (cm_capture_instance (fst x)))"
      using x(1) by (simp_all add: remaining_def commit_order_mem)
    then have "ans (fst x) \<noteq> []" using x(2) wf(2) by (auto simp: ans_def filter_empty_conv)
    with m(1) f'(2) have ne: "flat \<noteq> []" by auto
    have page: "page tbl (sq_metas h) (?st\<lparr>ss_pending_cursor := cur\<rparr>) \<noteq> []"
      using x wp(2) by (cases cur) (force simp: page_def filter_empty_conv taken_def in_window_def)+
    have cut: "cut_ok tbl (sq_metas h) (?st\<lparr>ss_pending_cursor := cur\<rparr>)"
      using wp(2) x(2) by (auto simp: cut_ok_def in_window_def)
    have "moved_on tbl (sq_metas h) ?st h' batch" if "fill_window env flat cur h w1 = (h', w', Inr batch)" for h' w' batch
    proof -
      from fill_window_delivers [OF _ empty that] ok obtain bf bs n where
        "deliver_page env (h\<lparr>sq_befores := bf, sq_window_buffer := bs, sq_events_polled := n, sq_stream := ?st\<lparr>ss_pending_cursor := cur\<rparr>\<rparr>) w1 = (h', w', Inr batch)"
        by (auto simp: handle_ok_def)
      from deliver_page_progress [OF wf(3,4,1) _ _ _ _ this] f'(1) cut page wf(2)
      show ?thesis by (simp add: handle_ok_def stream_ok_def moved_on_def)
    qed
    with f Inr p ne show ?thesis by (auto simp: fill_iteration_def split: prod.splits sum.splits)
  qed
qed

end
