(* ===== verification/Sqlserver_Guarantees.thy ===== *)
theory Sqlserver_Guarantees
  imports Sqlserver_Delivery
begin

text \<open>
  What the SQL Server stream guarantees (\<open>source/sqlserver.rs\<close>, \<open>source/sqlserver/stream_*.rs\<close>): the changes of
  all tables in commit order, each once, however the reads are cut by the row limit, with a saved
  position that never runs ahead of what was delivered. Then what a restart and a refresh of the
  metadata lose.
\<close>

section \<open>Changes in commit order\<close>

text \<open>
  C19. The stream delivers the changes of all captured tables in commit order, each once. Take a
  fresh stream, a server that serves a log of change tables, and any run of successful polls. The log
  from where the stream started splits into three parts: the changes before the position the stream
  would save, the changes read since, and the rest. The events handed out, followed by those still
  buffered, are exactly the events of the first two parts, however the row limit has cut the reads.
  Every event of the first part has been handed out, and a stream restarted at the saved position
  reads exactly the other two parts: the saved position never runs ahead of what was handed out.
\<close>

theorem sqlserver_changes_in_order:
  assumes "serves env tbl (sq_metas h) (sq_config h) harvested inc" and "handle_ok (harvested w) h"
    and "sq_window_buffer h = []" "sq_befores h = Map.empty"
    and "sqlserver_polls env h w es h' w'"
  shows "\<exists>before since rest bf b1 es1.
    remaining tbl (sq_metas h) (sq_stream h) = before @ since @ rest
    \<and> scan env (sq_config h) Map.empty (before @ since) = Inr (bf, es @ sq_window_buffer h')
    \<and> scan env (sq_config h) Map.empty before = Inr (b1, es1) \<and> prefix es1 es
    \<and> (\<forall>m l cur conn e. resume_point m (Some (''sqlserver'', Inr (sqlserver_position (sq_stream h')))) = Inr (l, cur)
         \<longrightarrow> remaining tbl (sq_metas h) (sq_stream (initial_handle conn (sq_metas h) l e cur)) = since @ rest)"
proof -
  have "in_step env tbl (remaining tbl (sq_metas h) (sq_stream h)) h []" using assms(3,4) by (simp add: in_step_def)
  from polls_in_step [OF assms(5,1,2) this] have k: "sq_metas h' = sq_metas h" "sq_config h' = sq_config h"
    "stream_ok (harvested w') (sq_stream h')" and step: "in_step env tbl (remaining tbl (sq_metas h) (sq_stream h)) h' es"
    by (simp_all add: kept_def handle_ok_def)
  let ?page = "if sq_window_buffer h' = [] then [] else page tbl (sq_metas h) (sq_stream h')"
  from step [unfolded in_step_def k(1,2)] obtain before b1 es1 where b: "remaining tbl (sq_metas h) (sq_stream h) = before @ remaining tbl (sq_metas h) (sq_stream h')"
    "scan env (sq_config h) Map.empty (before @ ?page) = Inr (sq_befores h', es @ sq_window_buffer h')"
    "scan env (sq_config h) Map.empty before = Inr (b1, es1)" "prefix es1 es"
    by blast
  have "\<exists>rest. remaining tbl (sq_metas h) (sq_stream h') = ?page @ rest"
    using remaining_split [of "sq_stream h'" "ss_pending_cursor (sq_stream h')" tbl "sq_metas h", symmetric] by (auto simp: page_def)
  then obtain rest where rest: "remaining tbl (sq_metas h) (sq_stream h') = ?page @ rest" by blast
  have resumed: "remaining tbl (sq_metas h) (sq_stream (initial_handle conn (sq_metas h) l e cur)) = ?page @ rest"
    if "resume_point m (Some (''sqlserver'', Inr (sqlserver_position (sq_stream h')))) = Inr (l, cur)" for m l cur conn e
    using remaining_after_resume [OF k(3) that] rest by simp
  show ?thesis
    by (intro exI [of _ before] exI [of _ ?page] exI [of _ rest] exI [of _ "sq_befores h'"] exI [of _ b1] exI [of _ es1]
        conjI allI impI) (use b rest resumed in simp_all)
qed

section \<open>A small server\<close>

text \<open>Two tables, one insert in the first and one update in the second, and a row limit of one.\<close>

definition small_lsn :: "nat \<Rightarrow> lsn" where
  "small_lsn n = replicate 9 0 @ [n]"

definition small_change :: "nat \<Rightarrow> int \<Rightarrow> string \<Rightarrow> raw_change" where
  "small_change n k t =
     \<lparr>rw_start_lsn_hex = lsn_bytes_to_hex (small_lsn n), rw_seqval_hex = lsn_bytes_to_hex (small_lsn n),
      rw_operation = k, rw_ts_ms = 5, rw_row = JObject [(''id'', JString t)]\<rparr>"

definition small_row :: "raw_change \<Rightarrow> cdc_row" where
  "small_row c =
     \<lparr>cr_start_lsn = Some (rw_start_lsn_hex c), cr_seqval = Some (rw_seqval_hex c), cr_operation = Some (rw_operation c),
      cr_ts = Some (int (rw_ts_ms c)), cr_json = Option.bind (json_get (rw_row c) ''id'') as_str\<rparr>"

definition small_meta :: "string \<Rightarrow> capture_meta" where
  "small_meta name =
     \<lparr>cm_capture_instance = name, cm_schema = ''dbo'', cm_table = name, cm_primary_key = [''id''],
      cm_captured_columns = [''id''], cm_capture_floor = small_lsn 1\<rparr>"

definition small_log :: change_log where
  "small_log name =
     (if name = ''a'' then [small_change 2 2 ''x'']
      else if name = ''b'' then [small_change 3 3 ''old'', small_change 3 4 ''new''] else [])"

definition small_inc :: "lsn \<Rightarrow> lsn" where
  "small_inc l = (if l < small_lsn 2 then small_lsn 2 else if l < small_lsn 3 then small_lsn 3 else small_lsn 255)"

definition small_server :: "nat cdc_env" where
  "small_server =
     \<lparr>ce_advance = (\<lambda>l w. (w, Inr (Some (Some (lsn_bytes_to_hex (small_inc l)), Some (lsn_bytes_to_hex (small_lsn 9)))))),
      ce_poll = (\<lambda>r w. (w, Rows (map small_row (answer small_log (pr_capture_instance r)
        (lsn_of_text (pr_start_lsn_hex r)) (lsn_of_text (pr_end_lsn_hex r)) (pr_cursor r) (pr_max r))))),
      ce_min_lsn = (\<lambda>ci w. (w, Answer (Some (lsn_bytes_to_hex (small_lsn 1))))),
      ce_max_lsn = (\<lambda>w. (w, Answer (Some (lsn_bytes_to_hex (small_lsn 9))))),
      ce_change_tables = (\<lambda>w. (w, Inr (map (\<lambda>name. \<lparr>ct_capture_instance = Some name, ct_schema = Some ''dbo'', ct_name = Some name,
        ct_min_lsn = Some (lsn_bytes_to_hex (small_lsn 1))\<rparr>) [''a'', ''b'']))),
      ce_columns = (\<lambda>ci w. (w, Inr [''id''])), ce_primary_key = (\<lambda>ci w. (w, Inr [''id''])),
      ce_truncates = (\<lambda>s l w. (w, Inr [])), ce_mark = (\<lambda>s ids w. (w, Inr ())), ce_cleanup = (\<lambda>s w. w),
      ce_setup = (\<lambda>s w. (w, Inr ())), ce_decode_row = (\<lambda>t. Some (JObject [(''id'', JString t)])),
      ce_hash = length, ce_iter = (\<lambda>ms. ms), ce_clock = (\<lambda>w. w), ce_now = (\<lambda>w. w), ce_sleep = (\<lambda>n w. w + n),
      ce_codec = \<lparr>enc_schema = (\<lambda>_. None), dec_schema = (\<lambda>_. None), enc_diff = (\<lambda>_. None), dec_diff = (\<lambda>_. None)\<rparr>\<rparr>"

definition small_connection :: sqlserver_connection where
  "small_connection =
     \<lparr>scn_connected = True,
      scn_config = \<lparr>sc_include = [], sc_exclude = [], sc_cdc_schema = ''cdc'', sc_capture_truncate_events = False\<rparr>,
      scn_poll_interval_ms = 10, scn_max_events_per_poll = 1, scn_stream_lsn_start = None\<rparr>"

definition small_handle :: sqlserver_handle where
  "small_handle = initial_handle small_connection [small_meta ''a'', small_meta ''b''] (small_lsn 1) (small_lsn 9) None"

lemma small_lsn_wf [simp]: "n < 256 \<Longrightarrow> lsn_wf (small_lsn n)"
  by (simp add: small_lsn_def lsn_wf_def list_all_iff)

lemma replicate_le: "replicate k (0 :: nat) @ [a] \<le> replicate k 0 @ [b] \<longleftrightarrow> a \<le> b"
  by (induction k) auto

lemma small_lsn_less [simp]: "small_lsn a < small_lsn b \<longleftrightarrow> a < b" "small_lsn a \<le> small_lsn b \<longleftrightarrow> a \<le> b"
    "small_lsn a = small_lsn b \<longleftrightarrow> a = b"
  by (auto simp: small_lsn_def replicate_le less_le)

lemma lsn_of_text_hex [simp]: "lsn_wf l \<Longrightarrow> lsn_of_text (lsn_bytes_to_hex l) = l"
  by (simp add: lsn_of_text_def lsn_hex_to_bytes_opt_def lsn_text_read)

lemma small_change_facts [simp]:
  "n < 256 \<Longrightarrow> lsn_of (small_change n k t) = small_lsn n"
  "n < 256 \<Longrightarrow> i32_min \<le> k \<Longrightarrow> k \<le> i32_max \<Longrightarrow> change_wf (small_change n k t)"
  "n < 256 \<Longrightarrow> n' < 256 \<Longrightarrow> change_key (small_change n k t) < change_key (small_change n' k' t')
    \<longleftrightarrow> n < n' \<or> (n = n' \<and> k < k')"
  "n < 256 \<Longrightarrow> n' < 256 \<Longrightarrow> change_key (small_change n k t) \<le> change_key (small_change n' k' t')
    \<longleftrightarrow> n < n' \<or> (n = n' \<and> k \<le> k')"
  by (auto simp: lsn_of_def small_change_def change_wf_def cursor_wf_def cursor_of_def lsn_hex_to_bytes_opt_def
      lsn_text_read change_key_def less_prod_def less_eq_prod_def)

lemma small_rows_decode:
  "list_all (\<lambda>c. \<exists>n k t. c = small_change n k t) cs \<Longrightarrow> decode_cdc_rows small_server [''id''] (map small_row cs) = Inr cs"
  by (induction cs) (auto simp: decode_cdc_row_def small_row_def small_change_def small_server_def json_get_def obj_get_def
      fill_columns_null_def)

lemma hex_nonempty [simp]: "lsn_bytes_to_hex l \<noteq> []"
  by (simp add: lsn_bytes_to_hex_def)

lemma or_zero_hex [simp]: "or_zero (Some (lsn_bytes_to_hex l)) = lsn_bytes_to_hex l"
  by (simp add: or_zero_def)

lemma small_log_changes: "c \<in> set (small_log ci) \<Longrightarrow> \<exists>n k t. c = small_change n k t"
proof -
  assume "c \<in> set (small_log ci)"
  then have "c = small_change 2 2 ''x'' \<or> c = small_change 3 3 ''old'' \<or> c = small_change 3 4 ''new''"
    by (auto simp: small_log_def split: if_splits)
  then show ?thesis by blast
qed

lemma small_answer_changes: "list_all (\<lambda>c. \<exists>n k t. c = small_change n k t) (answer small_log ci s e cur n)"
  using small_log_changes [of _ ci] by (force simp: answer_def list_all_iff dest: in_set_takeD)

lemma small_load:
  "load_capture_metas_for_config small_server (scn_config small_connection) False False w = (w, Inr [small_meta ''a'', small_meta ''b''])"
  by (simp add: load_capture_metas_for_config_def load_capture_meta_def small_server_def small_meta_def small_connection_def
      validate_capture_instance_name_def is_ascii_alphanumeric_def capture_instance_is_selected_def table_is_allowed_def
      lsn_text_read)

lemma small_serves:
  "serves small_server small_log [small_meta ''a'', small_meta ''b''] (scn_config small_connection)
     (\<lambda>_. small_lsn 9) small_inc"
  unfolding serves_def
proof (intro conjI)
  show "log_wf small_log [small_meta ''a'', small_meta ''b'']"
    by (simp add: log_wf_def small_meta_def small_log_def i32_min_def i32_max_def validate_capture_instance_name_def is_ascii_alphanumeric_def)
  show "poll_served small_server small_log [small_meta ''a'', small_meta ''b''] (\<lambda>_. small_lsn 9)"
    using small_rows_decode [OF small_answer_changes]
    by (auto simp: poll_served_def small_meta_def) (simp_all add: small_server_def)
  show "advance_served small_server (\<lambda>_. small_lsn 9) small_inc"
    by (simp add: advance_served_def small_server_def small_inc_def lsn_text_read)
  show "no_change_between small_log [small_meta ''a'', small_meta ''b''] small_inc"
    by (auto simp: no_change_between_def commit_order_mem small_log_def small_inc_def not_less split: if_splits)
  show "steady_tables small_server (scn_config small_connection) [small_meta ''a'', small_meta ''b''] (\<lambda>_. small_lsn 9)"
    by (auto simp: steady_tables_def small_load) (simp_all add: retain_known_capture_floors_def find_meta_def small_meta_def small_server_def)
qed

lemma small_refresh:
  assumes "sq_config h = scn_config small_connection" "sq_metas h = [small_meta ''a'', small_meta ''b'']"
  shows "refresh_metas_and_collect_schema_events small_server h w = (h, w, Inr [])"
proof -
  have "steady_tables small_server (sq_config h) (sq_metas h) (\<lambda>_. small_lsn 9)"
    using small_serves assms by (simp add: serves_def)
  moreover obtain h1 w1 ev where r: "refresh_metas_and_collect_schema_events small_server h w = (h1, w1, Inr ev)" "w1 = w"
    using assms small_load [of w] by (simp add: refresh_metas_and_collect_schema_events_def Let_def)
  ultimately show ?thesis using refresh_steady [OF _ r(1)] by simp
qed

lemma small_fetch:
  assumes "name = ''a'' \<or> name = ''b''" "i < 256" "j < 256" "i \<le> j" "0 < i"
  shows "fetch_changes_for_capture_instance small_server
      \<lparr>ss_lsn_start = small_lsn i, ss_lsn_end = small_lsn j, ss_change_tables = ts, ss_poll_interval_ms = p, ss_cursor = cur,
       ss_pending_cursor = pend\<rparr> n (small_meta name) w
    = (w, Inr (answer small_log name (small_lsn i) (small_lsn j) cur n))"
proof -
  have "poll_capture_instance small_server
      \<lparr>pr_capture_instance = name, pr_columns = [''id''], pr_max = n, pr_start_lsn_hex = lsn_bytes_to_hex (small_lsn i),
       pr_end_lsn_hex = lsn_bytes_to_hex (small_lsn j), pr_cursor = cur\<rparr> w
    = (w, Inr (answer small_log name (small_lsn i) (small_lsn j) cur n))"
    using assms small_rows_decode [OF small_answer_changes, of name "small_lsn i" "small_lsn j" cur n]
    by (simp add: poll_capture_instance_def) (simp add: small_server_def)
  with assms show ?thesis
    by (auto simp: fetch_changes_for_capture_instance_def small_meta_def compare_lsn_def validate_capture_instance_name_def
        is_ascii_alphanumeric_def)
qed

definition small_after :: "raw_change \<Rightarrow> nat \<Rightarrow> (string \<times> string \<rightharpoonup> json \<times> nat) \<Rightarrow> sqlserver_handle" where
  "small_after c n b =
     small_handle\<lparr>sq_stream := (sq_stream small_handle)\<lparr>ss_cursor := Some (cursor_of c)\<rparr>, sq_events_polled := n, sq_befores := b\<rparr>"

lemmas small_unfold = initial_handle_def small_handle_def small_after_def small_connection_def

lemma small_poll:
  assumes "sq_requeued h = []" "sq_window_buffer h = []" "sq_config h = scn_config small_connection"
    "sq_metas h = [small_meta ''a'', small_meta ''b'']" "sq_max_events_per_poll h = 1"
    "sq_stream h = \<lparr>ss_lsn_start = small_lsn 1, ss_lsn_end = small_lsn 9, ss_change_tables = ts, ss_poll_interval_ms = p,
       ss_cursor = cur, ss_pending_cursor = pend\<rparr>"
    "answer small_log ''a'' (small_lsn 1) (small_lsn 9) cur 1 = as" "answer small_log ''b'' (small_lsn 1) (small_lsn 9) cur 1 = bs"
    "map (Pair (small_meta ''a'')) as @ map (Pair (small_meta ''b'')) bs = flat" "flat \<noteq> []"
    "tighten 1 bs (tighten 1 as None) = Some k" "merge_changes (Some k) flat = [(m, c)]"
    "map_change small_server (scn_config small_connection) m c (sq_befores h) = (b, Inr es)" "length es \<le> 1"
  shows "sqlserver_next_events small_server 0 h w = Some
    (h\<lparr>sq_stream := (sq_stream h)\<lparr>ss_cursor := Some k, ss_pending_cursor := None\<rparr>, sq_befores := b,
       sq_events_polled := sat_add64 (sq_events_polled h) (length es)\<rparr>, w, Inr es)"
proof -
  have f: "fetch_all small_server h [small_meta ''a'', small_meta ''b''] [] None w = (w, Inr (flat, Some k))"
    using assms by (simp add: small_fetch)
  have "buffer_changes small_server [(m, c)] h = (h\<lparr>sq_befores := b, sq_window_buffer := es\<rparr>, Inr ())"
    using assms by simp
  then have "fill_window small_server flat (Some k) h w =
      (h\<lparr>sq_stream := (sq_stream h)\<lparr>ss_cursor := Some k, ss_pending_cursor := None\<rparr>, sq_befores := b,
       sq_events_polled := sat_add64 (sq_events_polled h) (length es)\<rparr>, w, Inr es)"
    using assms by (simp add: fill_window_def fetch_and_emit_truncate_events_def small_connection_def merge_truncates_def
        deliver_page_def Let_def settle_drained_window_def min_absorb2)
  with f assms show ?thesis
    by (simp add: sqlserver_next_events_def small_refresh fill_loop.simps [of small_server] fill_iteration_def)
qed

definition small_insert :: event where
  "small_insert = build_sqlserver_event small_server (small_meta ''a'') (lsn_bytes_to_hex (small_lsn 2))
     (lsn_bytes_to_hex (small_lsn 2)) 5 Insert None (Some (JObject [(''id'', JString ''x'')]))"

lemma small_answers:
  "answer small_log ''a'' (small_lsn 1) (small_lsn 9) None 1 = [small_change 2 2 ''x'']"
  "answer small_log ''b'' (small_lsn 1) (small_lsn 9) None 1 = [small_change 3 3 ''old'']"
  "answer small_log ''a'' (small_lsn 1) (small_lsn 9) (Some (cursor_of (small_change 2 2 ''x''))) 1 = []"
  "answer small_log ''b'' (small_lsn 1) (small_lsn 9) (Some (cursor_of (small_change 2 2 ''x''))) 1 = [small_change 3 3 ''old'']"
  by (simp_all add: answer_def past_def small_log_def)

lemma small_maps:
  "map_change small_server (scn_config small_connection) (small_meta ''a'') (small_change 2 2 ''x'') b = (b, Inr [small_insert])"
  "map_change small_server (scn_config small_connection) (small_meta ''b'') (small_change 3 3 ''old'') b
     = (b((lsn_bytes_to_hex (small_lsn 3), lsn_bytes_to_hex (small_lsn 3)) \<mapsto> (JObject [(''id'', JString ''old'')], 5)), Inr [])"
  by (simp_all add: map_change_def Let_def small_change_def small_insert_def small_connection_def selected_def table_is_allowed_def)

lemma small_poll_insert:
  "sqlserver_next_events small_server 0 small_handle w
     = Some (small_after (small_change 2 2 ''x'') 1 Map.empty, w, Inr [small_insert])"
proof -
  let ?x = "small_change 2 2 ''x''"
  have "merge_changes (Some (cursor_of ?x)) [(small_meta ''a'', ?x), (small_meta ''b'', small_change 3 3 ''old'')] = [(small_meta ''a'', ?x)]"
    by (simp add: merge_changes_def sort_by_def change_order_key cursor_ordering_key i32_min_def i32_max_def)
  moreover have "tighten 1 [small_change 3 3 ''old''] (tighten 1 [?x] None) = Some (cursor_of ?x)"
    by (simp add: tighten_def cursor_ordering_key i32_min_def i32_max_def)
  ultimately show ?thesis
    by (subst small_poll [OF _ _ _ _ _ _ small_answers(1,2) refl _ _ _ small_maps(1)])
      (simp_all add: small_unfold sat_add64_def u64_max_def)
qed

lemma small_poll_before_image:
  "sqlserver_next_events small_server 0 (small_after (small_change 2 2 ''x'') n Map.empty) w
     = Some (small_after (small_change 3 3 ''old'') (sat_add64 n 0)
         [(lsn_bytes_to_hex (small_lsn 3), lsn_bytes_to_hex (small_lsn 3)) \<mapsto> (JObject [(''id'', JString ''old'')], 5)], w, Inr [])"
proof -
  let ?c = "small_change 3 3 ''old''"
  have "merge_changes (Some (cursor_of ?c)) [(small_meta ''b'', ?c)] = [(small_meta ''b'', ?c)]"
    by (simp add: merge_changes_def sort_by_def cursor_ordering_key i32_min_def i32_max_def)
  moreover have "tighten 1 [?c] (tighten 1 [] None) = Some (cursor_of ?c)"
    by (simp add: tighten_def)
  ultimately show ?thesis
    by (subst small_poll [OF _ _ _ _ _ _ small_answers(3,4) refl _ _ _ small_maps(2)]) (simp_all add: small_unfold)
qed

text \<open>The run: the insert is handed out, then the first half of the update is read.\<close>

lemma small_run:
  "\<exists>h'. sqlserver_polls small_server small_handle w ([] @ [small_insert] @ []) h' w
     \<and> sqlserver_position (sq_stream h') = cursor_encode (cursor_of (small_change 3 3 ''old'')) \<and> sq_window_buffer h' = []"
proof -
  let ?h1 = "small_after (small_change 2 2 ''x'') 1 Map.empty"
  let ?h2 = "small_after (small_change 3 3 ''old'') (sat_add64 1 0)
         [(lsn_bytes_to_hex (small_lsn 3), lsn_bytes_to_hex (small_lsn 3)) \<mapsto> (JObject [(''id'', JString ''old'')], 5)]"
  have "sqlserver_polls small_server small_handle w ([] @ [small_insert]) ?h1 w"
    by (rule polls_next [OF polls_done small_poll_insert])
  from polls_next [OF this small_poll_before_image]
  have "sqlserver_polls small_server small_handle w (([] @ [small_insert]) @ []) ?h2 w" .
  moreover have "sqlserver_position (sq_stream ?h2) = cursor_encode (cursor_of (small_change 3 3 ''old''))" "sq_window_buffer ?h2 = []"
    by (simp_all add: small_after_def sqlserver_position_def small_handle_def initial_handle_def)
  ultimately show ?thesis by (intro exI [of _ ?h2]) simp
qed

lemma small_handle_ok: "handle_ok (small_lsn 9) small_handle"
  by (simp add: handle_ok_def stream_ok_def small_unfold)

theorem sqlserver_changes_in_order_witness:
  "\<exists>h' before since rest bf b1 es1. sqlserver_polls small_server small_handle 0 [small_insert] h' 0
     \<and> remaining small_log (sq_metas small_handle) (sq_stream small_handle) = before @ since @ rest
     \<and> scan small_server (sq_config small_handle) Map.empty (before @ since) = Inr (bf, [small_insert])
     \<and> scan small_server (sq_config small_handle) Map.empty before = Inr (b1, es1) \<and> prefix es1 [small_insert]"
proof -
  obtain h' where run: "sqlserver_polls small_server small_handle 0 [small_insert] h' 0" and b: "sq_window_buffer h' = []"
    using small_run [of 0] by auto
  have s: "serves small_server small_log (sq_metas small_handle) (sq_config small_handle) (\<lambda>_. small_lsn 9) small_inc"
    using small_serves by (simp add: small_handle_def initial_handle_def)
  have "sq_window_buffer small_handle = []" "sq_befores small_handle = Map.empty" by (simp_all add: small_handle_def initial_handle_def)
  from sqlserver_changes_in_order [OF s small_handle_ok this run] b run show ?thesis by auto
qed

section \<open>A poll returns\<close>

text \<open>Time passes: a statement takes no negative time, and a sleep at least what it was asked for.\<close>

definition clock_runs :: "'w cdc_env \<Rightarrow> bool" where
  "clock_runs env \<longleftrightarrow>
     (\<forall>n w. ce_clock env w + n \<le> ce_clock env (ce_sleep env n w))
     \<and> (\<forall>r w. ce_clock env w \<le> ce_clock env (fst (ce_poll env r w)))
     \<and> (\<forall>l w. ce_clock env w \<le> ce_clock env (fst (ce_advance env l w)))
     \<and> (\<forall>ci w. ce_clock env w \<le> ce_clock env (fst (ce_min_lsn env ci w)))
     \<and> (\<forall>s l w. ce_clock env w \<le> ce_clock env (fst (ce_truncates env s l w)))
     \<and> (\<forall>s ids w. ce_clock env w \<le> ce_clock env (fst (ce_mark env s ids w)))
     \<and> (\<forall>s w. ce_clock env w \<le> ce_clock env (ce_cleanup env s w))"

lemma clock_runsD:
  assumes "clock_runs env"
  shows "ce_clock env w + n \<le> ce_clock env (ce_sleep env n w)"
    "ce_poll env r w = (w1, rd) \<Longrightarrow> ce_clock env w \<le> ce_clock env w1"
    "ce_advance env l w = (w1, ad) \<Longrightarrow> ce_clock env w \<le> ce_clock env w1"
    "ce_min_lsn env ci w = (w1, sc) \<Longrightarrow> ce_clock env w \<le> ce_clock env w1"
    "ce_truncates env s t w = (w1, ts) \<Longrightarrow> ce_clock env w \<le> ce_clock env w1"
    "ce_mark env s ids w = (w1, mk) \<Longrightarrow> ce_clock env w \<le> ce_clock env (ce_cleanup env s w1)"
  using assms unfolding clock_runs_def by (metis fst_conv le_trans)+

lemma fetch_clock:
  assumes "clock_runs env" "fetch_changes_for_capture_instance env st n m w = (w1, r)"
  shows "ce_clock env w \<le> ce_clock env w1"
proof -
  have classify: "ce_clock env w \<le> ce_clock env w1" if "classify_cdc_window_error env ci s w = (w1, r)" for ci s w w1 r
    using that clock_runsD(4) [OF assms(1)]
    by (auto simp: classify_cdc_window_error_def Let_def split: prod.splits scalar_read.splits sum.splits if_splits)
  have "ce_clock env w \<le> ce_clock env w1" if "poll_capture_instance env req w = (w1, r)" for req w w1 r
    using that clock_runsD(2) [OF assms(1)] classify
    by (auto simp: poll_capture_instance_def split: prod.splits cdc_read.splits if_splits) (blast intro: le_trans)+
  with assms(2) show ?thesis
    by (auto simp: fetch_changes_for_capture_instance_def split: sum.splits if_splits)
qed

lemma fetch_all_clock:
  "clock_runs env \<Longrightarrow> fetch_all env h ms flat cur w = (w1, r) \<Longrightarrow> ce_clock env w \<le> ce_clock env w1"
proof (induction ms arbitrary: flat cur w)
  case (Cons m ms)
  obtain w2 r2 where f: "fetch_changes_for_capture_instance env (sq_stream h) (sq_max_events_per_poll h) m w = (w2, r2)"
    by (cases "fetch_changes_for_capture_instance env (sq_stream h) (sq_max_events_per_poll h) m w")
  from fetch_clock [OF Cons.prems(1) f] Cons f show ?case by (cases r2) (auto intro: le_trans)
qed simp

lemma truncates_clock:
  "clock_runs env \<Longrightarrow> fetch_and_emit_truncate_events env h w = (w1, Inr ts) \<Longrightarrow> ce_clock env w \<le> ce_clock env w1"
  using clock_runsD(5,6) [of env]
  by (auto simp: fetch_and_emit_truncate_events_def Let_def split: if_splits prod.splits sum.splits)
    (blast intro: le_trans)

lemma advance_clock:
  "clock_runs env \<Longrightarrow> advance_window env h w = (h1, w1, Inr u)
   \<Longrightarrow> ce_clock env w \<le> ce_clock env w1 \<and> ss_poll_interval_ms (sq_stream h1) = ss_poll_interval_ms (sq_stream h)"
  using clock_runsD(3) [of env]
  by (auto simp: advance_window_def split: prod.splits sum.splits option.splits)

lemma fill_iteration_clock:
  assumes "clock_runs env" "0 < ss_poll_interval_ms (sq_stream h)" "fill_iteration env t d h w = Inr (h', w')"
  shows "0 < ss_poll_interval_ms (sq_stream h') \<and> ce_clock env w < d \<and> ce_clock env w < ce_clock env w'"
proof -
  obtain w1 r where f: "fetch_all env h (sq_metas h) [] None w = (w1, r)" by (cases "fetch_all env h (sq_metas h) [] None w")
  from assms(3) f obtain cur where r: "r = Inr ([], cur)" by (cases r) (auto simp: fill_iteration_def split: if_splits)
  obtain w2 ts where t: "fetch_and_emit_truncate_events env h w1 = (w2, ts)" by (cases "fetch_and_emit_truncate_events env h w1")
  from assms(3) f r t obtain u where ts: "ts = Inr u" by (cases ts) (auto simp: fill_iteration_def)
  have "u = []" using assms(3) f r t ts by (auto simp: fill_iteration_def Let_def split: prod.splits sum.splits if_splits)
  obtain h2 w3 a where a: "advance_window env h w2 = (h2, w3, a)" by (cases "advance_window env h w2")
  let ?n = "min (min (ss_poll_interval_ms (sq_stream h2)) (max t 1)) DEFAULT_STREAM_POLL_INTERVAL_MS"
  from assms(3) f r t ts \<open>u = []\<close> a have s: "a = Inr ()" "h' = h2" "ce_clock env w3 < d" "w' = ce_sleep env ?n w3"
    by (cases a; simp add: fill_iteration_def split: if_splits)+
  have "ce_clock env w \<le> ce_clock env w3"
    using fetch_all_clock [OF assms(1) f] truncates_clock [OF assms(1) t [unfolded ts]] advance_clock [OF assms(1) a [unfolded s(1)]]
    by simp
  moreover have "0 < ?n"
    using advance_clock [OF assms(1) a [unfolded s(1)]] assms(2) by (simp add: DEFAULT_STREAM_POLL_INTERVAL_MS_def)
  moreover have "ce_clock env w3 + ?n \<le> ce_clock env w'" unfolding s(4) by (rule clock_runsD(1) [OF assms(1)])
  ultimately have "ce_clock env w < ce_clock env w'" by linarith
  then show ?thesis
    using \<open>ce_clock env w \<le> ce_clock env w3\<close> s(2,3) advance_clock [OF assms(1) a [unfolded s(1)]] assms(2) by simp
qed

lemma fill_loop_returns:
  assumes "clock_runs env"
  shows "0 < ss_poll_interval_ms (sq_stream h) \<Longrightarrow> \<exists>r. fill_loop env t d h w = Some r"
proof (induction "d - ce_clock env w" arbitrary: h w rule: less_induct)
  case less
  show ?case
  proof (cases "fill_iteration env t d h w")
    case (Inl r)
    then show ?thesis by (intro exI [of _ r]) (simp add: fill_loop.simps)
  next
    case (Inr x)
    obtain h' w' where x: "x = (h', w')" by (cases x)
    from fill_iteration_clock [OF assms less.prems Inr [unfolded x]]
    have "d - ce_clock env w' < d - ce_clock env w" "0 < ss_poll_interval_ms (sq_stream h')" by auto
    from less.hyps [OF this] Inr x show ?thesis by (simp add: fill_loop.simps [of env t d h])
  qed
qed

text \<open>
  A poll returns. When time passes and the poll interval is positive, a poll of the stream
  ends with events, with none, or with an error, whatever the server answers.
\<close>

theorem sqlserver_poll_returns:
  assumes "clock_runs env" "0 < ss_poll_interval_ms (sq_stream h)"
  shows "\<exists>r. sqlserver_next_events env t h w = Some r"
proof -
  have same: "sq_stream h1 = sq_stream h" if "refresh_metas_and_collect_schema_events env h w = (h1, w1, r)" for h1 w1 r
    using that by (auto simp: refresh_metas_and_collect_schema_events_def Let_def split: prod.splits sum.splits)
  show ?thesis
    using fill_loop_returns [OF assms(1)] assms(2) same
    by (auto simp: sqlserver_next_events_def split: prod.splits sum.splits) (metis prod_cases3)
qed

theorem sqlserver_poll_returns_witness: "\<exists>r. sqlserver_next_events small_server 3 small_handle 0 = Some r"
  by (rule sqlserver_poll_returns) (simp_all add: clock_runs_def small_server_def small_unfold)

text \<open>
  C20. A poll makes progress. When an unread change lies inside the current window, a successful poll on
  an empty buffer either moves the position past at least one change, or hands out events and keeps
  the rest of the page in the buffer.
\<close>

theorem sqlserver_poll_progress:
  assumes "serves env tbl (sq_metas h) (sq_config h) harvested inc" "handle_ok (harvested w) h" "sq_window_buffer h = []"
    and "x \<in> set (remaining tbl (sq_metas h) (sq_stream h))" "in_window (sq_stream h) (snd x)"
    and "sqlserver_next_events env t h w = Some (h', w', Inr batch)"
  shows "length (remaining tbl (sq_metas h) (sq_stream h')) < length (remaining tbl (sq_metas h) (sq_stream h))
    \<or> (batch \<noteq> [] \<and> sq_window_buffer h' \<noteq> [])"
proof -
  obtain h1 w1 r where ref: "refresh_metas_and_collect_schema_events env h w = (h1, w1, r)"
    by (cases "refresh_metas_and_collect_schema_events env h w")
  from assms(2,6) ref obtain ev where r: "r = Inr ev" by (cases r) (auto simp: sqlserver_next_events_def handle_ok_def)
  from refresh_steady [OF _ ref [unfolded r]] assms(1) have same: "h1 = h" "ev = []" and up: "harvested w \<le> harvested w1"
    by (auto simp: serves_def)
  have ok: "handle_ok (harvested w1) h" using assms(2) up by (auto simp: handle_ok_def intro: stream_ok_mono)
  have "fill_loop env t (ce_clock env w1 + t) h w1 = Some (h', w', Inr batch)"
    using assms(2,3,6) ref r same by (simp add: sqlserver_next_events_def handle_ok_def)
  with fill_iteration_progress [OF assms(1) ok assms(3-5), of t "ce_clock env w1 + t"] show ?thesis
    by (auto simp: fill_loop.simps [of env t] moved_on_def split: sum.splits prod.splits)
qed

theorem sqlserver_poll_progress_witness:
  "\<exists>h' batch. sqlserver_next_events small_server 0 small_handle 0 = Some (h', 0, Inr batch)
     \<and> (length (remaining small_log (sq_metas small_handle) (sq_stream h')) < length (remaining small_log (sq_metas small_handle) (sq_stream small_handle))
        \<or> (batch \<noteq> [] \<and> sq_window_buffer h' \<noteq> []))"
proof -
  have s: "serves small_server small_log (sq_metas small_handle) (sq_config small_handle) (\<lambda>_. small_lsn 9) small_inc"
    using small_serves by (simp add: small_handle_def initial_handle_def)
  have e: "sq_window_buffer small_handle = []" by (simp add: small_handle_def initial_handle_def)
  have x: "(small_meta ''a'', small_change 2 2 ''x'') \<in> set (remaining small_log (sq_metas small_handle) (sq_stream small_handle))"
    "in_window (sq_stream small_handle) (snd (small_meta ''a'', small_change 2 2 ''x''))"
    by (simp_all add: remaining_def commit_order_mem small_unfold unread_def in_window_def past_def small_log_def small_meta_def)
  from sqlserver_poll_progress [OF s small_handle_ok e x small_poll_insert] small_poll_insert [of 0] show ?thesis by blast
qed

section \<open>What a restart loses\<close>

lemma start_config:
  "start_sqlserver_stream env resume conn w = (conn', w1, Inr h) \<Longrightarrow>
   sq_config h = scn_config conn \<and> sq_befores h = Map.empty \<and> sq_window_buffer h = [] \<and> sq_requeued h = []"
  by (auto simp: start_sqlserver_stream_def initial_handle_def Let_def split: if_splits prod.splits sum.splits option.splits)

lemma start_window:
  assumes "lsn_wf s" "lsn_wf highest" "\<And>w. snd (ce_max_lsn env w) = Answer (Some (lsn_bytes_to_hex highest))"
    and "start_sqlserver_stream env (Some (''sqlserver'', Inr (lsn_bytes_to_hex s))) conn w = (conn', w1, Inr h)"
  shows "ss_lsn_start (sq_stream h) = s \<and> ss_lsn_end (sq_stream h) = max highest s \<and> ss_cursor (sq_stream h) = None"
proof -
  have mx: "query_max_lsn_hex env w = (fst (ce_max_lsn env w), Inr (lsn_bytes_to_hex highest))" for w
    using assms(3) [of w] by (cases "ce_max_lsn env w") (simp add: query_max_lsn_hex_def)
  from assms(4) obtain m cur l where r: "resume_point m (Some (''sqlserver'', Inr (lsn_bytes_to_hex s))) = Inr (l, cur)"
    and h: "ss_lsn_start (sq_stream h) = l" "ss_cursor (sq_stream h) = cur"
      "ss_lsn_end (sq_stream h) = (if compare_lsn highest l = Less then l else highest)"
    by (auto simp: start_sqlserver_stream_def mx lsn_text_read [OF assms(2)] initial_handle_def Let_def
        split: if_splits prod.splits sum.splits option.splits)
  from resume_at_start [OF assms(1) r] h show ?thesis by (auto simp: compare_lsn_def max_def)
qed

text \<open>
  C34. A restart can skip a position. A stream that has read everything saves the increment of the
  harvested maximum. When it is restarted there before anything new is harvested, the start raises
  the end of the window to that position. The window is then not empty, the first poll finds nothing
  in it and moves past it, and a change the server harvests at that position later is never read.
\<close>

theorem sqlserver_restart_skips_position:
  assumes "lsn_wf s" "lsn_wf highest" "highest < s"
    and "\<And>w. snd (ce_max_lsn env w) = Answer (Some (lsn_bytes_to_hex highest))"
    and "start_sqlserver_stream env (Some (''sqlserver'', Inr (lsn_bytes_to_hex s))) conn w = (conn', w1, Inr h)"
    and "\<not> sc_capture_truncate_events (scn_config conn)"
    and "fetch_all env h (sq_metas h) [] None w1 = (w2, Inr ([], cur))"
    and "ce_advance env s w2 = (w3, Inr (Some (Some (lsn_bytes_to_hex i), Some (lsn_bytes_to_hex highest))))"
    and "lsn_wf i" "s < i"
  shows "\<exists>h'. (fill_iteration env t d h w1 = Inl (h', w3, Inr []) \<or> (\<exists>w4. fill_iteration env t d h w1 = Inr (h', w4)))
    \<and> sqlserver_position (sq_stream h') = lsn_bytes_to_hex i \<and> (\<forall>c. lsn_of c = s \<longrightarrow> \<not> unread (sq_stream h') c)"
proof -
  have st: "ss_lsn_start (sq_stream h) = s" "ss_lsn_end (sq_stream h) = s"
    using start_window [OF assms(1,2,4,5)] assms(3) by (simp_all add: max_absorb2 less_imp_le)
  let ?h' = "h\<lparr>sq_stream := (sq_stream h)\<lparr>ss_lsn_start := i, ss_lsn_end := highest, ss_cursor := None, ss_pending_cursor := None\<rparr>\<rparr>"
  have "advance_window env h w2 = (?h', w3, Inr ())"
    using assms(8) st by (simp add: advance_window_def lsn_text_read [OF assms(9)] lsn_text_read [OF assms(2)] next_window_def compare_lsn_def compare_of_def)
  moreover have "fetch_and_emit_truncate_events env h w2 = (w2, Inr [])"
    using start_config [OF assms(5)] assms(6) by (simp add: no_truncates)
  ultimately have "fill_iteration env t d h w1 = Inl (?h', w3, Inr []) \<or> (\<exists>w4. fill_iteration env t d h w1 = Inr (?h', w4))"
    using assms(7) by (simp add: fill_iteration_def)
  with assms(10) show ?thesis
    by (intro exI [of _ ?h']) (auto simp: sqlserver_position_def unread_def)
qed

lemma small_start:
  assumes "1 \<le> n" "n < 256"
  shows "start_sqlserver_stream small_server (Some (''sqlserver'', Inr (lsn_bytes_to_hex (small_lsn n)))) small_connection w
    = (small_connection\<lparr>scn_stream_lsn_start := Some (small_lsn n)\<rparr>, w,
       Inr (initial_handle small_connection [small_meta ''a'', small_meta ''b''] (small_lsn n) (small_lsn (max 9 n)) None))"
proof -
  have "load_capture_metas_for_config small_server (scn_config small_connection) True True w = (w, Inr [small_meta ''a'', small_meta ''b''])"
    by (simp add: load_capture_metas_for_config_def load_capture_meta_def small_server_def small_meta_def small_connection_def
        validate_capture_instance_name_def is_ascii_alphanumeric_def capture_instance_is_selected_def table_is_allowed_def lsn_text_read)
  moreover have "query_min_lsn_hex small_server ci w = (w, Inr (lsn_bytes_to_hex (small_lsn 1)))" for ci
    by (simp add: query_min_lsn_hex_def small_server_def)
  moreover have "query_max_lsn_hex small_server w = (w, Inr (lsn_bytes_to_hex (small_lsn 9)))"
    by (simp add: query_max_lsn_hex_def small_server_def)
  moreover have "resume_point (small_lsn 1) (Some (''sqlserver'', Inr (lsn_bytes_to_hex (small_lsn n)))) = Inr (small_lsn n, None)"
  proof -
    have r: "lsn_hex_to_bytes (lsn_bytes_to_hex (small_lsn n)) = Inr (small_lsn n)" using assms by (simp add: lsn_text_read)
    then have "split_on (CHR '':'') (lsn_bytes_to_hex (small_lsn n)) = [lsn_bytes_to_hex (small_lsn n)]"
      by (intro split_on_no_sep lsn_text_no_colon)
    with r assms show ?thesis
      by (simp add: resume_point_def lsn_from_source_offset_def cursor_decode_def compare_lsn_def not_less)
  qed
  ultimately show ?thesis
    by (auto simp: start_sqlserver_stream_def lsn_text_read compare_lsn_def small_connection_def max_def)
qed

theorem sqlserver_restart_skips_position_witness:
  "\<exists>conn' h h'. start_sqlserver_stream small_server (Some (''sqlserver'', Inr (lsn_bytes_to_hex (small_lsn 10)))) small_connection 0 = (conn', 0, Inr h)
     \<and> (fill_iteration small_server 0 0 h 0 = Inl (h', 0, Inr []) \<or> (\<exists>w4. fill_iteration small_server 0 0 h 0 = Inr (h', w4)))
     \<and> sqlserver_position (sq_stream h') = lsn_bytes_to_hex (small_lsn 255) \<and> \<not> unread (sq_stream h') (small_change 10 2 ''y'')"
proof -
  let ?h = "initial_handle small_connection [small_meta ''a'', small_meta ''b''] (small_lsn 10) (small_lsn 10) None"
  note start = small_start [of 10 0, simplified]
  have f: "fetch_all small_server ?h (sq_metas ?h) [] None 0 = (0, Inr ([], None))"
    by (simp add: initial_handle_def small_fetch answer_def small_log_def tighten_def small_connection_def)
  have a: "ce_advance small_server (small_lsn 10) 0 = (0, Inr (Some (Some (lsn_bytes_to_hex (small_lsn 255)), Some (lsn_bytes_to_hex (small_lsn 9)))))"
    by (simp add: small_server_def small_inc_def)
  from sqlserver_restart_skips_position [OF _ _ _ _ start _ f a, of 0 0]
  obtain h' where "fill_iteration small_server 0 0 ?h 0 = Inl (h', 0, Inr []) \<or> (\<exists>w4. fill_iteration small_server 0 0 ?h 0 = Inr (h', w4))"
    "sqlserver_position (sq_stream h') = lsn_bytes_to_hex (small_lsn 255)" "\<forall>c. lsn_of c = small_lsn 10 \<longrightarrow> \<not> unread (sq_stream h') c"
    by (auto simp: small_server_def small_connection_def)
  then show ?thesis using start by (intro exI conjI) auto
qed

text \<open>
  C35. A restart between the two images of an update makes the change undeliverable. The first image is
  held in memory only. A stream restarted after it maps the second image to an update without a before
  image, and the validation of the runtime refuses that event.
\<close>

theorem sqlserver_split_update_refused:
  assumes "rw_operation c = 4" "selected (scn_config conn) (cm_schema m) (cm_table m)"
  shows "\<exists>h' e. map_changes_to_events env m [c] (initial_handle conn metas l highest cur) = (h', Inr [e])
    \<and> ev_op e = Update \<and> ev_before e = None \<and> validate e \<noteq> Inr ()"
  using assms
  by (simp add: map_change_def Let_def initial_handle_def build_sqlserver_event_def validate_def validation_errors_def check_def)

theorem sqlserver_split_update_refused_witness:
  "\<exists>h1 h' e. sqlserver_polls small_server small_handle 0 [small_insert] h1 0
     \<and> resume_point (small_lsn 1) (Some (''sqlserver'', Inr (sqlserver_position (sq_stream h1))))
         = Inr (small_lsn 3, Some (cursor_of (small_change 3 3 ''old'')))
     \<and> map_changes_to_events small_server (small_meta ''b'') [small_change 3 4 ''new'']
         (initial_handle small_connection [small_meta ''a'', small_meta ''b''] (small_lsn 3) (small_lsn 9)
            (Some (cursor_of (small_change 3 3 ''old'')))) = (h', Inr [e])
     \<and> ev_before e = None \<and> validate e \<noteq> Inr ()"
proof -
  obtain h1 where run: "sqlserver_polls small_server small_handle 0 [small_insert] h1 0"
    and pos: "sqlserver_position (sq_stream h1) = cursor_encode (cursor_of (small_change 3 3 ''old''))"
    using small_run [of 0] by auto
  let ?k = "cursor_of (small_change 3 3 ''old'')"
  have "cursor_wf ?k" by (simp add: i32_min_def i32_max_def)
  moreover have "lsn_of_text (cc_lsn_hex ?k) = small_lsn 3" by (simp add: cursor_of_def small_change_def)
  moreover have "lsn_from_source_offset (cursor_encode ?k) = Some (small_lsn 3)"
    using split_on_append [OF lsn_text_no_colon [OF lsn_text_read [of "small_lsn 3"]]]
    by (simp add: lsn_from_source_offset_def cursor_encode_def cursor_of_def small_change_def lsn_text_read)
  moreover have "cursor_decode (cursor_encode ?k) = Some ?k"
    unfolding cursor_round_trip by (simp add: cursor_of_def small_change_def lsn_text_read i32_min_def i32_max_def)
  ultimately have "resume_point (small_lsn 1) (Some (''sqlserver'', Inr (cursor_encode ?k))) = Inr (small_lsn 3, Some ?k)"
    by (simp add: resume_point_def compare_lsn_def)
  moreover have "rw_operation (small_change 3 4 ''new'') = 4" "selected (scn_config small_connection) (cm_schema (small_meta ''b'')) (cm_table (small_meta ''b''))"
    by (simp_all add: small_change_def small_connection_def selected_def table_is_allowed_def)
  from sqlserver_split_update_refused [OF this, of small_server "[small_meta ''a'', small_meta ''b'']" "small_lsn 3" "small_lsn 9" "Some ?k"]
  obtain h' e where "map_changes_to_events small_server (small_meta ''b'') [small_change 3 4 ''new'']
         (initial_handle small_connection [small_meta ''a'', small_meta ''b''] (small_lsn 3) (small_lsn 9) (Some ?k)) = (h', Inr [e])"
     "ev_before e = None" "validate e \<noteq> Inr ()" by blast
  ultimately show ?thesis using run pos by (intro exI [of _ h1] exI [of _ h'] exI [of _ e]) simp
qed

lemma least_min_lsn_served:
  assumes "\<And>ci w. ce_min_lsn env ci w = (w, Answer (Some (lsn_bytes_to_hex (low ci))))" "\<And>ci. lsn_wf (low ci)"
  shows "ms \<noteq> [] \<or> cur \<noteq> None \<Longrightarrow> \<exists>l. least_min_lsn env ms cur w = (w, Inr (Some l))
    \<and> (cur = Some l \<or> (\<exists>m \<in> set ms. l = low (cm_capture_instance m)))
    \<and> (\<forall>m \<in> set ms. l \<le> low (cm_capture_instance m)) \<and> (\<forall>k. cur = Some k \<longrightarrow> l \<le> k)"
proof (induction ms arbitrary: cur)
  case Nil
  then show ?case by auto
next
  case (Cons m ms)
  let ?low = "low (cm_capture_instance m)"
  define cur' where "cur' = (case cur of Some current \<Rightarrow> if compare_lsn ?low current = Less then Some ?low else cur | None \<Rightarrow> Some ?low)"
  have step: "least_min_lsn env (m # ms) cur w = least_min_lsn env ms cur' w"
    using assms lsn_text_read by (simp add: query_min_lsn_hex_def cur'_def)
  define k where "k = (case cur of Some current \<Rightarrow> min ?low current | None \<Rightarrow> ?low)"
  have k: "cur' = Some k" "k \<le> ?low" "k = ?low \<or> cur = Some k" "\<And>j. cur = Some j \<Longrightarrow> k \<le> j"
    by (cases cur; auto simp: cur'_def k_def compare_lsn_def min_def less_le)+
  from Cons.IH [of cur'] k(1) obtain l where l: "least_min_lsn env ms cur' w = (w, Inr (Some l))" "l = k \<or> (\<exists>m \<in> set ms. l = low (cm_capture_instance m))"
    "\<forall>m \<in> set ms. l \<le> low (cm_capture_instance m)" "l \<le> k"
    by auto
  show ?case
    by (intro exI [of _ l]) (use step l k(2-4) in \<open>auto intro: order_trans\<close>)
qed

text \<open>
  The start refuses a position only when every table has lost it. A stream started at a position
  is refused as too old exactly when the position lies below the oldest retained change of each
  table: a table whose changes after the position have been purged goes unnoticed as long as one
  other table still has them, and its reading then begins at its oldest retained change.
\<close>

theorem sqlserver_start_checks_least:
  assumes "scn_connected conn" "\<not> sc_capture_truncate_events (scn_config conn)" "lsn_wf s" "lsn_wf highest"
    and "load_capture_metas_for_config env (scn_config conn) True True w = (w1, Inr ms)"
    and "\<And>ci w. ce_min_lsn env ci w = (w, Answer (Some (lsn_bytes_to_hex (low ci))))" "\<And>ci. lsn_wf (low ci)"
    and "\<And>w. ce_max_lsn env w = (w, Answer (Some (lsn_bytes_to_hex highest)))"
  shows "(\<exists>e. snd (snd (start_sqlserver_stream env (Some (''sqlserver'', Inr (lsn_bytes_to_hex s))) conn w)) = Inl e)
    \<longleftrightarrow> (\<forall>m \<in> set ms. s < low (cm_capture_instance m))"
proof -
  have "ms \<noteq> []" using assms(5)
    by (auto simp: load_capture_metas_for_config_def split: prod.splits sum.splits if_splits)
  with least_min_lsn_served [OF assms(6,7), of ms None w1] obtain l where l: "least_min_lsn env ms None w1 = (w1, Inr (Some l))"
    "\<exists>m \<in> set ms. l = low (cm_capture_instance m)" "\<forall>m \<in> set ms. l \<le> low (cm_capture_instance m)" by auto
  have iff: "s < l \<longleftrightarrow> (\<forall>m \<in> set ms. s < low (cm_capture_instance m))"
    using l(2,3) by (auto intro: less_le_trans)
  have r: "lsn_hex_to_bytes (lsn_bytes_to_hex s) = Inr s" by (rule lsn_text_read [OF assms(3)])
  then have "lsn_from_source_offset (lsn_bytes_to_hex s) = Some s"
    using split_on_no_sep [OF lsn_text_no_colon [OF r]] by (simp add: lsn_from_source_offset_def)
  then have "(\<exists>e. resume_point l (Some (''sqlserver'', Inr (lsn_bytes_to_hex s))) = Inl e) \<longleftrightarrow> s < l"
    by (simp add: resume_point_def compare_lsn_def)
  moreover have "(\<exists>e. snd (snd (start_sqlserver_stream env (Some (''sqlserver'', Inr (lsn_bytes_to_hex s))) conn w)) = Inl e)
      \<longleftrightarrow> (\<exists>e. resume_point l (Some (''sqlserver'', Inr (lsn_bytes_to_hex s))) = Inl e)"
    using assms l(1) lsn_text_read [OF assms(4)]
    by (simp add: start_sqlserver_stream_def query_max_lsn_hex_def Let_def split: sum.split)
  ultimately show ?thesis using iff by simp
qed

definition purged_server :: "nat cdc_env" where
  "purged_server = small_server\<lparr>ce_min_lsn :=
     (\<lambda>ci w. (w, Answer (Some (lsn_bytes_to_hex (if ci = ''b'' then small_lsn 5 else small_lsn 1)))))\<rparr>"

theorem sqlserver_start_checks_least_witness:
  "\<not> (\<exists>e. snd (snd (start_sqlserver_stream purged_server (Some (''sqlserver'', Inr (lsn_bytes_to_hex (small_lsn 3)))) small_connection 0)) = Inl e)
     \<and> small_lsn 3 < small_lsn 5"
proof -
  have "load_capture_metas_for_config purged_server (scn_config small_connection) True True 0 = (0, Inr [small_meta ''a'', small_meta ''b''])"
    by (simp add: load_capture_metas_for_config_def load_capture_meta_def purged_server_def small_server_def small_meta_def
        small_connection_def validate_capture_instance_name_def is_ascii_alphanumeric_def capture_instance_is_selected_def
        table_is_allowed_def lsn_text_read)
  from sqlserver_start_checks_least [OF _ _ _ _ this, of "small_lsn 3" "small_lsn 9" "\<lambda>ci. if ci = ''b'' then small_lsn 5 else small_lsn 1"]
  show ?thesis by (simp add: purged_server_def small_server_def small_connection_def small_meta_def)
qed

section \<open>What a refresh loses\<close>

lemma retain_again:
  assumes "distinct (map cm_capture_instance ms)"
  shows "retain_known_capture_floors (retain_known_capture_floors known ms) ms = retain_known_capture_floors known ms"
proof -
  define f where "f m = (case find_meta known (cm_capture_instance m) of
      Some existing \<Rightarrow> m\<lparr>cm_capture_floor := cm_capture_floor existing\<rparr> | None \<Rightarrow> m)" for m :: capture_meta
  have same: "cm_capture_instance (f m) = cm_capture_instance m" "m\<lparr>cm_capture_floor := cm_capture_floor (f m)\<rparr> = f m" for m
    by (simp_all add: f_def split: option.split)
  have found: "m \<in> set ms \<Longrightarrow> find_meta (map f ms) (cm_capture_instance m) = Some (f m)" for m
    using assms by (induction ms) (auto simp: find_meta_def same)
  have "retain_known_capture_floors known ms = map f ms" by (simp add: retain_known_capture_floors_def f_def)
  moreover have "retain_known_capture_floors (map f ms) ms = map f ms"
    unfolding retain_known_capture_floors_def by (intro map_cong refl) (simp add: found same)
  ultimately show ?thesis by simp
qed

text \<open>
  C36. Schema events beyond the limit of a poll are lost. When a refresh of the metadata finds more
  changed tables than one poll may return, the poll cuts the list, and the next refresh compares with
  the metadata already taken over, so it reports none of the events that were cut off.
\<close>

theorem sqlserver_schema_events_dropped:
  assumes "sq_requeued h = []" "load_capture_metas_for_config env (sq_config h) False False w = (w1, Inr ms)"
    and "distinct (map cm_capture_instance ms)" "\<forall>xs. set (ce_iter env xs) = set xs"
    and "events = compute_schema_events_for_meta_refresh env h (retain_known_capture_floors (sq_metas h) ms) w1"
    and "sq_max_events_per_poll h < length events"
    and "load_capture_metas_for_config env (sq_config h) False False w2 = (w3, Inr ms)"
  shows "\<exists>h'. sqlserver_next_events env t h w = Some (h', w1, Inr (take (sq_max_events_per_poll h) events))
    \<and> refresh_metas_and_collect_schema_events env h' w2 = (h', w3, Inr [])"
proof -
  let ?h' = "h\<lparr>sq_metas := retain_known_capture_floors (sq_metas h) ms, sq_events_polled := sat_add64 (sq_events_polled h) (length events)\<rparr>"
  have "events \<noteq> []" using assms(6) by auto
  with assms(1,2,5) have "sqlserver_next_events env t h w = Some (?h', w1, Inr (take (sq_max_events_per_poll h) events))"
    by (simp add: sqlserver_next_events_def refresh_metas_and_collect_schema_events_def Let_def)
  moreover have "refresh_metas_and_collect_schema_events env ?h' w2 = (?h', w3, Inr [])"
    using assms(7) steady_no_schema_events [OF assms(4), of ?h' w3]
    by (simp add: refresh_metas_and_collect_schema_events_def Let_def retain_again [OF assms(3)])
  ultimately show ?thesis by blast
qed

theorem sqlserver_schema_events_dropped_witness:
  "\<exists>h' events. sqlserver_next_events small_server 0 (small_handle\<lparr>sq_metas := []\<rparr>) 0 = Some (h', 0, Inr (take 1 events)) \<and> length events = 2
     \<and> refresh_metas_and_collect_schema_events small_server h' 0 = (h', 0, Inr [])"
proof -
  let ?h = "small_handle\<lparr>sq_metas := []\<rparr>"
  let ?ms = "[small_meta ''a'', small_meta ''b'']"
  define events where "events = compute_schema_events_for_meta_refresh small_server ?h (retain_known_capture_floors (sq_metas ?h) ?ms) 0"
  have n: "length events = 2"
    by (simp add: events_def compute_schema_events_for_meta_refresh_def retain_known_capture_floors_def find_meta_def small_meta_def
        small_server_def Let_def)
  have load: "load_capture_metas_for_config small_server (sq_config ?h) False False 0 = (0, Inr ?ms)"
    using small_load [of 0] by (simp add: small_handle_def initial_handle_def)
  have m: "sq_max_events_per_poll ?h = 1" "sq_requeued ?h = []" by (simp_all add: small_handle_def initial_handle_def small_connection_def)
  have names: "distinct (map cm_capture_instance ?ms)" by (simp add: small_meta_def)
  have iter: "\<forall>xs. set (ce_iter small_server xs) = set xs" by (simp add: small_server_def)
  have "sq_max_events_per_poll ?h < length events" by (simp add: n m)
  from sqlserver_schema_events_dropped [OF m(2) load names iter events_def this load, where t = 0] n
  show ?thesis unfolding m(1) by blast
qed

end
