(* ===== verification/Handoff.thy ===== *)
theory Handoff
  imports Connector_Common Mysql_Parser Sqlserver_Parser
begin

text \<open>
  The handoff from a snapshot to the live stream: \<open>source/mysql/handoff.rs\<close>, \<open>perform_handoff\<close> of
  \<open>source/sqlserver.rs\<close> and \<open>source/postgres/handoff.rs\<close>. The snapshot and the stream are reached
  through \<open>handoff_env\<close>: finishing the snapshot, polling, requeueing and confirming; a poll that does
  not return is \<open>None\<close>.
\<close>

record 's handoff_env =
  he_finish :: "'s \<Rightarrow> 's \<times> nat result"
  he_next :: "nat \<Rightarrow> 's \<Rightarrow> ('s \<times> event list result) option"
  he_requeue :: "event list \<Rightarrow> 's \<Rightarrow> 's \<times> unit result"
  he_confirm :: "nat \<Rightarrow> 's \<Rightarrow> 's \<times> unit result"
  he_now :: "'s \<Rightarrow> nat"
  he_render :: "json \<Rightarrow> string"

section \<open>MySQL\<close>

definition mysql_is_overlap :: "mysql_handoff \<Rightarrow> event \<Rightarrow> bool" where
  "mysql_is_overlap ho e =
     (case parse_mysql_source_offset (source_offset (ev_source e)) of
        Some (file, pos) \<Rightarrow>
          compare_binlog_position file pos (mh_snapshot_binlog_file ho) (mh_snapshot_binlog_pos ho) \<noteq> Greater
      | None \<Rightarrow> False)"

text \<open>The loop over a batch: the overlap so far, the rest, and whether the overlap has ended.\<close>

fun sort_batch :: "(event \<Rightarrow> bool) \<Rightarrow> event list \<Rightarrow> event list \<times> event list \<times> bool \<Rightarrow> event list \<times> event list \<times> bool" where
  "sort_batch overlap [] acc = acc"
| "sort_batch overlap (e # es) (ov, rest, complete) =
     (if \<not> complete \<and> overlap e then sort_batch overlap es (ov @ [e], rest, complete)
      else sort_batch overlap es (ov, rest @ [e], True))"

partial_function (option) mysql_drain ::
    "'s handoff_env \<Rightarrow> (event \<Rightarrow> bool) \<Rightarrow> nat option \<Rightarrow> event list \<times> event list \<times> bool \<Rightarrow> 's
     \<Rightarrow> ('s \<times> (event list \<times> event list) result) option" where
  "mysql_drain env overlap deadline acc s =
     (case acc of
        (ov, rest, complete) \<Rightarrow>
          if complete \<or> (case deadline of Some d \<Rightarrow> d \<le> he_now env s | None \<Rightarrow> False) then Some (s, Inr (ov, rest))
          else (case he_next env 0 s of
                  None \<Rightarrow> None
                | Some (s1, r) \<Rightarrow>
                    (case r of
                       Inl e \<Rightarrow> Some (s1, Inl e)
                     | Inr batch \<Rightarrow>
                         if batch = [] then Some (s1, Inr (ov, rest))
                         else mysql_drain env overlap deadline (sort_batch overlap batch acc) s1)))"

definition mysql_requeue_overlap :: "'s handoff_env \<Rightarrow> nat \<Rightarrow> event list \<times> event list \<Rightarrow> 's \<Rightarrow> 's \<times> handoff_result result" where
  "mysql_requeue_overlap env snapshot_end acc s =
     (case mysql_dedup_overlap_events_by_pk (he_render env) (fst acc) of
        (deduped, duplicates) \<Rightarrow>
          (let replay = deduped @ snd acc
           in case (if replay \<noteq> [] then he_requeue env replay s else (s, Inr ())) of
                (s1, Inl e) \<Rightarrow> (s1, Inl e)
              | (s1, Inr _) \<Rightarrow>
                  (s1, Inr \<lparr>ho_snapshot_end_ts = Some snapshot_end, ho_stream_start_ts = Some (he_now env s1),
                            ho_overlap_events_dropped = Some duplicates, ho_stream_watermark_gap = None\<rparr>)))"

definition mysql_handoff_result ::
    "'s handoff_env \<Rightarrow> mysql_handoff \<Rightarrow> nat \<Rightarrow> 's \<Rightarrow> ('s \<times> handoff_result result) option" where
  "mysql_handoff_result env ho budget_ms s =
     (if \<not> has_no_gap ho then Some (s, Inl (SourceError ''mysql handoff invariant violated: events would be lost''))
      else case he_finish env s of
             (s1, Inl e) \<Rightarrow> Some (s1, Inl e)
           | (s1, Inr snapshot_end) \<Rightarrow>
               (case mysql_drain env (mysql_is_overlap ho) (if budget_ms > 0 then Some (he_now env s1 + budget_ms) else None)
                       ([], [], False) s1 of
                  None \<Rightarrow> None
                | Some (s2, Inl e) \<Rightarrow> Some (s2, Inl e)
                | Some (s2, Inr acc) \<Rightarrow> Some (mysql_requeue_overlap env snapshot_end acc s2)))"

section \<open>SQL Server\<close>

record sqlserver_handoff =
  sh_snapshot_lsn_start :: lsn
  sh_stream_lsn_start :: lsn

definition sqlserver_has_no_gap :: "sqlserver_handoff \<Rightarrow> bool" where
  "sqlserver_has_no_gap ho \<longleftrightarrow> compare_lsn (sh_stream_lsn_start ho) (sh_snapshot_lsn_start ho) \<noteq> Greater"

definition sqlserver_is_overlap :: "sqlserver_handoff \<Rightarrow> event \<Rightarrow> bool" where
  "sqlserver_is_overlap ho e =
     (case lsn_from_source_offset (source_offset (ev_source e)) of
        Some l \<Rightarrow> compare_lsn l (sh_snapshot_lsn_start ho) \<noteq> Greater
      | None \<Rightarrow> False)"

text \<open>At most \<open>n\<close> polls; the state, the events dropped so far and whether an event past the snapshot was seen.\<close>

fun sqlserver_drain ::
    "'s handoff_env \<Rightarrow> sqlserver_handoff \<Rightarrow> nat \<Rightarrow> nat \<Rightarrow> 's \<Rightarrow> ('s \<times> (nat \<times> bool) result) option" where
  "sqlserver_drain env ho 0 dropped s = Some (s, Inr (dropped, False))"
| "sqlserver_drain env ho (Suc n) dropped s =
     (case he_next env 25 s of
        None \<Rightarrow> None
      | Some (s1, Inl e) \<Rightarrow> Some (s1, Inl e)
      | Some (s1, Inr batch) \<Rightarrow>
          if batch = [] then Some (s1, Inr (dropped, False))
          else
            let forward = filter (\<lambda>e. \<not> sqlserver_is_overlap ho e) batch;
                dropped1 = sat_add64 dropped (length batch - length forward)
            in if forward = [] then sqlserver_drain env ho n dropped1 s1
               else (case dedup_overlap_events_by_pk (he_render env) forward of
                       (deduped, duplicates) \<Rightarrow>
                         (case he_requeue env deduped s1 of
                            (s2, Inl e) \<Rightarrow> Some (s2, Inl e)
                          | (s2, Inr _) \<Rightarrow> Some (s2, Inr (sat_add64 dropped1 duplicates, True)))))"

definition lsn_bytes_to_u64_distance :: "lsn \<Rightarrow> nat" where
  "lsn_bytes_to_u64_distance l = foldl (\<lambda>acc b. acc * 256 + b) 0 (take 8 l)"

text \<open>\<open>max_lsn\<close> is the query for the newest log position.\<close>

definition sqlserver_perform_handoff ::
    "'s handoff_env \<Rightarrow> ('s \<Rightarrow> 's \<times> string result) \<Rightarrow> lsn option \<Rightarrow> lsn option \<Rightarrow> 's \<Rightarrow> ('s \<times> handoff_result result) option" where
  "sqlserver_perform_handoff env max_lsn snapshot_lsn stream_lsn s =
     (case (snapshot_lsn, stream_lsn) of
        (None, _) \<Rightarrow> Some (s, Inl (StateError ''sqlserver perform_handoff requires start_snapshot to have been called first''))
      | (_, None) \<Rightarrow> Some (s, Inl (StateError ''sqlserver perform_handoff requires start_stream to have been called first''))
      | (Some snap, Some stream) \<Rightarrow>
          let ho = \<lparr>sh_snapshot_lsn_start = (if snap = replicate 10 0 then stream else snap), sh_stream_lsn_start = stream\<rparr>
          in if \<not> sqlserver_has_no_gap ho then Some (s, Inl (StateError ''sqlserver handoff detected a gap''))
             else case he_finish env s of
                    (s1, Inl e) \<Rightarrow> Some (s1, Inl e)
                  | (s1, Inr snapshot_end) \<Rightarrow>
                      (case sqlserver_drain env ho 256 0 s1 of
                         None \<Rightarrow> None
                       | Some (s2, Inl e) \<Rightarrow> Some (s2, Inl e)
                       | Some (s2, Inr (dropped, reached)) \<Rightarrow>
                           (case (if reached then (s2, Inr ()) else he_requeue env [] s2) of
                              (s3, Inl e) \<Rightarrow> Some (s3, Inl e)
                            | (s3, Inr _) \<Rightarrow>
                                (case he_confirm env 0 s3 of
                                   (s4, Inl e) \<Rightarrow> Some (s4, Inl e)
                                 | (s4, Inr _) \<Rightarrow>
                                     (case max_lsn s4 of
                                        (s5, r) \<Rightarrow>
                                          Some (s5, Inr \<lparr>ho_snapshot_end_ts = Some snapshot_end,
                                            ho_stream_start_ts = Some (he_now env s5), ho_overlap_events_dropped = Some dropped,
                                            ho_stream_watermark_gap =
                                              (case r of
                                                 Inl _ \<Rightarrow> None
                                               | Inr text \<Rightarrow>
                                                   map_option (\<lambda>l. lsn_bytes_to_u64_distance l - lsn_bytes_to_u64_distance stream)
                                                     (ok (lsn_hex_to_bytes text)))\<rparr>))))))"

section \<open>PostgreSQL\<close>

definition postgres_handoff_stream_watermark_gap :: "nat \<Rightarrow> nat \<Rightarrow> nat result" where
  "postgres_handoff_stream_watermark_gap snapshot_watermark stream_watermark =
     (if stream_watermark < snapshot_watermark
      then Inl (SourceError ''postgres handoff invariant violated: stream watermark is behind snapshot watermark'')
      else Inr (stream_watermark - snapshot_watermark))"

definition postgres_handoff_result :: "nat \<Rightarrow> nat option \<Rightarrow> nat option \<Rightarrow> nat option \<Rightarrow> handoff_result result" where
  "postgres_handoff_result now snapshot_end snapshot_watermark stream_watermark =
     (case (snapshot_end, snapshot_watermark, stream_watermark) of
        (Some end_ts, Some snap, Some stream) \<Rightarrow>
          (case postgres_handoff_stream_watermark_gap snap stream of
             Inl e \<Rightarrow> Inl e
           | Inr gap \<Rightarrow> Inr \<lparr>ho_snapshot_end_ts = Some end_ts, ho_stream_start_ts = Some now,
                              ho_overlap_events_dropped = None, ho_stream_watermark_gap = Some gap\<rparr>)
      | (Some end_ts, Some _, None) \<Rightarrow>
          Inr \<lparr>ho_snapshot_end_ts = Some end_ts, ho_stream_start_ts = None, ho_overlap_events_dropped = None, ho_stream_watermark_gap = None\<rparr>
      | (None, None, Some _) \<Rightarrow>
          Inr \<lparr>ho_snapshot_end_ts = None, ho_stream_start_ts = Some now, ho_overlap_events_dropped = None, ho_stream_watermark_gap = None\<rparr>
      | (Some _, None, None) \<Rightarrow> Inl (StateError ''postgres handoff requires at least one watermark'')
      | (Some _, None, Some _) \<Rightarrow> Inl (StateError ''postgres handoff requires a snapshot watermark'')
      | (None, Some _, Some _) \<Rightarrow> Inl (StateError ''postgres handoff requires snapshot_end_ts'')
      | _ \<Rightarrow>
          Inr \<lparr>ho_snapshot_end_ts = None, ho_stream_start_ts = None, ho_overlap_events_dropped = None, ho_stream_watermark_gap = None\<rparr>)"

definition postgres_perform_handoff :: "'s handoff_env \<Rightarrow> nat option \<Rightarrow> nat option \<Rightarrow> 's \<Rightarrow> 's \<times> handoff_result result" where
  "postgres_perform_handoff env snapshot_watermark stream_watermark s =
     (case (snapshot_watermark, stream_watermark) of
        (None, _) \<Rightarrow> (s, Inl (StateError ''postgres perform_handoff requires start_snapshot to have been called first''))
      | (_, None) \<Rightarrow> (s, Inl (StateError ''postgres perform_handoff requires start_stream to have been called first''))
      | (Some snap, Some stream) \<Rightarrow>
          (case he_finish env s of
             (s1, Inl e) \<Rightarrow> (s1, Inl e)
           | (s1, Inr snapshot_end) \<Rightarrow>
               (case he_confirm env snap s1 of
                  (s2, Inl e) \<Rightarrow> (s2, Inl e)
                | (s2, Inr _) \<Rightarrow> (s2, postgres_handoff_result (he_now env s2) (Some snapshot_end) (Some snap) (Some stream)))))"

section \<open>What is requeued\<close>

text \<open>The batches a drain polls, in order.\<close>

inductive polled :: "'s handoff_env \<Rightarrow> nat \<Rightarrow> 's \<Rightarrow> event list \<Rightarrow> 's \<Rightarrow> bool" for env t where
  polled_none: "polled env t s [] s"
| polled_more: "he_next env t s = Some (s1, Inr batch) \<Longrightarrow> polled env t s1 es s2 \<Longrightarrow> polled env t s (batch @ es) s2"

lemma sort_batch_eq:
  "sort_batch overlap es (ov, rest, complete) =
     (ov @ (if complete then [] else takeWhile overlap es), rest @ (if complete then es else dropWhile overlap es),
      complete \<or> \<not> list_all overlap es)"
  by (induction overlap es "(ov, rest, complete)" arbitrary: ov rest complete rule: sort_batch.induct) auto

definition drained :: "'s handoff_env \<Rightarrow> (event \<Rightarrow> bool) \<Rightarrow> event list \<times> event list \<times> bool \<Rightarrow> 's \<Rightarrow> 's \<Rightarrow> event list \<times> event list \<Rightarrow> bool" where
  "drained env overlap acc s s' acc' \<longleftrightarrow>
     (\<exists>es c. polled env 0 s es s' \<and> sort_batch overlap es acc = (fst acc', snd acc', c))"

lemma sort_batch_append: "sort_batch overlap (xs @ ys) acc = sort_batch overlap ys (sort_batch overlap xs acc)"
  by (induction overlap xs acc rule: sort_batch.induct) auto

lemma mysql_drain_polled:
  assumes "mysql_drain env overlap deadline acc s = Some y"
  shows "\<forall>s' acc'. y = (s', Inr acc') \<longrightarrow> drained env overlap acc s s' acc'"
proof (rule mysql_drain.raw_induct [OF _ assms, where P = "\<lambda>env overlap deadline acc s y.
    \<forall>s' acc'. y = (s', Inr acc') \<longrightarrow> drained env overlap acc s s' acc'"])
  fix loop :: "'s handoff_env \<Rightarrow> (event \<Rightarrow> bool) \<Rightarrow> nat option \<Rightarrow> event list \<times> event list \<times> bool \<Rightarrow> 's
     \<Rightarrow> ('s \<times> (event list \<times> event list) result) option"
  fix env overlap deadline acc s y
  assume ih: "\<And>env overlap deadline acc s y. loop env overlap deadline acc s = Some y \<Longrightarrow>
      \<forall>s' acc'. y = (s', Inr acc') \<longrightarrow> drained env overlap acc s s' acc'"
    and body: "(case acc of
        (ov, rest, complete) \<Rightarrow>
          if complete \<or> (case deadline of Some d \<Rightarrow> d \<le> he_now env s | None \<Rightarrow> False) then Some (s, Inr (ov, rest))
          else (case he_next env 0 s of
                  None \<Rightarrow> None
                | Some (s1, r) \<Rightarrow>
                    (case r of
                       Inl e \<Rightarrow> Some (s1, Inl e)
                     | Inr batch \<Rightarrow>
                         if batch = [] then Some (s1, Inr (ov, rest))
                         else loop env overlap deadline (sort_batch overlap batch acc) s1))) = Some y"
  obtain ov rest complete where acc: "acc = (ov, rest, complete)" by (cases acc)
  have stay: "drained env overlap acc s s (ov, rest)"
    unfolding drained_def by (intro exI [of _ "[]"]) (auto simp: acc intro: polled_none)
  have more: "drained env overlap acc s s2 acc'"
    if "he_next env 0 s = Some (s1, Inr batch)" "drained env overlap (sort_batch overlap batch acc) s1 s2 acc'" for s1 s2 batch acc'
    using that unfolding drained_def by (metis polled_more sort_batch_append)
  have empty: "drained env overlap acc s s1 (ov, rest)" if "he_next env 0 s = Some (s1, Inr [])" for s1
    using that unfolding drained_def by (intro exI [of _ "[]"]) (use polled_more [OF that polled_none] in \<open>auto simp: acc\<close>)
  show "\<forall>s' acc'. y = (s', Inr acc') \<longrightarrow> drained env overlap acc s s' acc'"
    using body stay more empty ih unfolding acc
    by (auto split: if_splits option.splits prod.splits sum.splits)
qed


text \<open>A stream for the witnesses: batches to come, and the events put back.\<close>

definition script_handoff :: "(event list list \<times> event list) handoff_env" where
  "script_handoff =
     \<lparr>he_finish = (\<lambda>s. (s, Inr 9)),
      he_next = (\<lambda>t s. Some (case fst s of [] \<Rightarrow> (s, Inr []) | b # bs \<Rightarrow> ((bs, snd s), Inr b))),
      he_requeue = (\<lambda>es s. ((fst s, snd s @ es), Inr ())), he_confirm = (\<lambda>_ s. (s, Inr ())), he_now = (\<lambda>_. 0),
      he_render = (\<lambda>j. case j of JString s \<Rightarrow> s | _ \<Rightarrow> [])\<rparr>"

definition keyed :: "string \<Rightarrow> string \<Rightarrow> string \<Rightarrow> event" where
  "keyed off k v =
     default_event\<lparr>ev_op := Insert, ev_table := ''t'', ev_primary_key := Some [''id''],
       ev_after := Some (JObject [(''id'', JString k), (''v'', JString v)]),
       ev_source := \<lparr>source_name = ''s'', source_offset = off, source_timestamp = 0\<rparr>\<rparr>"

definition example_mysql_handoff :: mysql_handoff where
  "example_mysql_handoff =
     \<lparr>mh_snapshot_binlog_file = ''b.1'', mh_snapshot_binlog_pos = 5, mh_snapshot_gtid = [],
      mh_stream_start_binlog_file = ''b.1'', mh_stream_start_binlog_pos = 4, mh_stream_start_gtid = []\<rparr>"

lemma example_overlap:
  "mysql_is_overlap example_mysql_handoff (keyed ''b.1:5'' k v)" "\<not> mysql_is_overlap example_mysql_handoff (keyed ''b.1:6'' k v)"
  by (simp_all add: mysql_is_overlap_def keyed_def parse_mysql_source_offset_def parse_u32_def example_mysql_handoff_def
      compare_binlog_position_def compare_of_def gtid_eval u32_max_def)

lemma script_polled:
  "polled env t s es s' \<Longrightarrow> env = script_handoff \<Longrightarrow> concat (fst s) = es @ concat (fst s') \<and> snd s' = snd s"
  by (induction rule: polled.induct) (auto simp: script_handoff_def split: list.splits)


text \<open>
  The SQL Server handoff collapses live changes. Events past the snapshot position are not overlap, yet
  the first batch that holds any goes back to the stream with only the last change of each key: of two
  changes to one row after the snapshot, the first is dropped and counted as overlap.
\<close>

theorem sqlserver_handoff_drops_live_change:
  assumes "\<not> sqlserver_is_overlap ho e1" "\<not> sqlserver_is_overlap ho e2"
    and "sqlserver_event_pk_fingerprint (he_render env) e1 = Some k" "sqlserver_event_pk_fingerprint (he_render env) e2 = Some k"
    and "he_next env 25 s = Some (s1, Inr [e1, e2])" "he_requeue env [e2] s1 = (s2, Inr ())"
  shows "sqlserver_drain env ho (Suc n) 0 s = Some (s2, Inr (1, True))"
proof -
  have "dedup_overlap_events_by_pk (he_render env) [e1, e2] = ([e2], 1)"
    using assms(3,4) by (simp add: dedup_overlap_events_by_pk_def sat_add64_def u64_max_def)
  with assms show ?thesis by (simp add: Let_def sat_add64_def u64_max_def)
qed

definition example_sqlserver_handoff :: sqlserver_handoff where
  "example_sqlserver_handoff = \<lparr>sh_snapshot_lsn_start = replicate 10 0, sh_stream_lsn_start = replicate 10 0\<rparr>"

theorem sqlserver_handoff_drops_live_change_witness:
  "sqlserver_drain script_handoff example_sqlserver_handoff 256 0 ([[keyed [] ''1'' ''a'', keyed [] ''1'' ''b'']], [])
     = Some (([], [keyed [] ''1'' ''b'']), Inr (1, True))"
proof -
  have live: "\<not> sqlserver_is_overlap example_sqlserver_handoff (keyed [] k v)" for k v
    by (simp add: sqlserver_is_overlap_def keyed_def lsn_from_source_offset_def lsn_hex_to_bytes_def strip_0x_def)
  have "sqlserver_event_pk_fingerprint (he_render script_handoff) (keyed [] ''1'' v) = Some ''t|id=1''" for v
    by (simp add: sqlserver_event_pk_fingerprint_def keyed_def default_event_def script_handoff_def obj_get_def)
  from sqlserver_handoff_drops_live_change [OF live live this this, where s = "([[keyed [] ''1'' ''a'', keyed [] ''1'' ''b'']], [])" and n = 255]
  show ?thesis by (simp add: script_handoff_def)
qed

text \<open>
  The PostgreSQL guard is the other way round than the one of the other connectors: a stream that starts
  behind the snapshot, whose overlap would merely be repeated, is refused, and a stream that starts
  after it, with the changes in between in neither, is accepted and the distance reported.
\<close>

theorem postgres_handoff_accepts_gap:
  "(\<exists>r. postgres_handoff_result now (Some e) (Some snap) (Some stream) = Inr r) \<longleftrightarrow> snap \<le> stream"
  by (auto simp: postgres_handoff_result_def postgres_handoff_stream_watermark_gap_def)

end
