(* ===== verification/Spec2Isabelle.thy ===== *)
theory Spec2Isabelle
  imports Event_Envelope Checkpoint_Safety Table_Glob Gtid_Set Column_Filter Postgres_Names
    Runtime_Guarantees Runtime_Gaps Runtime_Restart Snapshot_Guarantees Mysql_Delivery Sqlserver_Guarantees Handoff
begin

text \<open>
  rustcdc is a change-data-capture library: it reads row changes from a database log, wraps them as
  events, transforms them, hands them to a consumer in batches, and remembers how far the consumer
  has come, so that a restart resumes after the last event the consumer acknowledged.

  \<^bold>\<open>The parts and how they work together.\<close> A connector yields events in log order. The runtime
  (\<open>core/runtime*\<close>) polls it: it records schema changes in the schema history, drops events an
  idempotency guard has already seen, runs the transform pipeline, cuts the queue into batches and
  gives each batch out with a token. Every event given out has a record in the commit barrier
  (\<open>checkpoint/barrier.rs\<close>); acknowledging a token accepts a prefix of the records and saves the
  position of the last one in the checkpoint store (\<open>checkpoint/mod.rs\<close>). On start the runtime
  loads that position and opens the stream there.

  \<^bold>\<open>Theories and sources\<close> (paths under \<open>src/src/\<close>).
  \<^item> \<open>Cdc_Prelude\<close>: fixed-width arithmetic, the string operations of the standard library the code
    calls, list lemmas. \<open>Cdc_Error\<close>: \<open>core/error.rs\<close>. \<open>Json_Value\<close>: \<open>serde_json::Value\<close> with
    objects as sorted association lists.
  \<^item> \<open>Event_Envelope\<close>: \<open>core/event.rs\<close>, the event record, validation, keys, row writes.
  \<^item> \<open>Checkpoint_Interface\<close>: the trait \<open>Checkpoint\<close> as the locale \<open>checkpoint_store\<close>.
    \<open>Commit_Barrier\<close>: \<open>checkpoint/barrier.rs\<close>, proved once over that interface.
    \<open>Checkpoint_Progress\<close>: the progress rules of \<open>checkpoint/mod.rs\<close>. \<open>Checkpoint_Store\<close>: its two
    stores, interpreted as \<open>mem\<close> and \<open>disk\<close>; the file store runs against a directory and a script
    of filesystem faults. \<open>Checkpoint_Safety\<close>: barrier and file store together.
  \<^item> \<open>Idempotency_Guard\<close>: \<open>core/idempotency.rs\<close>. \<open>Transform_Pipeline\<close>: \<open>transform/mod.rs\<close>.
    \<open>Schema_History\<close>: \<open>schema_history/mod.rs\<close>. \<open>Ddl_Capture\<close>: \<open>ddl_capture/mod.rs\<close>.
  \<^item> \<open>Table_Glob\<close>: \<open>core/glob.rs\<close>. \<open>Column_Filter\<close>: \<open>core/column_filter.rs\<close>. \<open>Gtid_Set\<close>:
    \<open>source/mysql/gtid.rs\<close>. \<open>Stream_Offset\<close>: \<open>core/runtime_offsets.rs\<close> and the log positions of
    \<open>source/postgres/parser.rs\<close>. \<open>Postgres_Names\<close>: the identifiers of the same file.
  \<^item> \<open>Quoted_Names\<close>: the scanning of quoted identifiers as the locale \<open>quoted_names\<close>, interpreted for the
    three dialects. \<open>Overlap_Dedup\<close>: the de-duplication loop two connectors share.
    \<open>Sqlserver_Parser\<close>: \<open>source/sqlserver/parser.rs\<close>. \<open>Mysql_Parser\<close>: \<open>source/mysql/parser.rs\<close>,
    \<open>state.rs\<close> and the GTID arithmetic of \<open>query.rs\<close>.
  \<^item> \<open>Snapshot_Driver\<close>: \<open>source/incremental_snapshot/driver.rs\<close>, the phases of a snapshot interleaved with
    the live stream. \<open>Snapshot_Runs\<close>: its runs as an inductive relation with the history of what was
    read and delivered, and their invariant, proved in the locale \<open>ordered_brackets\<close> of what a backend
    promises. \<open>Snapshot_Backends\<close>: the positions and brackets of
    \<open>source/{postgres,mysql,sqlserver}/incremental_snapshot.rs\<close>, each an interpretation of that locale.
    \<open>Snapshot_Guarantees\<close>: the properties.
  \<^item> \<open>Connector_Common\<close>: the table lists of \<open>source/mod.rs\<close> and what connectors share. \<open>Mysql_Stream\<close>: the
    live stream of \<open>source/mysql.rs\<close> and \<open>source/mysql/stream_messages.rs\<close>, from the binlog events of the
    client library to the events handed out. \<open>Mysql_Delivery\<close>: its delivery against a log of
    transactions. \<open>Sqlserver_Stream\<close>: the live stream of \<open>source/sqlserver.rs\<close> and
    \<open>source/sqlserver/stream_{window,schema,start}.rs\<close>, which reads one change table per captured table over
    windows of log positions. \<open>Sqlserver_Delivery\<close>: what a server promises and the invariant of the runs.
    \<open>Sqlserver_Guarantees\<close>: the properties. \<open>Handoff\<close>: the step from snapshot to stream in \<open>source/mysql/handoff.rs\<close>,
    \<open>source/sqlserver.rs\<close> and \<open>source/postgres/handoff.rs\<close>.
  \<^item> \<open>Runtime_State\<close>: \<open>core/runtime.rs\<close>. \<open>Runtime_Commit\<close>: \<open>core/runtime/runtime_commit.rs\<close>.
    \<open>Runtime_Poll\<close>: \<open>core/runtime/runtime_poll.rs\<close>. \<open>Runtime_Lifecycle\<close>:
    \<open>core/runtime/runtime_lifecycle.rs\<close>. \<open>Runtime_Admin\<close>: \<open>core/runtime/runtime_admin.rs\<close>.
  \<^item> \<open>Runtime_Delivery\<close>, \<open>Runtime_Api\<close>: the lemmas about one poll and one call. \<open>Runtime_Runs\<close>: runs
    of calls as an inductive step relation, and their invariant. \<open>Runtime_Example\<close>: a small runtime
    that the witnesses evaluate. \<open>Runtime_Guarantees\<close>, \<open>Runtime_Gaps\<close>: the properties.
    \<open>Runtime_Restart\<close> and this theory: the runtime over the file store across a restart.

  \<^bold>\<open>How the code is rendered.\<close> A method on \<open>&mut self\<close> takes and returns the record of its struct; a
  \<open>Result\<close> is a sum with the error on the left. A state that a failing call has already changed is
  returned beside the error. Code behind a trait object (connector, sink, schema history, clock,
  hashes, serde of foreign types) is a field of the environment record \<open>runtime_env\<close> or a function
  argument, and the theorems hold for every choice of it unless a hypothesis says otherwise. An
  \<open>await\<close> is a plain call: the runtime is used through \<open>&mut self\<close>, so its calls do not interleave.
  Error payloads keep their variant and the fixed part of their text.

  \<^bold>\<open>Loops and bounds.\<close> Loops over lists are structural. The reconnect loop, the drain loop, the sink
  loop and the guard's eviction loop are partial functions whose undefinedness is \<open>None\<close>;
  \<open>poll_terminates\<close> shows that a poll returns whenever the retry policy is bounded, with the number
  of retries left as the measure. Counters that saturate keep their width; theorems about delivery
  identifiers assume that the 64-bit counter has not saturated, which \<open>run_failed\<close> and the
  hypotheses make explicit. The loop of the snapshot driver terminates by the measure \<open>rank\<close>, and its
  rounds are bounded by the number of unfinished tables plus six. The order of the live stream under a
  snapshot assumes \<open>bounded_batches\<close>, that a batch of the stream is no longer than one delivery of the
  driver; \<open>held_back_overtaken\<close> shows that the assumption is needed. The two polling loops of the MySQL
  stream return under \<open>clock_ok\<close> (time passes) and \<open>chatter_ends\<close> (the server does not send ever more
  events that yield nothing); the SQL Server poll returns under \<open>clock_runs\<close> alone. The delivery of the SQL
  Server stream assumes \<open>serves\<close>: reads inside the harvested range answer from a fixed log, the harvested
  maximum never goes back, and the set of captured tables stays the same. No theorem uses fuel.

  \<^bold>\<open>What the lemmas show.\<close> The barrier refines a ledger of delivered events and never saves a position
  beyond the acknowledged prefix; both stores read back what they acknowledged; progress never goes
  back. The runtime conserves events in order over every run of calls, grants each token once,
  redelivers what is not acknowledged, acknowledges only what the sink has flushed, hands back what
  it holds when stopped, and resumes after the last acknowledged event. An incremental snapshot
  conserves the live stream in order, delivers no row a newer change has superseded, and moves its
  durable cursor only behind delivered rows. The MySQL stream delivers every committed transaction of
  the log whole and in order, however the polls cut it. The SQL Server stream merges its change tables into
  commit order, hands out each change once and saves no position ahead of what it handed out. The remaining groups show
  the pattern, set, name and offset parsers correct against a declarative reading, and record where
  the code does not do what its comments say.

  \<^bold>\<open>Not modelled.\<close> Wire protocols, the execution of SQL and the asynchronous I/O of the connectors; the blocking snapshots
  and the PostgreSQL decoder; the codecs and the
  schema registry client; the individual transforms and the WASM host; sinks; the owner lease file
  (its outcome is a fault of the store); metrics, tracing and log lines, which never feed back into
  a result; test kits and fault injection. Dropping a future in the middle of a call is outside the
  model.
\<close>

section \<open>Across a restart\<close>

text \<open>
  C2. A restart resumes exactly after the last acknowledged event. Take a runtime over the file
  store whose caller acknowledges a prefix of the delivery in flight, and whose last event is a
  change event. If the call succeeds, then a new runtime started on the same directory, with the
  same configuration, opens its stream at the position the runtime had recorded for that event, and
  counts the same number of committed events.
\<close>

theorem restart_resumes_after_acknowledged:
  assumes "runtime_inv env rt"
    and "env_save env = file_save sha" and "env_load env = file_load sha decodes"
    and "env_committed_count env = file_get_committed_count sha"
    and "file_good sha decodes fam (rt_checkpoint rt)"
    and "file_get_committed_count sha (rt_checkpoint rt) = Inr m" and "m \<le> committed_event_count (rt_commit_barrier rt)"
    and "committed_event_count (rt_commit_barrier rt) + tok_event_count t \<le> u64_max"
    and "0 < tok_event_count t" and "commit_ack env (Required t) rt = (rt', Inr ())"
    and "list_all (\<lambda>x. ev_snapshot x = None) (take (tok_event_count t) (in_flight rt))"
    and "e = in_flight rt ! (tok_event_count t - 1)"
    and "\<And>off. checkpoint_position env (rt_config rt) e off \<Longrightarrow> file_valid decodes fam off"
    and "cfg_source (rt_config rt) \<noteq> CfgDisabled" and "cfg_incremental_snapshot (rt_config rt) = None"
    and "runtime_new tls (rt_config rt) (rt_checkpoint rt') w = Inr fresh" and "start env tls fresh = (rt2, Inr ())"
  shows "\<exists>off w1 w2 h. checkpoint_position env (rt_config rt) e off
    \<and> env_start_stream env (Some off) w1 = (w2, Inr h) \<and> rt_stream rt2 = Some h
    \<and> committed_event_count (rt_commit_barrier rt2) = committed_event_count (rt_commit_barrier rt')"
  using assms(1,10)
proof (cases rule: commit_ack_outcome)
  case (kept w' cp)
  with assms(9) show ?thesis by simp
next
  case (settled t' p)
  then have n: "tok_event_count t \<le> length (in_flight rt)" and c: "commit_prefix env (tok_event_count t) rt = (rt', Inr ())"
    by auto
  have rows: "\<not> list_ex (\<lambda>x. ev_snapshot x \<noteq> None) (take (tok_event_count t) (in_flight rt))"
    using assms(11) by (simp add: list_ex_iff list_all_iff)
  have "tok_event_count t - 1 < length (take (tok_event_count t) (in_flight rt))" using assms(9) n by simp
  from nth_mem [OF this] have "e \<in> set (take (tok_event_count t) (in_flight rt))" using assms(9,12) by simp
  then have "ev_snapshot e = None" using assms(11) by (simp add: list_all_iff)
  from acknowledged_position [OF assms(1,9) n assms(12) this] obtain off
    where off: "checkpoint_position env (rt_config rt) e off"
      "last_persistable (map rec_offset (take (tok_event_count t) (pending_records (rt_commit_barrier rt)))) = Some off" by blast
  note disk' = acknowledged_on_disk [OF assms(1,2,5,6,7,8,9) n c rows off(2) assms(13) [OF off(1)]]
  have fresh: "rt_config fresh = rt_config rt" "rt_checkpoint fresh = rt_checkpoint rt'"
    "rt_source fresh = build_source (cfg_source (rt_config rt))"
    using assms(16) by (auto simp: runtime_new_def split: sum.splits)
  have "rt_source fresh \<noteq> SrcDisabled" using fresh(3) assms(14) by (cases "cfg_source (rt_config rt)") auto
  from start_resumes_at [OF assms(17) this] assms(3,4,15) disk' fresh position_not_snapshot [OF off(1)] off(1)
  show ?thesis by (fastforce simp: fresh)
qed

definition disk_env :: "(event list list, file_checkpoint) runtime_env" where
  "disk_env = example_env (file_save example_sha) (file_load example_sha (\<lambda>_ _. True)) (file_get_committed_count example_sha)"

definition disk_new :: "file_checkpoint \<Rightarrow> (event list list, file_checkpoint) cdc_runtime" where
  "disk_new fc = (case runtime_new False (example_cfg (CfgSqlServer False)) fc [] of Inr rt \<Rightarrow> rt | Inl _ \<Rightarrow> undefined)"

definition disk_position :: offset where
  "disk_position = sqlserver_offset ''a'' None"

definition disk_delivered :: "(event list list, file_checkpoint) cdc_runtime" where
  "disk_delivered = (disk_new example_dir)\<lparr>rt_state := Running, rt_stream := Some 1, rt_next_delivery_id := 2,
     rt_delivered_not_committed := 1,
     rt_pending_delivery := Some \<lparr>pd_delivery_id = 1, pd_events = [example_event ''a''], pd_committed_prefix = 0, pd_ack_epoch = 0\<rparr>,
     rt_commit_barrier := (barrier_new 2)\<lparr>pending_records := [\<lparr>rec_offset = Some disk_position, rec_accepted = False\<rparr>]\<rparr>\<rparr>"

lemma disk_new_eq: "runtime_new False (example_cfg (CfgSqlServer False)) fc [] = Inr (disk_new fc)"
  by (simp add: disk_new_def example_config_simps Let_def)

lemma disk_position_event:
  "checkpoint_position disk_env (example_cfg (CfgSqlServer False)) (example_event ''a'') off \<longleftrightarrow> off = disk_position"
proof -
  have b: "build_checkpoint_offset disk_env rt (example_event ''a'') = Inr disk_position"
    if "rt_config rt = example_cfg (CfgSqlServer False)" for rt
    using that by (auto simp: build_checkpoint_offset_def resume_offset_for_def disk_env_def example_env_def disk_position_def
        example_cfg_def Let_def split: option.split)
  have "rt_config disk_delivered = example_cfg (CfgSqlServer False)"
    by (simp add: disk_delivered_def disk_new_def example_config_simps Let_def)
  with b show ?thesis by (auto simp: checkpoint_position_def)
qed

lemma disk_delivered_inv: "runtime_inv disk_env disk_delivered"
proof -
  have "record_for disk_env (example_cfg (CfgSqlServer False)) (example_event ''a'')
      \<lparr>rec_offset = Some disk_position, rec_accepted = False\<rparr>"
    by (simp add: record_for_def disk_position_event)
  then show ?thesis
    by (simp add: disk_delivered_def disk_new_def example_cfg_def example_options_def runtime_options_default_def runtime_new_def
        runtime_validate_def build_idempotency_guard_def barrier_new_def Let_def runtime_inv_def in_flight_def
        barrier_inv_def accepted_prefix_def accepted_of_def u64_max_def)
qed

lemma disk_position_valid: "file_valid (\<lambda>_ _. True) ''sqlserver'' disk_position"
  by (simp add: file_valid_def disk_position_def sqlserver_offset_def source_family_def strip_suffix_def suffix_def)

lemma disk_dir_good: "file_good example_sha (\<lambda>_ _. True) ''sqlserver'' example_dir"
  by (simp add: file_good_def example_dir_def visible_def)

lemma disk_count: "file_get_committed_count example_sha example_dir = Inr 0"
  unfolding file_count_eq [OF disk_dir_good]
  by (simp add: lease_and_dir_def count_of_def example_store_simps)

definition disk_token :: ack_token where
  "disk_token = \<lparr>tok_delivery_id = 1, tok_event_count = 1, tok_epoch = 0\<rparr>"

lemma disk_ack: "\<exists>rt'. commit_ack disk_env (Required disk_token) disk_delivered = (rt', Inr ())"
proof -
  have "snd (file_save example_sha disk_position 1 example_dir) = Inr ()"
    by (simp add: example_store_simps disk_position_def sqlserver_offset_def)
  then obtain fc where sv: "file_save example_sha disk_position (Suc 0) example_dir = (fc, Inr ())"
    by (metis One_nat_def prod.collapse)
  show ?thesis
    by (simp add: disk_delivered_def disk_new_def disk_token_def example_config_simps disk_env_def example_env_def commit_eval
        Let_def sv)
qed

theorem restart_resumes_after_acknowledged_witness:
  "\<exists>rt' rt2 h. commit_ack disk_env (Required disk_token) disk_delivered = (rt', Inr ())
     \<and> start disk_env False (disk_new (rt_checkpoint rt')) = (rt2, Inr ()) \<and> rt_stream rt2 = Some h"
proof -
  obtain rt' where c: "commit_ack disk_env (Required disk_token) disk_delivered = (rt', Inr ())"
    using disk_ack by blast
  have cfg: "rt_config disk_delivered = example_cfg (CfgSqlServer False)" "in_flight disk_delivered = [example_event ''a'']"
    "rt_checkpoint disk_delivered = example_dir" "committed_event_count (rt_commit_barrier disk_delivered) = 0"
    by (simp_all add: disk_delivered_def disk_new_def example_config_simps Let_def in_flight_def)
  have env: "env_save disk_env = file_save example_sha" "env_load disk_env = file_load example_sha (\<lambda>_ _. True)"
    "env_committed_count disk_env = file_get_committed_count example_sha"
    by (simp_all add: disk_env_def example_env_def)
  have "commit_prefix disk_env 1 disk_delivered = (rt', Inr ())"
    using c by (simp add: commit_ack_def disk_token_def disk_delivered_def)
  then have disk': "file_load example_sha (\<lambda>_ _. True) (rt_checkpoint rt') = Inr (Some disk_position)"
    "\<exists>n. file_get_committed_count example_sha (rt_checkpoint rt') = Inr n"
    using acknowledged_on_disk [OF disk_delivered_inv env(1), of "\<lambda>_ _. True" "''sqlserver''" 0 1 rt' disk_position]
      disk_dir_good disk_count disk_position_valid
    by (simp_all add: cfg u64_max_def) (simp_all add: disk_delivered_def)
  obtain rt2 where s: "start disk_env False (disk_new (rt_checkpoint rt')) = (rt2, Inr ())"
    using disk' by (auto simp: start_def disk_new_def example_config_simps Let_def env hydrate_committed_event_count_def
        start_source_def start_position_def source_connect_def start_handles_def source_start_stream_def
        is_snapshot_checkpoint_def disk_position_def sqlserver_offset_def)
      (simp add: disk_env_def example_env_def)
  have new: "runtime_new False (rt_config disk_delivered) (rt_checkpoint rt') [] = Inr (disk_new (rt_checkpoint rt'))"
    unfolding cfg by (rule disk_new_eq)
  have good: "file_good example_sha (\<lambda>_ _. True) ''sqlserver'' (rt_checkpoint disk_delivered)"
    and cnt: "file_get_committed_count example_sha (rt_checkpoint disk_delivered) = Inr 0"
    and le: "0 \<le> committed_event_count (rt_commit_barrier disk_delivered)"
    and cap: "committed_event_count (rt_commit_barrier disk_delivered) + tok_event_count disk_token \<le> u64_max"
    and pos: "0 < tok_event_count disk_token"
    and rows: "list_all (\<lambda>x. ev_snapshot x = None) (take (tok_event_count disk_token) (in_flight disk_delivered))"
    and e: "example_event ''a'' = in_flight disk_delivered ! (tok_event_count disk_token - 1)"
    and valid: "\<And>off. checkpoint_position disk_env (rt_config disk_delivered) (example_event ''a'') off \<Longrightarrow>
      file_valid (\<lambda>_ _. True) ''sqlserver'' off"
    and src: "cfg_source (rt_config disk_delivered) \<noteq> CfgDisabled" "cfg_incremental_snapshot (rt_config disk_delivered) = None"
    unfolding cfg disk_position_event
    by (simp_all add: disk_dir_good disk_count disk_position_valid disk_token_def u64_max_def example_cfg_def)
  from restart_resumes_after_acknowledged [OF disk_delivered_inv env good cnt le cap pos c rows e valid src new s]
  have "\<exists>h. rt_stream rt2 = Some h" by blast
  with c s show ?thesis by blast
qed

end
